(* ===== verification/Prelude.thy ===== *)
theory Prelude
  imports Main "HOL-Library.Word"
begin

text \<open>
  Shared vocabulary of the development: the machine types of the x86-64 build, byte-addressed
  memory with the block reads and writes that \<^verbatim>\<open>memcpy\<close> and struct assignment perform,
  the little-endian layout of a pointer stored in memory, and the alignment arithmetic that
  \<^verbatim>\<open>addr & ~(n-1)\<close> computes for a power of two.  The lemmas of this theory are about
  these notions only; every component theory imports it.
\<close>

unbundle bit_operations_syntax

named_theorems mem_simps \<open>block reads and writes of memory\<close>

type_synonym u8 = "8 word"
type_synonym u32 = "32 word"
type_synonym u64 = "64 word"
type_synonym va = "64 word"
type_synonym mem = "va \<Rightarrow> u8"

section \<open>Byte-addressed memory\<close>

definition mem_read :: "mem \<Rightarrow> va \<Rightarrow> nat \<Rightarrow> u8 list" where
  "mem_read m a n = map (\<lambda>i. m (a + of_nat i)) [0..<n]"

definition mem_write :: "mem \<Rightarrow> va \<Rightarrow> u8 list \<Rightarrow> mem" where
  "mem_write m a bs = (\<lambda>x. if unat (x - a) < length bs then bs ! unat (x - a) else m x)"

definition block :: "va \<Rightarrow> nat \<Rightarrow> va set" where
  "block a n = {x. unat (x - a) < n}"

definition le_bytes :: "nat \<Rightarrow> nat \<Rightarrow> u8 list" where
  "le_bytes k v = map (\<lambda>i. word_of_nat (v div 256 ^ i)) [0..<k]"

primrec le_value :: "u8 list \<Rightarrow> nat" where
  "le_value [] = 0"
| "le_value (b # bs) = unat b + 256 * le_value bs"

definition ptr_bytes :: "va \<Rightarrow> u8 list" where
  "ptr_bytes p = le_bytes 8 (unat p)"

definition bytes_ptr :: "u8 list \<Rightarrow> va" where
  "bytes_ptr bs = word_of_nat (le_value bs)"

definition align_down :: "nat \<Rightarrow> va \<Rightarrow> va" where
  "align_down k a = a AND NOT (mask k)"

lemma block_iff: "x \<in> block a n \<longleftrightarrow> unat (x - a) < n"
  by (simp add: block_def)

lemma length_mem_read [simp]: "length (mem_read m a n) = n"
  by (simp add: mem_read_def)

lemma nth_mem_read [simp]: "i < n \<Longrightarrow> mem_read m a n ! i = m (a + of_nat i)"
  by (simp add: mem_read_def)

lemma mem_write_in [mem_simps]: "x \<in> block a (length bs) \<Longrightarrow> mem_write m a bs x = bs ! unat (x - a)"
  by (simp add: mem_write_def block_iff)

lemma mem_write_out [mem_simps]: "x \<notin> block a (length bs) \<Longrightarrow> mem_write m a bs x = m x"
  by (simp add: mem_write_def block_iff)

lemma mem_write_Nil [simp]: "mem_write m a [] = m"
  by (simp add: mem_write_def)

lemma unat_va_less: "unat (p :: va) < 18446744073709551616"
  using unsigned_less [of p, where ?'a = nat] by simp

lemma unat_of_nat_va [simp]: "i < 18446744073709551616 \<Longrightarrow> unat (word_of_nat i :: va) = i"
  by (simp add: unat_of_nat take_bit_nat_eq_self)

lemma mem_read_write_same [mem_simps]:
  "length bs \<le> 2 ^ 64 \<Longrightarrow> n = length bs \<Longrightarrow> mem_read (mem_write m a bs) a n = bs"
  by (rule nth_equalityI) (auto simp: mem_write_def)

lemma mem_read_cong:
  "(\<And>i. i < n \<Longrightarrow> m (a + of_nat i) = m' (a + of_nat i)) \<Longrightarrow> mem_read m a n = mem_read m' a n"
  by (simp add: mem_read_def)

lemma mem_read_write_disjoint:
  assumes "block a n \<inter> block b (length bs) = {}" and "n \<le> 2 ^ 64"
  shows "mem_read (mem_write m b bs) a n = mem_read m a n"
proof (rule mem_read_cong)
  fix i assume "i < n"
  with assms(2) have "a + of_nat i \<in> block a n" by (simp add: block_iff)
  with assms(1) have "a + of_nat i \<notin> block b (length bs)" by blast
  then show "mem_write m b bs (a + of_nat i) = m (a + of_nat i)" by (rule mem_write_out)
qed

lemma mem_write_read_id: "mem_write m a (mem_read m a n) = m"
  by (rule ext) (simp add: mem_write_def)

lemma block_0 [simp]: "block a 0 = {}"
  by (auto simp: block_iff)

lemma block_self: "0 < n \<Longrightarrow> a \<in> block a n"
  by (simp add: block_iff)

lemma block_mono: "n \<le> k \<Longrightarrow> block a n \<subseteq> block a k"
  by (auto simp: block_iff)

lemma block_nowrap:
  assumes "unat a + n \<le> 18446744073709551616"
  shows "x \<in> block a n \<longleftrightarrow> unat a \<le> unat x \<and> unat x < unat a + n"
  using assms by (auto simp: block_iff unat_sub_if')

lemma block_offset:
  assumes "i + k \<le> 18446744073709551616"
  shows "x \<in> block (d + word_of_nat i) k \<longleftrightarrow> i \<le> unat (x - d) \<and> unat (x - d) < i + k"
proof (cases "k = 0")
  case False
  have e: "x - (d + word_of_nat i) = (x - d) - word_of_nat i" by simp
  have "unat (word_of_nat i :: va) = i" using assms False by simp
  then show ?thesis
    unfolding block_iff e using assms unat_va_less [of "x - d"] by (auto simp: unat_sub_if')
qed simp

lemma block_sub:
  assumes "i + k \<le> N" "N \<le> 18446744073709551616"
  shows "block (d + word_of_nat i) k \<subseteq> block d N"
proof
  fix x assume "x \<in> block (d + word_of_nat i) k"
  moreover have "i + k \<le> 18446744073709551616" using assms by simp
  ultimately have "unat (x - d) < i + k" by (simp only: block_offset)
  with assms show "x \<in> block d N" by (simp add: block_iff)
qed

lemma block_offsets_disjoint:
  assumes "i + k \<le> j" "j + l \<le> 18446744073709551616"
  shows "block (d + word_of_nat i) k \<inter> block (d + word_of_nat j) l = {}"
proof -
  have "i + k \<le> 18446744073709551616" using assms by simp
  from block_offset [OF this] block_offset [OF assms(2)] assms(1) show ?thesis
    by (fastforce simp del: block_iff)
qed

text \<open>Overwriting part of a block and putting the old block back changes nothing.\<close>

lemma mem_write_undo:
  assumes "block a (length bs) \<subseteq> block g n"
  shows "mem_write (mem_write m a bs) g (mem_read m g n) = m"
proof
  fix x
  show "mem_write (mem_write m a bs) g (mem_read m g n) x = m x"
  proof (cases "x \<in> block g n")
    case True
    then have "unat (x - g) < n" by (simp add: block_iff)
    with True show ?thesis by (simp add: mem_write_in)
  next
    case False
    with assms have "x \<notin> block a (length bs)" by blast
    with False show ?thesis by (simp add: mem_write_out)
  qed
qed

lemma mem_write_read_in:
  "x \<in> block g n \<Longrightarrow> mem_write m g (mem_read m' g n) x = m' x"
  by (simp add: mem_write_in block_iff)

lemma mem_read_cong_block:
  assumes "\<And>x. x \<in> block a n \<Longrightarrow> m x = m' x" "n \<le> 18446744073709551616"
  shows "mem_read m a n = mem_read m' a n"
  by (rule mem_read_cong, rule assms(1)) (use assms(2) in \<open>simp add: block_iff\<close>)

section \<open>Pointers stored in memory\<close>

lemma le_value_map:
  "le_value (map (\<lambda>i. word_of_nat (v div 256 ^ i)) [0..<k]) = v mod 256 ^ k"
proof (induction k arbitrary: v)
  case 0
  then show ?case by simp
next
  case (Suc k)
  have shift: "map (\<lambda>i. word_of_nat (v div 256 ^ i) :: u8) [0..<Suc k]
      = word_of_nat v # map (\<lambda>i. word_of_nat (v div 256 div 256 ^ i)) [0..<k]"
    unfolding map_upt_Suc by (simp add: div_mult2_eq)
  have "le_value (map (\<lambda>i. word_of_nat (v div 256 ^ i)) [0..<Suc k])
      = v mod 256 + 256 * (v div 256 mod 256 ^ k)"
    unfolding shift by (simp add: Suc.IH unat_of_nat take_bit_eq_mod)
  also have "\<dots> = v mod 256 ^ Suc k"
    by (simp add: mod_mult2_eq)
  finally show ?case .
qed

lemma length_ptr_bytes [simp]: "length (ptr_bytes p) = 8"
  by (simp add: ptr_bytes_def le_bytes_def)

lemma bytes_ptr_bytes [simp]: "bytes_ptr (ptr_bytes p) = p"
proof -
  have "le_value (ptr_bytes p) = unat p mod 256 ^ 8"
    unfolding ptr_bytes_def le_bytes_def by (rule le_value_map)
  also have "\<dots> = unat p"
    using unat_va_less [of p] by simp
  finally show ?thesis by (simp add: bytes_ptr_def)
qed

section \<open>Alignment\<close>

lemma align_down_shift: "align_down k a = push_bit k (drop_bit k a)"
  unfolding align_down_def by (rule bit_eqI) (auto simp: bit_simps)

lemma align_down_mult_less: "unat (a :: va) div 2 ^ k * 2 ^ k < 18446744073709551616"
  using unat_va_less [of a] by (meson div_times_less_eq_dividend le_less_trans)

lemma unat_align_down: "unat (align_down k a) = unat a div 2 ^ k * 2 ^ k"
proof -
  have "unat (drop_bit k a) = unat a div 2 ^ k"
    by (subst unat_drop_bit_eq) (rule drop_bit_eq_div)
  then have "drop_bit k a = word_of_nat (unat a div 2 ^ k)"
    by (metis word_unat_eq_iff unat_of_nat_va unat_va_less)
  then have "push_bit k (drop_bit k a) = (word_of_nat (unat a div 2 ^ k * 2 ^ k) :: va)"
    by (simp add: push_bit_eq_mult)
  then show ?thesis
    using align_down_mult_less [of a k] by (simp only: align_down_shift unat_of_nat_va)
qed

lemma align_down_le: "unat (align_down k a) \<le> unat a"
  by (simp add: unat_align_down)

lemma align_down_idem [simp]: "align_down k (align_down k a) = align_down k a"
  by (rule unsigned_word_eqI [where ?'a = nat]) (simp add: unat_align_down)

lemma block_align_iff:
  assumes "k \<le> 64"
  shows "x \<in> block (align_down k a) (2 ^ k) \<longleftrightarrow> align_down k x = align_down k a"
proof -
  let ?n = "2 ^ k :: nat"
  let ?A = "unat a div ?n * ?n"
  have A: "unat (align_down k a) = ?A" by (rule unat_align_down)
  have "?n dvd 2 ^ 64" using assms by (rule le_imp_power_dvd)
  then obtain q where q: "2 ^ 64 = ?n * q" by (elim dvdE)
  have "unat a div ?n < q"
    using unat_va_less [of a] q by (simp add: less_mult_imp_div_less mult.commute)
  then have "Suc (unat a div ?n) * ?n \<le> q * ?n" by (intro mult_le_mono1) simp
  then have top: "?A + ?n \<le> 18446744073709551616" using q by (simp add: mult.commute)
  have "x \<in> block (align_down k a) ?n \<longleftrightarrow> ?A \<le> unat x \<and> unat x < ?A + ?n"
    using top by (auto simp: block_iff unat_sub_if' A)
  also have "\<dots> \<longleftrightarrow> unat x div ?n = unat a div ?n"
    by (metis add.commute div_nat_eqI dividend_less_times_div div_times_less_eq_dividend
        mult.commute mult_Suc_right zero_less_power zero_less_numeral)
  also have "\<dots> \<longleftrightarrow> align_down k x = align_down k a"
    by (auto simp: unat_align_down dest: arg_cong [where f = unat]
        intro: unsigned_word_eqI [where ?'a = nat])
  finally show ?thesis .
qed

lemma block_align_self: "k \<le> 64 \<Longrightarrow> a \<in> block (align_down k a) (2 ^ k)"
  by (simp only: block_align_iff)

lemma unat_align8: "unat (align_down 3 a) = 8 * (unat a div 8)"
  using unat_align_down [of 3 a] by simp

lemma align8_iff: "align_down 3 a = a \<longleftrightarrow> 8 dvd unat a"
proof
  assume "align_down 3 a = a"
  then have "unat a = 8 * (unat a div 8)" using unat_align8 [of a] by simp
  then show "8 dvd unat a" by (rule dvdI)
next
  assume "8 dvd unat a"
  then show "align_down 3 a = a"
    by (simp add: unat_align8 word_unat_eq_iff)
qed

lemma granule_iff: "x \<in> block (align_down 3 a) 8 \<longleftrightarrow> align_down 3 x = align_down 3 a"
  using block_align_iff [of 3 x a] by simp

lemma granule_top: "unat (align_down 3 a) + 8 \<le> 18446744073709551616"
  using unat_va_less [of a] by (simp add: unat_align8)

text \<open>A region that starts and ends on granule boundaries holds a byte and its granule together.\<close>

lemma align8_region:
  assumes "8 dvd unat p" "8 dvd n" "unat p + n \<le> 18446744073709551616"
  shows "align_down 3 x \<in> block p n \<longleftrightarrow> x \<in> block p n"
proof -
  obtain a b where ab: "unat p = 8 * a" "n = 8 * b" using assms by (elim dvdE)
  have "8 * a \<le> 8 * (unat x div 8) \<longleftrightarrow> 8 * a \<le> unat x"
    using less_eq_div_iff_mult_less_eq [of 8 a "unat x"] by (simp add: mult.commute)
  moreover have "8 * (unat x div 8) < 8 * (a + b) \<longleftrightarrow> unat x < 8 * (a + b)"
    unfolding nat_mult_less_cancel_disj
    using div_less_iff_less_mult [of 8 "unat x" "a + b"] by (simp add: mult.commute)
  ultimately show ?thesis
    unfolding block_nowrap [OF assms(3)] by (simp only: unat_align8 ab distrib_left)
qed

lemma align8_region_disjoint:
  assumes "8 dvd unat p" "8 dvd n" "unat p + n \<le> 18446744073709551616"
    and "align_down 3 g = g" "g \<notin> block p n"
  shows "block g 8 \<inter> block p n = {}"
proof (rule ccontr)
  assume "block g 8 \<inter> block p n \<noteq> {}"
  then obtain x where x: "x \<in> block g 8" "x \<in> block p n" by blast
  with granule_iff [of x g] assms(4) have "align_down 3 x = g" by simp
  with x(2) align8_region [OF assms(1-3), of x] assms(5) show False by simp
qed

end
