(* ===== verification/Env.thy ===== *)
theory Env
  imports Prelude
begin

text \<open>
  The environment helpers of \<open>include/common/util/env.h\<close> and the decimal and
  hexadecimal printers of \<open>static/ltckpt/ltckpt_debug.c\<close>.

  A C string is a character list, the process environment a map from names to
  values.  \<open>strtol\<close> with base 0 is the C library's: blanks, a sign, a radix
  prefix, digits, saturation at the ends of \<open>long\<close>; it returns the value and
  what is left of the string, and the caller's comparison of the end pointer
  with the start becomes a comparison of the rest with the whole string.
\<close>

section \<open>The C library's strtol\<close>

definition is_space :: "char \<Rightarrow> bool" where
  "is_space c \<longleftrightarrow> of_char c \<in> {32 :: nat, 9, 10, 11, 12, 13}"

definition digit_val :: "char \<Rightarrow> nat option" where
  "digit_val c = (let k = of_char c :: nat in
     if 48 \<le> k \<and> k \<le> 57 then Some (k - 48)
     else if 97 \<le> k \<and> k \<le> 122 then Some (k - 87)
     else if 65 \<le> k \<and> k \<le> 90 then Some (k - 55)
     else None)"

definition digit_in :: "nat \<Rightarrow> char \<Rightarrow> bool" where
  "digit_in b c = (case digit_val c of None \<Rightarrow> False | Some d \<Rightarrow> d < b)"

fun digits_val :: "nat \<Rightarrow> nat \<Rightarrow> string \<Rightarrow> nat \<times> string" where
  "digits_val b acc [] = (acc, [])"
| "digits_val b acc (c # cs) =
     (if digit_in b c then digits_val b (acc * b + the (digit_val c)) cs else (acc, c # cs))"

definition long_max :: int where
  "long_max = 2 ^ 63 - 1"

definition long_min :: int where
  "long_min = - (2 ^ 63)"

definition strtol_sign :: "string \<Rightarrow> bool \<times> string" where
  "strtol_sign cs = (case cs of
     c # r \<Rightarrow> if c = CHR ''-'' then (True, r) else if c = CHR ''+'' then (False, r) else (False, cs)
   | [] \<Rightarrow> (False, []))"

definition strtol_radix :: "string \<Rightarrow> nat \<times> string" where
  "strtol_radix cs = (case cs of
     c0 # c1 # c2 # r \<Rightarrow>
       if c0 = CHR ''0'' \<and> (c1 = CHR ''x'' \<or> c1 = CHR ''X'') \<and> digit_in 16 c2 then (16, c2 # r)
       else if c0 = CHR ''0'' then (8, cs) else (10, cs)
   | c0 # r \<Rightarrow> if c0 = CHR ''0'' then (8, cs) else (10, cs)
   | [] \<Rightarrow> (10, []))"

definition strtol0 :: "string \<Rightarrow> int \<times> string" where
  "strtol0 s = (let (neg, body) = strtol_sign (dropWhile is_space s);
                    (b, ds) = strtol_radix body;
                    (n, rest) = digits_val b 0 ds
                in if rest = ds then (0, s)
                   else (max long_min (min long_max (if neg then - int n else int n)), rest))"

text \<open>\<open>strtoul\<close> saturates at the largest value and negates modulo \<open>2 ^ 64\<close> after a minus sign.\<close>

definition strtoul0 :: "string \<Rightarrow> u64" where
  "strtoul0 s = (let (neg, body) = strtol_sign (dropWhile is_space s);
                    (b, ds) = strtol_radix body;
                    (n, rest) = digits_val b 0 ds
                in if rest = ds then 0
                   else if n \<ge> 2 ^ 64 then - 1
                   else if neg then - word_of_nat n else word_of_nat n)"

text \<open>\<open>strsep\<close> with the delimiter \<open>,\<close> called until it returns NULL yields the fields in order.\<close>

fun split_commas :: "string \<Rightarrow> string list" where
  "split_commas [] = [[]]"
| "split_commas (c # cs) =
     (if c = CHR '','' then [] # split_commas cs
      else case split_commas cs of f # fs \<Rightarrow> (c # f) # fs | [] \<Rightarrow> [[c]])"

section \<open>env.h\<close>

type_synonym environ = "string \<Rightarrow> string option"

definition to_cint :: "int \<Rightarrow> int" where
  "to_cint i = signed_take_bit 31 i"

definition util_env_parse_int :: "environ \<Rightarrow> string \<Rightarrow> int \<Rightarrow> int" where
  "util_env_parse_int env name dflt = (case env name of
     None \<Rightarrow> dflt
   | Some str \<Rightarrow> (let (v, tail) = strtol0 str; env_value = to_cint v in
       if env_value = 0 \<and> str = tail then dflt else env_value))"

definition util_env_parse_str :: "environ \<Rightarrow> string \<Rightarrow> string \<Rightarrow> string" where
  "util_env_parse_str env name dflt = (case env name of None \<Rightarrow> dflt | Some str \<Rightarrow> str)"

section \<open>ltckpt_debug.c: number printers\<close>

text \<open>The printers emit characters one by one; the model returns what they emit.\<close>

fun lt_kputn :: "nat \<Rightarrow> string" where
  "lt_kputn n = (if n \<ge> 10 then lt_kputn (n div 10) else []) @ [char_of (48 + n mod 10)]"

fun lt_kputx_digits :: "nat \<Rightarrow> string" where
  "lt_kputx_digits n = (if n \<ge> 16 then lt_kputx_digits (n div 16) else [])
                 @ [''0123456789abcdef'' ! (n mod 16)]"

definition lt_kputx :: "nat \<Rightarrow> string" where
  "lt_kputx n = CHR ''0'' # CHR ''x'' # lt_kputx_digits n"

declare lt_kputn.simps [simp del] lt_kputx_digits.simps [simp del]

datatype lt_arg = ArgN nat | ArgS string

fun skip_longs :: "string \<Rightarrow> string" where
  "skip_longs (c # cs) = (if c = CHR ''l'' then skip_longs cs else c # cs)"
| "skip_longs [] = []"

lemma length_skip_longs: "skip_longs cs = d # r \<Longrightarrow> length r < Suc (length cs)"
  by (induction cs) (auto split: if_splits)

text \<open>
  \<open>lt_printf\<close> consumes one argument per directive.  An argument of the wrong
  sort, a missing one, and a format that ends inside a directive (the C code
  then reads past the terminator) are None.
\<close>

function lt_printf :: "string \<Rightarrow> lt_arg list \<Rightarrow> string option" where
  "lt_printf [] as = Some []"
| "lt_printf (c # fmt) as =
     (if c \<noteq> CHR ''%'' then map_option ((#) c) (lt_printf fmt as)
      else case skip_longs fmt of
        [] \<Rightarrow> None
      | d # fmt' \<Rightarrow>
          if d = CHR ''u'' \<or> d = CHR ''d'' then
            (case as of ArgN n # as' \<Rightarrow> map_option ((@) (lt_kputn n)) (lt_printf fmt' as') | _ \<Rightarrow> None)
          else if d = CHR ''x'' then
            (case as of ArgN n # as' \<Rightarrow> map_option ((@) (lt_kputx n)) (lt_printf fmt' as') | _ \<Rightarrow> None)
          else if d = CHR ''s'' then
            (case as of ArgS s # as' \<Rightarrow> map_option ((@) s) (lt_printf fmt' as') | _ \<Rightarrow> None)
          else lt_printf fmt' as)"
  by pat_completeness auto
termination
  by (relation "measure (length \<circ> fst)") (auto dest: length_skip_longs)

section \<open>Properties of the parser and the printers\<close>

lemma digit_val_dec: "d < 10 \<Longrightarrow> digit_val (char_of (48 + d)) = Some d"
  by (simp add: digit_val_def)

lemma digits_val_append:
  assumes "\<forall>c \<in> set ds. digit_in b c"
  shows "digits_val b acc (ds @ r) = digits_val b (fst (digits_val b acc ds)) r"
  using assms by (induction ds arbitrary: acc) auto

lemma digits_val_all:
  "\<forall>c \<in> set ds. digit_in b c \<Longrightarrow> digits_val b acc ds = (fst (digits_val b acc ds), [])"
  using digits_val_append [of ds b acc "[]"] by simp

lemma lt_kputn_digits: "c \<in> set (lt_kputn n) \<Longrightarrow> digit_in 10 c"
proof (induction n rule: lt_kputn.induct)
  case (1 n)
  then show ?case
    by (subst (asm) (2) lt_kputn.simps)
      (auto simp: digit_in_def digit_val_dec split: if_splits)
qed

lemma lt_kputn_value: "fst (digits_val 10 0 (lt_kputn n)) = n"
proof (induction n rule: lt_kputn.induct)
  case (1 n)
  have last: "digits_val 10 a [char_of (48 + n mod 10)] = (a * 10 + n mod 10, [])" for a
    by (simp add: digit_in_def digit_val_dec)
  show ?case
  proof (cases "n \<ge> 10")
    case True
    have ds: "\<forall>c \<in> set (lt_kputn (n div 10)). digit_in 10 c" by (simp add: lt_kputn_digits)
    show ?thesis
      using True
      by (subst lt_kputn.simps) (simp add: digits_val_append [OF ds] last 1 [OF True] del: digits_val.simps)
  next
    case False
    then show ?thesis
      using last [of 0] by (subst lt_kputn.simps) (simp del: digits_val.simps)
  qed
qed

lemma lt_kputn_hd: "\<exists>(d :: nat) cs. lt_kputn n = char_of (48 + d) # cs \<and> d < 10 \<and> (0 < n \<longrightarrow> 0 < d)"
proof (induction n rule: lt_kputn.induct)
  case (1 n)
  show ?case
  proof (cases "n \<ge> 10")
    case True
    then obtain d :: nat and cs where "lt_kputn (n div 10) = char_of (48 + d) # cs" "d < 10" "0 < d"
      using 1 by (metis div_greater_zero_iff zero_less_numeral)
    moreover have "lt_kputn n = lt_kputn (n div 10) @ [char_of (48 + n mod 10)]"
      using True by (subst lt_kputn.simps) simp
    ultimately show ?thesis by (metis append_Cons)
  next
    case False
    then show ?thesis by (subst lt_kputn.simps) (rule exI [of _ n], simp)
  qed
qed

lemma dec_char:
  assumes "d < (10 :: nat)"
  shows "\<not> is_space (char_of (48 + d))" "char_of (48 + d) \<noteq> CHR ''-''" "char_of (48 + d) \<noteq> CHR ''+''"
    and "char_of (48 + d) = CHR ''0'' \<longleftrightarrow> d = 0"
proof -
  have k: "of_char (char_of (48 + d) :: char) = 48 + d" using assms by simp
  show "\<not> is_space (char_of (48 + d))" using k assms by (auto simp: is_space_def)
  show "char_of (48 + d) \<noteq> CHR ''-''" "char_of (48 + d) \<noteq> CHR ''+''"
    using k by (auto dest: arg_cong [where f = "of_char :: char \<Rightarrow> nat"])
  show "char_of (48 + d) = CHR ''0'' \<longleftrightarrow> d = 0"
    using k by (auto dest: arg_cong [where f = "of_char :: char \<Rightarrow> nat"]) code_simp
qed

lemma strtol_radix_nonzero: "c \<noteq> CHR ''0'' \<Longrightarrow> strtol_radix (c # cs) = (10, c # cs)"
  by (simp add: strtol_radix_def split: list.splits)

lemma strtol0_lt_kputn:
  assumes "int n \<le> long_max"
  shows "strtol0 (lt_kputn n) = (int n, [])"
proof -
  obtain d :: nat and cs where k: "lt_kputn n = char_of (48 + d) # cs" and d: "d < 10" "0 < n \<longrightarrow> 0 < d"
    using lt_kputn_hd by blast
  have sign: "strtol_sign (dropWhile is_space (lt_kputn n)) = (False, lt_kputn n)"
    using dec_char [OF d(1)] by (simp add: k strtol_sign_def)
  show ?thesis
  proof (cases "n = 0")
    case True
    have "strtol0 (lt_kputn 0) = (0, [])" by code_simp
    then show ?thesis using True by simp
  next
    case False
    then have "strtol_radix (lt_kputn n) = (10, lt_kputn n)"
      using dec_char(4) [OF d(1)] d k by (simp add: strtol_radix_nonzero)
    moreover have "digits_val 10 0 (lt_kputn n) = (n, [])"
      using digits_val_all [of "lt_kputn n" 10 0] by (simp add: lt_kputn_digits lt_kputn_value)
    moreover have "lt_kputn n \<noteq> []" by (simp add: k)
    ultimately show ?thesis
      using assms by (simp add: strtol0_def sign long_min_def long_max_def)
  qed
qed

lemma to_cint_id: "- (2 ^ 31) \<le> i \<Longrightarrow> i < 2 ^ 31 \<Longrightarrow> to_cint i = i"
  by (simp add: to_cint_def signed_take_bit_int_eq_self)

lemma env_int_roundtrip:
  assumes "env name = Some (lt_kputn n)" and "n < 2 ^ 31"
  shows "util_env_parse_int env name dflt = int n"
proof -
  have "lt_kputn n \<noteq> []" using lt_kputn_hd [of n] by auto
  moreover have "strtol0 (lt_kputn n) = (int n, [])"
    using assms(2) by (intro strtol0_lt_kputn) (simp add: long_max_def)
  ultimately show ?thesis
    using assms by (simp add: util_env_parse_int_def to_cint_id)
qed

lemma env_int_default:
  "env name = None \<or> env name = Some [] \<Longrightarrow> util_env_parse_int env name dflt = dflt"
  by (auto simp: util_env_parse_int_def strtol0_def strtol_sign_def strtol_radix_def to_cint_def)

lemma strtoul0_lt_kputn:
  assumes "n < 2 ^ 32"
  shows "strtoul0 (lt_kputn n) = word_of_nat n"
proof -
  have "int n \<le> long_max" using assms by (simp add: long_max_def)
  note st = strtol0_lt_kputn [OF this]
  have ne: "lt_kputn n \<noteq> []" using lt_kputn_hd [of n] by auto
  obtain neg body b ds v rest where p: "strtol_sign (dropWhile is_space (lt_kputn n)) = (neg, body)"
    "strtol_radix body = (b, ds)" "digits_val b 0 ds = (v, rest)" by (metis surj_pair)
  have *: "rest \<noteq> ds" "(if neg then - int v else int v) = int n"
    using st ne p assms
    by (auto simp: strtol0_def long_max_def long_min_def min_def max_def split: if_splits)
  then have "v = n \<and> (\<not> neg \<or> n = 0)" by (auto split: if_splits)
  then show ?thesis using p * assms by (auto simp: strtoul0_def)
qed

lemma split_commas_ne: "split_commas s \<noteq> []"
  by (induction s) (auto split: list.splits)

lemma split_commas_no_comma: "CHR '','' \<notin> set f \<Longrightarrow> split_commas f = [f]"
  by (induction f) auto

lemma split_commas_append:
  "CHR '','' \<notin> set f \<Longrightarrow> split_commas (f @ CHR '','' # r) = f # split_commas r"
  by (induction f) (auto split: list.splits)

end
