(* ===== verification/Ckpt_Ctx.thy ===== *)
theory Ckpt_Ctx
  imports Env
begin

text \<open>
  The checkpointing context and the parts every mechanism shares:
  \<open>ltckpt_ctx.h\<close>/\<open>ltckpt_ctx.c\<close> (the counters and the macros that decide
  whether an iteration of the main loop takes a checkpoint), the mechanism table
  and the start-up and restart entry points of \<open>ltckpt_common.c\<close>, and its
  wrappers for \<open>mmap\<close> and \<open>mprotect\<close>.

  A C \<open>int\<close> is an \<open>int\<close>, an \<open>unsigned long\<close> a 64-bit word.  The system calls
  are arguments of the definitions that make them; they take and return a state
  of the operating system.
\<close>

section \<open>ltckpt_ctx.h\<close>

record ltckpt_ctx =
  lazy_init :: int
  skip_mmap :: int
  initialized :: int
  atexit_dump :: int
  exited :: int
  allow_prctl :: int
  checkpoint_interval :: int
  pgfault_nesting_level :: int
  page_statistic_enabled :: int
  approach :: string
  errors :: u64
  num_cows :: u64
  num_tols :: u64
  num_checkpoints :: u64
  max_log_size :: u64
  num_aop_funcs :: u64
  num_aop_tols :: u64

text \<open>
  \<open>CTX_NEW_TOL_OR_RETURN\<close> returns from the enclosing hook or falls through: the
  Boolean is True when it falls through.  The \<open>int\<close> interval is converted to
  \<open>unsigned long\<close> for the remainder.
\<close>

definition ctx_new_tol_or_return :: "ltckpt_ctx \<Rightarrow> bool \<times> ltckpt_ctx" where
  "ctx_new_tol_or_return c =
     (if checkpoint_interval c = 0 \<or> num_tols c mod word_of_int (checkpoint_interval c) > 0
      then (False, c\<lparr>num_tols := num_tols c + 1\<rparr>)
      else (True, c\<lparr>num_tols := num_tols c + 1\<rparr>))"

definition ctx_new_checkpoint :: "ltckpt_ctx \<Rightarrow> ltckpt_ctx" where
  "ctx_new_checkpoint c = c\<lparr>num_checkpoints := num_checkpoints c + 1\<rparr>"

definition ctx_new_log_size :: "u64 \<Rightarrow> ltckpt_ctx \<Rightarrow> ltckpt_ctx" where
  "ctx_new_log_size ls c = (if ls > max_log_size c then c\<lparr>max_log_size := ls\<rparr> else c)"

section \<open>ltckpt_ctx.c\<close>

definition ltckpt_ctx_clear_default :: "ltckpt_ctx \<Rightarrow> ltckpt_ctx" where
  "ltckpt_ctx_clear_default c =
     c\<lparr>errors := 0, num_cows := 0, num_checkpoints := 0, num_aop_funcs := 0, num_aop_tols := 0\<rparr>"

definition ltckpt_ctx_clear :: "(ltckpt_ctx \<Rightarrow> ltckpt_ctx) option \<Rightarrow> ltckpt_ctx \<Rightarrow> ltckpt_ctx" where
  "ltckpt_ctx_clear ctx_clear_hook c =
     (case ctx_clear_hook of Some h \<Rightarrow> h c | None \<Rightarrow> ltckpt_ctx_clear_default c)"

text \<open>\<open>ltckpt_ctx_init\<close> on x86-64: \<open>prctl\<close> is off unless the environment asks for it.\<close>

definition ltckpt_ctx_init :: "environ \<Rightarrow> string \<Rightarrow> ltckpt_ctx \<Rightarrow> ltckpt_ctx" where
  "ltckpt_ctx_init env conf_name c = c\<lparr>
     lazy_init := util_env_parse_int env ''CP_LINIT'' 1,
     skip_mmap := util_env_parse_int env ''CP_NOMMAP'' 1,
     atexit_dump := util_env_parse_int env ''ATEXIT_DUMP'' 0,
     allow_prctl := util_env_parse_int env ''CP_PRCTL'' 0,
     checkpoint_interval := util_env_parse_int env ''CP_INTERVAL'' 1,
     page_statistic_enabled := util_env_parse_int env ''PAGESTAT'' 0,
     approach := conf_name\<rparr>"

section \<open>ltckpt_common.c: mapping memory\<close>

type_synonym 'w mmap_call = "va \<Rightarrow> u64 \<Rightarrow> u32 \<Rightarrow> u32 \<Rightarrow> 'w \<Rightarrow> va \<times> 'w"
type_synonym 'w munmap_call = "va \<Rightarrow> u64 \<Rightarrow> 'w \<Rightarrow> int \<times> 'w"
type_synonym 'w mprotect_call = "va \<Rightarrow> u64 \<Rightarrow> u32 \<Rightarrow> 'w \<Rightarrow> int \<times> 'w"

abbreviation (input) "PAGE_SIZE \<equiv> 4096 :: u64"
abbreviation (input) "MAP_FAILED \<equiv> - 1 :: va"
abbreviation (input) "LTCKPT_MAP_FAILED \<equiv> - 1 :: va"
abbreviation (input) "LTCKPT_MAP_FIXED \<equiv> 1 :: u32"
abbreviation (input) "LTCKPT_MAP_PRIVATE \<equiv> 2 :: u32"
abbreviation (input) "LTCKPT_MAP_NORESERVE \<equiv> 4 :: u32"
abbreviation (input) "LTCKPT_MAP_STACK \<equiv> 8 :: u32"
abbreviation (input) "LTCKPT_MAP_POPULATE \<equiv> 16 :: u32"
abbreviation (input) "LTCKPT_PROT_N \<equiv> 0 :: u32"
abbreviation (input) "LTCKPT_PROT_R \<equiv> 1 :: u32"
abbreviation (input) "LTCKPT_PROT_W \<equiv> 2 :: u32"
abbreviation (input) "LTCKPT_PROT_X \<equiv> 4 :: u32"

text \<open>The values of the Linux x86-64 headers.\<close>

abbreviation (input) "MAP_PRIVATE \<equiv> 0x2 :: u32"
abbreviation (input) "MAP_FIXED \<equiv> 0x10 :: u32"
abbreviation (input) "MAP_ANONYMOUS \<equiv> 0x20 :: u32"
abbreviation (input) "MAP_NORESERVE \<equiv> 0x4000 :: u32"
abbreviation (input) "MAP_POPULATE \<equiv> 0x8000 :: u32"
abbreviation (input) "MAP_STACK \<equiv> 0x20000 :: u32"
abbreviation (input) "PROT_NONE \<equiv> 0 :: u32"
abbreviation (input) "PROT_READ \<equiv> 1 :: u32"
abbreviation (input) "PROT_WRITE \<equiv> 2 :: u32"
abbreviation (input) "PROT_EXEC \<equiv> 4 :: u32"

definition mmap_prot_of :: "u32 \<Rightarrow> u32" where
  "mmap_prot_of prot =
     (let p = 0;
          p = (if prot AND LTCKPT_PROT_R \<noteq> 0 then p OR PROT_READ else p);
          p = (if prot AND LTCKPT_PROT_W \<noteq> 0 then p OR PROT_WRITE else p)
      in if prot AND LTCKPT_PROT_X \<noteq> 0 then p OR PROT_EXEC else p)"

definition mmap_flags_of :: "u32 \<Rightarrow> u32" where
  "mmap_flags_of flags =
     (let f = 0;
          f = (if flags AND LTCKPT_MAP_FIXED \<noteq> 0 then f OR MAP_FIXED else f);
          f = (if flags AND LTCKPT_MAP_POPULATE \<noteq> 0 then f OR MAP_POPULATE else f);
          f = (if flags AND LTCKPT_MAP_PRIVATE \<noteq> 0 then f OR MAP_PRIVATE else f);
          f = (if flags AND LTCKPT_MAP_NORESERVE \<noteq> 0 then f OR MAP_NORESERVE else f);
          f = (if flags AND LTCKPT_MAP_STACK \<noteq> 0 then f OR MAP_STACK else f)
      in f OR MAP_ANONYMOUS)"

definition ltckpt_mmap :: "'w mmap_call \<Rightarrow> va \<Rightarrow> u64 \<Rightarrow> u32 \<Rightarrow> u32 \<Rightarrow> 'w \<Rightarrow> va \<times> 'w" where
  "ltckpt_mmap mmap addr sz prot flags w =
     (let (mmap_ret, w) = mmap addr sz (mmap_prot_of prot) (mmap_flags_of flags) w
      in if mmap_ret = MAP_FAILED then (LTCKPT_MAP_FAILED, w) else (mmap_ret, w))"

definition ltckpt_munmap :: "'w munmap_call \<Rightarrow> va \<Rightarrow> u64 \<Rightarrow> 'w \<Rightarrow> int \<times> 'w" where
  "ltckpt_munmap munmap start sz w = munmap start sz w"

definition ltckpt_mprotect :: "'w mprotect_call \<Rightarrow> va \<Rightarrow> u64 \<Rightarrow> u32 \<Rightarrow> 'w \<Rightarrow> int \<times> 'w" where
  "ltckpt_mprotect mprotect start sz prot w = mprotect start sz (mmap_prot_of prot) w"

definition ltckpt_is_mapped :: "'w mmap_call \<Rightarrow> 'w munmap_call \<Rightarrow> va \<Rightarrow> 'w \<Rightarrow> bool \<times> 'w" where
  "ltckpt_is_mapped mmap munmap addr w =
     (let (ret, w) = ltckpt_mmap mmap addr 4096 (PROT_WRITE OR PROT_READ)
                       (LTCKPT_MAP_PRIVATE OR LTCKPT_MAP_NORESERVE) w;
          is_mapped = (ret \<noteq> addr);
          w = (if ret \<noteq> LTCKPT_MAP_FAILED then snd (ltckpt_munmap munmap ret 4096 w) else w)
      in (is_mapped, w))"

text \<open>
  \<open>ltkcpt_ctx_get_buff\<close>: one chunk for the context with a guard page on either
  side.  \<open>MAP_ANON\<close> is \<open>MAP_ANONYMOUS\<close>; None is the NULL it returns on failure.
\<close>

definition ltkcpt_ctx_get_buff :: "'w mmap_call \<Rightarrow> va \<Rightarrow> u64 \<Rightarrow> 'w \<Rightarrow> va option \<times> 'w" where
  "ltkcpt_ctx_get_buff mmap addr len w =
     (let flags = MAP_PRIVATE OR MAP_ANONYMOUS;
          flags = (if addr \<noteq> 0 then flags OR MAP_FIXED else flags);
          len = (if len mod PAGE_SIZE \<noteq> 0 then len - len mod PAGE_SIZE + PAGE_SIZE else len);
          (buff, w) = mmap addr (len + 2 * PAGE_SIZE) (PROT_READ OR PROT_WRITE) flags w
      in if buff = MAP_FAILED then (None, w)
         else let (_, w) = mmap buff PAGE_SIZE PROT_NONE (MAP_PRIVATE OR MAP_ANONYMOUS OR MAP_FIXED) w;
                  buff = buff + PAGE_SIZE;
                  (_, w) = mmap (buff + len) PAGE_SIZE PROT_NONE
                             (MAP_PRIVATE OR MAP_ANONYMOUS OR MAP_FIXED) w
              in (Some buff, w))"

section \<open>ltckpt_common.c: the mechanism table, start-up and restart\<close>

text \<open>
  A mechanism is its name and the hooks the static library calls; hooks a
  mechanism does not define are weak symbols, hence NULL.  \<open>'s\<close> is the state of
  the process the hooks change.
\<close>

record 's ltckpt_checkpoint_conf =
  conf_name :: string
  late_init_hook :: "('s \<Rightarrow> 's) option"
  restart_hook :: "('s \<Rightarrow> int \<times> 's) option"

definition conf_names :: "string list" where
  "conf_names = [''baseline'', ''bitmap'', ''fork'', ''undolog'', ''smmap'', ''softdirty'',
                 ''mprotect'', ''dune'']"

primrec find_conf :: "string \<Rightarrow> 's ltckpt_checkpoint_conf list \<Rightarrow> 's ltckpt_checkpoint_conf option" where
  "find_conf name [] = None"
| "find_conf name (k # ks) = (if conf_name k = name then Some k else find_conf name ks)"

text \<open>
  The selected configuration is a pointer, NULL until the first selection.  An
  unknown name leaves the pointer alone, and the assertion fails when it is still
  NULL: None is that failure.
\<close>

definition ltckpt_conf_setup_from_hook ::
    "'s ltckpt_checkpoint_conf list \<Rightarrow> string \<Rightarrow> 's ltckpt_checkpoint_conf option
     \<Rightarrow> 's ltckpt_checkpoint_conf option" where
  "ltckpt_conf_setup_from_hook confs name cur =
     (case find_conf name confs of Some k \<Rightarrow> Some k | None \<Rightarrow> cur)"

definition ltckpt_conf_setup ::
    "'s ltckpt_checkpoint_conf list \<Rightarrow> 's ltckpt_checkpoint_conf option
     \<Rightarrow> 's ltckpt_checkpoint_conf option" where
  "ltckpt_conf_setup confs cur =
     (if Option.is_none cur then ltckpt_conf_setup_from_hook confs ''baseline'' cur else cur)"

definition ltckpt_mechanism_enabled :: "'s ltckpt_checkpoint_conf option \<Rightarrow> bool" where
  "ltckpt_mechanism_enabled cur = (case cur of None \<Rightarrow> False | Some k \<Rightarrow> conf_name k \<noteq> ''baseline'')"

record 's common_state =
  early_init_done :: bool
  inside_trusted_compute_base :: bool
  cs_ctx :: ltckpt_ctx
  cs_conf :: "'s ltckpt_checkpoint_conf option"
  cs_mech :: 's

text \<open>\<open>ltckpt_ctx_init\<close> reads the name of the selected mechanism: with no mechanism
  selected that is a NULL dereference, None.\<close>

definition ltckpt_common_early_init :: "environ \<Rightarrow> 's common_state \<Rightarrow> 's common_state option" where
  "ltckpt_common_early_init env s =
     (if \<not> early_init_done s
      then (case cs_conf s of
              None \<Rightarrow> None
            | Some k \<Rightarrow> Some (s\<lparr>cs_ctx := ltckpt_ctx_init env (conf_name k) (cs_ctx s),
                               early_init_done := True\<rparr>))
      else Some s)"

definition ltckpt_common_late_init ::
    "'s ltckpt_checkpoint_conf list \<Rightarrow> environ \<Rightarrow> 's common_state \<Rightarrow> 's common_state option" where
  "ltckpt_common_late_init confs env s =
     (case ltckpt_conf_setup confs (cs_conf s) of
        None \<Rightarrow> None
      | Some k \<Rightarrow>
          (case ltckpt_common_early_init env (s\<lparr>cs_conf := Some k\<rparr>) of
             None \<Rightarrow> None
           | Some s \<Rightarrow> Some (case late_init_hook k of
                               Some h \<Rightarrow> s\<lparr>cs_mech := h (cs_mech s)\<rparr>
                             | None \<Rightarrow> s)))"

abbreviation (input) "ENOENT \<equiv> 2 :: int"

definition ltckpt_restart :: "'s common_state \<Rightarrow> (int \<times> 's common_state) option" where
  "ltckpt_restart s =
     (let s = s\<lparr>inside_trusted_compute_base := True\<rparr>
      in case cs_conf s of
           None \<Rightarrow> None
         | Some k \<Rightarrow>
             (case restart_hook k of
                Some h \<Rightarrow> (let (r, m) = h (cs_mech s) in Some (r, s\<lparr>cs_mech := m\<rparr>))
              | None \<Rightarrow> Some (ENOENT, s)))"

section \<open>Lemmas\<close>

text \<open>How many of the next \<open>n\<close> iterations take a checkpoint.\<close>

primrec tol_count :: "nat \<Rightarrow> ltckpt_ctx \<Rightarrow> nat" where
  "tol_count 0 c = 0"
| "tol_count (Suc n) c =
     (case ctx_new_tol_or_return c of (go, c') \<Rightarrow> (if go then 1 else 0) + tol_count n c')"

lemma ceil_div_step:
  assumes "0 < k"
  shows "(t + k) div k = (if k dvd t then 1 else 0) + (t + k - 1) div (k :: nat)"
proof (cases "k dvd t")
  case True
  then obtain q where q: "t = k * q" by auto
  have "(k * q + k - 1) div k = q"
    using assms by (intro div_nat_eqI) (auto simp: algebra_simps)
  then show ?thesis using assms q by simp
next
  case False
  then have r: "0 < t mod k" by (simp add: mod_greater_zero_iff_not_dvd)
  have "t + k = Suc (t + k - 1)" using assms by simp
  moreover have "Suc (t + k - 1) mod k \<noteq> 0" using r assms by simp
  ultimately have "(t + k) div k = (t + k - 1) div k"
    by (metis div_Suc)
  then show ?thesis using False by simp
qed

lemma unat_word_of_int_nat: "0 \<le> i \<Longrightarrow> i < 2 ^ 64 \<Longrightarrow> unat (word_of_int i :: u64) = nat i"
  by (simp add: unat_eq_nat_uint uint_word_of_int_eq take_bit_int_eq_self)

lemma ctx_new_tol_go:
  assumes "0 < checkpoint_interval c" "checkpoint_interval c < 2 ^ 31"
  shows "fst (ctx_new_tol_or_return c) \<longleftrightarrow> nat (checkpoint_interval c) dvd unat (num_tols c)"
  using assms unat_word_of_int_nat [of "checkpoint_interval c"]
  by (simp add: ctx_new_tol_or_return_def word_less_nat_alt unat_mod dvd_eq_mod_eq_0)

lemma ctx_new_tol_state [simp]:
  "snd (ctx_new_tol_or_return c) = c\<lparr>num_tols := num_tols c + 1\<rparr>"
  by (simp add: ctx_new_tol_or_return_def)

lemma tol_count_from:
  assumes "0 < checkpoint_interval c" "checkpoint_interval c < 2 ^ 31"
    and "unat (num_tols c) + n < 2 ^ 64"
  shows "tol_count n c + (unat (num_tols c) + nat (checkpoint_interval c) - 1) div nat (checkpoint_interval c)
         = (unat (num_tols c) + n + nat (checkpoint_interval c) - 1) div nat (checkpoint_interval c)"
  using assms
proof (induction n arbitrary: c)
  case (Suc n)
  let ?k = "nat (checkpoint_interval c)" and ?t = "unat (num_tols c)"
  let ?c = "c\<lparr>num_tols := num_tols c + 1\<rparr>"
  have t: "unat (num_tols c + 1) = ?t + 1"
    using Suc.prems(3) by (simp add: unat_plus_if' )
  have "tol_count (Suc n) c = (if ?k dvd ?t then 1 else 0) + tol_count n ?c"
    using ctx_new_tol_go [OF Suc.prems(1,2)] ctx_new_tol_state [of c]
    by (simp add: split_beta)
  moreover have "tol_count n ?c + (?t + 1 + ?k - 1) div ?k = (?t + 1 + n + ?k - 1) div ?k"
    using Suc.IH [of ?c] Suc.prems by (simp add: t)
  moreover have "(?t + ?k) div ?k = (if ?k dvd ?t then 1 else 0) + (?t + ?k - 1) div ?k"
    using Suc.prems(1) by (intro ceil_div_step) simp
  ultimately show ?case by simp
qed simp

lemma ctx_new_log_size_max: "max_log_size (ctx_new_log_size ls c) = max ls (max_log_size c)"
  by (auto simp: ctx_new_log_size_def max_def)

lemma mmap_flags_of_bits:
  "mmap_flags_of flags AND MAP_FIXED \<noteq> 0 \<longleftrightarrow> flags AND LTCKPT_MAP_FIXED \<noteq> 0"
  "mmap_flags_of flags AND MAP_POPULATE \<noteq> 0 \<longleftrightarrow> flags AND LTCKPT_MAP_POPULATE \<noteq> 0"
  "mmap_flags_of flags AND MAP_PRIVATE \<noteq> 0 \<longleftrightarrow> flags AND LTCKPT_MAP_PRIVATE \<noteq> 0"
  "mmap_flags_of flags AND MAP_NORESERVE \<noteq> 0 \<longleftrightarrow> flags AND LTCKPT_MAP_NORESERVE \<noteq> 0"
  "mmap_flags_of flags AND MAP_STACK \<noteq> 0 \<longleftrightarrow> flags AND LTCKPT_MAP_STACK \<noteq> 0"
  "mmap_flags_of flags AND MAP_ANONYMOUS \<noteq> 0"
  by (simp_all add: mmap_flags_of_def)

lemma mmap_prot_of_bits:
  "mmap_prot_of prot AND PROT_READ \<noteq> 0 \<longleftrightarrow> prot AND LTCKPT_PROT_R \<noteq> 0"
  "mmap_prot_of prot AND PROT_WRITE \<noteq> 0 \<longleftrightarrow> prot AND LTCKPT_PROT_W \<noteq> 0"
  "mmap_prot_of prot AND PROT_EXEC \<noteq> 0 \<longleftrightarrow> prot AND LTCKPT_PROT_X \<noteq> 0"
  by (simp_all add: mmap_prot_of_def)

lemma find_conf_name: "find_conf name ks = Some k \<Longrightarrow> k \<in> set ks \<and> conf_name k = name"
  by (induction ks) (auto split: if_splits)

lemma find_conf_None: "find_conf name ks = None \<longleftrightarrow> name \<notin> conf_name ` set ks"
  by (induction ks) auto

lemma late_init_selects:
  assumes "map conf_name confs = conf_names" and "\<not> early_init_done s"
  obtains s' k where "ltckpt_common_late_init confs env s = Some s'" "cs_conf s' = Some k"
    "approach (cs_ctx s') = conf_name k" "early_init_done s'"
    "cs_conf s = None \<Longrightarrow> conf_name k = ''baseline''"
    "cs_conf s \<noteq> None \<Longrightarrow> cs_conf s = Some k"
proof -
  have "''baseline'' \<in> set (map conf_name confs)" by (simp only: assms) (simp add: conf_names_def)
  then obtain b where b: "find_conf ''baseline'' confs = Some b" "conf_name b = ''baseline''"
    by (metis find_conf_None find_conf_name not_Some_eq set_map)
  define k where "k = (case cs_conf s of None \<Rightarrow> b | Some k \<Rightarrow> k)"
  have "ltckpt_conf_setup confs (cs_conf s) = Some k"
    by (auto simp: ltckpt_conf_setup_def ltckpt_conf_setup_from_hook_def b k_def Option.is_none_def
        split: option.splits)
  then show ?thesis
    using that [of _ k] assms(2) b(2)
    by (auto simp: ltckpt_common_late_init_def ltckpt_common_early_init_def ltckpt_ctx_init_def k_def
        split: option.splits)
qed

section \<open>Properties\<close>

text \<open>
  C32: with a positive interval k, of the first n iterations of the main loop exactly
  every k-th takes a checkpoint, beginning with the first: n / k of them, rounded up.
\<close>

theorem checkpoint_cadence:
  assumes "0 < checkpoint_interval c" "checkpoint_interval c < 2 ^ 31" "num_tols c = 0" "n < 2 ^ 64"
  shows "tol_count n c = (n + nat (checkpoint_interval c) - 1) div nat (checkpoint_interval c)"
  using tol_count_from [of c n] assms by simp

definition demo_interval :: "int \<Rightarrow> ltckpt_ctx" where
  "demo_interval k = \<lparr>lazy_init = 1, skip_mmap = 1, initialized = 0, atexit_dump = 0, exited = 0, allow_prctl = 0,
     checkpoint_interval = k, pgfault_nesting_level = 0, page_statistic_enabled = 0, approach = ''undolog'',
     errors = 0, num_cows = 0, num_tols = 0, num_checkpoints = 0, max_log_size = 0, num_aop_funcs = 0, num_aop_tols = 0\<rparr>"

theorem checkpoint_cadence_witness: "tol_count 7 (demo_interval 3) = 3"
  using checkpoint_cadence [of "demo_interval 3" 7] by (simp add: demo_interval_def)

end
