(* ===== verification/Runtime.thy ===== *)
theory Runtime
  imports Ckpt_Ctx Complex_Main
begin

text \<open>
  The state the checkpointing library (\<open>static/ltckpt\<close>) and the recovery library
  (\<open>static/rcvry\<close>) share inside one process, the build options that select code
  with the preprocessor, and the profiling macros of \<open>ltckpt_profiling.h\<close>.

  The process state is an extensible record: a component that has static
  variables of its own (the write log, the recovery library) extends it, and an
  operation of a smaller record is an operation of every larger one.
\<close>

section \<open>Build options\<close>

text \<open>One Boolean per macro the code tests with \<open>#ifdef\<close>.\<close>

record build =
  LTCKPT_WINDOW_PROFILING :: bool
  LTCKPT_EMPTY_UNDOLOG_HOOKS :: bool
  LTCKPT_LIBCALL_INTERVALS :: bool
  LTCKPT_NO_TSX_FOR_RCVRY_FAIL :: bool
  LTCKPT_NOP_UNTIL_SIGNALLED :: bool
  LTCKPT_NO_REG_RESTORATION :: bool
  RCVRY_WINDOW_PROFILING :: bool
  RCVRY_DYNAMIC_SWITCH :: bool
  RCVRY_AUTO_ADAPT :: bool
  RCVRY_DELAYED_FREE :: bool
  RCVRY_CKPT_DONT_REMEMBER :: bool
  RCVRY_CKPT_DEFAULT_TO_UNDOLOG :: bool
  RCVRY_CLOSE_GATE_AFTER :: bool
  RCVRY_TSX_NO_SWITCHING :: bool
  TEST_ALTERNATE_TX :: bool

section \<open>ltckpt_types.h and ltckpt_profiling.h\<close>

abbreviation (input) "LTCKPT_TYPE_INVALID \<equiv> 0 :: u32"
abbreviation (input) "LTCKPT_TYPE_UNDOLOG \<equiv> 1 :: u32"
abbreviation (input) "LTCKPT_TYPE_TSX \<equiv> 2 :: u32"
abbreviation (input) "LTCKPT_TYPE_TSX_END \<equiv> 3 :: u32"

text \<open>\<open>g_undolog_size_avg\<close> is a double in the code; here it is the rational it rounds.\<close>

record ltckpt_window =
  w_type :: u32
  g_num_hits :: u64
  c_num_retries :: u64
  g_num_retries_max :: u64
  g_num_fails :: u64
  c_num_stores :: u64
  g_num_stores :: u64
  c_memcpy_size :: u64
  g_memcpy_size :: u64
  g_num_stores_max :: u64
  g_memcpy_size_max :: u64
  g_undolog_size_max :: u64
  g_undolog_size_avg :: rat

definition PROFILE_TOL :: "u32 \<Rightarrow> ltckpt_window \<Rightarrow> ltckpt_window" where
  "PROFILE_TOL t w = w\<lparr>w_type := t, g_num_hits := g_num_hits w + 1, c_num_stores := 0,
                       c_memcpy_size := 0, c_num_retries := 0\<rparr>"

definition PROFILE_TSX_BEGIN :: "ltckpt_window \<Rightarrow> ltckpt_window" where
  "PROFILE_TSX_BEGIN w =
     (let w = w\<lparr>c_num_retries := c_num_retries w + 1\<rparr>
      in if c_num_retries w > g_num_retries_max w
         then w\<lparr>g_num_retries_max := c_num_retries w\<rparr> else w)"

definition PROFILE_TSX_FAIL :: "ltckpt_window \<Rightarrow> ltckpt_window" where
  "PROFILE_TSX_FAIL w = w\<lparr>g_num_fails := g_num_fails w + 1\<rparr>"

definition PROFILE_STORE :: "ltckpt_window \<Rightarrow> ltckpt_window" where
  "PROFILE_STORE w =
     (let w = w\<lparr>c_num_stores := c_num_stores w + 1, g_num_stores := g_num_stores w + 1\<rparr>
      in if c_num_stores w > g_num_stores_max w
         then w\<lparr>g_num_stores_max := c_num_stores w\<rparr> else w)"

definition PROFILE_MEMCPY :: "u64 \<Rightarrow> ltckpt_window \<Rightarrow> ltckpt_window" where
  "PROFILE_MEMCPY sz w =
     (let w = w\<lparr>c_memcpy_size := c_memcpy_size w + sz, g_memcpy_size := g_memcpy_size w + sz\<rparr>
      in if c_memcpy_size w > g_memcpy_size_max w
         then w\<lparr>g_memcpy_size_max := c_memcpy_size w\<rparr> else w)"

definition PROFILE_UNDOLOG_SIZE :: "u64 \<Rightarrow> ltckpt_window \<Rightarrow> ltckpt_window" where
  "PROFILE_UNDOLOG_SIZE sz w =
     (let w = w\<lparr>g_undolog_size_avg := g_undolog_size_avg w +
                 (of_nat (unat sz) - g_undolog_size_avg w) / of_nat (unat (g_num_hits w))\<rparr>
      in if sz > g_undolog_size_max w then w\<lparr>g_undolog_size_max := sz\<rparr> else w)"

section \<open>rcvry_dispatch.h: recovery types and per-site records\<close>

datatype rcvry_type =
    RCVRY_TYPE_INVALID
  | RCVRY_TYPE_DEFAULT
  | RCVRY_TYPE_NOOP
  | RCVRY_TYPE_SET_RET_ERRNO
  | RCVRY_TYPE_SET_RET_ERRNO_EACCES
  | RCVRY_TYPE_SET_RET_ERRNO_ENOMEM
  | RCVRY_TYPE_SET_RET_ERRNO_ENOSPC
  | RCVRY_TYPE_SET_RET_ERRNO_EBADF
  | RCVRY_TYPE_SET_RET_ERRNO_EINVAL
  | RCVRY_TYPE_SET_RET_ERRNO_EFAULT
  | RCVRY_TYPE_SET_RET_ERRNO_EMFILE
  | RCVRY_TYPE_SET_RET_ERRNO_ZSTREAM_ERROR
  | RCVRY_TYPE_SET_RET_NULL_ERRNO
  | RCVRY_TYPE_SET_RET_NULL_ERRNO_ENOMEM
  | RCVRY_TYPE_SET_RET_NULL_ERRNO_EBADF
  | RCVRY_TYPE_HW_TSX
  | RCVRY_TYPE_UNDO_MALLOC
  | RCVRY_TYPE_UNDO_MEMALIGN
  | RCVRY_TYPE_UNDO_REALLOC
  | RCVRY_TYPE_UNDO_SETLOCALE
  | RCVRY_TYPE_CLOSE_SOCKET
  | RCVRY_TYPE_CLOSE_RET_NULL
  | RCVRY_TYPE_CLOSE
  | RCVRY_TYPE_DLCLOSE
  | RCVRY_TYPE_UNDO_FORK
  | RCVRY_TYPE_UNDO_ADDRINFO
  | RCVRY_TYPE_UNDO_MKDIR
  | RCVRY_TYPE_UNDO_MMAP
  | RCVRY_TYPE_UNDO_PTHRDMUTX_INIT
  | RCVRY_TYPE_UNDO_PTHRDMUTX_LOCK
  | RCVRY_TYPE_CKPT_BUFF_PREAD
  | RCVRY_TYPE_FAIL

record rcvry_prof =
  num_hits :: u32
  num_hits_tsx :: u32
  num_hits_ckpt :: u32
  num_rcvry_success__switchtxtype :: u32
  num_rcvry_success__errpath :: u32
  num_rcvry_successes :: u32
  num_hits_rcvry_branch :: u32
  libcalls__protected :: u32
  libcalls__skipped_nonfaultable :: u32
  libcalls__skipped_nousers :: u32
  num_rcvry_ra__noop :: u32
  num_rcvry_ra__fail :: u32
  num_rcvry_ra__set_ret_errno :: u32
  num_rcvry_ra__undo_malloc :: u32
  num_rcvry_ra__undo_memalign :: u32
  num_rcvry_ra__undo_realloc :: u32
  num_rcvry_ra__close_socket :: u32
  num_rcvry_ra__close :: u32
  num_rcvry_ra__dlclose :: u32
  num_rcvry_ra__undo_fork :: u32
  num_rcvry_ra__undo_addrinfo :: u32
  num_rcvry_ra__undo_mkdir :: u32
  num_rcvry_ra__undo_mmap :: u32
  num_rcvry_ra__undo_pthreadmtx_init :: u32
  num_rcvry_ra__undo_pthreadmtx_lock :: u32
  num_rcvry_ra__delayed_free :: u32

text \<open>\<open>argv\<close> has six slots; a slot is read by its index.\<close>

record rcvry_info =
  ltckpt_type :: u32
  rcvry_type :: rcvry_type
  argc :: int
  argv :: "nat \<Rightarrow> va"
  rcvry_prof :: rcvry_prof
  fault_probability :: u32
  fi_num_hits :: u32
  sample_count :: u32
  num_tsx_hits :: u32
  num_tsx_fails :: u32

section \<open>The state of the process\<close>

text \<open>
  Arrays indexed by a site number are functions of the number.  \<open>windows\<close> and
  \<open>current_window\<close> are \<open>ltckpt_windows\<close> and \<open>ltckpt_current_site_id\<close>.
\<close>

record runtime =
  pmem :: mem
  ctx :: ltckpt_ctx
  windows :: "u32 \<Rightarrow> ltckpt_window"
  current_window :: u32
  rcvry_current_site_id :: u32
  rcvry_libcall_gates :: "u32 \<Rightarrow> u32"
  rcvry_infos :: "u32 \<Rightarrow> rcvry_info"
  rcvry_current_tx_type :: u32

definition upd_window :: "(ltckpt_window \<Rightarrow> ltckpt_window) \<Rightarrow> u32 \<Rightarrow> 'a runtime_scheme \<Rightarrow> 'a runtime_scheme" where
  "upd_window f i s = s\<lparr>windows := (windows s)(i := f (windows s i))\<rparr>"

definition upd_info :: "(rcvry_info \<Rightarrow> rcvry_info) \<Rightarrow> 'a runtime_scheme \<Rightarrow> 'a runtime_scheme" where
  "upd_info f s = s\<lparr>rcvry_infos := (rcvry_infos s)
     (rcvry_current_site_id s := f (rcvry_infos s (rcvry_current_site_id s)))\<rparr>"

definition upd_prof :: "(rcvry_prof \<Rightarrow> rcvry_prof) \<Rightarrow> 'a runtime_scheme \<Rightarrow> 'a runtime_scheme" where
  "upd_prof f s = upd_info (\<lambda>i. i\<lparr>rcvry_prof := f (rcvry_prof i)\<rparr>) s"

text \<open>\<open>RCVRY_CURR_TX_TYPE\<close>: the global with dynamic switching, else the type of the current site.\<close>

definition curr_tx_type :: "build \<Rightarrow> 'a runtime_scheme \<Rightarrow> u32" where
  "curr_tx_type b s =
     (if RCVRY_DYNAMIC_SWITCH b then rcvry_current_tx_type s
      else ltckpt_type (rcvry_infos s (rcvry_current_site_id s)))"

definition set_curr_tx_type :: "build \<Rightarrow> u32 \<Rightarrow> 'a runtime_scheme \<Rightarrow> 'a runtime_scheme" where
  "set_curr_tx_type b t s =
     (if RCVRY_DYNAMIC_SWITCH b then s\<lparr>rcvry_current_tx_type := t\<rparr>
      else upd_info (\<lambda>i. i\<lparr>ltckpt_type := t\<rparr>) s)"

definition set_gate :: "u32 \<Rightarrow> 'a runtime_scheme \<Rightarrow> 'a runtime_scheme" where
  "set_gate g s = s\<lparr>rcvry_libcall_gates := (rcvry_libcall_gates s)(rcvry_current_site_id s := g)\<rparr>"

section \<open>Lemmas\<close>

text \<open>What the small updates leave alone; the component proofs use these instead of the
  definitions.\<close>

named_theorems frame_simps

lemma upd_window_frame [simp, frame_simps]:
  "pmem (upd_window f i s) = pmem s" "ctx (upd_window f i s) = ctx s"
  "rcvry_current_site_id (upd_window f i s) = rcvry_current_site_id s"
  "rcvry_libcall_gates (upd_window f i s) = rcvry_libcall_gates s"
  "rcvry_infos (upd_window f i s) = rcvry_infos s"
  "current_window (upd_window f i s) = current_window s"
  "rcvry_current_tx_type (upd_window f i s) = rcvry_current_tx_type s"
  "more (upd_window f i s) = more s"
  by (simp_all add: upd_window_def)

lemma upd_info_frame [simp, frame_simps]:
  "pmem (upd_info f s) = pmem s" "ctx (upd_info f s) = ctx s"
  "windows (upd_info f s) = windows s" "current_window (upd_info f s) = current_window s"
  "rcvry_current_site_id (upd_info f s) = rcvry_current_site_id s"
  "rcvry_libcall_gates (upd_info f s) = rcvry_libcall_gates s"
  "rcvry_current_tx_type (upd_info f s) = rcvry_current_tx_type s"
  "more (upd_info f s) = more s"
  by (simp_all add: upd_info_def)

lemma upd_prof_frame [simp, frame_simps]:
  "pmem (upd_prof f s) = pmem s" "ctx (upd_prof f s) = ctx s"
  "windows (upd_prof f s) = windows s" "current_window (upd_prof f s) = current_window s"
  "rcvry_current_site_id (upd_prof f s) = rcvry_current_site_id s"
  "rcvry_libcall_gates (upd_prof f s) = rcvry_libcall_gates s"
  "rcvry_current_tx_type (upd_prof f s) = rcvry_current_tx_type s"
  "more (upd_prof f s) = more s"
  by (simp_all add: upd_prof_def)

lemma set_gate_frame [simp, frame_simps]:
  "pmem (set_gate g s) = pmem s" "ctx (set_gate g s) = ctx s"
  "windows (set_gate g s) = windows s" "current_window (set_gate g s) = current_window s"
  "rcvry_current_site_id (set_gate g s) = rcvry_current_site_id s"
  "rcvry_infos (set_gate g s) = rcvry_infos s"
  "rcvry_current_tx_type (set_gate g s) = rcvry_current_tx_type s"
  "more (set_gate g s) = more s"
  by (simp_all add: set_gate_def)

lemma set_curr_tx_type_frame [simp, frame_simps]:
  "pmem (set_curr_tx_type b t s) = pmem s" "ctx (set_curr_tx_type b t s) = ctx s"
  "windows (set_curr_tx_type b t s) = windows s"
  "current_window (set_curr_tx_type b t s) = current_window s"
  "rcvry_current_site_id (set_curr_tx_type b t s) = rcvry_current_site_id s"
  "rcvry_libcall_gates (set_curr_tx_type b t s) = rcvry_libcall_gates s"
  "more (set_curr_tx_type b t s) = more s"
  by (simp_all add: set_curr_tx_type_def)

lemma curr_tx_type_set [simp]: "curr_tx_type b (set_curr_tx_type b t s) = t"
  by (simp add: curr_tx_type_def set_curr_tx_type_def upd_info_def)

end
