(* ===== verification/Checkpoint.thy ===== *)
theory Checkpoint
  imports Prelude
begin

text \<open>
  The contract of a checkpointing mechanism, as the clients of
  \<open>ltckpt_mechanism.h\<close> rely on it: a hook at the top of the loop takes the
  checkpoint, a hook in front of every store saves what the store overwrites,
  and a restart puts the saved contents back.  The contract is stated for an
  arbitrary state; each mechanism interprets the locale on its own definitions.

  \<open>visible s\<close> is what the application sees, \<open>saved s\<close> what a restart in \<open>s\<close> would
  make it see.  A mechanism that only saves, and leaves the restart to a tool outside
  the process, meets the first half of the contract, \<open>checkpoint_saver\<close>.
\<close>

text \<open>A run of instrumented operations; None is an operation that fails.\<close>

primrec run_ops :: "('op \<Rightarrow> 's \<Rightarrow> 's option) \<Rightarrow> 'op list \<Rightarrow> 's \<Rightarrow> 's option" where
  "run_ops step [] s = Some s"
| "run_ops step (p # ps) s = (case step p s of None \<Rightarrow> None | Some s' \<Rightarrow> run_ops step ps s')"

primrec ops_ok :: "('op \<Rightarrow> 's \<Rightarrow> bool) \<Rightarrow> ('op \<Rightarrow> 's \<Rightarrow> 's option) \<Rightarrow> 'op list \<Rightarrow> 's \<Rightarrow> bool" where
  "ops_ok ok step [] s = True"
| "ops_ok ok step (p # ps) s =
     (ok p s \<and> (case step p s of None \<Rightarrow> False | Some s' \<Rightarrow> ops_ok ok step ps s'))"

lemma run_ops_append:
  "run_ops step (ps @ qs) s = (case run_ops step ps s of None \<Rightarrow> None | Some s' \<Rightarrow> run_ops step qs s')"
  by (induction ps arbitrary: s) (auto split: option.splits)

locale checkpoint_saver =
  fixes inv :: "'s \<Rightarrow> bool"
    and visible :: "'s \<Rightarrow> 'v"
    and saved :: "'s \<Rightarrow> 'v"
    and takes :: "'s \<Rightarrow> bool"
    and ckpt :: "'s \<Rightarrow> 's"
    and step :: "'op \<Rightarrow> 's \<Rightarrow> 's option"
    and ok :: "'op \<Rightarrow> 's \<Rightarrow> bool"
  assumes ckpt_law: "inv s \<Longrightarrow> takes s \<Longrightarrow> inv (ckpt s) \<and> saved (ckpt s) = visible s"
    and step_law: "inv s \<Longrightarrow> ok p s \<Longrightarrow> \<exists>s'. step p s = Some s' \<and> inv s' \<and> saved s' = saved s"
begin

lemma run_saved:
  assumes "inv s" "ops_ok ok step ps s"
  shows "\<exists>s'. run_ops step ps s = Some s' \<and> inv s' \<and> saved s' = saved s"
  using assms
proof (induction ps arbitrary: s)
  case (Cons p ps)
  from Cons.prems step_law [of s p] obtain t
    where t: "step p s = Some t" "inv t" "saved t = saved s" by auto
  with Cons.prems have "ops_ok ok step ps t" by simp
  with Cons.IH t show ?case by fastforce
qed simp

lemma always_ok:
  assumes "inv s" "\<And>p t. p \<in> set ps \<Longrightarrow> inv t \<Longrightarrow> ok p t"
  shows "ops_ok ok step ps s"
  using assms
proof (induction ps arbitrary: s)
  case (Cons p ps)
  then obtain t where "step p s = Some t" "inv t" using step_law [of s p] by auto
  with Cons show ?case by simp
qed simp

lemma run_from_ckpt:
  assumes "inv s" "takes s" "ops_ok ok step ps (ckpt s)"
  shows "\<exists>s'. run_ops step ps (ckpt s) = Some s' \<and> inv s' \<and> saved s' = visible s"
  using ckpt_law [OF assms(1,2)] run_saved [of "ckpt s" ps] assms(3) by auto

end

locale checkpoint_mechanism = checkpoint_saver +
  fixes rollback :: "'a \<Rightarrow> 'a option"
  assumes rollback_law: "inv s \<Longrightarrow> \<exists>s'. rollback s = Some s' \<and> inv s' \<and> visible s' = saved s"
begin

theorem recovery:
  assumes "inv s" "takes s" "ops_ok ok step ps (ckpt s)"
  shows "\<exists>s' s''. run_ops step ps (ckpt s) = Some s' \<and> rollback s' = Some s'' \<and> inv s''
                  \<and> visible s'' = visible s"
proof -
  obtain s' where s': "run_ops step ps (ckpt s) = Some s'" "inv s'" "saved s' = visible s"
    using run_from_ckpt [OF assms] by blast
  then show ?thesis using rollback_law [of s'] by auto
qed

text \<open>A second restart changes nothing the application sees, when the first left nothing to undo.\<close>

lemma rollback_again:
  assumes "inv s" "rollback s = Some t" "saved t = visible t"
  shows "\<exists>u. rollback t = Some u \<and> visible u = visible t"
  using rollback_law [of s] rollback_law [of t] assms by auto

end

end
