(* ===== verification/Writelog.thy ===== *)
theory Writelog
  imports Runtime Checkpoint
begin

text \<open>
  The undo log of \<open>mechanisms/ltckpt_writelog.c\<close> on Linux x86-64.

  The log is an array of 16-byte entries in the memory of the process: the
  address of an 8-byte granule, then the bytes the granule held.  The model keeps
  it there, so a claim about the log is a claim about bytes in memory, and
  restoring reads the entries back from memory as the code does.  The static
  variables \<open>wl_data\<close> and \<open>wl_position\<close> extend the process state; the addresses
  at which the linker put them, which \<open>ltckpt_can_restore\<close> compares against, and
  the address of the restart hook's frame are parameters (\<open>wl_env\<close>).

  On Linux \<open>lt_assert\<close> and \<open>lt_printf\<close> expand to nothing, hence so does
  \<open>lt_panic\<close>.
\<close>

section \<open>State\<close>

record wl_env =
  at_wl_data :: va
  at_wl_position :: va
  at_num_entries :: va

record wl_state = runtime +
  wl_data :: va
  wl_position :: u64

abbreviation (input) "WRITELOG_MAXLEN \<equiv> 42949672960 :: u64"
abbreviation (input) "WRITELOG_BYTES \<equiv> 687194767360 :: u64"
abbreviation (input) "entry_size \<equiv> 16 :: u64"

section \<open>Logging\<close>

definition lt_panic :: "'a \<Rightarrow> 'a" where
  "lt_panic s = s"

definition ltckpt_write_wl :: "va \<Rightarrow> 'a wl_state_scheme \<Rightarrow> 'a wl_state_scheme" where
  "ltckpt_write_wl p s =
     (let addr = align_down 3 p;
          wl_data_start = wl_data s;
          wl_data_end = wl_data s + WRITELOG_BYTES;
          s = (if addr \<ge> wl_data_start \<and> addr < wl_data_end then lt_panic s else s);
          addr_slot = wl_data s + wl_position s;
          region = wl_data s + (wl_position s + 8);
          s = s\<lparr>pmem := mem_write (pmem s) addr_slot (ptr_bytes addr)\<rparr>;
          s = s\<lparr>pmem := mem_write (pmem s) region (mem_read (pmem s) addr 8)\<rparr>
      in s\<lparr>wl_position := wl_position s + 16\<rparr>)"

definition wl_store_hook :: "build \<Rightarrow> va \<Rightarrow> 'a wl_state_scheme \<Rightarrow> 'a wl_state_scheme" where
  "wl_store_hook b addr s =
     (if LTCKPT_EMPTY_UNDOLOG_HOOKS b then s
      else let s = ltckpt_write_wl addr s
           in if LTCKPT_WINDOW_PROFILING b then upd_window PROFILE_STORE (current_window s) s else s)"

text \<open>
  The loop of the memcpy hook runs while the granule pointer is below the end
  pointer; both are addresses modulo \<open>2 ^ 64\<close>, and the loop does not return when
  the end lies within the last granule of the address space.
\<close>

partial_function (option) wl_memcpy_loop ::
    "va \<Rightarrow> va \<Rightarrow> 'a wl_state_scheme \<Rightarrow> 'a wl_state_scheme option" where
  "wl_memcpy_loop reg endp s =
     (if reg < endp then wl_memcpy_loop (reg + 8) endp (ltckpt_write_wl reg s) else Some s)"

declare wl_memcpy_loop.simps [code]

definition wl_memcpy_hook :: "build \<Rightarrow> va \<Rightarrow> u64 \<Rightarrow> 'a wl_state_scheme \<Rightarrow> 'a wl_state_scheme option" where
  "wl_memcpy_hook b addr sz s =
     (case wl_memcpy_loop (align_down 2 addr) (addr + sz) s of
        None \<Rightarrow> None
      | Some s \<Rightarrow> Some (if LTCKPT_WINDOW_PROFILING b
                        then upd_window (PROFILE_MEMCPY sz) (current_window s) s else s))"

section \<open>Taking a checkpoint\<close>

definition wl_top_of_the_loop :: "build \<Rightarrow> u32 \<Rightarrow> 'a wl_state_scheme \<Rightarrow> 'a wl_state_scheme" where
  "wl_top_of_the_loop b site_id s =
     (if LTCKPT_EMPTY_UNDOLOG_HOOKS b then s
      else let (go, c) = ctx_new_tol_or_return (ctx_new_log_size (wl_position s) (ctx s));
               s = s\<lparr>ctx := c\<rparr>
      in if \<not> go then s
      else let s = (if LTCKPT_WINDOW_PROFILING b \<and> 0 < wl_position s
                    then upd_window (PROFILE_UNDOLOG_SIZE (wl_position s)) (current_window s) s else s);
               s = s\<lparr>wl_position := 0\<rparr>;
               s = s\<lparr>ctx := ctx_new_checkpoint (ctx s)\<rparr>;
               s = (if LTCKPT_WINDOW_PROFILING b
                    then upd_window (PROFILE_TOL LTCKPT_TYPE_UNDOLOG) site_id (s\<lparr>current_window := site_id\<rparr>)
                    else s)
           in if RCVRY_WINDOW_PROFILING b
              then upd_prof (\<lambda>p. p\<lparr>num_hits_ckpt := num_hits_ckpt p + 1\<rparr>) s else s)"

section \<open>Initialisation\<close>

text \<open>None is the abort of \<open>ltckpt_panic\<close>.\<close>

definition ltckpt_init_writelog ::
    "'w mmap_call \<Rightarrow> 'a wl_state_scheme \<Rightarrow> 'w \<Rightarrow> ('a wl_state_scheme \<times> 'w) option" where
  "ltckpt_init_writelog mmap s w =
     (let flags = LTCKPT_MAP_PRIVATE OR LTCKPT_MAP_NORESERVE OR 0;
          (ret, w) = ltckpt_mmap mmap 0 WRITELOG_BYTES (LTCKPT_PROT_W OR LTCKPT_PROT_R) flags w
      in if ret = LTCKPT_MAP_FAILED then None
      else let s = s\<lparr>wl_data := ret\<rparr>;
               ret = PAGE_SIZE * ((ret + WRITELOG_BYTES) div PAGE_SIZE + 1);
               (ret, w) = ltckpt_mmap mmap ret PAGE_SIZE LTCKPT_PROT_N flags w
      in if ret = LTCKPT_MAP_FAILED then None else Some (s, w))"

section \<open>Restoring\<close>

definition ltckpt_overlaps :: "va \<Rightarrow> u64 \<Rightarrow> va \<Rightarrow> u64 \<Rightarrow> bool" where
  "ltckpt_overlaps p1 s1 p2 s2 =
     (let ps1 = p1; pe1 = ps1 + s1; ps2 = p2; pe2 = ps2 + s2
      in (ps1 \<le> ps2 \<and> pe1 > ps2) \<or> (ps2 \<le> ps1 \<and> pe2 > ps1))"

definition ltckpt_can_restore :: "wl_env \<Rightarrow> 'a wl_state_scheme \<Rightarrow> va \<Rightarrow> bool" where
  "ltckpt_can_restore e s addr =
     (\<not> ltckpt_overlaps addr 8 (wl_data s) WRITELOG_BYTES \<and>
      \<not> ltckpt_overlaps addr 8 (at_wl_data e) 8 \<and>
      \<not> ltckpt_overlaps addr 8 (at_wl_position e) 8)"

definition datamax :: "wl_env \<Rightarrow> va" where
  "datamax e = at_num_entries e - 4096"

text \<open>
  One iteration per entry, newest first.  \<open>memcpy\<close> returns its destination, so
  the tests of its result for NULL never fire: the first destination is a local
  variable, the second is tested before the call.
\<close>

function wl_restore_loop ::
    "build \<Rightarrow> wl_env \<Rightarrow> u64 \<Rightarrow> u64 \<Rightarrow> 'a wl_state_scheme \<Rightarrow> u64 \<times> u64 \<times> 'a wl_state_scheme" where
  "wl_restore_loop b e i stack_entries s =
     (if wl_position s \<ge> entry_size then
        let i = i + 1;
            s = s\<lparr>wl_position := wl_position s - entry_size\<rparr>;
            addr = bytes_ptr (mem_read (pmem s) (wl_data s + wl_position s) 8)
        in if \<not> ltckpt_can_restore e s addr then wl_restore_loop b e i stack_entries s
        else let region = wl_data s + (wl_position s + 8);
                 stack = (addr > datamax e);
                 stack_entries = (if stack then stack_entries + 1 else stack_entries)
        in if stack \<and> \<not> LTCKPT_LIBCALL_INTERVALS b then wl_restore_loop b e i stack_entries s
        else if addr \<noteq> 0
             then wl_restore_loop b e i stack_entries
                    (s\<lparr>pmem := mem_write (pmem s) addr (mem_read (pmem s) region 8)\<rparr>)
             else wl_restore_loop b e i stack_entries s
      else (i, stack_entries, s))"
  by pat_completeness auto
termination
  by (relation "measure (\<lambda>(b, e, i, st, s). unat (wl_position s))")
    (auto simp: word_le_nat_alt word_less_nat_alt unat_sub)

declare wl_restore_loop.simps [simp del]

text \<open>None is a failed assertion.\<close>

definition wl_restart_hook :: "build \<Rightarrow> wl_env \<Rightarrow> 'a wl_state_scheme \<Rightarrow> (int \<times> 'a wl_state_scheme) option" where
  "wl_restart_hook b e s =
     (let num_entries = wl_position s div entry_size
      in if wl_position s mod entry_size \<noteq> 0 then None
      else let (i, stack_entries, s) = wl_restore_loop b e 0 0 s
      in if i \<noteq> num_entries \<or> wl_position s \<noteq> 0 then None else Some (0, s))"

section \<open>The log as a list of entries\<close>

text \<open>
  The abstraction: the entries read from memory, oldest first, and undoing them
  newest first.
\<close>

definition log_entry :: "mem \<Rightarrow> va \<Rightarrow> nat \<Rightarrow> va \<times> u8 list" where
  "log_entry m d i = (bytes_ptr (mem_read m (d + word_of_nat (16 * i)) 8),
                      mem_read m (d + word_of_nat (16 * i + 8)) 8)"

definition log_entries :: "mem \<Rightarrow> va \<Rightarrow> nat \<Rightarrow> (va \<times> u8 list) list" where
  "log_entries m d n = map (log_entry m d) [0..<n]"

definition undo :: "(va \<times> u8 list) list \<Rightarrow> mem \<Rightarrow> mem" where
  "undo es m = foldr (\<lambda>(g, r) m. mem_write m g r) es m"

definition wl_entries :: "'a wl_state_scheme \<Rightarrow> (va \<times> u8 list) list" where
  "wl_entries s = log_entries (pmem s) (wl_data s) (unat (wl_position s) div 16)"

abbreviation (input) "wl_bytes \<equiv> 687194767360 :: nat"

definition wl_area :: "'a wl_state_scheme \<Rightarrow> va set" where
  "wl_area s = block (wl_data s) wl_bytes"

text \<open>What the application must not write: the log and its two variables.\<close>

definition wl_prot :: "wl_env \<Rightarrow> 'a wl_state_scheme \<Rightarrow> va set" where
  "wl_prot e s = wl_area s \<union> block (at_wl_data e) 8 \<union> block (at_wl_position e) 8"

definition wl_restorable :: "build \<Rightarrow> wl_env \<Rightarrow> 'a wl_state_scheme \<Rightarrow> va \<Rightarrow> bool" where
  "wl_restorable b e s g =
     (ltckpt_can_restore e s g \<and> (LTCKPT_LIBCALL_INTERVALS b \<or> g \<le> datamax e) \<and> g \<noteq> 0)"

lemma undo_Nil [simp]: "undo [] m = m"
  by (simp add: undo_def)

lemma undo_append: "undo (es @ fs) m = undo es (undo fs m)"
  by (simp add: undo_def)

lemma undo_single [simp]: "undo [(g, r)] m = mem_write m g r"
  by (simp add: undo_def)

lemma undo_Cons: "undo ((g, r) # es) m = mem_write (undo es m) g r"
  by (simp add: undo_def)

text \<open>Undoing depends on memory only where it is looked at, and writes only what the entries name.\<close>

lemma undo_cong:
  "m x = m' x \<Longrightarrow> undo es m x = undo es m' x"
  by (induction es) (auto simp: undo_Cons mem_write_def)

lemma undo_outside:
  "(\<And>g r. (g, r) \<in> set es \<Longrightarrow> x \<notin> block g (length r)) \<Longrightarrow> undo es m x = m x"
  by (induction es) (auto simp: undo_Cons mem_write_out)

lemma log_entries_Suc: "log_entries m d (Suc n) = log_entries m d n @ [log_entry m d n]"
  by (simp add: log_entries_def)

lemma length_log_entries [simp]: "length (log_entries m d n) = n"
  by (simp add: log_entries_def)

lemma log_entry_length: "(g, r) \<in> set (log_entries m d n) \<Longrightarrow> length r = 8"
  by (auto simp: log_entries_def log_entry_def)

lemma log_entry_cong:
  assumes eq: "\<And>x. x \<in> block d N \<Longrightarrow> m x = m' x" and i: "16 * i + 16 \<le> N" and N: "N \<le> 18446744073709551616"
  shows "log_entry m d i = log_entry m' d i"
proof -
  have "block (d + word_of_nat (16 * i)) 8 \<subseteq> block d N" "block (d + word_of_nat (16 * i + 8)) 8 \<subseteq> block d N"
    using i N by (intro block_sub; simp)+
  then have "mem_read m (d + word_of_nat (16 * i)) 8 = mem_read m' (d + word_of_nat (16 * i)) 8"
    "mem_read m (d + word_of_nat (16 * i + 8)) 8 = mem_read m' (d + word_of_nat (16 * i + 8)) 8"
    by (auto intro!: mem_read_cong_block eq)
  then show ?thesis by (simp add: log_entry_def)
qed

lemma log_entries_cong:
  assumes "\<And>x. x \<in> block d N \<Longrightarrow> m x = m' x" "16 * n \<le> N" "N \<le> 18446744073709551616"
  shows "log_entries m d n = log_entries m' d n"
  unfolding log_entries_def using assms by (auto intro!: log_entry_cong [of d N])

section \<open>The invariant\<close>

text \<open>
  The log is granule aligned (the system maps it on a page) and does not wrap
  around the address space, the position is a whole number of entries within it,
  and every logged address is that of a granule.
\<close>

definition wl_geometry :: "wl_env \<Rightarrow> 'a wl_state_scheme \<Rightarrow> bool" where
  "wl_geometry e s \<longleftrightarrow>
     8 dvd unat (wl_data s) \<and> unat (wl_data s) + wl_bytes < 18446744073709551616 \<and>
     8 dvd unat (at_wl_data e) \<and> unat (at_wl_data e) + 8 < 18446744073709551616 \<and>
     8 dvd unat (at_wl_position e) \<and> unat (at_wl_position e) + 8 < 18446744073709551616"

definition wl_inv :: "wl_env \<Rightarrow> 'a wl_state_scheme \<Rightarrow> bool" where
  "wl_inv e s \<longleftrightarrow>
     wl_geometry e s \<and> 16 dvd unat (wl_position s) \<and> unat (wl_position s) \<le> wl_bytes \<and>
     (\<forall>(g, r) \<in> set (wl_entries s). align_down 3 g = g)"

text \<open>For a granule, overlapping a granule-aligned region is lying in it.\<close>

lemma overlaps_granule:
  assumes "align_down 3 g = g" "8 dvd unat p" "8 dvd unat n" "0 < n" "unat p + unat n < 18446744073709551616"
  shows "ltckpt_overlaps g 8 p n \<longleftrightarrow> g \<in> block p (unat n)"
proof -
  let ?G = "unat g" and ?P = "unat p" and ?N = "unat n"
  have g: "8 dvd ?G" using assms(1) by (simp add: align8_iff)
  have N: "0 < ?N" using assms(4) by (simp add: word_less_nat_alt)
  have top: "?G + 8 \<le> 18446744073709551616" using granule_top [of g] assms(1) by simp
  have pn: "unat (p + n) = ?P + ?N" using assms(5) by (simp add: unat_plus_if')
  have step: "?P \<le> ?G \<or> ?G + 8 \<le> ?P"
    using g assms(2) by (elim dvdE) arith
  have g8: "unat (g + 8) = (if ?G + 8 < 18446744073709551616 then ?G + 8 else 0)"
    using top by (auto simp: unat_plus_if')
  have "ltckpt_overlaps g 8 p n \<longleftrightarrow> ?P \<le> ?G \<and> ?G < ?P + ?N"
    unfolding ltckpt_overlaps_def Let_def word_le_nat_alt word_less_nat_alt g8 pn
    using step N by (auto split: if_splits)
  also have "\<dots> \<longleftrightarrow> g \<in> block p ?N"
    using assms(5) by (subst block_nowrap) auto
  finally show ?thesis .
qed

lemma can_restore_iff:
  assumes "wl_geometry e s" "align_down 3 g = g"
  shows "ltckpt_can_restore e s g \<longleftrightarrow> g \<notin> wl_prot e s"
  using assms overlaps_granule [of g "wl_data s" WRITELOG_BYTES]
    overlaps_granule [of g "at_wl_data e" 8] overlaps_granule [of g "at_wl_position e" 8]
  by (simp add: ltckpt_can_restore_def wl_prot_def wl_area_def wl_geometry_def)

lemma prot_granule:
  assumes "wl_geometry e s"
  shows "align_down 3 x \<in> wl_prot e s \<longleftrightarrow> x \<in> wl_prot e s"
  using assms by (simp add: wl_prot_def wl_area_def wl_geometry_def align8_region)

lemma prot_disjoint:
  assumes "wl_geometry e s" "align_down 3 g = g" "g \<notin> wl_prot e s"
  shows "block g 8 \<inter> wl_prot e s = {}"
proof (rule ccontr)
  assume "block g 8 \<inter> wl_prot e s \<noteq> {}"
  then obtain x where x: "x \<in> block g 8" "x \<in> wl_prot e s" by blast
  with granule_iff [of x g] assms(2) have "align_down 3 x = g" by simp
  with prot_granule [OF assms(1), of x] x(2) assms(3) show False by simp
qed

section \<open>What logging does\<close>

lemma write_wl_fields [simp]:
  "wl_data (ltckpt_write_wl p s) = wl_data s"
  "wl_position (ltckpt_write_wl p s) = wl_position s + 16"
  "ctx (ltckpt_write_wl p s) = ctx s"
  by (simp_all add: ltckpt_write_wl_def lt_panic_def Let_def)

lemma write_wl_pmem:
  "pmem (ltckpt_write_wl p s) =
     (let m = mem_write (pmem s) (wl_data s + wl_position s) (ptr_bytes (align_down 3 p))
      in mem_write m (wl_data s + (wl_position s + 8)) (mem_read m (align_down 3 p) 8))"
  by (simp add: ltckpt_write_wl_def lt_panic_def Let_def)

lemma wl_area_fields [simp]:
  "wl_area (ltckpt_write_wl p s) = wl_area s"
  "wl_area (s\<lparr>pmem := m\<rparr>) = wl_area s"
  "wl_area (s\<lparr>wl_position := n\<rparr>) = wl_area s"
  by (simp_all add: wl_area_def)

lemma wl_prot_fields [simp]:
  "wl_prot e (ltckpt_write_wl p s) = wl_prot e s"
  "wl_prot e (s\<lparr>pmem := m\<rparr>) = wl_prot e s"
  "wl_prot e (s\<lparr>wl_position := n\<rparr>) = wl_prot e s"
  by (simp_all add: wl_prot_def)

lemma wl_geometry_fields [simp]:
  "wl_geometry e (ltckpt_write_wl p s) = wl_geometry e s"
  "wl_geometry e (s\<lparr>pmem := m\<rparr>) = wl_geometry e s"
  "wl_geometry e (s\<lparr>wl_position := n\<rparr>) = wl_geometry e s"
  by (simp_all add: wl_geometry_def)

lemma wl_restorable_cong:
  "wl_data s' = wl_data s \<Longrightarrow> wl_restorable b e s' = wl_restorable b e s"
  by (rule ext) (simp add: wl_restorable_def ltckpt_can_restore_def)

lemma write_wl_memory:
  assumes pos: "wl_position s = word_of_nat (16 * n)" and room: "16 * n + 16 \<le> wl_bytes"
    and away: "block (align_down 3 p) 8 \<inter> wl_area s = {}"
  defines "m' \<equiv> pmem (ltckpt_write_wl p s)" and "g \<equiv> align_down 3 p"
  shows "log_entries m' (wl_data s) (Suc n) = log_entries (pmem s) (wl_data s) n @ [(g, mem_read (pmem s) g 8)]"
    and "x \<notin> wl_area s \<Longrightarrow> m' x = pmem s x"
proof -
  let ?d = "wl_data s"
  let ?a = "?d + word_of_nat (16 * n)" and ?r = "?d + word_of_nat (16 * n + 8)"
  define m1 where "m1 = mem_write (pmem s) ?a (ptr_bytes g)"
  have m': "m' = mem_write m1 ?r (mem_read m1 g 8)"
    unfolding m'_def write_wl_pmem m1_def g_def Let_def pos by simp
  have sub: "block ?a 8 \<subseteq> wl_area s" "block ?r 8 \<subseteq> wl_area s"
    unfolding wl_area_def using room by (intro block_sub; simp)+
  have old: "mem_read m1 g 8 = mem_read (pmem s) g 8"
    unfolding m1_def using away sub(1) by (intro mem_read_write_disjoint) (auto simp: g_def)
  have out: "y \<notin> block ?a 8 \<Longrightarrow> y \<notin> block ?r 8 \<Longrightarrow> m' y = pmem s y" for y
    by (simp add: m' m1_def mem_write_out)
  show "x \<notin> wl_area s \<Longrightarrow> m' x = pmem s x"
    using sub by (intro out) blast+
  have ar: "block ?a 8 \<inter> block ?r 8 = {}"
    using room by (intro block_offsets_disjoint; simp)
  have "mem_read m' ?a 8 = ptr_bytes g"
    using ar by (simp add: m' mem_read_write_disjoint m1_def mem_read_write_same)
  moreover have "mem_read m' ?r 8 = mem_read (pmem s) g 8"
    by (simp add: m' old mem_read_write_same)
  ultimately have new: "log_entry m' ?d n = (g, mem_read (pmem s) g 8)"
    by (simp add: log_entry_def del: of_nat_mult of_nat_add)
  have "log_entries m' ?d n = log_entries (pmem s) ?d n"
  proof (rule log_entries_cong [where N = "16 * n"])
    fix x assume x: "x \<in> block ?d (16 * n)"
    have "block (?d + word_of_nat 0) (16 * n) \<inter> block ?a 8 = {}"
      "block (?d + word_of_nat 0) (16 * n) \<inter> block ?r 8 = {}"
      using room by (intro block_offsets_disjoint; simp)+
    then show "m' x = pmem s x" using x by (intro out) auto
  qed (use room in auto)
  then show "log_entries m' ?d (Suc n) = log_entries (pmem s) ?d n @ [(g, mem_read (pmem s) g 8)]"
    by (simp add: log_entries_Suc new)
qed

text \<open>Logging a sequence of addresses appends a snapshot of their granules.\<close>

definition snapshot :: "mem \<Rightarrow> va list \<Rightarrow> (va \<times> u8 list) list" where
  "snapshot m ps = map (\<lambda>p. (align_down 3 p, mem_read m (align_down 3 p) 8)) ps"

lemma snapshot_cong:
  assumes "\<And>x. x \<notin> L \<Longrightarrow> m x = m' x" "\<And>p. p \<in> set ps \<Longrightarrow> block (align_down 3 p) 8 \<inter> L = {}"
  shows "snapshot m ps = snapshot m' ps"
  unfolding snapshot_def using assms by (intro map_cong refl) (auto intro!: mem_read_cong_block)

lemma write_wl_list:
  assumes "wl_position s = word_of_nat (16 * n)" "16 * (n + length ps) \<le> wl_bytes"
    and "\<And>p. p \<in> set ps \<Longrightarrow> block (align_down 3 p) 8 \<inter> wl_area s = {}"
  shows "log_entries (pmem (fold ltckpt_write_wl ps s)) (wl_data s) (n + length ps)
           = log_entries (pmem s) (wl_data s) n @ snapshot (pmem s) ps
       \<and> (\<forall>x. x \<notin> wl_area s \<longrightarrow> pmem (fold ltckpt_write_wl ps s) x = pmem s x)
       \<and> wl_position (fold ltckpt_write_wl ps s) = word_of_nat (16 * (n + length ps))
       \<and> wl_data (fold ltckpt_write_wl ps s) = wl_data s"
  using assms
proof (induction ps arbitrary: s n)
  case Nil
  then show ?case by (simp add: snapshot_def)
next
  case (Cons p ps)
  let ?t = "ltckpt_write_wl p s"
  have out: "pmem ?t x = pmem s x" if "x \<notin> wl_area s" for x
    using write_wl_memory(2) [of s n p x] Cons.prems that by simp
  have one: "log_entries (pmem ?t) (wl_data s) (Suc n)
      = log_entries (pmem s) (wl_data s) n @ [(align_down 3 p, mem_read (pmem s) (align_down 3 p) 8)]"
    using Cons.prems by (intro write_wl_memory(1)) auto
  have snap: "snapshot (pmem ?t) ps = snapshot (pmem s) ps"
    using Cons.prems(3) by (intro snapshot_cong [where L = "wl_area s"] out) auto
  have "wl_position ?t = word_of_nat (16 * Suc n)"
    using Cons.prems(1) by (simp add: distrib_left)
  moreover have "16 * (Suc n + length ps) \<le> wl_bytes" using Cons.prems(2) by simp
  moreover have "block (align_down 3 q) 8 \<inter> wl_area ?t = {}" if "q \<in> set ps" for q
    using Cons.prems(3) that by simp
  ultimately have IH: "log_entries (pmem (fold ltckpt_write_wl ps ?t)) (wl_data ?t) (Suc n + length ps)
           = log_entries (pmem ?t) (wl_data ?t) (Suc n) @ snapshot (pmem ?t) ps
       \<and> (\<forall>x. x \<notin> wl_area ?t \<longrightarrow> pmem (fold ltckpt_write_wl ps ?t) x = pmem ?t x)
       \<and> wl_position (fold ltckpt_write_wl ps ?t) = word_of_nat (16 * (Suc n + length ps))
       \<and> wl_data (fold ltckpt_write_wl ps ?t) = wl_data ?t"
    by (rule Cons.IH)
  have len: "n + length (p # ps) = Suc n + length ps" by simp
  show ?case
    unfolding len using IH out one snap by (simp add: snapshot_def)
qed

text \<open>Undoing a snapshot restores its granules and leaves the rest.\<close>

lemma undo_snapshot:
  "undo (snapshot m ps) m' x = (if \<exists>p \<in> set ps. align_down 3 x = align_down 3 p then m x else m' x)"
proof (induction ps)
  case Nil
  then show ?case by (simp add: snapshot_def)
next
  case (Cons p ps)
  have "undo (snapshot m (p # ps)) m' x
      = mem_write (undo (snapshot m ps) m') (align_down 3 p) (mem_read m (align_down 3 p) 8) x"
    by (simp add: snapshot_def undo_Cons)
  also have "\<dots> = (if align_down 3 x = align_down 3 p then m x else undo (snapshot m ps) m' x)"
    by (auto simp: mem_write_read_in mem_write_out granule_iff)
  finally show ?case using Cons.IH by auto
qed

section \<open>The memcpy hook\<close>

definition memcpy_regs :: "va \<Rightarrow> nat \<Rightarrow> va list" where
  "memcpy_regs reg n = map (\<lambda>i. reg + word_of_nat (8 * i)) [0..<n]"

definition memcpy_count :: "va \<Rightarrow> va \<Rightarrow> nat" where
  "memcpy_count reg endp = (unat endp - unat reg + 7) div 8"

lemma memcpy_regs_Suc: "memcpy_regs reg (Suc n) = reg # memcpy_regs (reg + 8) n"
  unfolding memcpy_regs_def map_upt_Suc by (simp add: distrib_left add.assoc)

lemma memcpy_loop_eq:
  assumes "unat endp + 8 \<le> 18446744073709551616"
  shows "wl_memcpy_loop reg endp s = Some (fold ltckpt_write_wl (memcpy_regs reg (memcpy_count reg endp)) s)"
proof (induction "memcpy_count reg endp" arbitrary: reg s)
  case 0
  then have "\<not> reg < endp" by (auto simp: memcpy_count_def word_less_nat_alt)
  with 0 show ?case by (subst wl_memcpy_loop.simps) (simp add: memcpy_regs_def)
next
  case (Suc n)
  from Suc.hyps(2) have lt: "unat reg < unat endp" by (auto simp: memcpy_count_def)
  then have r8: "unat (reg + 8) = unat reg + 8" using assms by (simp add: unat_plus_if')
  have "unat endp - unat reg + 7 = 8 + (unat endp - (unat reg + 8) + 7) \<or> unat endp - unat reg + 7 < 16"
    using lt by linarith
  then have n: "n = memcpy_count (reg + 8) endp"
    using Suc.hyps(2) lt unfolding memcpy_count_def r8 by linarith
  have "wl_memcpy_loop reg endp s = wl_memcpy_loop (reg + 8) endp (ltckpt_write_wl reg s)"
    using lt by (subst wl_memcpy_loop.simps) (simp add: word_less_nat_alt)
  also have "\<dots> = Some (fold ltckpt_write_wl (memcpy_regs (reg + 8) n) (ltckpt_write_wl reg s))"
    using Suc.hyps(1) [OF n] n by simp
  finally show ?case
    by (simp add: Suc.hyps(2) [symmetric] memcpy_regs_Suc)
qed

text \<open>
  The hook rounds the start down to a multiple of four but steps by granules of
  eight.  It logs every granule of the destination exactly when the start lies in
  the lower half of a granule or the end does not lie in the lower half of one.
\<close>

definition memcpy_covered :: "va \<Rightarrow> nat \<Rightarrow> bool" where
  "memcpy_covered a n \<longleftrightarrow> unat a mod 8 < 4 \<or> (unat a + n) mod 8 = 0 \<or> 4 < (unat a + n) mod 8"

lemma unat_align4: "unat (align_down 2 a) = 4 * (unat a div 4)"
  using unat_align_down [of 2 a] by simp

lemma unat_plus_nat:
  "unat a + n < 18446744073709551616 \<Longrightarrow> unat (a + word_of_nat n :: va) = unat a + n"
  by (simp add: unat_plus_if')

lemma half_granule: "4 * (A div 4) = 8 * (A div 8) + (if A mod 8 < 4 then 0 else 4 :: nat)"
proof -
  define q r where "q = A div 8" and "r = A mod 8"
  have A: "A = 8 * q + r" "r < 8" by (simp_all add: q_def r_def)
  then have "A div 4 = 2 * q + r div 4" by simp
  moreover have "r div 4 = (if r < 4 then 0 else 1)" using A(2) by (auto intro: div_nat_eqI)
  ultimately show ?thesis unfolding q_def [symmetric] r_def [symmetric] by simp
qed

lemma upper_half_below:
  fixes X E :: nat
  assumes "X < E" "E mod 8 = 0 \<or> 4 < E mod 8"
  shows "8 * (X div 8) + 4 < E"
proof -
  define e r where "e = E div 8" and "r = E mod 8"
  have E: "E = 8 * e + r" by (simp add: e_def r_def)
  have "r = 0 \<or> 4 < r" using assms(2) by (simp add: r_def)
  moreover have "X div 8 \<le> e" using assms(1) by (simp add: e_def div_le_mono)
  moreover have "r = 0 \<Longrightarrow> X div 8 < e" using assms(1) E by (simp add: less_mult_imp_div_less mult.commute)
  ultimately show ?thesis unfolding E by auto
qed

lemma upper_half_misses:
  fixes E :: nat
  assumes "8 * k + 4 < E" "0 < E mod 8" "E mod 8 \<le> 4"
  shows "k < (E - 1) div 8"
proof -
  define e r where "e = E div 8" and "r = E mod 8"
  have E: "E = 8 * e + r" by (simp add: e_def r_def)
  have r: "0 < r" "r \<le> 4" using assms(2,3) by (simp_all add: r_def)
  have "k < e" using assms(1) r unfolding E by simp
  moreover have "(E - 1) div 8 = e" using r unfolding E by (intro div_nat_eqI) auto
  ultimately show ?thesis by simp
qed

lemma memcpy_granule_index:
  fixes X E :: nat
  assumes "A \<le> X" "X < E" "A mod 8 < 4 \<or> E mod 8 = 0 \<or> 4 < E mod 8"
  shows "4 * (A div 4) + 8 * (X div 8 - A div 8) < E"
    and "(4 * (A div 4) + 8 * (X div 8 - A div 8)) div 8 = X div 8"
proof -
  have le: "A div 8 \<le> X div 8" using assms(1) by (rule div_le_mono)
  have s: "4 * (A div 4) + 8 * (X div 8 - A div 8) = 8 * (X div 8) + (if A mod 8 < 4 then 0 else 4)"
    using le unfolding half_granule by (simp add: diff_mult_distrib2)
  show "(4 * (A div 4) + 8 * (X div 8 - A div 8)) div 8 = X div 8"
    unfolding s by simp
  show "4 * (A div 4) + 8 * (X div 8 - A div 8) < E"
  proof (cases "A mod 8 < 4")
    case True
    have "8 * (X div 8) \<le> X" by simp
    then show ?thesis using True assms(2) unfolding s by simp
  next
    case False
    then have E: "E mod 8 = 0 \<or> 4 < E mod 8" using assms(3) by simp
    have "8 * (X div 8) + 4 < E" using assms(2) E by (rule upper_half_below)
    then show ?thesis using False unfolding s by simp
  qed
qed

lemma memcpy_regs_cover:
  assumes "memcpy_covered a n" "unat a + n < 18446744073709551616" "x \<in> block a n"
  shows "\<exists>p \<in> set (memcpy_regs (align_down 2 a) (memcpy_count (align_down 2 a) (a + word_of_nat n))).
           align_down 3 x = align_down 3 p"
proof -
  let ?A = "unat a" and ?X = "unat x" and ?R = "unat (align_down 2 a)" and ?E = "unat a + n"
  let ?i = "?X div 8 - ?A div 8"
  have x: "?A \<le> ?X" "?X < ?E" using assms(2,3) by (simp_all add: block_nowrap)
  have R: "?R = 4 * (?A div 4)" by (rule unat_align4)
  from memcpy_granule_index [OF x] assms(1)
  have i: "?R + 8 * ?i < ?E" "(?R + 8 * ?i) div 8 = ?X div 8" by (simp_all add: memcpy_covered_def R)
  have "?i < memcpy_count (align_down 2 a) (a + word_of_nat n)"
    using i(1) unfolding memcpy_count_def unat_plus_nat [OF assms(2)] by linarith
  then have "align_down 2 a + word_of_nat (8 * ?i)
      \<in> set (memcpy_regs (align_down 2 a) (memcpy_count (align_down 2 a) (a + word_of_nat n)))"
    by (auto simp: memcpy_regs_def)
  moreover have "unat (align_down 2 a + word_of_nat (8 * ?i)) = ?R + 8 * ?i"
    using i(1) assms(2) by (intro unat_plus_nat) simp
  then have "align_down 3 x = align_down 3 (align_down 2 a + word_of_nat (8 * ?i))"
    using i(2) by (simp add: word_unat_eq_iff unat_align8)
  ultimately show ?thesis by blast
qed

lemma memcpy_regs_miss:
  assumes "\<not> memcpy_covered a n" "unat a + n < 18446744073709551616" "unat a div 8 < (unat a + n) div 8"
    and "p \<in> set (memcpy_regs (align_down 2 a) (memcpy_count (align_down 2 a) (a + word_of_nat n)))"
  shows "align_down 3 p \<noteq> align_down 3 (a + word_of_nat (n - 1))"
proof -
  let ?A = "unat a" and ?E = "unat a + n" and ?R = "unat (align_down 2 a)"
  have R: "?R = 8 * (?A div 8) + 4"
    using assms(1) unfolding unat_align4 half_granule by (simp add: memcpy_covered_def)
  from assms(4) obtain i where p: "p = align_down 2 a + word_of_nat (8 * i)"
    and i: "i < (?E - ?R + 7) div 8"
    by (auto simp: memcpy_regs_def memcpy_count_def unat_plus_nat [OF assms(2)])
  have E: "0 < ?E mod 8" "?E mod 8 \<le> 4" using assms(1) by (auto simp: memcpy_covered_def)
  have RE: "?R \<le> ?E" using align_down_le [of 2 a] by simp
  have lt: "?R + 8 * i < ?E" using i RE by linarith
  then have up: "unat p = ?R + 8 * i" unfolding p using assms(2) by (intro unat_plus_nat) simp
  have last: "unat (a + word_of_nat (n - 1)) = ?E - 1"
    using assms(2,3) by (subst unat_plus_nat) (cases n; simp)+
  have "?A div 8 + i < (?E - 1) div 8"
    using lt E unfolding R by (intro upper_half_misses) (simp_all add: distrib_left)
  then have "unat p div 8 < (?E - 1) div 8" unfolding up R by simp
  then show ?thesis using last by (auto simp: word_unat_eq_iff unat_align8)
qed

section \<open>Instrumented operations\<close>

text \<open>
  The instrumentation puts the store hook in front of every store and the memcpy
  hook in front of every memory intrinsic; an operation is the hook followed by
  the write itself.
\<close>

datatype wl_op = Store va "u8 list" | Memcpy va "u8 list"

fun wl_step :: "build \<Rightarrow> wl_op \<Rightarrow> 'a wl_state_scheme \<Rightarrow> 'a wl_state_scheme option" where
  "wl_step b (Store a bs) s =
     (let s = wl_store_hook b a s in Some (s\<lparr>pmem := mem_write (pmem s) a bs\<rparr>))"
| "wl_step b (Memcpy a bs) s =
     (case wl_memcpy_hook b a (word_of_nat (length bs)) s of
        None \<Rightarrow> None | Some s \<Rightarrow> Some (s\<lparr>pmem := mem_write (pmem s) a bs\<rparr>))"

fun wl_op_regs :: "wl_op \<Rightarrow> va list" where
  "wl_op_regs (Store a bs) = [a]"
| "wl_op_regs (Memcpy a bs) =
     memcpy_regs (align_down 2 a) (memcpy_count (align_down 2 a) (a + word_of_nat (length bs)))"

fun wl_op_fits :: "wl_op \<Rightarrow> bool" where
  "wl_op_fits (Store a bs) = (unat a mod 8 + length bs \<le> 8)"
| "wl_op_fits (Memcpy a bs) = (memcpy_covered a (length bs) \<and> unat a + length bs + 8 \<le> 18446744073709551616)"

text \<open>
  When an operation is recoverable: the hooks are compiled in, the write stays in
  the granules its hook logs, these are restorable, and the log has room.
\<close>

definition wl_ok :: "build \<Rightarrow> wl_env \<Rightarrow> wl_op \<Rightarrow> 'a wl_state_scheme \<Rightarrow> bool" where
  "wl_ok b e p s \<longleftrightarrow>
     \<not> LTCKPT_EMPTY_UNDOLOG_HOOKS b \<and> wl_op_fits p \<and>
     (\<forall>r \<in> set (wl_op_regs p). wl_restorable b e s (align_down 3 r)) \<and>
     unat (wl_position s) + 16 * length (wl_op_regs p) \<le> wl_bytes"

definition wl_live :: "build \<Rightarrow> wl_env \<Rightarrow> 'a wl_state_scheme \<Rightarrow> (va \<times> u8 list) list" where
  "wl_live b e s = filter (\<lambda>(g, r). wl_restorable b e s g) (wl_entries s)"

definition wl_visible :: "wl_env \<Rightarrow> 'a wl_state_scheme \<Rightarrow> va \<Rightarrow> u8 option" where
  "wl_visible e s x = (if x \<in> wl_prot e s then None else Some (pmem s x))"

definition wl_saved :: "build \<Rightarrow> wl_env \<Rightarrow> 'a wl_state_scheme \<Rightarrow> va \<Rightarrow> u8 option" where
  "wl_saved b e s x = (if x \<in> wl_prot e s then None else Some (undo (wl_live b e s) (pmem s) x))"

definition wl_takes :: "build \<Rightarrow> 'a wl_state_scheme \<Rightarrow> bool" where
  "wl_takes b s \<longleftrightarrow> \<not> LTCKPT_EMPTY_UNDOLOG_HOOKS b
     \<and> fst (ctx_new_tol_or_return (ctx_new_log_size (wl_position s) (ctx s)))"

text \<open>Profiling changes neither memory nor the log.\<close>

lemma wl_frame [simp]:
  "wl_data (upd_window f i s) = wl_data s" "wl_position (upd_window f i s) = wl_position s"
  "wl_data (upd_prof g s) = wl_data s" "wl_position (upd_prof g s) = wl_position s"
  by (simp_all add: upd_window_def upd_prof_def upd_info_def)

lemma wl_step_eq:
  assumes "wl_ok b e p s"
  obtains s' a bs where "wl_step b p s = Some s'" "p = Store a bs \<or> p = Memcpy a bs"
    "pmem s' = mem_write (pmem (fold ltckpt_write_wl (wl_op_regs p) s)) a bs"
    "wl_position s' = wl_position (fold ltckpt_write_wl (wl_op_regs p) s)"
    "wl_data s' = wl_data (fold ltckpt_write_wl (wl_op_regs p) s)"
proof (cases p)
  case (Store a bs)
  with assms that show ?thesis by (simp add: wl_ok_def wl_store_hook_def Let_def)
next
  case (Memcpy a bs)
  with assms have fit: "unat a + length bs + 8 \<le> 18446744073709551616" by (simp add: wl_ok_def)
  then have "unat (a + word_of_nat (length bs)) + 8 \<le> 18446744073709551616"
    by (subst unat_plus_nat) simp_all
  note loop = memcpy_loop_eq [OF this]
  let ?t = "fold ltckpt_write_wl (wl_op_regs p) s"
  let ?u = "if LTCKPT_WINDOW_PROFILING b
            then upd_window (PROFILE_MEMCPY (word_of_nat (length bs))) (current_window ?t) ?t else ?t"
  have "wl_step b p s = Some (?u\<lparr>pmem := mem_write (pmem ?u) a bs\<rparr>)"
    by (simp add: Memcpy wl_memcpy_hook_def loop)
  then show ?thesis using that [of _ a bs] Memcpy by simp
qed

lemma wl_op_covered:
  assumes "wl_op_fits p" "p = Store a bs \<or> p = Memcpy a bs" "x \<in> block a (length bs)"
  shows "\<exists>r \<in> set (wl_op_regs p). align_down 3 x = align_down 3 r"
proof (cases p)
  case (Store a' bs')
  then have p: "p = Store a bs" using assms(2) by simp
  have fit: "unat a mod 8 + length bs \<le> 8" using assms(1) by (simp add: p)
  have A: "unat a = 8 * (unat a div 8) + unat a mod 8" by simp
  have "unat a + length bs \<le> 18446744073709551616"
    using granule_top [of a] fit A unfolding unat_align8 by linarith
  then have x: "unat a \<le> unat x" "unat x < unat a + length bs"
    using assms(3) by (simp_all add: block_nowrap)
  have "8 * (unat a div 8) \<le> unat x" using x A by linarith
  moreover have "unat x < 8 * Suc (unat a div 8)" unfolding mult_Suc_right using x fit A by linarith
  ultimately have "unat x div 8 = unat a div 8" by (rule div_nat_eqI)
  then have "align_down 3 x = align_down 3 a" by (simp add: word_unat_eq_iff unat_align8)
  then show ?thesis by (simp add: p)
next
  case (Memcpy a' bs')
  then have p: "p = Memcpy a bs" using assms(2) by simp
  then show ?thesis using assms(1,3) by (auto intro!: memcpy_regs_cover)
qed

section \<open>The laws of the mechanism\<close>

lemma wl_pos_nat:
  assumes "wl_inv e s"
  obtains n where "wl_position s = word_of_nat (16 * n)" "16 * n \<le> wl_bytes"
    "unat (wl_position s) = 16 * n" "wl_entries s = log_entries (pmem s) (wl_data s) n"
proof -
  from assms obtain n where n: "unat (wl_position s) = 16 * n" by (auto simp: wl_inv_def elim: dvdE)
  then have "wl_position s = word_of_nat (16 * n)"
    by (metis unsigned_of_nat word_unat_eq_iff unat_of_nat_va unat_va_less)
  then show ?thesis using that [of n] n assms by (simp add: wl_inv_def wl_entries_def)
qed

lemma wl_restorable_away:
  assumes "wl_geometry e s" "wl_restorable b e s (align_down 3 p)"
  shows "block (align_down 3 p) 8 \<inter> wl_prot e s = {}"
  using assms can_restore_iff [OF assms(1), of "align_down 3 p"]
  by (intro prot_disjoint) (auto simp: wl_restorable_def)

text \<open>Logging granules and then writing outside the log appends their snapshot.\<close>

lemma wl_log_entries:
  assumes inv: "wl_inv e s" and room: "unat (wl_position s) + 16 * length ps \<le> wl_bytes"
    and res: "\<forall>p \<in> set ps. wl_restorable b e s (align_down 3 p)"
    and out: "\<And>x. x \<in> block a (length bs) \<Longrightarrow> x \<notin> wl_area s"
    and s': "pmem s' = mem_write (pmem (fold ltckpt_write_wl ps s)) a bs"
      "wl_position s' = wl_position (fold ltckpt_write_wl ps s)"
      "wl_data s' = wl_data (fold ltckpt_write_wl ps s)"
  shows "wl_inv e s'" "wl_data s' = wl_data s"
    "wl_entries s' = wl_entries s @ snapshot (pmem s) ps"
    "wl_live b e s' = wl_live b e s @ snapshot (pmem s) ps"
    "\<And>x. x \<notin> wl_area s \<Longrightarrow> pmem s' x = mem_write (pmem s) a bs x"
proof -
  have geo: "wl_geometry e s" using inv by (simp add: wl_inv_def)
  obtain n where n: "wl_position s = word_of_nat (16 * n)" "unat (wl_position s) = 16 * n"
    "wl_entries s = log_entries (pmem s) (wl_data s) n" using wl_pos_nat [OF inv] by blast
  let ?t = "fold ltckpt_write_wl ps s" and ?k = "n + length ps"
  have away: "block (align_down 3 p) 8 \<inter> wl_area s = {}" if "p \<in> set ps" for p
    using wl_restorable_away [OF geo] res that by (fastforce simp: wl_prot_def)
  have k: "16 * ?k \<le> wl_bytes" using room n(2) by simp
  note log = write_wl_list [OF n(1) this away]
  show d: "wl_data s' = wl_data s" using s'(3) log by simp
  have geo': "wl_geometry e s' = wl_geometry e s" by (simp add: wl_geometry_def d)
  have pos: "unat (wl_position s') = 16 * ?k"
    using s'(2) log k by (simp del: of_nat_mult of_nat_add)
  have same: "log_entries (pmem s') (wl_data s) ?k = log_entries (pmem ?t) (wl_data s) ?k"
    using out k by (intro log_entries_cong [where N = wl_bytes])
      (auto simp: s'(1) wl_area_def intro!: mem_write_out)
  have "wl_entries s' = log_entries (pmem s') (wl_data s) ?k" by (simp add: wl_entries_def pos d)
  with same log show entries: "wl_entries s' = wl_entries s @ snapshot (pmem s) ps"
    by (simp add: n(3))
  show "wl_inv e s'"
    using inv room n(2) pos geo' by (auto simp: wl_inv_def entries snapshot_def)
  show "wl_live b e s' = wl_live b e s @ snapshot (pmem s) ps"
    using res by (simp add: wl_live_def entries wl_restorable_cong [OF d] snapshot_def filter_map o_def)
  show "pmem s' x = mem_write (pmem s) a bs x" if "x \<notin> wl_area s" for x
    using log that by (simp add: s'(1) mem_write_def)
qed

text \<open>When the write stays in the granules just logged, what is saved does not change.\<close>

lemma wl_log_write:
  assumes inv: "wl_inv e s" and room: "unat (wl_position s) + 16 * length ps \<le> wl_bytes"
    and res: "\<forall>p \<in> set ps. wl_restorable b e s (align_down 3 p)"
    and cov: "\<And>x. x \<in> block a (length bs) \<Longrightarrow> \<exists>p \<in> set ps. align_down 3 x = align_down 3 p"
    and s': "pmem s' = mem_write (pmem (fold ltckpt_write_wl ps s)) a bs"
      "wl_position s' = wl_position (fold ltckpt_write_wl ps s)"
      "wl_data s' = wl_data (fold ltckpt_write_wl ps s)"
  shows "wl_inv e s' \<and> wl_saved b e s' = wl_saved b e s"
proof -
  have geo: "wl_geometry e s" using inv by (simp add: wl_inv_def)
  have "x \<notin> wl_prot e s" if "x \<in> block a (length bs)" for x
    using cov [OF that] wl_restorable_away [OF geo] res granule_iff by blast
  then have out: "x \<notin> wl_area s" if "x \<in> block a (length bs)" for x
    using that by (auto simp: wl_prot_def)
  note log = wl_log_entries [OF inv room res out s']
  have "undo (snapshot (pmem s) ps) (pmem s') x = pmem s x" if "x \<notin> wl_area s" for x
  proof (cases "x \<in> block a (length bs)")
    case True
    with cov show ?thesis by (simp add: undo_snapshot)
  next
    case False
    with log(5) that show ?thesis by (simp add: undo_snapshot mem_write_out)
  qed
  then have "undo (wl_live b e s) (undo (snapshot (pmem s) ps) (pmem s')) x
      = undo (wl_live b e s) (pmem s) x" if "x \<notin> wl_area s" for x
    using that by (intro undo_cong) blast
  moreover have "wl_area s \<subseteq> wl_prot e s" "wl_prot e s' = wl_prot e s"
    using log(2) by (auto simp: wl_prot_def wl_area_def)
  ultimately show ?thesis
    using log(1) by (auto simp: fun_eq_iff wl_saved_def log(4) undo_append)
qed

lemma wl_step_law:
  assumes "wl_inv e s" "wl_ok b e p s"
  shows "\<exists>s'. wl_step b p s = Some s' \<and> wl_inv e s' \<and> wl_saved b e s' = wl_saved b e s"
proof -
  obtain s' a bs where s': "wl_step b p s = Some s'" "p = Store a bs \<or> p = Memcpy a bs"
    "pmem s' = mem_write (pmem (fold ltckpt_write_wl (wl_op_regs p) s)) a bs"
    "wl_position s' = wl_position (fold ltckpt_write_wl (wl_op_regs p) s)"
    "wl_data s' = wl_data (fold ltckpt_write_wl (wl_op_regs p) s)"
    using wl_step_eq [OF assms(2)] by blast
  have "wl_inv e s' \<and> wl_saved b e s' = wl_saved b e s"
    using assms s' wl_op_covered [OF _ s'(2)]
    by (intro wl_log_write [where ps = "wl_op_regs p"]) (auto simp: wl_ok_def)
  with s'(1) show ?thesis by blast
qed

lemma wl_ckpt_law:
  assumes "wl_inv e s" "wl_takes b s"
  shows "wl_inv e (wl_top_of_the_loop b i s)
       \<and> wl_saved b e (wl_top_of_the_loop b i s) = wl_visible e s"
proof -
  let ?t = "wl_top_of_the_loop b i s"
  have t: "wl_position ?t = 0" "wl_data ?t = wl_data s" "pmem ?t = pmem s"
    using assms(2) by (auto simp: wl_top_of_the_loop_def wl_takes_def Let_def split_beta)
  then have "wl_entries ?t = []" by (simp add: wl_entries_def log_entries_def)
  moreover have "wl_prot e ?t = wl_prot e s" "wl_geometry e ?t = wl_geometry e s"
    by (simp_all add: wl_prot_def wl_area_def wl_geometry_def t)
  ultimately show ?thesis
    using assms(1) t by (auto simp: wl_inv_def wl_saved_def wl_visible_def wl_live_def)
qed

section \<open>Restarting undoes the log\<close>

lemma wl_inv_shorter:
  assumes "wl_inv e s" "wl_position s = word_of_nat (16 * Suc n)" "16 * Suc n \<le> wl_bytes"
    and "wl_data t = wl_data s" "wl_position t = word_of_nat (16 * n)"
    and "\<And>x. x \<in> wl_area s \<Longrightarrow> pmem t x = pmem s x"
  shows "wl_entries s = wl_entries t @ [log_entry (pmem s) (wl_data s) n]" "wl_inv e t"
    "16 * n \<le> wl_bytes"
proof -
  have pos: "unat (wl_position s) = 16 * Suc n" "unat (wl_position t) = 16 * n"
    using assms(2,3,5) by (simp_all del: of_nat_mult of_nat_Suc mult_Suc_right)
  have "log_entries (pmem t) (wl_data s) n = log_entries (pmem s) (wl_data s) n"
    using assms(3,6) by (intro log_entries_cong [where N = wl_bytes]) (auto simp: wl_area_def)
  then show e: "wl_entries s = wl_entries t @ [log_entry (pmem s) (wl_data s) n]"
    by (simp add: wl_entries_def pos assms(4) log_entries_Suc)
  show "wl_inv e t"
    using assms(1,3,4) pos by (auto simp: wl_inv_def wl_geometry_def e)
  show "16 * n \<le> wl_bytes" using assms(3) by simp
qed

lemma wl_restore_step:
  assumes "wl_position s \<ge> 16"
  defines "t \<equiv> s\<lparr>wl_position := wl_position s - 16\<rparr>"
  defines "g \<equiv> bytes_ptr (mem_read (pmem s) (wl_data s + (wl_position s - 16)) 8)"
    and "r \<equiv> mem_read (pmem s) (wl_data s + (wl_position s - 16 + 8)) 8"
  shows "\<exists>st'. wl_restore_loop b e i st s =
     wl_restore_loop b e (i + 1) st'
       (if wl_restorable b e s g then t\<lparr>pmem := mem_write (pmem s) g r\<rparr> else t)"
proof -
  have "ltckpt_can_restore e t g = ltckpt_can_restore e s g"
    by (simp add: ltckpt_can_restore_def t_def)
  then show ?thesis
    using assms(1)
    by (subst wl_restore_loop.simps)
      (auto simp: Let_def wl_restorable_def t_def g_def r_def not_less simp del: diff_add_eq)
qed

text \<open>The loop changes memory and the position, nothing else.\<close>

lemma wl_restore_loop_shape:
  "\<exists>m p. snd (snd (wl_restore_loop b e i st s)) = s\<lparr>pmem := m, wl_position := p\<rparr>"
proof (induction "unat (wl_position s)" arbitrary: i st s rule: less_induct)
  case less
  show ?case
  proof (cases "wl_position s \<ge> 16")
    case True
    define t where "t = s\<lparr>wl_position := wl_position s - 16\<rparr>"
    have dec: "unat (wl_position (t\<lparr>pmem := m\<rparr>)) < unat (wl_position s)"
      "unat (wl_position t) < unat (wl_position s)" for m
      using True by (auto simp: t_def word_le_nat_alt unat_sub)
    obtain st' R g r where "wl_restore_loop b e i st s
        = wl_restore_loop b e (i + 1) st' (if R then t\<lparr>pmem := mem_write (pmem s) g r\<rparr> else t)"
      using wl_restore_step [OF True, of b e i st] unfolding t_def by blast
    then obtain m where "wl_restore_loop b e i st s = wl_restore_loop b e (i + 1) st' (t\<lparr>pmem := m\<rparr>)
        \<or> wl_restore_loop b e i st s = wl_restore_loop b e (i + 1) st' t"
      by (cases R) auto
    moreover have "\<exists>m' p. snd (snd (wl_restore_loop b e (i + 1) st' t)) = t\<lparr>pmem := m', wl_position := p\<rparr>"
      by (rule less) (rule dec)
    moreover have "\<exists>m' p. snd (snd (wl_restore_loop b e (i + 1) st' (t\<lparr>pmem := m\<rparr>)))
        = t\<lparr>pmem := m, pmem := m', wl_position := p\<rparr>"
      by (rule less) (rule dec)
    ultimately show ?thesis by (auto simp: t_def) blast+
  next
    case False
    then have "snd (snd (wl_restore_loop b e i st s)) = s" by (subst wl_restore_loop.simps) simp
    then show ?thesis by (intro exI [of _ "pmem s"] exI [of _ "wl_position s"]) simp
  qed
qed

lemma wl_restart_shape:
  "wl_restart_hook b e s = Some (r, t) \<Longrightarrow> \<exists>m p. t = s\<lparr>pmem := m, wl_position := p\<rparr>"
  using wl_restore_loop_shape [of b e 0 0 s]
  by (auto simp: wl_restart_hook_def Let_def split: prod.splits if_splits)

lemma wl_restore_loop_undo:
  assumes "wl_inv e s" "wl_position s = word_of_nat (16 * n)" "16 * n \<le> wl_bytes"
  shows "\<exists>st'. wl_restore_loop b e i st s =
           (i + word_of_nat n, st', s\<lparr>pmem := undo (wl_live b e s) (pmem s), wl_position := 0\<rparr>)"
  using assms
proof (induction n arbitrary: s i st)
  case 0
  then have "wl_live b e s = []" by (simp add: wl_live_def wl_entries_def log_entries_def)
  with 0 show ?case by (subst wl_restore_loop.simps) simp
next
  case (Suc n)
  let ?d = "wl_data s" and ?m = "pmem s"
  have pos: "unat (wl_position s) = 16 * Suc n"
    using Suc.prems(2,3) by (simp del: of_nat_mult of_nat_Suc mult_Suc_right)
  then have ge: "wl_position s \<ge> 16" by (simp add: word_le_nat_alt)
  have sub: "wl_position s - 16 = word_of_nat (16 * n)"
    using Suc.prems(2) by simp
  obtain g r where gr: "log_entry ?m ?d n = (g, r)" by fastforce
  have g: "bytes_ptr (mem_read ?m (?d + (wl_position s - 16)) 8) = g"
    and r: "mem_read ?m (?d + (wl_position s - 16 + 8)) 8 = r"
    using gr unfolding sub by (auto simp: log_entry_def)
  define u where "u = s\<lparr>wl_position := word_of_nat (16 * n)\<rparr>"
  define t where "t = (if wl_restorable b e s g then u\<lparr>pmem := mem_write ?m g r\<rparr> else u)"
  obtain st' where step: "wl_restore_loop b e i st s = wl_restore_loop b e (i + 1) st' t"
    using wl_restore_step [OF ge, of b e i st] unfolding g r unfolding sub t_def u_def by blast
  have "(g, r) \<in> set (wl_entries s)"
    using gr by (simp add: wl_entries_def pos log_entries_Suc del: mult_Suc_right)
  then have gal: "align_down 3 g = g" and len: "length r = 8"
    using Suc.prems(1) by (auto simp: wl_inv_def wl_entries_def dest: log_entry_length)
  have "pmem t x = ?m x" if "x \<in> wl_area s" for x
    using that prot_disjoint [of e s g] can_restore_iff [of e s g] gal len Suc.prems(1)
    by (auto simp: t_def u_def wl_restorable_def wl_prot_def wl_inv_def intro!: mem_write_out)
  moreover have dp: "wl_data t = ?d" "wl_position t = word_of_nat (16 * n)"
    by (simp_all add: t_def u_def)
  ultimately have t: "wl_entries s = wl_entries t @ [(g, r)]" "wl_inv e t" "16 * n \<le> wl_bytes"
    using wl_inv_shorter [OF Suc.prems, of t] gr by auto
  have rest: "wl_restorable b e t = wl_restorable b e s"
    by (rule wl_restorable_cong) (simp add: dp)
  have "undo (wl_live b e t) (pmem t) = undo (wl_live b e s) ?m"
    by (simp add: wl_live_def t(1) rest undo_append) (simp add: t_def u_def)
  moreover obtain st'' where "wl_restore_loop b e (i + 1) st' t
      = (i + 1 + word_of_nat n, st'', t\<lparr>pmem := undo (wl_live b e t) (pmem t), wl_position := 0\<rparr>)"
    using Suc.IH [OF t(2) dp(2) t(3)] by blast
  moreover have "t\<lparr>pmem := m, wl_position := 0\<rparr> = s\<lparr>pmem := m, wl_position := 0\<rparr>" for m
    by (simp add: t_def u_def)
  ultimately show ?case
    unfolding step by (simp add: add.assoc)
qed

lemma wl_restart_undo:
  assumes "wl_inv e s"
  shows "wl_restart_hook b e s = Some (0, s\<lparr>pmem := undo (wl_live b e s) (pmem s), wl_position := 0\<rparr>)"
proof -
  obtain n where n: "wl_position s = word_of_nat (16 * n)" "16 * n \<le> wl_bytes"
    "unat (wl_position s) = 16 * n" using wl_pos_nat [OF assms] by blast
  have "wl_position s mod 16 = 0"
    by (simp add: word_unat_eq_iff unat_mod n(3))
  moreover have "wl_position s div 16 = word_of_nat n"
    using n(2) by (simp add: word_unat_eq_iff unat_div n(3))
  ultimately show ?thesis
    using wl_restore_loop_undo [OF assms n(1,2), of b 0 0] by (auto simp: wl_restart_hook_def)
qed

definition wl_rollback :: "build \<Rightarrow> wl_env \<Rightarrow> 'a wl_state_scheme \<Rightarrow> 'a wl_state_scheme option" where
  "wl_rollback b e s = (case wl_restart_hook b e s of
     Some (r, s') \<Rightarrow> if r = 0 then Some s' else None | None \<Rightarrow> None)"

lemma wl_rollback_law:
  assumes "wl_inv e s"
  shows "\<exists>s'. wl_rollback b e s = Some s' \<and> wl_inv e s' \<and> wl_visible e s' = wl_saved b e s"
  using assms
  by (auto simp: wl_rollback_def wl_restart_undo [OF assms] wl_inv_def wl_entries_def log_entries_def
      wl_visible_def wl_saved_def fun_eq_iff)

interpretation wl: checkpoint_mechanism "wl_inv e" "wl_visible e" "wl_saved b e" "wl_takes b"
  "wl_top_of_the_loop b i" "wl_step b" "wl_ok b e" "wl_rollback b e"
  for b e i
  by unfold_locales (use wl_ckpt_law wl_step_law wl_rollback_law in blast)+

section \<open>Properties\<close>

text \<open>Concrete values for the witnesses.\<close>

definition demo_build :: build where
  "demo_build = \<lparr>LTCKPT_WINDOW_PROFILING = False, LTCKPT_EMPTY_UNDOLOG_HOOKS = False,
     LTCKPT_LIBCALL_INTERVALS = True, LTCKPT_NO_TSX_FOR_RCVRY_FAIL = False,
     LTCKPT_NOP_UNTIL_SIGNALLED = False, LTCKPT_NO_REG_RESTORATION = False,
     RCVRY_WINDOW_PROFILING = False, RCVRY_DYNAMIC_SWITCH = True, RCVRY_AUTO_ADAPT = False,
     RCVRY_DELAYED_FREE = False, RCVRY_CKPT_DONT_REMEMBER = False,
     RCVRY_CKPT_DEFAULT_TO_UNDOLOG = False, RCVRY_CLOSE_GATE_AFTER = True,
     RCVRY_TSX_NO_SWITCHING = False, TEST_ALTERNATE_TX = False\<rparr>"

definition demo_ctx :: ltckpt_ctx where
  "demo_ctx = \<lparr>lazy_init = 1, skip_mmap = 1, initialized = 0, atexit_dump = 0, exited = 0,
     allow_prctl = 0, checkpoint_interval = 1, pgfault_nesting_level = 0,
     page_statistic_enabled = 0, approach = ''undolog'', errors = 0, num_cows = 0, num_tols = 0,
     num_checkpoints = 0, max_log_size = 0, num_aop_funcs = 0, num_aop_tols = 0\<rparr>"

definition demo_env :: wl_env where
  "demo_env = \<lparr>at_wl_data = 0x600000, at_wl_position = 0x600008, at_num_entries = 0x7fff00000000\<rparr>"

definition demo_window :: ltckpt_window where
  "demo_window = \<lparr>w_type = 0, g_num_hits = 0, c_num_retries = 0, g_num_retries_max = 0,
     g_num_fails = 0, c_num_stores = 0, g_num_stores = 0, c_memcpy_size = 0, g_memcpy_size = 0,
     g_num_stores_max = 0, g_memcpy_size_max = 0, g_undolog_size_max = 0, g_undolog_size_avg = 0\<rparr>"

definition demo_prof :: rcvry_prof where
  "demo_prof = \<lparr>num_hits = 0, num_hits_tsx = 0, num_hits_ckpt = 0,
     num_rcvry_success__switchtxtype = 0, num_rcvry_success__errpath = 0, num_rcvry_successes = 0,
     num_hits_rcvry_branch = 0, libcalls__protected = 0, libcalls__skipped_nonfaultable = 0,
     libcalls__skipped_nousers = 0, num_rcvry_ra__noop = 0, num_rcvry_ra__fail = 0,
     num_rcvry_ra__set_ret_errno = 0, num_rcvry_ra__undo_malloc = 0,
     num_rcvry_ra__undo_memalign = 0, num_rcvry_ra__undo_realloc = 0,
     num_rcvry_ra__close_socket = 0, num_rcvry_ra__close = 0, num_rcvry_ra__dlclose = 0,
     num_rcvry_ra__undo_fork = 0, num_rcvry_ra__undo_addrinfo = 0, num_rcvry_ra__undo_mkdir = 0,
     num_rcvry_ra__undo_mmap = 0, num_rcvry_ra__undo_pthreadmtx_init = 0,
     num_rcvry_ra__undo_pthreadmtx_lock = 0, num_rcvry_ra__delayed_free = 0\<rparr>"

definition demo_info :: rcvry_info where
  "demo_info = \<lparr>ltckpt_type = LTCKPT_TYPE_UNDOLOG, rcvry_type = RCVRY_TYPE_SET_RET_ERRNO,
     argc = 2, argv = (\<lambda>_. 5), rcvry_prof = demo_prof, fault_probability = 0,
     fi_num_hits = 0, sample_count = 0, num_tsx_hits = 0, num_tsx_fails = 0\<rparr>"

definition demo_wl :: wl_state where
  "demo_wl = \<lparr>pmem = (\<lambda>x. word_of_nat (unat x)), ctx = demo_ctx, windows = (\<lambda>_. demo_window),
     current_window = 0, rcvry_current_site_id = 3, rcvry_libcall_gates = (\<lambda>_. LTCKPT_TYPE_UNDOLOG),
     rcvry_infos = (\<lambda>_. demo_info), rcvry_current_tx_type = LTCKPT_TYPE_UNDOLOG,
     wl_data = 0x100000000000, wl_position = 0\<rparr>"

lemmas demo_defs = demo_build_def demo_ctx_def demo_env_def demo_window_def demo_info_def
  demo_wl_def demo_prof_def

lemma demo_wl_simps [simp]:
  "wl_data demo_wl = 0x100000000000" "wl_position demo_wl = 0"
  "LTCKPT_EMPTY_UNDOLOG_HOOKS demo_build = False" "LTCKPT_LIBCALL_INTERVALS demo_build = True"
  "LTCKPT_WINDOW_PROFILING demo_build = False" "RCVRY_WINDOW_PROFILING demo_build = False"
  by (simp_all add: demo_wl_def demo_build_def)

lemma demo_wl_inv: "wl_inv demo_env demo_wl"
  by (simp add: wl_inv_def wl_geometry_def wl_entries_def log_entries_def demo_defs)

lemma demo_wl_takes: "wl_takes demo_build demo_wl"
  by (simp add: wl_takes_def demo_defs ctx_new_log_size_def ctx_new_tol_or_return_def)

text \<open>
  C3: Recovery.  When the top-of-the-loop hook takes a checkpoint and the
  application then runs any sequence of instrumented stores and memory copies
  whose writes stay in the granules their hooks log, the restart hook returns 0,
  leaves the log empty, and every byte outside the log and its two variables is
  what it was at the checkpoint.
\<close>

theorem wl_recovery:
  assumes "wl_inv e s" "wl_takes b s" "ops_ok (wl_ok b e) (wl_step b) ps (wl_top_of_the_loop b i s)"
  shows "\<exists>s' s''. run_ops (wl_step b) ps (wl_top_of_the_loop b i s) = Some s'
           \<and> wl_restart_hook b e s' = Some (0, s'') \<and> wl_position s'' = 0
           \<and> (\<forall>x. x \<notin> wl_prot e s \<longrightarrow> pmem s'' x = pmem s x)"
proof -
  obtain s' where s': "run_ops (wl_step b) ps (wl_top_of_the_loop b i s) = Some s'" "wl_inv e s'"
    and saved: "wl_saved b e s' = wl_visible e s"
    using wl.run_saved [of e "wl_top_of_the_loop b i s" b ps] wl_ckpt_law [OF assms(1,2)] assms(3)
    by auto
  have "undo (wl_live b e s') (pmem s') x = pmem s x" if "x \<notin> wl_prot e s" for x
    using fun_cong [OF saved, of x] that by (auto simp: wl_saved_def wl_visible_def split: if_splits)
  with s'(1) wl_restart_undo [OF s'(2), of b] show ?thesis by simp
qed

theorem wl_recovery_witness:
  "\<exists>s' s''. run_ops (wl_step demo_build) [Store 0x2004 [1, 2, 3, 4], Store 0x3000 [7], Store 0x2000 [9]]
               (wl_top_of_the_loop demo_build 0 demo_wl) = Some s'
           \<and> wl_restart_hook demo_build demo_env s' = Some (0, s'') \<and> wl_position s'' = 0
           \<and> (\<forall>x. x \<notin> wl_prot demo_env demo_wl \<longrightarrow> pmem s'' x = pmem demo_wl x)"
proof (rule wl_recovery [OF demo_wl_inv demo_wl_takes])
  show "ops_ok (wl_ok demo_build demo_env) (wl_step demo_build)
      [Store 0x2004 [1, 2, 3, 4], Store 0x3000 [7], Store 0x2000 [9]]
      (wl_top_of_the_loop demo_build 0 demo_wl)"
    by (simp add: wl_ok_def wl_restorable_def ltckpt_can_restore_def ltckpt_overlaps_def
        wl_store_hook_def wl_top_of_the_loop_def demo_defs ctx_new_log_size_def
        ctx_new_tol_or_return_def align_down_def mask_eq_exp_minus_1 Let_def)
qed

text \<open>
  C4: Refinement.  On a well-formed log the loop of the restart hook, which walks
  bytes in memory from the newest entry to the oldest, computes exactly the undo
  of the list of entries it may restore, consumes the whole log and passes its
  own assertions.
\<close>

theorem wl_restart_refines_undo:
  assumes "wl_inv e s"
  shows "wl_restart_hook b e s =
     Some (0, s\<lparr>pmem := undo (filter (\<lambda>(g, r). wl_restorable b e s g) (wl_entries s)) (pmem s),
               wl_position := 0\<rparr>)"
  using wl_restart_undo [OF assms] by (simp add: wl_live_def)

text \<open>The state after one logged store, whose log is not empty.\<close>

definition demo_wl1 :: wl_state where
  "demo_wl1 = (let s = ltckpt_write_wl 0x2004 demo_wl in s\<lparr>pmem := mem_write (pmem s) 0x2004 [1]\<rparr>)"

lemma demo_wl1_inv: "wl_inv demo_env demo_wl1"
proof -
  have "wl_inv demo_env demo_wl1 \<and> wl_saved demo_build demo_env demo_wl1 = wl_saved demo_build demo_env demo_wl"
    by (rule wl_log_write [OF demo_wl_inv, where ps = "[0x2004]" and a = "0x2004" and bs = "[1]"])
      (auto simp: demo_wl1_def demo_env_def wl_restorable_def ltckpt_can_restore_def ltckpt_overlaps_def
        align_down_def mask_eq_exp_minus_1 block_iff unsigned_eq_0_iff Let_def)
  then show ?thesis ..
qed

theorem wl_restart_refines_undo_witness:
  "\<exists>s'. wl_restart_hook demo_build demo_env demo_wl1 = Some (0, s') \<and> wl_position s' = 0"
  using wl_restart_refines_undo [OF demo_wl1_inv, of demo_build] by simp

text \<open>
  C26: The store hook appends one entry: the granule of the address with the bytes
  it holds before the store.  Nothing outside the log changes and the invariant
  is kept.
\<close>

theorem wl_store_hook_logs:
  assumes "wl_inv e s" "\<not> LTCKPT_EMPTY_UNDOLOG_HOOKS b" "wl_restorable b e s (align_down 3 a)"
    and "unat (wl_position s) + 16 \<le> wl_bytes"
  shows "wl_entries (wl_store_hook b a s)
           = wl_entries s @ [(align_down 3 a, mem_read (pmem s) (align_down 3 a) 8)]
       \<and> (\<forall>x. x \<notin> wl_area s \<longrightarrow> pmem (wl_store_hook b a s) x = pmem s x)
       \<and> wl_inv e (wl_store_hook b a s)"
proof -
  let ?s = "wl_store_hook b a s"
  have "pmem ?s = mem_write (pmem (fold ltckpt_write_wl [a] s)) 0 []"
    "wl_position ?s = wl_position (fold ltckpt_write_wl [a] s)"
    "wl_data ?s = wl_data (fold ltckpt_write_wl [a] s)"
    using assms(2) by (simp_all add: wl_store_hook_def Let_def)
  from wl_log_entries [OF assms(1) _ _ _ this, of b] assms(3,4) show ?thesis
    by (simp add: snapshot_def)
qed

theorem wl_store_hook_logs_witness:
  "wl_entries (wl_store_hook demo_build 0x3005 demo_wl1)
     = wl_entries demo_wl1 @ [(0x3000, mem_read (pmem demo_wl1) 0x3000 8)]"
  using wl_store_hook_logs [OF demo_wl1_inv, of demo_build "0x3005"]
  by (simp add: demo_wl1_def demo_env_def wl_restorable_def ltckpt_can_restore_def ltckpt_overlaps_def
      align_down_def mask_eq_exp_minus_1 Let_def)

text \<open>
  C27: The memcpy hook returns whenever the destination ends at least one granule
  below the top of the address space, and makes one log entry for each step of
  its loop.
\<close>

theorem wl_memcpy_hook_returns:
  assumes "unat a + unat n + 8 \<le> 18446744073709551616"
  shows "\<exists>s'. wl_memcpy_hook b a n s = Some s'
           \<and> wl_position s' = wl_position s + 16 * word_of_nat (memcpy_count (align_down 2 a) (a + n))"
proof -
  have "unat (a + n) + 8 \<le> 18446744073709551616"
    using assms by (simp add: unat_plus_if')
  note loop = memcpy_loop_eq [OF this]
  have pos: "wl_position (fold ltckpt_write_wl ps s) = wl_position s + 16 * word_of_nat (length ps)" for ps
    by (induction ps arbitrary: s) (simp_all add: distrib_left)
  show ?thesis
    by (simp add: wl_memcpy_hook_def loop pos memcpy_regs_def)
qed

theorem wl_memcpy_hook_returns_witness:
  "\<exists>s'. wl_memcpy_hook demo_build 0x2000 32 demo_wl = Some s' \<and> wl_position s' = 64"
  using wl_memcpy_hook_returns [of "0x2000" 32 demo_build demo_wl]
  by (simp add: memcpy_count_def align_down_def mask_eq_exp_minus_1 demo_wl_def)

text \<open>
  C34: A copy the memcpy hook does not cover.  When the destination starts in the
  upper half of a granule and ends in the lower half of a later one, the hook
  rounds to four bytes, steps by eight and misses the last granule: after a
  restart the last byte still holds the copied value instead of the one at the
  checkpoint.
\<close>

theorem wl_memcpy_hook_misses:
  assumes "wl_inv e s" "wl_position s = 0" "\<not> memcpy_covered a (length bs)"
    and "unat a div 8 < (unat a + length bs) div 8" "unat a + length bs + 8 \<le> 18446744073709551616"
    and "\<forall>r \<in> set (wl_op_regs (Memcpy a bs)). wl_restorable b e s (align_down 3 r)"
    and "16 * length (wl_op_regs (Memcpy a bs)) \<le> wl_bytes"
    and "block a (length bs) \<inter> wl_area s = {}"
  shows "\<exists>s' s''. wl_step b (Memcpy a bs) s = Some s' \<and> wl_restart_hook b e s' = Some (0, s'')
           \<and> pmem s'' (a + word_of_nat (length bs - 1)) = last bs"
proof -
  let ?p = "Memcpy a bs" and ?x = "a + word_of_nat (length bs - 1)"
  let ?t = "fold ltckpt_write_wl (wl_op_regs ?p) s"
  have ne: "bs \<noteq> []" using assms(4) by auto
  have lt: "unat a + length bs < 18446744073709551616" using assms(5) by simp
  have "unat (a + word_of_nat (length bs)) + 8 \<le> 18446744073709551616"
    using assms(5) by (subst unat_plus_nat) simp_all
  note loop = memcpy_loop_eq [OF this]
  obtain s' where s': "wl_step b ?p s = Some s'" "pmem s' = mem_write (pmem ?t) a bs"
    "wl_position s' = wl_position ?t" "wl_data s' = wl_data ?t"
    by (simp add: wl_memcpy_hook_def loop)
  have "unat (wl_position s) + 16 * length (wl_op_regs ?p) \<le> wl_bytes" using assms(2,7) by simp
  moreover have "x \<notin> wl_area s" if "x \<in> block a (length bs)" for x
    using assms(8) that by blast
  ultimately have log: "wl_inv e s'" "wl_live b e s' = wl_live b e s @ snapshot (pmem s) (wl_op_regs ?p)"
    using wl_log_entries [OF assms(1) _ assms(6) _ s'(2-4)] by blast+
  have off: "unat (?x - a) = length bs - 1" using lt by simp
  then have x: "?x \<in> block a (length bs)" using ne by (simp add: block_iff)
  have "wl_live b e s = []" by (simp add: wl_live_def wl_entries_def log_entries_def assms(2))
  then have "undo (wl_live b e s') (pmem s') ?x = pmem s' ?x"
    using log(2) memcpy_regs_miss [OF assms(3) lt assms(4)]
    by (simp only: undo_snapshot append_Nil wl_op_regs.simps) metis
  also have "\<dots> = bs ! (length bs - 1)"
    unfolding s'(2) using x by (simp only: mem_write_in off)
  also have "\<dots> = last bs" using ne by (simp add: last_conv_nth)
  finally show ?thesis
    using s'(1) wl_restart_undo [OF log(1), of b] by auto
qed

theorem wl_memcpy_hook_misses_witness:
  "\<exists>s' s''. wl_step demo_build (Memcpy 0x2004 [1, 2, 3, 4, 5, 6, 7, 42]) demo_wl = Some s'
     \<and> wl_restart_hook demo_build demo_env s' = Some (0, s'') \<and> pmem s'' 0x200b = 42"
proof -
  have count: "memcpy_count 0x2004 0x200c = 1" by (simp add: memcpy_count_def)
  have away: "block 0x2004 (length [1 :: u8, 2, 3, 4, 5, 6, 7, 42]) \<inter> wl_area demo_wl = {}"
    by (auto simp: wl_area_def block_nowrap)
  show ?thesis
    using wl_memcpy_hook_misses [OF demo_wl_inv, of "0x2004" "[1, 2, 3, 4, 5, 6, 7, 42]" demo_build] away
    by (simp add: memcpy_covered_def count memcpy_regs_def align_down_def mask_eq_exp_minus_1
        demo_env_def wl_restorable_def ltckpt_can_restore_def ltckpt_overlaps_def del: wl_step.simps)
qed

text \<open>
  Where initialisation asks for the guard page.  The log's size is a whole
  number of pages, so when the system returns a page-aligned log, the page
  directly behind it is not the one requested as a guard: the request is for the
  page after that.
\<close>

theorem ltckpt_init_writelog_guard:
  assumes "ltckpt_init_writelog mmap s w = Some (s', w'')" "4096 dvd unat (wl_data s')"
    and "unat (wl_data s') + wl_bytes + 8192 \<le> 18446744073709551616"
  shows "\<exists>r w'. mmap (wl_data s' + (WRITELOG_BYTES + PAGE_SIZE)) PAGE_SIZE PROT_NONE
                 (mmap_flags_of (LTCKPT_MAP_PRIVATE OR LTCKPT_MAP_NORESERVE)) w' = (r, w'')"
proof -
  let ?d = "wl_data s'"
  obtain k where k: "unat ?d = 4096 * k" using assms(2) by (elim dvdE)
  have u: "unat (?d + WRITELOG_BYTES) = unat ?d + wl_bytes"
    using assms(3) by (simp add: unat_plus_if')
  have "unat ((?d + WRITELOG_BYTES) div PAGE_SIZE) = k + 167772160"
    unfolding unat_div u k by simp
  then have q: "(?d + WRITELOG_BYTES) div PAGE_SIZE = word_of_nat (k + 167772160)"
    by (metis unat_of_nat_va unat_va_less word_unat_eq_iff)
  have "?d = word_of_nat (4096 * k)"
    using k by (metis unat_of_nat_va unat_va_less word_unat_eq_iff)
  then have "PAGE_SIZE * ((?d + WRITELOG_BYTES) div PAGE_SIZE + 1) = ?d + (WRITELOG_BYTES + PAGE_SIZE)"
    unfolding q by (simp add: distrib_left)
  then show ?thesis
    using assms(1)
    by (auto simp: ltckpt_init_writelog_def ltckpt_mmap_def mmap_prot_of_def Let_def add.commute
        split: prod.splits if_splits) blast
qed

definition demo_mmap :: "nat mmap_call" where
  "demo_mmap a l p f w = (if a = 0 then 0x100000000000 else a, Suc w)"

theorem ltckpt_init_writelog_guard_witness:
  "\<exists>r w'. demo_mmap (0x100000000000 + (WRITELOG_BYTES + PAGE_SIZE)) PAGE_SIZE PROT_NONE
             (mmap_flags_of (LTCKPT_MAP_PRIVATE OR LTCKPT_MAP_NORESERVE)) w' = (r, 2)"
  using ltckpt_init_writelog_guard [of demo_mmap demo_wl 0 demo_wl 2]
  by (simp add: ltckpt_init_writelog_def ltckpt_mmap_def demo_mmap_def demo_wl_def)

end
