(* ===== verification/Rcvry.thy ===== *)
theory Rcvry
  imports Writelog
begin

text \<open>
  The recovery library \<open>static/rcvry\<close>: the gates of the library-call sites, the
  recovery actions, their dispatch and the signal handler that ties them to the
  rollback of the undo log.

  The C library and the kernel are a record of functions (\<open>os\<close>) over a state of
  type \<open>'w\<close>.  A handler does not always return: it may exit, fail an assertion,
  fault (a NULL dereference or a call through a NULL pointer), or jump back to
  the registers saved at the top of the window.
\<close>

section \<open>State\<close>

datatype 'a outcome = Returns 'a | Exits int | Aborts | Faults | Jumps 'a

text \<open>
  The functions of the C library and the system that the actions call.  They change the state of
  the operating system and of the library (the heap, descriptors, mutexes), which is a part of its
  own; that they also write to the memory of the program is not modelled.
\<close>

record 'w os =
  os_free :: "va \<Rightarrow> 'w \<Rightarrow> 'w"
  os_close :: "int \<Rightarrow> 'w \<Rightarrow> int \<times> 'w"
  os_dlclose :: "va \<Rightarrow> 'w \<Rightarrow> int \<times> 'w"
  os_waitpid :: "int \<Rightarrow> u32 \<Rightarrow> 'w \<Rightarrow> int \<times> u32 \<times> 'w"
  os_freeaddrinfo :: "va \<Rightarrow> 'w \<Rightarrow> 'w"
  os_rmdir :: "va \<Rightarrow> 'w \<Rightarrow> int \<times> 'w"
  os_munmap :: "va \<Rightarrow> u64 \<Rightarrow> 'w \<Rightarrow> int \<times> 'w"
  os_mutex_destroy :: "va \<Rightarrow> 'w \<Rightarrow> int \<times> 'w"
  os_mutex_unlock :: "va \<Rightarrow> 'w \<Rightarrow> int \<times> 'w"
  os_clone :: "'w \<Rightarrow> int \<times> 'w"
  os_xbegin :: "'w \<Rightarrow> bool \<times> 'w"
  os_xtest :: "'w \<Rightarrow> bool"
  os_xend :: "'w \<Rightarrow> 'w"

datatype rcvry_child_state =
    RCVRY_CHILD_EXIT_OK
  | RCVRY_CHILD_ERROR
  | RCVRY_CHILD_STARTED
  | RCVRY_CHILD_EXIT_FAULTY
  | RCVRY_CHILD_INVALID

text \<open>
  \<open>prev_site_id\<close> and \<open>repeat_count\<close> are the static variables of the signal
  handler, \<open>free_list\<close> and \<open>free_list_pos\<close> the deferred-free list.
\<close>

record 'w rcvry_state = wl_state +
  rcvry_return_value :: va
  rcvry_return_addr :: va
  errno :: int
  rcvry_libcall_max_site_id :: u32
  rcvry_child :: rcvry_child_state
  prev_site_id :: u32
  repeat_count :: u32
  blocked :: "nat set"
  free_list :: "nat \<Rightarrow> va"
  free_list_pos :: int
  rcvry_num_delayed_free_calls :: u32
  auto_adapt_sample_size :: u32
  auto_adapt_threshold :: u32
  auto_adapt_scale :: u32
  ltckpt_tsx_disabled :: bool
  world :: 'w

abbreviation (input) "RCVRY_E_OK \<equiv> 0 :: int"
abbreviation (input) "RCVRY_E_FAIL \<equiv> - 1 :: int"
abbreviation (input) "RCVRY_TSX_RA_SW_FAULT \<equiv> 1 :: int"
abbreviation (input) "RCVRY_TSX_RA_SW_OK \<equiv> 2 :: int"
abbreviation (input) "RCVRY_LIBCALL_GATE_OPEN \<equiv> 1 :: u32"
abbreviation (input) "RCVRY_LIBCALL_GATE_CLOSE \<equiv> 0 :: u32"
abbreviation (input) "ENOMEM \<equiv> 12 :: int"
abbreviation (input) "EACCES \<equiv> 13 :: int"
abbreviation (input) "SIGUSR1 \<equiv> 10 :: nat"
abbreviation (input) "SIGSEGV \<equiv> 11 :: nat"

text \<open>The casts between pointers and \<open>int\<close>, and an \<open>int\<close> in memory.\<close>

definition ptr_to_int :: "va \<Rightarrow> int" where
  "ptr_to_int p = sint (ucast p :: u32)"

definition int_to_ptr :: "int \<Rightarrow> va" where
  "int_to_ptr i = word_of_int i"

definition read_int :: "mem \<Rightarrow> va \<Rightarrow> int" where
  "read_int m a = sint (word_of_nat (le_value (mem_read m a 4)) :: u32)"

definition int_bytes :: "int \<Rightarrow> u8 list" where
  "int_bytes i = le_bytes 4 (unat (word_of_int i :: u32))"

definition read_ptr :: "mem \<Rightarrow> va \<Rightarrow> va" where
  "read_ptr m a = bytes_ptr (mem_read m a 8)"

section \<open>Prologue and epilogue of an action\<close>

definition operate_libcall_gate :: "build \<Rightarrow> 'w rcvry_state \<Rightarrow> 'w rcvry_state" where
  "operate_libcall_gate b s =
     (if RCVRY_CLOSE_GATE_AFTER b then set_gate RCVRY_LIBCALL_GATE_CLOSE s
      else set_gate (rcvry_current_tx_type s) s)"

definition cur_info :: "'w rcvry_state \<Rightarrow> rcvry_info" where
  "cur_info s = rcvry_infos s (rcvry_current_site_id s)"

definition count_ra :: "build \<Rightarrow> (rcvry_prof \<Rightarrow> rcvry_prof) \<Rightarrow> 'w rcvry_state \<Rightarrow> 'w rcvry_state" where
  "count_ra b f s = (if RCVRY_WINDOW_PROFILING b then upd_prof f s else s)"

definition RCVRY_RA_PROLOGUE ::
    "int \<Rightarrow> 'w rcvry_state \<Rightarrow> ((nat \<Rightarrow> va) \<Rightarrow> (int \<times> 'w rcvry_state) outcome)
     \<Rightarrow> (int \<times> 'w rcvry_state) outcome" where
  "RCVRY_RA_PROLOGUE n s body =
     (if argc (cur_info s) = n then body (argv (cur_info s)) else Aborts)"

text \<open>The epilogue stores the low half of the return value through \<open>rcvry_return_addr\<close>.\<close>

definition RCVRY_RA_EPILOGUE :: "build \<Rightarrow> va \<Rightarrow> 'w rcvry_state \<Rightarrow> (int \<times> 'w rcvry_state) outcome" where
  "RCVRY_RA_EPILOGUE b ret s =
     (let s = s\<lparr>rcvry_return_value := ret\<rparr>;
          s = operate_libcall_gate b s
      in if rcvry_return_addr s = 0 then Faults
         else Returns (RCVRY_E_OK,
           s\<lparr>pmem := mem_write (pmem s) (rcvry_return_addr s) (int_bytes (ptr_to_int (rcvry_return_value s)))\<rparr>))"

definition RCVRY_RA_EPILOGUE_ERRNO ::
    "build \<Rightarrow> va \<Rightarrow> int \<Rightarrow> 'w rcvry_state \<Rightarrow> (int \<times> 'w rcvry_state) outcome" where
  "RCVRY_RA_EPILOGUE_ERRNO b ret e s = RCVRY_RA_EPILOGUE b ret (s\<lparr>errno := e\<rparr>)"

section \<open>The actions\<close>

type_synonym 'w action = "'w rcvry_state \<Rightarrow> (int \<times> 'w rcvry_state) outcome"

definition rcvry_ra_noop :: "build \<Rightarrow> 'w action" where
  "rcvry_ra_noop b s =
     (let s = count_ra b (\<lambda>p. p\<lparr>num_rcvry_ra__noop := num_rcvry_ra__noop p + 1\<rparr>) s;
          s = operate_libcall_gate b s
      in RCVRY_RA_EPILOGUE b (int_to_ptr (- 1)) s)"

definition rcvry_ra_fail :: "build \<Rightarrow> 'w action" where
  "rcvry_ra_fail b s =
     (let s = count_ra b (\<lambda>p. p\<lparr>num_rcvry_ra__fail := num_rcvry_ra__fail p + 1\<rparr>) s
      in Returns (RCVRY_E_FAIL, operate_libcall_gate b s))"

definition rcvry_ra_set_ret_errno :: "build \<Rightarrow> 'w action" where
  "rcvry_ra_set_ret_errno b s =
     (let s = count_ra b (\<lambda>p. p\<lparr>num_rcvry_ra__set_ret_errno := num_rcvry_ra__set_ret_errno p + 1\<rparr>) s
      in RCVRY_RA_PROLOGUE 2 s (\<lambda>argv.
           let ret = ptr_to_int (argv 0)
           in RCVRY_RA_EPILOGUE_ERRNO b (int_to_ptr ret) EACCES s))"

text \<open>Freeing what a pointer slot holds, when the slot and its contents are not NULL.\<close>

definition free_through :: "'w os \<Rightarrow> va \<Rightarrow> 'w rcvry_state \<Rightarrow> 'w rcvry_state" where
  "free_through os slot s =
     (if slot \<noteq> 0 \<and> read_ptr (pmem s) slot \<noteq> 0
      then s\<lparr>world := os_free os (read_ptr (pmem s) slot) (world s)\<rparr> else s)"

definition rcvry_ra_undo_malloc :: "build \<Rightarrow> 'w os \<Rightarrow> 'w action" where
  "rcvry_ra_undo_malloc b os s =
     (let s = count_ra b (\<lambda>p. p\<lparr>num_rcvry_ra__undo_malloc := num_rcvry_ra__undo_malloc p + 1\<rparr>) s
      in RCVRY_RA_PROLOGUE 1 s (\<lambda>argv.
           RCVRY_RA_EPILOGUE_ERRNO b 0 ENOMEM (free_through os (argv 0) s)))"

definition rcvry_ra_undo_memalign :: "build \<Rightarrow> 'w os \<Rightarrow> 'w action" where
  "rcvry_ra_undo_memalign b os s =
     (let s = count_ra b (\<lambda>p. p\<lparr>num_rcvry_ra__undo_memalign := num_rcvry_ra__undo_memalign p + 1\<rparr>) s
      in RCVRY_RA_PROLOGUE 1 s (\<lambda>argv.
           RCVRY_RA_EPILOGUE b (int_to_ptr ENOMEM) (free_through os (argv 0) s)))"

text \<open>The local pointer the code assigns is not used afterwards; the memalign counter is bumped.\<close>

definition rcvry_ra_undo_realloc :: "build \<Rightarrow> 'w action" where
  "rcvry_ra_undo_realloc b s =
     (let s = count_ra b (\<lambda>p. p\<lparr>num_rcvry_ra__undo_memalign := num_rcvry_ra__undo_memalign p + 1\<rparr>) s
      in RCVRY_RA_PROLOGUE 2 s (\<lambda>argv. RCVRY_RA_EPILOGUE b 0 s))"

definition rcvry_ra_close_socket :: "build \<Rightarrow> 'w os \<Rightarrow> 'w action" where
  "rcvry_ra_close_socket b os s =
     (let s = count_ra b (\<lambda>p. p\<lparr>num_rcvry_ra__close_socket := num_rcvry_ra__close_socket p + 1\<rparr>) s
      in RCVRY_RA_PROLOGUE 3 s (\<lambda>argv.
           let fd = ptr_to_int (argv 0); set_errno = ptr_to_int (argv 1)
           in if \<not> fd > 0 then Aborts
              else case os_close os fd (world s) of (r, w) \<Rightarrow>
                (let s = s\<lparr>world := w\<rparr>
                 in if r = - 1 then Returns (RCVRY_E_FAIL, s)
                    else RCVRY_RA_EPILOGUE_ERRNO b (int_to_ptr (- 1)) set_errno s)))"

definition rcvry_ra_close :: "build \<Rightarrow> 'w os \<Rightarrow> 'w action" where
  "rcvry_ra_close b os s =
     (let s = count_ra b (\<lambda>p. p\<lparr>num_rcvry_ra__close := num_rcvry_ra__close p + 1\<rparr>) s
      in RCVRY_RA_PROLOGUE 3 s (\<lambda>argv.
           if argv 0 = 0 then Faults
           else let fd = read_int (pmem s) (argv 0);
                    set_retval = ptr_to_int (argv 1);
                    set_errno = ptr_to_int (argv 2);
                    (r, w) = (if fd > 0 then os_close os fd (world s) else (0, world s));
                    s = s\<lparr>world := w\<rparr>
                in if fd > 0 \<and> r = - 1 then Returns (RCVRY_E_FAIL, s)
                   else RCVRY_RA_EPILOGUE_ERRNO b (int_to_ptr set_retval) set_errno s))"

definition rcvry_ra_dlclose :: "build \<Rightarrow> 'w os \<Rightarrow> 'w action" where
  "rcvry_ra_dlclose b os s =
     (let s = count_ra b (\<lambda>p. p\<lparr>num_rcvry_ra__dlclose := num_rcvry_ra__dlclose p + 1\<rparr>) s
      in RCVRY_RA_PROLOGUE 1 s (\<lambda>argv.
           if argv 0 = 0 then Aborts
           else case os_dlclose os (read_ptr (pmem s) (argv 0)) (world s) of (r, w) \<Rightarrow>
             (let s = s\<lparr>world := w\<rparr>
              in if r \<noteq> 0 then Returns (RCVRY_E_FAIL, s)
                 else RCVRY_RA_EPILOGUE b (int_to_ptr (- 1)) s)))"

definition rcvry_ra_undo_fork :: "build \<Rightarrow> 'w os \<Rightarrow> 'w action" where
  "rcvry_ra_undo_fork b os s =
     (let s = count_ra b (\<lambda>p. p\<lparr>num_rcvry_ra__undo_fork := num_rcvry_ra__undo_fork p + 1\<rparr>) s
      in RCVRY_RA_PROLOGUE 1 s (\<lambda>argv.
           if argv 0 = 0 then Faults
           else let ret = read_int (pmem s) (argv 0)
           in if ret = 0 then Exits 0
              else if ret > 0 then
                (case os_waitpid os ret 0 (world s) of (c_id, status, w) \<Rightarrow>
                  (let s = s\<lparr>world := w\<rparr>
                   in if c_id = - 1 then Returns (RCVRY_E_FAIL, s)
                      else RCVRY_RA_EPILOGUE_ERRNO b (int_to_ptr (- 1)) ENOMEM s))
              else Returns (RCVRY_E_FAIL, s)))"

definition rcvry_ra_undo_addrinfo :: "build \<Rightarrow> 'w os \<Rightarrow> 'w action" where
  "rcvry_ra_undo_addrinfo b os s =
     (let s = count_ra b (\<lambda>p. p\<lparr>num_rcvry_ra__undo_addrinfo := num_rcvry_ra__undo_addrinfo p + 1\<rparr>) s
      in RCVRY_RA_PROLOGUE 2 s (\<lambda>argv.
           let res = argv 0; set_ret = ptr_to_int (argv 1);
               s = (if res \<noteq> 0
                    then s\<lparr>world := os_freeaddrinfo os (read_ptr (pmem s) res) (world s)\<rparr> else s)
           in RCVRY_RA_EPILOGUE b (int_to_ptr set_ret) s))"

definition rcvry_ra_undo_mkdir :: "build \<Rightarrow> 'w os \<Rightarrow> 'w action" where
  "rcvry_ra_undo_mkdir b os s =
     (let s = count_ra b (\<lambda>p. p\<lparr>num_rcvry_ra__undo_mkdir := num_rcvry_ra__undo_mkdir p + 1\<rparr>) s
      in RCVRY_RA_PROLOGUE 2 s (\<lambda>argv.
           let path = argv 0; set_errno = ptr_to_int (argv 1)
           in case os_rmdir os path (world s) of (r, w) \<Rightarrow>
             (let s = s\<lparr>world := w\<rparr>
              in if r \<noteq> 0 then Returns (RCVRY_E_FAIL, s)
                 else RCVRY_RA_EPILOGUE_ERRNO b (int_to_ptr (- 1)) set_errno s)))"

text \<open>The \<open>int\<close> length is converted to \<open>size_t\<close> for \<open>munmap\<close>.\<close>

definition rcvry_ra_undo_mmap :: "build \<Rightarrow> 'w os \<Rightarrow> 'w action" where
  "rcvry_ra_undo_mmap b os s =
     (let s = count_ra b (\<lambda>p. p\<lparr>num_rcvry_ra__undo_mmap := num_rcvry_ra__undo_mmap p + 1\<rparr>) s
      in RCVRY_RA_PROLOGUE 3 s (\<lambda>argv.
           let len = ptr_to_int (argv 1); set_errno = ptr_to_int (argv 2)
           in case os_munmap os (argv 0) (word_of_int len) (world s) of (r, w) \<Rightarrow>
             (let s = s\<lparr>world := w\<rparr>
              in if r = - 1 then Returns (RCVRY_E_FAIL, s)
                 else RCVRY_RA_EPILOGUE_ERRNO b (int_to_ptr (- 1)) set_errno s)))"

definition rcvry_ra_undo_pthread_mutex_init :: "build \<Rightarrow> 'w os \<Rightarrow> 'w action" where
  "rcvry_ra_undo_pthread_mutex_init b os s =
     (let s = count_ra b (\<lambda>p. p\<lparr>num_rcvry_ra__undo_pthreadmtx_init :=
                               num_rcvry_ra__undo_pthreadmtx_init p + 1\<rparr>) s
      in RCVRY_RA_PROLOGUE 2 s (\<lambda>argv.
           let mutex = argv 0; set_ret = ptr_to_int (argv 1)
           in case os_mutex_destroy os mutex (world s) of (r, w) \<Rightarrow>
             (let s = s\<lparr>world := w\<rparr>
              in if r = - 1 then Returns (RCVRY_E_FAIL, s)
                 else RCVRY_RA_EPILOGUE b (int_to_ptr set_ret) s)))"

definition rcvry_ra_undo_pthread_mutex_lock :: "build \<Rightarrow> 'w os \<Rightarrow> 'w action" where
  "rcvry_ra_undo_pthread_mutex_lock b os s =
     (let s = count_ra b (\<lambda>p. p\<lparr>num_rcvry_ra__undo_pthreadmtx_lock :=
                               num_rcvry_ra__undo_pthreadmtx_lock p + 1\<rparr>) s
      in RCVRY_RA_PROLOGUE 2 s (\<lambda>argv.
           let mutex = argv 0; set_ret = ptr_to_int (argv 1)
           in case os_mutex_unlock os mutex (world s) of (r, w) \<Rightarrow>
             (let s = s\<lparr>world := w\<rparr>
              in if r = - 1 then Returns (RCVRY_E_FAIL, s)
                 else RCVRY_RA_EPILOGUE b (int_to_ptr set_ret) s)))"

section \<open>The table of actions and the gates\<close>

text \<open>None is a table entry the constructor leaves NULL.\<close>

fun rcvry_actions_map :: "build \<Rightarrow> 'w os \<Rightarrow> rcvry_type \<Rightarrow> 'w action option" where
  "rcvry_actions_map b os RCVRY_TYPE_DEFAULT = Some (rcvry_ra_fail b)"
| "rcvry_actions_map b os RCVRY_TYPE_NOOP = Some (rcvry_ra_noop b)"
| "rcvry_actions_map b os RCVRY_TYPE_FAIL = Some (rcvry_ra_fail b)"
| "rcvry_actions_map b os RCVRY_TYPE_SET_RET_ERRNO = Some (rcvry_ra_set_ret_errno b)"
| "rcvry_actions_map b os RCVRY_TYPE_SET_RET_ERRNO_EACCES = Some (rcvry_ra_set_ret_errno b)"
| "rcvry_actions_map b os RCVRY_TYPE_SET_RET_ERRNO_ENOMEM = Some (rcvry_ra_set_ret_errno b)"
| "rcvry_actions_map b os RCVRY_TYPE_SET_RET_ERRNO_ENOSPC = Some (rcvry_ra_set_ret_errno b)"
| "rcvry_actions_map b os RCVRY_TYPE_SET_RET_ERRNO_EBADF = Some (rcvry_ra_set_ret_errno b)"
| "rcvry_actions_map b os RCVRY_TYPE_SET_RET_ERRNO_EINVAL = Some (rcvry_ra_set_ret_errno b)"
| "rcvry_actions_map b os RCVRY_TYPE_SET_RET_ERRNO_EFAULT = Some (rcvry_ra_set_ret_errno b)"
| "rcvry_actions_map b os RCVRY_TYPE_SET_RET_ERRNO_EMFILE = Some (rcvry_ra_set_ret_errno b)"
| "rcvry_actions_map b os RCVRY_TYPE_SET_RET_ERRNO_ZSTREAM_ERROR = Some (rcvry_ra_set_ret_errno b)"
| "rcvry_actions_map b os RCVRY_TYPE_SET_RET_NULL_ERRNO_ENOMEM = Some (rcvry_ra_set_ret_errno b)"
| "rcvry_actions_map b os RCVRY_TYPE_SET_RET_NULL_ERRNO_EBADF = Some (rcvry_ra_set_ret_errno b)"
| "rcvry_actions_map b os RCVRY_TYPE_HW_TSX = Some (rcvry_ra_noop b)"
| "rcvry_actions_map b os RCVRY_TYPE_UNDO_MALLOC = Some (rcvry_ra_undo_malloc b os)"
| "rcvry_actions_map b os RCVRY_TYPE_UNDO_MEMALIGN = Some (rcvry_ra_undo_memalign b os)"
| "rcvry_actions_map b os RCVRY_TYPE_UNDO_REALLOC = Some (rcvry_ra_fail b)"
| "rcvry_actions_map b os RCVRY_TYPE_UNDO_SETLOCALE = Some (rcvry_ra_set_ret_errno b)"
| "rcvry_actions_map b os RCVRY_TYPE_CLOSE_SOCKET = Some (rcvry_ra_close_socket b os)"
| "rcvry_actions_map b os RCVRY_TYPE_CLOSE_RET_NULL = Some (rcvry_ra_close b os)"
| "rcvry_actions_map b os RCVRY_TYPE_CLOSE = Some (rcvry_ra_close b os)"
| "rcvry_actions_map b os RCVRY_TYPE_DLCLOSE = Some (rcvry_ra_dlclose b os)"
| "rcvry_actions_map b os RCVRY_TYPE_UNDO_FORK = Some (rcvry_ra_undo_fork b os)"
| "rcvry_actions_map b os RCVRY_TYPE_UNDO_ADDRINFO = Some (rcvry_ra_undo_addrinfo b os)"
| "rcvry_actions_map b os RCVRY_TYPE_UNDO_MKDIR = Some (rcvry_ra_undo_mkdir b os)"
| "rcvry_actions_map b os RCVRY_TYPE_UNDO_MMAP = Some (rcvry_ra_undo_mmap b os)"
| "rcvry_actions_map b os RCVRY_TYPE_UNDO_PTHRDMUTX_INIT = Some (rcvry_ra_undo_pthread_mutex_init b os)"
| "rcvry_actions_map b os RCVRY_TYPE_UNDO_PTHRDMUTX_LOCK = Some (rcvry_ra_undo_pthread_mutex_lock b os)"
| "rcvry_actions_map b os RCVRY_TYPE_INVALID = None"
| "rcvry_actions_map b os RCVRY_TYPE_SET_RET_NULL_ERRNO = None"
| "rcvry_actions_map b os RCVRY_TYPE_CKPT_BUFF_PREAD = None"

abbreviation (input) "RCVRY_MAX_LIBCALL_SITES \<equiv> 18196 :: u32"

text \<open>The constructor's loops over the gates; every iteration writes its own site.\<close>

definition initial_gate :: "build \<Rightarrow> u32 \<Rightarrow> rcvry_info \<Rightarrow> u32" where
  "initial_gate b i info =
     (let g = (if ltckpt_type info \<noteq> LTCKPT_TYPE_INVALID then ltckpt_type info
               else if RCVRY_CKPT_DEFAULT_TO_UNDOLOG b then LTCKPT_TYPE_UNDOLOG else LTCKPT_TYPE_TSX)
      in if TEST_ALTERNATE_TX b \<and> even (unat i) then LTCKPT_TYPE_UNDOLOG else g)"

definition rcvry_map_actions :: "build \<Rightarrow> 'a runtime_scheme \<Rightarrow> 'a runtime_scheme" where
  "rcvry_map_actions b s =
     s\<lparr>rcvry_libcall_gates := (\<lambda>i. if i < RCVRY_MAX_LIBCALL_SITES
                                   then initial_gate b i (rcvry_infos s i)
                                   else rcvry_libcall_gates s i)\<rparr>"

section \<open>Dispatch\<close>

definition rcvry_dispatch :: "build \<Rightarrow> 'w os \<Rightarrow> 'w action" where
  "rcvry_dispatch b os s =
     (if \<not> rcvry_current_site_id s \<le> rcvry_libcall_max_site_id s then Aborts
      else case rcvry_actions_map b os (rcvry_type (cur_info s)) of
        None \<Rightarrow> Faults
      | Some ra \<Rightarrow>
          (case ra s of
             Returns (r, s) \<Rightarrow> if r \<noteq> RCVRY_E_OK then Exits 1 else Returns (RCVRY_E_OK, s)
           | other \<Rightarrow> other))"

section \<open>Deferred frees\<close>

abbreviation (input) "RCVRY_FREE_LIST_SIZE \<equiv> 16384 :: int"

definition rcvry_ra_delayed_free :: "va \<Rightarrow> 'w rcvry_state \<Rightarrow> 'w rcvry_state outcome" where
  "rcvry_ra_delayed_free ptr s =
     (let s = s\<lparr>free_list_pos := free_list_pos s + 1\<rparr>
      in if \<not> free_list_pos s < RCVRY_FREE_LIST_SIZE then Aborts
         else Returns (s\<lparr>free_list := (free_list s)(nat (free_list_pos s) := ptr),
                         rcvry_num_delayed_free_calls := rcvry_num_delayed_free_calls s + 1\<rparr>))"

definition rcvry_ra_free_freelist :: "'w os \<Rightarrow> 'w rcvry_state \<Rightarrow> 'w rcvry_state" where
  "rcvry_ra_free_freelist os s =
     (let w = fold (\<lambda>i w. os_free os (free_list s i) w) [0..<nat (free_list_pos s)] (world s)
      in s\<lparr>world := w, free_list_pos := - 1\<rparr>)"

section \<open>Testing a window in a child process\<close>

definition WIFSIGNALED :: "u32 \<Rightarrow> bool" where
  "WIFSIGNALED st \<longleftrightarrow> st AND 0x7f \<noteq> 0 \<and> st AND 0x7f \<noteq> 0x7f"

definition WIFEXITED :: "u32 \<Rightarrow> bool" where
  "WIFEXITED st \<longleftrightarrow> st AND 0x7f = 0"

definition WEXITSTATUS :: "u32 \<Rightarrow> u32" where
  "WEXITSTATUS st = drop_bit 8 st AND 0xff"

definition rcvry_check_swfault_exists :: "'w os \<Rightarrow> 'w action" where
  "rcvry_check_swfault_exists os s =
     (if rcvry_child s = RCVRY_CHILD_STARTED then Exits 1
      else let s = s\<lparr>rcvry_child := RCVRY_CHILD_INVALID\<rparr>;
               (c_pid, w) = os_clone os (world s);
               s = s\<lparr>world := w\<rparr>
      in if c_pid = 0 then Returns (RCVRY_TSX_RA_SW_OK, s\<lparr>rcvry_child := RCVRY_CHILD_STARTED\<rparr>)
      else if c_pid > 0 then
        (case os_waitpid os c_pid 0x80000000 (world s) of (r, c_status, w) \<Rightarrow>
          (let s = s\<lparr>world := w\<rparr>
           in if r = - 1 then Returns (RCVRY_E_FAIL, s)
              else if WIFSIGNALED c_status then Returns (RCVRY_TSX_RA_SW_FAULT, s)
              else if WIFEXITED c_status \<and> WEXITSTATUS c_status = 0 then Returns (RCVRY_TSX_RA_SW_OK, s)
              else Returns (RCVRY_TSX_RA_SW_FAULT, s)))
      else Returns (RCVRY_E_FAIL, s))"

section \<open>The signal handler\<close>

definition is_expected_signal :: "nat \<Rightarrow> bool" where
  "is_expected_signal signo \<longleftrightarrow> SIGUSR1 = signo \<or> SIGSEGV = signo"

text \<open>\<open>sigfillset\<close> puts every signal in the set that is then unblocked.\<close>

definition unblock_sig :: "nat \<Rightarrow> 'w rcvry_state \<Rightarrow> 'w rcvry_state" where
  "unblock_sig signo s = s\<lparr>blocked := blocked s - insert signo UNIV\<rparr>"

type_synonym 'w restart_fn = "'w rcvry_state \<Rightarrow> (int \<times> 'w rcvry_state) option"

definition switch_to_undolog :: "build \<Rightarrow> 'w rcvry_state \<Rightarrow> 'w rcvry_state" where
  "switch_to_undolog b s = set_gate LTCKPT_TYPE_UNDOLOG (set_curr_tx_type b LTCKPT_TYPE_UNDOLOG s)"

text \<open>What follows the loop check of a segmentation fault; the result of the rollback is only printed.\<close>

definition segv_recover :: "build \<Rightarrow> 'w os \<Rightarrow> 'w restart_fn \<Rightarrow> 'w rcvry_state \<Rightarrow> 'w rcvry_state outcome" where
  "segv_recover b os restart s =
     (let s = set_gate RCVRY_LIBCALL_GATE_CLOSE s;
          s = count_ra b (\<lambda>p. p\<lparr>num_rcvry_success__errpath := num_rcvry_success__errpath p + 1\<rparr>) s
      in case rcvry_dispatch b os s of
           Returns (r, s) \<Rightarrow>
             if r = RCVRY_E_FAIL then Exits 1
             else if curr_tx_type b s = LTCKPT_TYPE_UNDOLOG
                  then (case restart s of None \<Rightarrow> Aborts | Some (r_ckpt, s) \<Rightarrow> Returns (unblock_sig SIGSEGV s))
                  else Returns (unblock_sig SIGSEGV s)
         | Exits c \<Rightarrow> Exits c | Aborts \<Rightarrow> Aborts | Faults \<Rightarrow> Faults | Jumps (r, s) \<Rightarrow> Jumps s)"

definition rcvry_signal_action ::
    "build \<Rightarrow> 'w os \<Rightarrow> 'w restart_fn \<Rightarrow> nat \<Rightarrow> 'w rcvry_state \<Rightarrow> 'w rcvry_state outcome" where
  "rcvry_signal_action b os restart signo s =
     (if \<not> is_expected_signal signo then Exits 1
      else let s = count_ra b (\<lambda>p. p\<lparr>num_hits := num_hits p + 1\<rparr>) s;
               finish = (\<lambda>s. Jumps (count_ra b (\<lambda>p. p\<lparr>num_rcvry_successes := num_rcvry_successes p + 1\<rparr>) s))
      in if signo = SIGUSR1
         then finish (count_ra b (\<lambda>p. p\<lparr>num_rcvry_success__switchtxtype :=
                                        num_rcvry_success__switchtxtype p + 1\<rparr>) (switch_to_undolog b s))
         else let same = (prev_site_id s = rcvry_current_site_id s);
                  s = (if same then s\<lparr>repeat_count := repeat_count s + 1\<rparr> else s\<lparr>repeat_count := 0\<rparr>)
              in if same \<and> repeat_count s > 64 then Exits 2
                 else case segv_recover b os restart (s\<lparr>prev_site_id := rcvry_current_site_id s\<rparr>) of
                        Returns s \<Rightarrow> finish s
                      | other \<Rightarrow> other)"

section \<open>The contract of an action\<close>

text \<open>
  Every action shares one contract: when it reports success it has stored its
  return value through \<open>rcvry_return_addr\<close>, operated the gate of its own site
  and changed nothing else the rollback depends on.
\<close>

definition ra_same :: "build \<Rightarrow> 'w rcvry_state \<Rightarrow> 'w rcvry_state \<Rightarrow> bool" where
  "ra_same b s t \<longleftrightarrow>
     rcvry_current_site_id t = rcvry_current_site_id s \<and> wl_data t = wl_data s \<and>
     wl_position t = wl_position s \<and> rcvry_return_addr t = rcvry_return_addr s \<and>
     curr_tx_type b t = curr_tx_type b s \<and> prev_site_id t = prev_site_id s \<and>
     repeat_count t = repeat_count s \<and> rcvry_current_tx_type t = rcvry_current_tx_type s"

definition ra_quiet :: "build \<Rightarrow> 'w rcvry_state \<Rightarrow> 'w rcvry_state \<Rightarrow> bool" where
  "ra_quiet b s t \<longleftrightarrow>
     ra_same b s t \<and> pmem t = pmem s \<and> rcvry_libcall_gates t = rcvry_libcall_gates s"

definition gate_after :: "build \<Rightarrow> 'w rcvry_state \<Rightarrow> u32" where
  "gate_after b s = (if RCVRY_CLOSE_GATE_AFTER b then RCVRY_LIBCALL_GATE_CLOSE else rcvry_current_tx_type s)"

definition ra_done :: "build \<Rightarrow> 'w rcvry_state \<Rightarrow> 'w rcvry_state \<Rightarrow> bool" where
  "ra_done b s t \<longleftrightarrow>
     ra_same b s t \<and> rcvry_return_addr s \<noteq> 0 \<and>
     rcvry_libcall_gates t = (rcvry_libcall_gates s)(rcvry_current_site_id s := gate_after b s) \<and>
     pmem t = mem_write (pmem s) (rcvry_return_addr s) (int_bytes (ptr_to_int (rcvry_return_value t)))"

locale recovery_action =
  fixes b :: build and ra :: "'w action"
  assumes ok_law: "ra s = Returns (RCVRY_E_OK, t) \<Longrightarrow> ra_done b s t"
    and result_law: "ra s = Returns (r, t) \<Longrightarrow> r = RCVRY_E_OK \<or> r = RCVRY_E_FAIL"
    and no_jump: "ra s \<noteq> Jumps x"
begin

lemma ok_gate: "ra s = Returns (RCVRY_E_OK, t) \<Longrightarrow> rcvry_libcall_gates t (rcvry_current_site_id s) = gate_after b s"
  using ok_law by (simp add: ra_done_def)

lemma ok_other_gates:
  "ra s = Returns (RCVRY_E_OK, t) \<Longrightarrow> i \<noteq> rcvry_current_site_id s
   \<Longrightarrow> rcvry_libcall_gates t i = rcvry_libcall_gates s i"
  using ok_law by (simp add: ra_done_def)

end

lemma wl_frame_rcvry [simp]:
  "wl_data (upd_info f s) = wl_data s" "wl_position (upd_info f s) = wl_position s"
  "wl_data (set_gate g s) = wl_data s" "wl_position (set_gate g s) = wl_position s"
  "wl_data (set_curr_tx_type b t s) = wl_data s" "wl_position (set_curr_tx_type b t s) = wl_position s"
  by (simp_all add: upd_info_def set_gate_def set_curr_tx_type_def)

lemma rcvry_frame [simp]:
  "rcvry_return_addr (upd_info f s) = rcvry_return_addr s" "prev_site_id (upd_info f s) = prev_site_id s"
  "repeat_count (upd_info f s) = repeat_count s"
  "rcvry_return_addr (set_gate g s) = rcvry_return_addr s" "prev_site_id (set_gate g s) = prev_site_id s"
  "repeat_count (set_gate g s) = repeat_count s" "rcvry_return_value (set_gate g s) = rcvry_return_value s"
  "rcvry_return_addr (upd_prof h s) = rcvry_return_addr s" "prev_site_id (upd_prof h s) = prev_site_id s"
  "repeat_count (upd_prof h s) = repeat_count s" "errno (set_gate g s) = errno s"
  "world (set_gate g s) = world s" "world (upd_prof h s) = world s" "errno (upd_prof h s) = errno s"
  by (simp_all add: upd_prof_def upd_info_def set_gate_def)

lemma upd_prof_type [simp]: "ltckpt_type (rcvry_infos (upd_prof f s) i) = ltckpt_type (rcvry_infos s i)"
  by (simp add: upd_prof_def upd_info_def)

lemma upd_prof_info [simp]:
  "rcvry_type (rcvry_infos (upd_prof f s) i) = rcvry_type (rcvry_infos s i)"
  "argc (rcvry_infos (upd_prof f s) i) = argc (rcvry_infos s i)"
  "argv (rcvry_infos (upd_prof f s) i) = argv (rcvry_infos s i)"
  by (simp_all add: upd_prof_def upd_info_def)

lemma ra_quiet_refl [simp]: "ra_quiet b s s"
  by (simp add: ra_quiet_def ra_same_def)

lemma ra_quiet_trans: "ra_quiet b s t \<Longrightarrow> ra_quiet b t u \<Longrightarrow> ra_quiet b s u"
  by (simp add: ra_quiet_def ra_same_def)

lemma ra_quiet_steps [simp]:
  "ra_quiet b s (count_ra b' f t) = ra_quiet b s t"
  "ra_quiet b s (t\<lparr>world := w\<rparr>) = ra_quiet b s t"
  "ra_quiet b s (t\<lparr>errno := e\<rparr>) = ra_quiet b s t"
  by (simp_all add: ra_quiet_def ra_same_def count_ra_def curr_tx_type_def)

lemma ra_quiet_free [simp]: "ra_quiet b s (free_through os p t) = ra_quiet b s t"
  by (simp add: free_through_def)

lemma ra_done_quiet:
  "ra_quiet b s t \<Longrightarrow> ra_done b t u \<Longrightarrow> ra_done b s u"
  by (simp add: ra_done_def ra_quiet_def ra_same_def gate_after_def)

lemma epilogue_done:
  assumes "RCVRY_RA_EPILOGUE b ret s = Returns (r, t)"
  shows "ra_done b s t" "r = RCVRY_E_OK" "rcvry_return_value t = ret"
  using assms
  by (auto simp: RCVRY_RA_EPILOGUE_def operate_libcall_gate_def ra_done_def ra_same_def gate_after_def
      curr_tx_type_def Let_def set_gate_def split: if_splits)

lemma epilogue_errno_done:
  assumes "RCVRY_RA_EPILOGUE_ERRNO b ret e s = Returns (r, t)"
  shows "ra_done b s t" "r = RCVRY_E_OK" "rcvry_return_value t = ret"
  using assms epilogue_done [of b ret "s\<lparr>errno := e\<rparr>" r t] ra_done_quiet [of b s "s\<lparr>errno := e\<rparr>" t]
  by (auto simp: RCVRY_RA_EPILOGUE_ERRNO_def)

lemma epilogue_no_jump [simp]:
  "RCVRY_RA_EPILOGUE b ret s \<noteq> Jumps x" "RCVRY_RA_EPILOGUE_ERRNO b ret e s \<noteq> Jumps x"
  by (simp_all add: RCVRY_RA_EPILOGUE_ERRNO_def RCVRY_RA_EPILOGUE_def Let_def)

text \<open>An action that only prepares quietly before one of its epilogues keeps the contract.\<close>

definition ra_ends :: "build \<Rightarrow> 'w rcvry_state \<Rightarrow> (int \<times> 'w rcvry_state) outcome \<Rightarrow> bool" where
  "ra_ends b s res \<longleftrightarrow>
     (case res of
        Returns (r, t) \<Rightarrow> (r = RCVRY_E_OK \<and> ra_done b s t) \<or> r = RCVRY_E_FAIL
      | Jumps x \<Rightarrow> False
      | _ \<Rightarrow> True)"

lemma recovery_actionI:
  assumes "\<And>s. ra_ends b s (ra s)"
  shows "recovery_action b ra"
proof
  fix s t
  show "ra s = Returns (RCVRY_E_OK, t) \<Longrightarrow> ra_done b s t"
    using assms [of s] by (simp add: ra_ends_def)
next
  fix s r t
  show "ra s = Returns (r, t) \<Longrightarrow> r = RCVRY_E_OK \<or> r = RCVRY_E_FAIL"
    using assms [of s] by (auto simp: ra_ends_def)
next
  fix s x
  show "ra s \<noteq> Jumps x" using assms [of s] by (auto simp: ra_ends_def)
qed

lemma ra_ends_simps [simp]:
  "ra_ends b s (Exits c)" "ra_ends b s Aborts" "ra_ends b s Faults"
  "ra_ends b s (Returns (RCVRY_E_FAIL, t))"
  by (simp_all add: ra_ends_def)

lemma ra_ends_epilogue:
  "ra_quiet b s t \<Longrightarrow> ra_ends b s (RCVRY_RA_EPILOGUE b ret t)"
  "ra_quiet b s t \<Longrightarrow> ra_ends b s (RCVRY_RA_EPILOGUE_ERRNO b ret e t)"
  by (auto simp: ra_ends_def split: outcome.splits
      dest: epilogue_done epilogue_errno_done ra_done_quiet)

lemma ra_ends_prologue:
  "(\<And>argv. ra_ends b s (body argv)) \<Longrightarrow> ra_ends b s (RCVRY_RA_PROLOGUE n t body)"
  by (simp add: RCVRY_RA_PROLOGUE_def)

lemmas ra_ends_intros = recovery_actionI ra_ends_prologue ra_ends_epilogue

interpretation fail: recovery_action b "rcvry_ra_fail b" for b
  by (rule recovery_actionI) (simp add: rcvry_ra_fail_def Let_def)

interpretation set_ret_errno: recovery_action b "rcvry_ra_set_ret_errno b" for b
  by (auto intro!: ra_ends_intros simp: rcvry_ra_set_ret_errno_def Let_def)

interpretation undo_malloc: recovery_action b "rcvry_ra_undo_malloc b os" for b os
  by (auto intro!: ra_ends_intros simp: rcvry_ra_undo_malloc_def Let_def)

interpretation undo_memalign: recovery_action b "rcvry_ra_undo_memalign b os" for b os
  by (auto intro!: ra_ends_intros simp: rcvry_ra_undo_memalign_def Let_def)

interpretation undo_realloc: recovery_action b "rcvry_ra_undo_realloc b" for b
  by (auto intro!: ra_ends_intros simp: rcvry_ra_undo_realloc_def Let_def)

interpretation close_socket: recovery_action b "rcvry_ra_close_socket b os" for b os
  by (auto intro!: ra_ends_intros simp: rcvry_ra_close_socket_def Let_def split: prod.split)

interpretation close: recovery_action b "rcvry_ra_close b os" for b os
  by (auto intro!: ra_ends_intros simp: rcvry_ra_close_def Let_def split: prod.split)

interpretation dlclose: recovery_action b "rcvry_ra_dlclose b os" for b os
  by (auto intro!: ra_ends_intros simp: rcvry_ra_dlclose_def Let_def split: prod.split)

interpretation undo_fork: recovery_action b "rcvry_ra_undo_fork b os" for b os
  by (auto intro!: ra_ends_intros simp: rcvry_ra_undo_fork_def Let_def split: prod.split)

interpretation undo_addrinfo: recovery_action b "rcvry_ra_undo_addrinfo b os" for b os
  by (auto intro!: ra_ends_intros simp: rcvry_ra_undo_addrinfo_def Let_def)

interpretation undo_mkdir: recovery_action b "rcvry_ra_undo_mkdir b os" for b os
  by (auto intro!: ra_ends_intros simp: rcvry_ra_undo_mkdir_def Let_def split: prod.split)

interpretation undo_mmap: recovery_action b "rcvry_ra_undo_mmap b os" for b os
  by (auto intro!: ra_ends_intros simp: rcvry_ra_undo_mmap_def Let_def split: prod.split)

interpretation mutex_init: recovery_action b "rcvry_ra_undo_pthread_mutex_init b os" for b os
  by (auto intro!: ra_ends_intros simp: rcvry_ra_undo_pthread_mutex_init_def Let_def split: prod.split)

interpretation mutex_lock: recovery_action b "rcvry_ra_undo_pthread_mutex_lock b os" for b os
  by (auto intro!: ra_ends_intros simp: rcvry_ra_undo_pthread_mutex_lock_def Let_def split: prod.split)

text \<open>\<open>rcvry_ra_noop\<close> operates the gate before its epilogue does it again.\<close>

lemma ra_done_gate: "ra_done b (operate_libcall_gate b s) t \<Longrightarrow> ra_done b s t"
  by (auto simp: ra_done_def ra_same_def operate_libcall_gate_def gate_after_def curr_tx_type_def
      set_gate_def split: if_splits)

interpretation noop: recovery_action b "rcvry_ra_noop b" for b
proof (rule recovery_actionI)
  fix s :: "'a rcvry_state"
  let ?s = "count_ra b (\<lambda>p. p\<lparr>num_rcvry_ra__noop := num_rcvry_ra__noop p + 1\<rparr>) s"
  have "ra_ends b (operate_libcall_gate b ?s)
      (RCVRY_RA_EPILOGUE b (int_to_ptr (- 1)) (operate_libcall_gate b ?s))"
    by (rule ra_ends_epilogue) simp
  then have "ra_ends b ?s (rcvry_ra_noop b s)"
    by (auto simp: ra_ends_def rcvry_ra_noop_def Let_def dest: ra_done_gate split: outcome.splits)
  then show "ra_ends b s (rcvry_ra_noop b s)"
    by (auto simp: ra_ends_def dest: ra_done_quiet [of b s ?s, simplified] split: outcome.splits)
qed

text \<open>The table holds only actions that keep the contract, hence so does dispatch.\<close>

lemma actions_map_contract:
  "rcvry_actions_map b os ty = Some ra \<Longrightarrow> recovery_action b ra"
  by (cases ty)
    (auto intro: fail.recovery_action_axioms noop.recovery_action_axioms
      set_ret_errno.recovery_action_axioms undo_malloc.recovery_action_axioms
      undo_memalign.recovery_action_axioms close_socket.recovery_action_axioms
      close.recovery_action_axioms dlclose.recovery_action_axioms undo_fork.recovery_action_axioms
      undo_addrinfo.recovery_action_axioms undo_mkdir.recovery_action_axioms
      undo_mmap.recovery_action_axioms mutex_init.recovery_action_axioms
      mutex_lock.recovery_action_axioms)

interpretation dispatch: recovery_action b "rcvry_dispatch b os" for b os
proof (rule recovery_actionI)
  fix s :: "'a rcvry_state"
  show "ra_ends b s (rcvry_dispatch b os s)"
    using recovery_action.ok_law [OF actions_map_contract] recovery_action.no_jump [OF actions_map_contract]
    by (fastforce simp: rcvry_dispatch_def ra_ends_def split: option.splits outcome.splits prod.splits if_splits)
qed

section \<open>The handler and the undo log\<close>

lemma wl_same_log:
  assumes "wl_data t = wl_data s" "wl_position t = wl_position s"
    and "unat (wl_position s) \<le> wl_bytes" "\<And>x. x \<in> wl_area s \<Longrightarrow> pmem t x = pmem s x"
  shows "wl_entries t = wl_entries s" "wl_inv e t = wl_inv e s" "wl_live b e t = wl_live b e s"
proof -
  have "16 * (unat (wl_position s) div 16) \<le> wl_bytes" using assms(3) by simp
  then show e: "wl_entries t = wl_entries s"
    unfolding wl_entries_def assms(1,2) using assms(4)
    by (intro log_entries_cong [where N = wl_bytes]) (auto simp: wl_area_def)
  show "wl_inv e t = wl_inv e s" by (simp add: wl_inv_def wl_geometry_def e assms(1,2))
  show "wl_live b e t = wl_live b e s"
    by (simp add: wl_live_def e wl_restorable_cong [OF assms(1)])
qed

lemma length_int_bytes [simp]: "length (int_bytes i) = 4"
  by (simp add: int_bytes_def le_bytes_def)

lemma count_ra_frame [simp]:
  "pmem (count_ra b f s) = pmem s" "wl_data (count_ra b f s) = wl_data s"
  "wl_position (count_ra b f s) = wl_position s"
  "rcvry_libcall_gates (count_ra b f s) = rcvry_libcall_gates s"
  "rcvry_current_site_id (count_ra b f s) = rcvry_current_site_id s"
  "rcvry_return_addr (count_ra b f s) = rcvry_return_addr s"
  "rcvry_return_value (count_ra b f s) = rcvry_return_value s"
  "prev_site_id (count_ra b f s) = prev_site_id s" "repeat_count (count_ra b f s) = repeat_count s"
  "rcvry_current_tx_type (count_ra b f s) = rcvry_current_tx_type s"
  "curr_tx_type b' (count_ra b f s) = curr_tx_type b' s" "errno (count_ra b f s) = errno s"
  by (simp_all add: count_ra_def curr_tx_type_def) (simp_all add: upd_prof_def upd_info_def)

lemma unblock_frame [simp]:
  "pmem (unblock_sig n s) = pmem s" "wl_position (unblock_sig n s) = wl_position s"
  "rcvry_libcall_gates (unblock_sig n s) = rcvry_libcall_gates s"
  "rcvry_current_site_id (unblock_sig n s) = rcvry_current_site_id s"
  "rcvry_return_value (unblock_sig n s) = rcvry_return_value s"
  "prev_site_id (unblock_sig n s) = prev_site_id s" "repeat_count (unblock_sig n s) = repeat_count s"
  by (simp_all add: unblock_sig_def)

lemma segv_recover_returns:
  assumes "segv_recover b os restart s = Returns t"
  obtains s2 where
    "ra_done b (count_ra b (\<lambda>p. p\<lparr>num_rcvry_success__errpath := num_rcvry_success__errpath p + 1\<rparr>)
        (set_gate RCVRY_LIBCALL_GATE_CLOSE s)) s2"
    "if curr_tx_type b s = LTCKPT_TYPE_UNDOLOG
     then \<exists>r u. restart s2 = Some (r, u) \<and> t = unblock_sig SIGSEGV u else t = unblock_sig SIGSEGV s2"
proof -
  let ?s = "count_ra b (\<lambda>p. p\<lparr>num_rcvry_success__errpath := num_rcvry_success__errpath p + 1\<rparr>)
        (set_gate RCVRY_LIBCALL_GATE_CLOSE s)"
  obtain r s2 where d: "rcvry_dispatch b os ?s = Returns (r, s2)"
    and r: "r \<noteq> RCVRY_E_FAIL"
    and t: "(if curr_tx_type b s2 = LTCKPT_TYPE_UNDOLOG
             then case restart s2 of None \<Rightarrow> Aborts | Some (r, u) \<Rightarrow> Returns (unblock_sig SIGSEGV u)
             else Returns (unblock_sig SIGSEGV s2)) = Returns t"
    using assms by (auto simp: segv_recover_def Let_def split: outcome.splits prod.splits if_splits)
  have dn: "ra_done b ?s s2"
    using dispatch.result_law [OF d] r d by (auto intro: dispatch.ok_law)
  then have "curr_tx_type b s2 = curr_tx_type b s"
    by (simp add: ra_done_def ra_same_def) (simp add: curr_tx_type_def)
  with t dn show thesis
    by (intro that) (auto split: option.splits if_splits)
qed

lemma signal_segv_jumps:
  assumes "rcvry_signal_action b os restart SIGSEGV s = Jumps t"
  obtains s1 u where
    "segv_recover b os restart s1 = Returns u"
    "t = count_ra b (\<lambda>p. p\<lparr>num_rcvry_successes := num_rcvry_successes p + 1\<rparr>) u"
    "s1 = (count_ra b (\<lambda>p. p\<lparr>num_hits := num_hits p + 1\<rparr>) s)
       \<lparr>repeat_count := (if prev_site_id s = rcvry_current_site_id s then repeat_count s + 1 else 0),
        prev_site_id := rcvry_current_site_id s\<rparr>"
    "prev_site_id s = rcvry_current_site_id s \<Longrightarrow> repeat_count s + 1 \<le> 64"
proof -
  have nj: "segv_recover b os restart x \<noteq> Jumps y" for x y
    using dispatch.no_jump
    by (fastforce simp: segv_recover_def Let_def split: outcome.splits prod.splits option.splits if_splits)
  show thesis
    using assms that
    by (auto simp: rcvry_signal_action_def is_expected_signal_def Let_def nj not_less
        split: if_splits outcome.splits)
qed

lemma segv_memory:
  assumes "rcvry_signal_action b os (wl_restart_hook b e) SIGSEGV s = Jumps t"
    and inv: "wl_inv e s" and "curr_tx_type b s = LTCKPT_TYPE_UNDOLOG" "RCVRY_CLOSE_GATE_AFTER b"
    and away: "block (rcvry_return_addr s) 4 \<inter> wl_area s = {}"
  shows "pmem t = undo (wl_live b e s)
           (mem_write (pmem s) (rcvry_return_addr s) (int_bytes (ptr_to_int (rcvry_return_value t))))"
    and "wl_position t = 0" "rcvry_current_site_id t = rcvry_current_site_id s"
    and "rcvry_libcall_gates t = (rcvry_libcall_gates s)(rcvry_current_site_id s := RCVRY_LIBCALL_GATE_CLOSE)"
proof -
  obtain s1 u where u: "segv_recover b os (wl_restart_hook b e) s1 = Returns u"
    "t = count_ra b (\<lambda>p. p\<lparr>num_rcvry_successes := num_rcvry_successes p + 1\<rparr>) u"
    and s1: "s1 = (count_ra b (\<lambda>p. p\<lparr>num_hits := num_hits p + 1\<rparr>) s)
       \<lparr>repeat_count := (if prev_site_id s = rcvry_current_site_id s then repeat_count s + 1 else 0),
        prev_site_id := rcvry_current_site_id s\<rparr>"
    using signal_segv_jumps [OF assms(1)] by blast
  have eq: "curr_tx_type b s1 = LTCKPT_TYPE_UNDOLOG"
    using assms(3) unfolding s1 by (simp add: curr_tx_type_def count_ra_def split: if_splits)
  obtain s2 where s2: "ra_done b (count_ra b (\<lambda>p. p\<lparr>num_rcvry_success__errpath := num_rcvry_success__errpath p + 1\<rparr>)
        (set_gate RCVRY_LIBCALL_GATE_CLOSE s1)) s2"
    and r: "\<exists>r v. wl_restart_hook b e s2 = Some (r, v) \<and> u = unblock_sig SIGSEGV v"
    using segv_recover_returns [OF u(1)] eq by auto
  have f: "wl_data s2 = wl_data s" "wl_position s2 = wl_position s"
    "rcvry_current_site_id s2 = rcvry_current_site_id s"
    "pmem s2 = mem_write (pmem s) (rcvry_return_addr s) (int_bytes (ptr_to_int (rcvry_return_value s2)))"
    "rcvry_libcall_gates s2 = (rcvry_libcall_gates s)(rcvry_current_site_id s := RCVRY_LIBCALL_GATE_CLOSE)"
    using s2 assms(4) unfolding s1
    by (simp_all add: ra_done_def ra_same_def gate_after_def set_gate_def)
  have "pmem s2 x = pmem s x" if "x \<in> wl_area s" for x
    using away that unfolding f(4) by (intro mem_write_out) auto
  note log = wl_same_log [OF f(1,2) _ this]
  have inv2: "wl_inv e s2" "wl_live b e s2 = wl_live b e s" using log inv by (auto simp: wl_inv_def)
  obtain v where v: "u = unblock_sig SIGSEGV v" "v = s2\<lparr>pmem := undo (wl_live b e s) (pmem s2), wl_position := 0\<rparr>"
    using r wl_restart_undo [OF inv2(1), of b] inv2(2) by auto
  show "wl_position t = 0" "rcvry_current_site_id t = rcvry_current_site_id s"
    "rcvry_libcall_gates t = (rcvry_libcall_gates s)(rcvry_current_site_id s := RCVRY_LIBCALL_GATE_CLOSE)"
    by (simp_all add: u(2) v f)
  have "rcvry_return_value t = rcvry_return_value s2" by (simp add: u(2) v)
  then show "pmem t = undo (wl_live b e s)
           (mem_write (pmem s) (rcvry_return_addr s) (int_bytes (ptr_to_int (rcvry_return_value t))))"
    by (simp add: u(2) v f(4))
qed

section \<open>Repeated recovery\<close>

text \<open>The rollback leaves the variables of the recovery library alone.\<close>

lemma wl_restart_frame:
  fixes s :: "'w rcvry_state"
  assumes "wl_restart_hook b e s = Some (r, t)"
  shows "prev_site_id t = prev_site_id s" "repeat_count t = repeat_count s"
    "rcvry_current_site_id t = rcvry_current_site_id s"
  using wl_restart_shape [OF assms] by auto

lemma segv_counts:
  assumes "rcvry_signal_action b os (wl_restart_hook b e) SIGSEGV s = Jumps t"
  shows "prev_site_id t = rcvry_current_site_id s" "rcvry_current_site_id t = rcvry_current_site_id s"
    "repeat_count t = (if prev_site_id s = rcvry_current_site_id s then repeat_count s + 1 else 0)"
    "prev_site_id s = rcvry_current_site_id s \<Longrightarrow> repeat_count s + 1 \<le> 64"
proof -
  obtain s1 u where u: "segv_recover b os (wl_restart_hook b e) s1 = Returns u"
    "t = count_ra b (\<lambda>p. p\<lparr>num_rcvry_successes := num_rcvry_successes p + 1\<rparr>) u"
    and s1: "s1 = (count_ra b (\<lambda>p. p\<lparr>num_hits := num_hits p + 1\<rparr>) s)
       \<lparr>repeat_count := (if prev_site_id s = rcvry_current_site_id s then repeat_count s + 1 else 0),
        prev_site_id := rcvry_current_site_id s\<rparr>"
    and le: "prev_site_id s = rcvry_current_site_id s \<Longrightarrow> repeat_count s + 1 \<le> 64"
    using signal_segv_jumps [OF assms] by blast
  show "prev_site_id s = rcvry_current_site_id s \<Longrightarrow> repeat_count s + 1 \<le> 64" by (rule le)
  obtain s2 where s2: "ra_done b (count_ra b (\<lambda>p. p\<lparr>num_rcvry_success__errpath := num_rcvry_success__errpath p + 1\<rparr>)
        (set_gate RCVRY_LIBCALL_GATE_CLOSE s1)) s2"
    and r': "if curr_tx_type b s1 = LTCKPT_TYPE_UNDOLOG
       then \<exists>r v. wl_restart_hook b e s2 = Some (r, v) \<and> u = unblock_sig SIGSEGV v
       else u = unblock_sig SIGSEGV s2"
    by (rule segv_recover_returns [OF u(1)])
  from r' have r: "(\<exists>r v. wl_restart_hook b e s2 = Some (r, v) \<and> u = unblock_sig SIGSEGV v)
      \<or> u = unblock_sig SIGSEGV s2"
    by (simp split: if_splits)
  have "prev_site_id u = prev_site_id s2 \<and> repeat_count u = repeat_count s2
      \<and> rcvry_current_site_id u = rcvry_current_site_id s2"
    using r wl_restart_frame [of b e s2] by auto
  then show "prev_site_id t = rcvry_current_site_id s" "rcvry_current_site_id t = rcvry_current_site_id s"
    "repeat_count t = (if prev_site_id s = rcvry_current_site_id s then repeat_count s + 1 else 0)"
    using s2 unfolding u(2) s1 by (simp_all add: ra_done_def ra_same_def)
qed

text \<open>
  \<open>recoveries n s t\<close>: the handler has jumped back \<open>n\<close> times for faults in the
  same window; between two faults the application runs, which does not touch the
  handler's variables and stays at its site.
\<close>

inductive recoveries :: "build \<Rightarrow> 'w os \<Rightarrow> wl_env \<Rightarrow> nat \<Rightarrow> 'w rcvry_state \<Rightarrow> 'w rcvry_state \<Rightarrow> bool"
  for b os e where
  start: "recoveries b os e 0 s s"
| again: "recoveries b os e n s t \<Longrightarrow>
    rcvry_current_site_id u = rcvry_current_site_id t \<Longrightarrow> prev_site_id u = prev_site_id t \<Longrightarrow>
    repeat_count u = repeat_count t \<Longrightarrow>
    rcvry_signal_action b os (wl_restart_hook b e) SIGSEGV u = Jumps v \<Longrightarrow>
    recoveries b os e (Suc n) s v"

lemma recoveries_count:
  assumes "recoveries b os e n s t" "repeat_count s \<le> 64"
  shows "unat (repeat_count t) \<le> 64 \<and>
    (n > 0 \<longrightarrow> prev_site_id t = rcvry_current_site_id t \<and> n \<le> unat (repeat_count t) + 1)"
  using assms
proof (induction rule: recoveries.induct)
  case (start s)
  then show ?case by (simp add: word_le_nat_alt)
next
  case (again n s t u v)
  note c = segv_counts [OF again.hyps(5)]
  have le: "unat (repeat_count u) \<le> 64" using again by simp
  have suc: "unat (repeat_count u + 1) = unat (repeat_count u) + 1"
    using le by (simp add: unat_plus_if')
  show ?case
  proof (cases "prev_site_id u = rcvry_current_site_id u")
    case True
    have "unat (repeat_count u + 1) \<le> 64" using c(4) [OF True] by (simp add: word_le_nat_alt)
    then show ?thesis
      using True c(1-3) suc again.IH [OF again.prems] again.hyps(2-4) by (cases "n = 0") simp_all
  next
    case False
    then have "n = 0" using again.IH [OF again.prems] again.hyps(2,3) by auto
    then show ?thesis using False c(1-3) by simp
  qed
qed

section \<open>Deferred frees: what the list holds\<close>

fun delay_all :: "va list \<Rightarrow> 'w rcvry_state \<Rightarrow> 'w rcvry_state outcome" where
  "delay_all [] s = Returns s"
| "delay_all (p # ps) s = (case rcvry_ra_delayed_free p s of Returns t \<Rightarrow> delay_all ps t | other \<Rightarrow> other)"

lemma delay_all_list:
  assumes "free_list_pos s = int k - 1" "k + length ps \<le> 16384"
  shows "\<exists>t. delay_all ps s = Returns t \<and> free_list_pos t = int (k + length ps) - 1 \<and> world t = world s
           \<and> (\<forall>i < k. free_list t i = free_list s i)
           \<and> (\<forall>i < length ps. free_list t (k + i) = ps ! i)"
  using assms
proof (induction ps arbitrary: s k)
  case (Cons p ps)
  let ?s = "s\<lparr>free_list_pos := int k, free_list := (free_list s)(k := p),
              rcvry_num_delayed_free_calls := rcvry_num_delayed_free_calls s + 1\<rparr>"
  have step: "rcvry_ra_delayed_free p s = Returns ?s"
    using Cons.prems by (simp add: rcvry_ra_delayed_free_def Let_def)
  obtain t where t: "delay_all ps ?s = Returns t" "free_list_pos t = int (Suc k + length ps) - 1"
    "world t = world ?s" "\<forall>i < Suc k. free_list t i = free_list ?s i"
    "\<forall>i < length ps. free_list t (Suc k + i) = ps ! i"
    using Cons.IH [of ?s "Suc k"] Cons.prems by auto
  have "free_list t (k + i) = (p # ps) ! i" if "i < length (p # ps)" for i
    using t(4,5) that by (cases i) auto
  then show ?case using t step by auto
qed simp

section \<open>Properties\<close>

text \<open>Concrete values for the witnesses: the system records its calls.\<close>

definition demo_os :: "(string \<times> int) list os" where
  "demo_os = \<lparr>os_free = (\<lambda>p w. (''free'', uint p) # w), os_close = (\<lambda>fd w. (0, (''close'', fd) # w)),
     os_dlclose = (\<lambda>p w. (0, w)), os_waitpid = (\<lambda>p f w. (p, 0, w)), os_freeaddrinfo = (\<lambda>p w. w),
     os_rmdir = (\<lambda>p w. (0, w)), os_munmap = (\<lambda>p l w. (0, w)), os_mutex_destroy = (\<lambda>p w. (0, w)),
     os_mutex_unlock = (\<lambda>p w. (0, w)), os_clone = (\<lambda>w. (7, w)), os_xbegin = (\<lambda>w. (False, w)),
     os_xtest = (\<lambda>w. False), os_xend = (\<lambda>w. w)\<rparr>"

definition demo_rcvry :: "rcvry_type \<Rightarrow> (string \<times> int) list rcvry_state" where
  "demo_rcvry ty = wl_state.extend (demo_wl\<lparr>rcvry_infos := (\<lambda>_. demo_info\<lparr>rcvry_type := ty\<rparr>)\<rparr>)
     \<lparr>rcvry_return_value = 0, rcvry_return_addr = 0x5000, errno = 0, rcvry_libcall_max_site_id = 10,
      rcvry_child = RCVRY_CHILD_INVALID, prev_site_id = 0, repeat_count = 0, blocked = {11},
      free_list = (\<lambda>_. 0), free_list_pos = - 1, rcvry_num_delayed_free_calls = 0,
      auto_adapt_sample_size = 4, auto_adapt_threshold = 50, auto_adapt_scale = 1,
      ltckpt_tsx_disabled = False, world = []\<rparr>"

lemmas demo_rcvry_defs = demo_rcvry_def demo_defs wl_state.extend_def

text \<open>
  C10: The contract of dispatch.  When a recovery action is dispatched and control
  returns, it reports success; the gate of the current site is closed, every
  other gate is as before, exactly the four bytes at \<open>rcvry_return_addr\<close> changed
  in memory, to the action's return value, and the undo log is untouched.
\<close>

theorem rcvry_dispatch_contract:
  assumes "rcvry_dispatch b os s = Returns (r, t)" "RCVRY_CLOSE_GATE_AFTER b"
  shows "r = RCVRY_E_OK \<and> rcvry_return_addr s \<noteq> 0
       \<and> rcvry_libcall_gates t = (rcvry_libcall_gates s)(rcvry_current_site_id s := RCVRY_LIBCALL_GATE_CLOSE)
       \<and> pmem t = mem_write (pmem s) (rcvry_return_addr s) (int_bytes (ptr_to_int (rcvry_return_value t)))
       \<and> wl_data t = wl_data s \<and> wl_position t = wl_position s"
proof -
  have "r = RCVRY_E_OK"
    using assms(1) by (auto simp: rcvry_dispatch_def split: if_splits option.splits outcome.splits prod.splits)
  with dispatch.ok_law [of b os s t] assms show ?thesis
    by (simp add: ra_done_def ra_same_def gate_after_def)
qed

theorem rcvry_dispatch_contract_witness:
  "\<exists>t. rcvry_dispatch demo_build demo_os (demo_rcvry RCVRY_TYPE_SET_RET_ERRNO) = Returns (0, t)
     \<and> rcvry_libcall_gates t 3 = RCVRY_LIBCALL_GATE_CLOSE \<and> rcvry_libcall_gates t 4 = LTCKPT_TYPE_UNDOLOG"
proof -
  obtain t where t: "rcvry_dispatch demo_build demo_os (demo_rcvry RCVRY_TYPE_SET_RET_ERRNO) = Returns (0, t)"
    by (simp add: rcvry_dispatch_def cur_info_def demo_rcvry_defs rcvry_ra_set_ret_errno_def count_ra_def
        RCVRY_RA_PROLOGUE_def RCVRY_RA_EPILOGUE_ERRNO_def RCVRY_RA_EPILOGUE_def operate_libcall_gate_def
        set_gate_def Let_def)
  then show ?thesis
    using rcvry_dispatch_contract [OF t] by (simp add: demo_rcvry_defs)
qed

text \<open>
  Three recovery types have no action: the constructor leaves their table
  entries NULL, and dispatching one of them calls through a NULL pointer.
\<close>

theorem rcvry_dispatch_no_action:
  assumes "rcvry_current_site_id s \<le> rcvry_libcall_max_site_id s"
    and "rcvry_type (cur_info s) \<in> {RCVRY_TYPE_INVALID, RCVRY_TYPE_SET_RET_NULL_ERRNO,
           RCVRY_TYPE_CKPT_BUFF_PREAD}"
  shows "rcvry_dispatch b os s = Faults"
  using assms by (auto simp: rcvry_dispatch_def)

theorem rcvry_dispatch_no_action_witness:
  "rcvry_dispatch demo_build demo_os (demo_rcvry RCVRY_TYPE_SET_RET_NULL_ERRNO) = Faults"
  using rcvry_dispatch_no_action [of "demo_rcvry RCVRY_TYPE_SET_RET_NULL_ERRNO" demo_build demo_os]
  by (simp add: demo_rcvry_defs cur_info_def)

text \<open>
  The types that name an error code do not set it.  Whatever errno the type
  \<open>SET_RET_ERRNO_*\<close> promises, a dispatch that returns leaves \<open>EACCES\<close>.
\<close>

theorem set_ret_errno_always_EACCES:
  assumes "rcvry_dispatch b os s = Returns (r, t)"
    and "rcvry_type (cur_info s) \<in> {RCVRY_TYPE_SET_RET_ERRNO_ENOMEM, RCVRY_TYPE_SET_RET_ERRNO_ENOSPC,
           RCVRY_TYPE_SET_RET_ERRNO_EBADF, RCVRY_TYPE_SET_RET_ERRNO_EINVAL,
           RCVRY_TYPE_SET_RET_ERRNO_EFAULT, RCVRY_TYPE_SET_RET_ERRNO_EMFILE,
           RCVRY_TYPE_SET_RET_NULL_ERRNO_ENOMEM, RCVRY_TYPE_SET_RET_NULL_ERRNO_EBADF}"
  shows "errno t = EACCES"
proof -
  have "rcvry_actions_map b os (rcvry_type (cur_info s)) = Some (rcvry_ra_set_ret_errno b)"
    using assms(2) by auto
  then have "rcvry_ra_set_ret_errno b s = Returns (RCVRY_E_OK, t)"
    using assms(1)
    by (auto simp: rcvry_dispatch_def split: if_splits outcome.splits prod.splits)
  then show ?thesis
    by (auto simp: rcvry_ra_set_ret_errno_def RCVRY_RA_PROLOGUE_def RCVRY_RA_EPILOGUE_ERRNO_def
        RCVRY_RA_EPILOGUE_def operate_libcall_gate_def set_gate_def Let_def split: if_splits)
qed

theorem set_ret_errno_always_EACCES_witness:
  "\<exists>t. rcvry_dispatch demo_build demo_os (demo_rcvry RCVRY_TYPE_SET_RET_ERRNO_ENOMEM) = Returns (0, t)
     \<and> errno t = EACCES"
proof -
  obtain t where t: "rcvry_dispatch demo_build demo_os (demo_rcvry RCVRY_TYPE_SET_RET_ERRNO_ENOMEM) = Returns (0, t)"
    by (simp add: rcvry_dispatch_def cur_info_def demo_rcvry_defs rcvry_ra_set_ret_errno_def count_ra_def
        RCVRY_RA_PROLOGUE_def RCVRY_RA_EPILOGUE_ERRNO_def RCVRY_RA_EPILOGUE_def operate_libcall_gate_def
        set_gate_def Let_def)
  then show ?thesis
    using set_ret_errno_always_EACCES [OF t] by (simp add: demo_rcvry_defs cur_info_def)
qed

text \<open>
  \<open>SIGUSR1\<close>, sent when a transaction cannot be started, makes the site use
  the undo log from now on and jumps back to the top of the window: the
  transaction type and the gate of the site become undo log, no other gate and no
  byte of memory changes.
\<close>

theorem sigusr1_switches:
  "\<exists>t. rcvry_signal_action b os restart SIGUSR1 s = Jumps t
     \<and> curr_tx_type b t = LTCKPT_TYPE_UNDOLOG
     \<and> rcvry_libcall_gates t = (rcvry_libcall_gates s)(rcvry_current_site_id s := LTCKPT_TYPE_UNDOLOG)
     \<and> pmem t = pmem s \<and> wl_position t = wl_position s"
proof -
  have "curr_tx_type b (set_gate g u) = curr_tx_type b u" for g and u :: "'a rcvry_state"
    by (simp add: curr_tx_type_def)
  then show ?thesis
    by (simp add: rcvry_signal_action_def is_expected_signal_def switch_to_undolog_def Let_def)
      (simp add: set_gate_def)
qed

text \<open>The fault after a recovery that brought the counter to its limit.\<close>

lemma limit_exits:
  assumes "prev_site_id u = rcvry_current_site_id u" "repeat_count u = 64"
  shows "rcvry_signal_action b os restart SIGSEGV u = Exits 2"
  using assms by (simp add: rcvry_signal_action_def is_expected_signal_def Let_def)

text \<open>
  C11: Recovery at one site cannot go on forever.  However the application behaves
  between two faults, the handler returns to the same window at most 65 times in
  a row, and the segmentation fault after the 65th return exits the process with code 2.
\<close>

theorem recoveries_bounded:
  assumes "recoveries b os e n s t" "repeat_count s \<le> 64"
  shows "n \<le> 65 \<and>
    (n = 65 \<longrightarrow>
       (\<forall>u. rcvry_current_site_id u = rcvry_current_site_id t \<and> prev_site_id u = prev_site_id t \<and>
            repeat_count u = repeat_count t \<longrightarrow>
          rcvry_signal_action b os (wl_restart_hook b e) SIGSEGV u = Exits 2))"
proof -
  have c: "unat (repeat_count t) \<le> 64" "n > 0 \<longrightarrow> prev_site_id t = rcvry_current_site_id t \<and> n \<le> unat (repeat_count t) + 1"
    using recoveries_count [OF assms] by simp_all
  have "repeat_count t = 64" if "n = 65"
    using c that by (intro word_unat_eq_iff [THEN iffD2]) simp
  then show ?thesis using c by (auto intro!: limit_exits)
qed

text \<open>A site that faults 66 times in a row.  The first fault finds another site's number in the handler.\<close>

definition demo_again :: "nat \<Rightarrow> (string \<times> int) list rcvry_state" where
  "demo_again k = (demo_rcvry RCVRY_TYPE_SET_RET_ERRNO)
     \<lparr>prev_site_id := rcvry_current_site_id (demo_rcvry RCVRY_TYPE_SET_RET_ERRNO), repeat_count := word_of_nat k\<rparr>"

lemmas demo_segv_defs = rcvry_signal_action_def is_expected_signal_def segv_recover_def rcvry_dispatch_def
  cur_info_def demo_rcvry_defs rcvry_ra_set_ret_errno_def count_ra_def RCVRY_RA_PROLOGUE_def
  RCVRY_RA_EPILOGUE_ERRNO_def RCVRY_RA_EPILOGUE_def operate_libcall_gate_def set_gate_def
  curr_tx_type_def wl_restart_hook_def wl_restore_loop.simps Let_def

definition demo_at :: "nat \<Rightarrow> (string \<times> int) list rcvry_state \<Rightarrow> bool" where
  "demo_at k t \<longleftrightarrow> rcvry_current_site_id t = rcvry_current_site_id (demo_again k) \<and>
     prev_site_id t = prev_site_id (demo_again k) \<and> repeat_count t = repeat_count (demo_again k)"

lemma demo_segv_recover:
  "\<exists>t. segv_recover demo_build demo_os (wl_restart_hook demo_build demo_env)
      (count_ra demo_build f ((demo_rcvry RCVRY_TYPE_SET_RET_ERRNO)\<lparr>prev_site_id := p, repeat_count := c\<rparr>)
        \<lparr>repeat_count := c', prev_site_id := p'\<rparr>) = Returns t"
  by (simp add: demo_segv_defs)

lemma demo_jumps:
  assumes "p = rcvry_current_site_id (demo_rcvry RCVRY_TYPE_SET_RET_ERRNO) \<longrightarrow> \<not> 64 < c + 1"
    "s = (demo_rcvry RCVRY_TYPE_SET_RET_ERRNO)\<lparr>prev_site_id := p, repeat_count := c\<rparr>"
  shows "\<exists>t. rcvry_signal_action demo_build demo_os (wl_restart_hook demo_build demo_env) SIGSEGV s = Jumps t"
proof -
  let ?site = "rcvry_current_site_id (demo_rcvry RCVRY_TYPE_SET_RET_ERRNO)"
  obtain t where t: "segv_recover demo_build demo_os (wl_restart_hook demo_build demo_env)
      (count_ra demo_build (\<lambda>p. p\<lparr>num_hits := num_hits p + 1\<rparr>) s
        \<lparr>repeat_count := if p = ?site then c + 1 else 0, prev_site_id := ?site\<rparr>) = Returns t"
    unfolding assms(2) using demo_segv_recover by blast
  then show ?thesis
    using assms(1) by (cases "p = ?site") (simp_all add: assms(2) rcvry_signal_action_def is_expected_signal_def Let_def)
qed

lemma demo_first_fault:
  "\<exists>t. rcvry_signal_action demo_build demo_os (wl_restart_hook demo_build demo_env) SIGSEGV
         (demo_rcvry RCVRY_TYPE_SET_RET_ERRNO) = Jumps t \<and> demo_at 0 t"
proof -
  let ?s = "demo_rcvry RCVRY_TYPE_SET_RET_ERRNO"
  have s: "prev_site_id ?s \<noteq> rcvry_current_site_id ?s" by (simp add: demo_rcvry_defs)
  obtain t where t: "rcvry_signal_action demo_build demo_os (wl_restart_hook demo_build demo_env) SIGSEGV ?s = Jumps t"
    using demo_jumps [of "prev_site_id ?s" "repeat_count ?s" ?s] s by auto
  then show ?thesis using segv_counts(1-3) [OF t] s by (simp add: demo_at_def demo_again_def)
qed

lemma demo_next_fault:
  assumes "k < 64"
  shows "\<exists>t. rcvry_signal_action demo_build demo_os (wl_restart_hook demo_build demo_env) SIGSEGV (demo_again k) = Jumps t \<and>
           demo_at (Suc k) t"
proof -
  have "unat (1 + word_of_nat k :: u32) = Suc k" using assms by (simp add: unat_word_ariths unat_of_nat)
  moreover have "unat (64 :: u32) = 64" by simp
  ultimately have "\<not> (64 :: u32) < word_of_nat k + 1" using assms by (simp only: word_less_nat_alt add.commute)
  then obtain t where t:
      "rcvry_signal_action demo_build demo_os (wl_restart_hook demo_build demo_env) SIGSEGV (demo_again k) = Jumps t"
    using demo_jumps [OF _ demo_again_def] by blast
  then show ?thesis using segv_counts(1-3) [OF t] by (simp add: demo_at_def demo_again_def add.commute)
qed

lemma demo_recoveries:
  assumes "n \<le> 64"
  shows "\<exists>t. recoveries demo_build demo_os demo_env (Suc n) (demo_rcvry RCVRY_TYPE_SET_RET_ERRNO) t \<and> demo_at n t"
  using assms
proof (induction n)
  case 0
  then show ?case using demo_first_fault recoveries.again [OF recoveries.start refl refl refl] by blast
next
  case (Suc n)
  then obtain t where t: "recoveries demo_build demo_os demo_env (Suc n) (demo_rcvry RCVRY_TYPE_SET_RET_ERRNO) t" "demo_at n t"
    by auto
  obtain v where v: "rcvry_signal_action demo_build demo_os (wl_restart_hook demo_build demo_env) SIGSEGV (demo_again n) = Jumps v"
    "demo_at (Suc n) v" using demo_next_fault [of n] Suc.prems by auto
  then show ?case using recoveries.again [OF t(1) _ _ _ v(1)] t(2) by (auto simp: demo_at_def)
qed

theorem recoveries_bounded_witness:
  "(\<exists>t. recoveries demo_build demo_os demo_env 65 (demo_rcvry RCVRY_TYPE_SET_RET_ERRNO) t) \<and>
   rcvry_signal_action demo_build demo_os (wl_restart_hook demo_build demo_env) SIGSEGV (demo_again 64) = Exits 2"
proof -
  obtain t where t: "recoveries demo_build demo_os demo_env 65 (demo_rcvry RCVRY_TYPE_SET_RET_ERRNO) t" "demo_at 64 t"
    using demo_recoveries [of 64] by auto
  have "repeat_count (demo_rcvry RCVRY_TYPE_SET_RET_ERRNO) \<le> 64" by (simp add: demo_rcvry_defs)
  then show ?thesis using recoveries_bounded [OF t(1)] t unfolding demo_at_def by auto
qed

text \<open>
  The last deferred pointer is lost.  After deferring a non-empty list of
  frees, emptying the list frees all of them but the last, and then forgets it.
\<close>

theorem free_freelist_drops_last:
  assumes "free_list_pos s = - 1" "ps \<noteq> []" "length ps \<le> 16384"
  shows "\<exists>t. delay_all ps s = Returns t
     \<and> world (rcvry_ra_free_freelist os t) = fold (os_free os) (butlast ps) (world s)
     \<and> free_list_pos (rcvry_ra_free_freelist os t) = - 1"
proof -
  obtain t where t: "delay_all ps s = Returns t" "free_list_pos t = int (length ps) - 1"
    "world t = world s" "\<forall>i < length ps. free_list t i = ps ! i"
    using delay_all_list [of s 0 ps] assms by auto
  have "map (free_list t) [0..<length ps - 1] = butlast ps"
    using t(4) by (intro nth_equalityI) (auto simp: nth_butlast)
  moreover have "fold (\<lambda>i w. os_free os (free_list t i) w) is w = fold (os_free os) (map (free_list t) is) w" for "is" w
    by (induction "is" arbitrary: w) auto
  moreover have "nat (int (length ps) - 1) = length ps - 1" by simp
  ultimately show ?thesis
    using t by (simp add: rcvry_ra_free_freelist_def Let_def del: nat_minus_as_int)
qed

theorem free_freelist_drops_last_witness:
  "\<exists>t. delay_all [0x10, 0x20, 0x30] (demo_rcvry RCVRY_TYPE_NOOP) = Returns t
     \<and> world (rcvry_ra_free_freelist demo_os t) = [(''free'', 0x20), (''free'', 0x10)]
     \<and> free_list_pos (rcvry_ra_free_freelist demo_os t) = - 1"
  using free_freelist_drops_last [of "demo_rcvry RCVRY_TYPE_NOOP" "[0x10, 0x20, 0x30]" demo_os]
  by (simp add: demo_rcvry_defs demo_os_def)

text \<open>
  The constructor opens every gate: no site starts in the error path, and a
  site with a fixed transaction type starts with that type.
\<close>

theorem rcvry_map_actions_opens:
  "i < RCVRY_MAX_LIBCALL_SITES \<Longrightarrow>
     rcvry_libcall_gates (rcvry_map_actions b s) i \<noteq> RCVRY_LIBCALL_GATE_CLOSE
   \<and> (ltckpt_type (rcvry_infos s i) \<noteq> LTCKPT_TYPE_INVALID \<and> \<not> TEST_ALTERNATE_TX b
      \<longrightarrow> rcvry_libcall_gates (rcvry_map_actions b s) i = ltckpt_type (rcvry_infos s i))"
  by (simp add: rcvry_map_actions_def initial_gate_def Let_def)

theorem rcvry_map_actions_opens_witness:
  "rcvry_libcall_gates (rcvry_map_actions demo_build demo_wl) 5 = LTCKPT_TYPE_UNDOLOG"
  using rcvry_map_actions_opens [of 5 demo_build demo_wl] by (simp add: demo_defs)

end
