(* ===== verification/Tsx.thy ===== *)
theory Tsx
  imports Rcvry
begin

text \<open>
  Hardware transactions (\<open>mechanisms/ltckpt_tsx.c\<close>), the end-of-window hooks of
  both mechanisms and the adaptive choice between them (\<open>rcvry_dispatch.h\<close>,
  \<open>rcvry_dispatch.c\<close>).

  \<open>os_xbegin\<close> is one attempt at a transaction: it yields True when the
  transaction starts and is not aborted later; an abort resumes behind the
  instruction with the registers and memory of the attempt, hence like a failed
  start.
\<close>

section \<open>Starting a transaction\<close>

abbreviation (input) "LTCKPT_TSX_MAX_TRIES \<equiv> 3 :: nat"

fun tsx_begin :: "'w os \<Rightarrow> nat \<Rightarrow> 'w \<Rightarrow> bool \<times> 'w" where
  "tsx_begin os 0 w = os_xbegin os w"
| "tsx_begin os (Suc tries) w =
     (let (status, w) = os_xbegin os w
      in if status then (True, w)
         else if tries = 0 then (False, w) else tsx_begin os tries w)"

definition ltckpt_switch_to_undolog ::
    "build \<Rightarrow> 'w os \<Rightarrow> 'w restart_fn \<Rightarrow> 'w rcvry_state \<Rightarrow> 'w rcvry_state outcome" where
  "ltckpt_switch_to_undolog b os restart s =
     (if RCVRY_WINDOW_PROFILING b then rcvry_signal_action b os restart SIGUSR1 s
      else Jumps (set_gate LTCKPT_TYPE_UNDOLOG (set_curr_tx_type b LTCKPT_TYPE_UNDOLOG s)))"

text \<open>The bookkeeping of a transaction that could not be started; a sample size of 0 divides by zero.\<close>

definition tsx_failed :: "build \<Rightarrow> 'w os \<Rightarrow> 'w restart_fn \<Rightarrow> u32 \<Rightarrow> 'w rcvry_state \<Rightarrow> 'w rcvry_state outcome" where
  "tsx_failed b os restart site_id s =
     (let s = (if LTCKPT_WINDOW_PROFILING b then upd_window PROFILE_TSX_FAIL site_id s else s)
      in if RCVRY_AUTO_ADAPT b \<and> auto_adapt_sample_size s = 0 then Faults
      else let s = (if RCVRY_AUTO_ADAPT b
                    then upd_info (\<lambda>i. i\<lparr>num_tsx_fails := num_tsx_fails i + 1,
                           sample_count := (sample_count i + 1) mod auto_adapt_sample_size s\<rparr>) s
                    else s)
           in if RCVRY_TSX_NO_SWITCHING b then ltckpt_switch_to_undolog b os restart s
              else if LTCKPT_NO_REG_RESTORATION b then Returns s
              else rcvry_signal_action b os restart SIGUSR1 s)"

definition tsx_top_of_the_loop ::
    "build \<Rightarrow> 'w os \<Rightarrow> 'w restart_fn \<Rightarrow> nat \<Rightarrow> u32 \<Rightarrow> 'w rcvry_state \<Rightarrow> 'w rcvry_state outcome" where
  "tsx_top_of_the_loop b os restart max_tries site_id s =
     (let s = (if LTCKPT_WINDOW_PROFILING b then upd_window (PROFILE_TOL LTCKPT_TYPE_TSX) site_id s else s)
      in if LTCKPT_NO_TSX_FOR_RCVRY_FAIL b \<and> rcvry_type (cur_info s) = RCVRY_TYPE_FAIL then Returns s
      else if LTCKPT_NOP_UNTIL_SIGNALLED b \<and> ltckpt_tsx_disabled s then Returns s
      else let s = (if RCVRY_AUTO_ADAPT b
                    then upd_info (\<lambda>i. i\<lparr>num_tsx_hits := num_tsx_hits i + 1\<rparr>) s else s);
               (status, w) = tsx_begin os max_tries (world s);
               s = s\<lparr>world := w\<rparr>;
               leave = (\<lambda>s. Returns (count_ra b (\<lambda>p. p\<lparr>num_hits_tsx := num_hits_tsx p + 1\<rparr>) s))
           in if status
              then leave (if LTCKPT_WINDOW_PROFILING b then upd_window PROFILE_TSX_BEGIN site_id s else s)
              else case tsx_failed b os restart site_id s of
                     Returns s \<Rightarrow> leave s
                   | other \<Rightarrow> other)"

section \<open>Adapting the transaction type\<close>

text \<open>The arithmetic is on 32-bit words, as in the macro.\<close>

definition adapt_rate :: "'w rcvry_state \<Rightarrow> u32" where
  "adapt_rate s =
     (num_tsx_fails (cur_info s) * 100 * auto_adapt_scale s) div num_tsx_hits (cur_info s)"

definition RCVRY_AUTO_ADAPT_CHECK_AND_SWITCH :: "build \<Rightarrow> 'w rcvry_state \<Rightarrow> 'w rcvry_state" where
  "RCVRY_AUTO_ADAPT_CHECK_AND_SWITCH b s =
     (if rcvry_libcall_gates s (rcvry_current_site_id s) \<noteq> LTCKPT_TYPE_UNDOLOG
         \<and> num_tsx_hits (cur_info s) > 0 \<and> sample_count (cur_info s) = 0
      then let s = (if adapt_rate s \<ge> auto_adapt_threshold s
                    then set_gate LTCKPT_TYPE_UNDOLOG (set_curr_tx_type b LTCKPT_TYPE_UNDOLOG s) else s)
           in upd_info (\<lambda>i. i\<lparr>num_tsx_hits := 0, num_tsx_fails := 0\<rparr>) s
      else s)"

definition rcvry_auto_adapt_init :: "environ \<Rightarrow> 'w rcvry_state \<Rightarrow> 'w rcvry_state" where
  "rcvry_auto_adapt_init env s =
     (let s = (case env ''RCVRY_AUTO_ADAPT__SAMPLE_SZ'' of
                 None \<Rightarrow> s | Some v \<Rightarrow> s\<lparr>auto_adapt_sample_size := ucast (strtoul0 v)\<rparr>);
          s = (case env ''RCVRY_AUTO_ADAPT__THRESHOLD'' of
                 None \<Rightarrow> s | Some v \<Rightarrow> s\<lparr>auto_adapt_threshold := ucast (strtoul0 v)\<rparr>);
          s = (case env ''RCVRY_AUTO_ADAPT__SCALE'' of
                 None \<Rightarrow> s | Some v \<Rightarrow> s\<lparr>auto_adapt_scale := ucast (strtoul0 v)\<rparr>)
      in s\<lparr>rcvry_infos := (\<lambda>i. if i < RCVRY_MAX_LIBCALL_SITES
             then (rcvry_infos s i)\<lparr>sample_count := 0, num_tsx_hits := 0, num_tsx_fails := 0\<rparr>
             else rcvry_infos s i)\<rparr>)"

section \<open>End of a window\<close>

text \<open>A site without a fixed type goes back to the default type.\<close>

definition forget_tx_type :: "build \<Rightarrow> 'w rcvry_state \<Rightarrow> 'w rcvry_state" where
  "forget_tx_type b s =
     (if RCVRY_CKPT_DONT_REMEMBER b \<and> ltckpt_type (cur_info s) = LTCKPT_TYPE_INVALID
      then let t = (if RCVRY_CKPT_DEFAULT_TO_UNDOLOG b then LTCKPT_TYPE_UNDOLOG else LTCKPT_TYPE_TSX)
           in set_gate t (set_curr_tx_type b t s)
      else s)"

definition wl_end_of_window :: "build \<Rightarrow> 'w os \<Rightarrow> 'w rcvry_state \<Rightarrow> 'w rcvry_state" where
  "wl_end_of_window b os s =
     (let s = forget_tx_type b s;
          s = (if RCVRY_AUTO_ADAPT b then RCVRY_AUTO_ADAPT_CHECK_AND_SWITCH b s else s)
      in if RCVRY_DELAYED_FREE b then rcvry_ra_free_freelist os s else s)"

definition tsx_end_of_window :: "build \<Rightarrow> 'w os \<Rightarrow> u32 \<Rightarrow> 'w rcvry_state \<Rightarrow> 'w rcvry_state" where
  "tsx_end_of_window b os site_id s =
     (if LTCKPT_NO_TSX_FOR_RCVRY_FAIL b \<and> rcvry_type (cur_info s) = RCVRY_TYPE_FAIL then s
      else let s = (if os_xtest os (world s) then s\<lparr>world := os_xend os (world s)\<rparr> else s);
               s = (if LTCKPT_WINDOW_PROFILING b
                    then upd_window (PROFILE_TOL LTCKPT_TYPE_TSX_END) site_id s else s);
               s = (if \<not> RCVRY_AUTO_ADAPT b then forget_tx_type b s else s)
           in if RCVRY_DELAYED_FREE b then rcvry_ra_free_freelist os s else s)"

section \<open>Lemmas\<close>

text \<open>\<open>tsx_fails os k w\<close>: \<open>k\<close> attempts fail in a row; the result is the state of the system after them.\<close>

primrec tsx_fails :: "'w os \<Rightarrow> nat \<Rightarrow> 'w \<Rightarrow> 'w option" where
  "tsx_fails os 0 w = Some w"
| "tsx_fails os (Suc k) w = (let (st, w) = os_xbegin os w in if st then None else tsx_fails os k w)"

lemma tsx_begin_outcome:
  "(\<exists>w'. tsx_begin os n w = (False, w') \<and> tsx_fails os (max 1 n) w = Some w')
   \<or> (\<exists>k w1 w'. k < max 1 n \<and> tsx_fails os k w = Some w1 \<and> os_xbegin os w1 = (True, w')
        \<and> tsx_begin os n w = (True, w'))"
proof (induction n arbitrary: w)
  case 0
  obtain st w1 where x: "os_xbegin os w = (st, w1)" by fastforce
  then show ?case by (cases st) auto
next
  case (Suc n)
  obtain st w1 where x: "os_xbegin os w = (st, w1)" by fastforce
  show ?case
  proof (cases "st \<or> n = 0")
    case True
    with x show ?thesis by (cases st) auto
  next
    case False
    then have b: "tsx_begin os (Suc n) w = tsx_begin os n w1" using x by simp
    have m: "max 1 (Suc n) = Suc n" "max 1 n = n" using False by auto
    from Suc [of w1] show ?thesis
    proof (elim disjE exE conjE)
      fix w'
      assume "tsx_begin os n w1 = (False, w')" "tsx_fails os (max 1 n) w1 = Some w'"
      then show ?thesis using b x False m by simp
    next
      fix k w2 w'
      assume "k < max 1 n" "tsx_fails os k w1 = Some w2" "os_xbegin os w2 = (True, w')"
        "tsx_begin os n w1 = (True, w')"
      then have "Suc k < max 1 (Suc n)" "tsx_fails os (Suc k) w = Some w2" using x False m by auto
      with b \<open>os_xbegin os w2 = (True, w')\<close> \<open>tsx_begin os n w1 = (True, w')\<close> show ?thesis by metis
    qed
  qed
qed

lemma adapt_rate_exact:
  assumes "unat (num_tsx_fails (cur_info s)) * 100 * unat (auto_adapt_scale s) < 2 ^ 32"
  shows "unat (adapt_rate s) =
    (unat (num_tsx_fails (cur_info s)) * 100 * unat (auto_adapt_scale s)) div unat (num_tsx_hits (cur_info s))"
proof -
  let ?f = "num_tsx_fails (cur_info s)" and ?c = "auto_adapt_scale s"
  have "unat (?f * 100 * ?c) = unat ?f * 100 * unat ?c mod 2 ^ 32"
    by (simp add: unat_word_ariths mod_mult_left_eq)
  then show ?thesis using assms by (simp add: adapt_rate_def unat_div)
qed

section \<open>Properties\<close>

text \<open>
  Attempts are bounded.  Starting a transaction makes at most the configured
  number of attempts: it gives up exactly when all of them fail, and otherwise
  stops at the first that succeeds.
\<close>

theorem tsx_begin_attempts:
  "(\<exists>w'. tsx_begin os n w = (False, w') \<and> tsx_fails os (max 1 n) w = Some w')
   \<or> (\<exists>k w1 w'. k < max 1 n \<and> tsx_fails os k w = Some w1 \<and> os_xbegin os w1 = (True, w')
        \<and> tsx_begin os n w = (True, w'))"
  by (rule tsx_begin_outcome)

lemma switch_via_signal:
  "\<exists>t. rcvry_signal_action b os restart SIGUSR1 s = Jumps t
     \<and> curr_tx_type b t = LTCKPT_TYPE_UNDOLOG
     \<and> rcvry_libcall_gates t = (rcvry_libcall_gates s)(rcvry_current_site_id s := LTCKPT_TYPE_UNDOLOG)
     \<and> pmem t = pmem s"
  by (simp add: rcvry_signal_action_def is_expected_signal_def switch_to_undolog_def Let_def)
    (simp add: set_gate_def curr_tx_type_def set_curr_tx_type_def upd_info_def)

lemma switch_to_undolog_jumps:
  "\<exists>t. ltckpt_switch_to_undolog b os restart s = Jumps t
     \<and> curr_tx_type b t = LTCKPT_TYPE_UNDOLOG
     \<and> rcvry_libcall_gates t = (rcvry_libcall_gates s)(rcvry_current_site_id s := LTCKPT_TYPE_UNDOLOG)
     \<and> pmem t = pmem s"
  using switch_via_signal [of b os restart s]
  by (simp add: ltckpt_switch_to_undolog_def)
    (simp add: set_gate_def curr_tx_type_def set_curr_tx_type_def upd_info_def)

lemma tsx_failed_switches:
  assumes "\<not> (RCVRY_AUTO_ADAPT b \<and> auto_adapt_sample_size s = 0)" "\<not> LTCKPT_NO_REG_RESTORATION b"
  shows "\<exists>t. tsx_failed b os restart site_id s = Jumps t
     \<and> curr_tx_type b t = LTCKPT_TYPE_UNDOLOG
     \<and> rcvry_libcall_gates t = (rcvry_libcall_gates s)(rcvry_current_site_id s := LTCKPT_TYPE_UNDOLOG)
     \<and> pmem t = pmem s"
proof -
  define a where "a = (if LTCKPT_WINDOW_PROFILING b then upd_window PROFILE_TSX_FAIL site_id s else s)"
  define u where "u = (if RCVRY_AUTO_ADAPT b
      then upd_info (\<lambda>i. i\<lparr>num_tsx_fails := num_tsx_fails i + 1,
             sample_count := (sample_count i + 1) mod auto_adapt_sample_size a\<rparr>) a else a)"
  have a: "auto_adapt_sample_size a = auto_adapt_sample_size s" by (simp add: a_def upd_window_def)
  have u: "pmem u = pmem s" "rcvry_libcall_gates u = rcvry_libcall_gates s"
    "rcvry_current_site_id u = rcvry_current_site_id s"
    by (simp_all add: u_def a_def)
  have "tsx_failed b os restart site_id s = (if RCVRY_TSX_NO_SWITCHING b then ltckpt_switch_to_undolog b os restart u
       else rcvry_signal_action b os restart SIGUSR1 u)"
    unfolding tsx_failed_def Let_def a_def [symmetric] u_def [symmetric] using assms a by auto
  then show ?thesis
    using switch_to_undolog_jumps [of b os restart u] switch_via_signal [of b os restart u] u by auto
qed

text \<open>
  C12: When the transaction cannot be started the hook falls back to the undo log:
  control jumps back to the top of the window with the site's gate and the
  transaction type set to undo log, and memory is unchanged.
\<close>

theorem tsx_exhausted_switches:
  assumes "tsx_fails os (max 1 n) (world s) = Some w'"
    and "\<not> (LTCKPT_NO_TSX_FOR_RCVRY_FAIL b \<and> rcvry_type (cur_info s) = RCVRY_TYPE_FAIL)"
    and "\<not> (LTCKPT_NOP_UNTIL_SIGNALLED b \<and> ltckpt_tsx_disabled s)"
    and "\<not> (RCVRY_AUTO_ADAPT b \<and> auto_adapt_sample_size s = 0)"
    and "\<not> LTCKPT_NO_REG_RESTORATION b"
  shows "\<exists>t. tsx_top_of_the_loop b os restart n site_id s = Jumps t
     \<and> curr_tx_type b t = LTCKPT_TYPE_UNDOLOG
     \<and> rcvry_libcall_gates t = (rcvry_libcall_gates s)(rcvry_current_site_id s := LTCKPT_TYPE_UNDOLOG)
     \<and> pmem t = pmem s"
proof -
  have nofail: "tsx_fails os k w = Some w1 \<Longrightarrow> os_xbegin os w1 = (True, w2) \<Longrightarrow> k < m
      \<Longrightarrow> tsx_fails os m w = None" for k m w w1 w2
    by (induction k arbitrary: m w) (auto simp: gr0_conv_Suc Suc_less_eq2 split: prod.splits if_splits)
  have fail: "tsx_begin os n (world s) = (False, w')"
    using tsx_begin_outcome [of os n "world s"] assms(1) nofail by fastforce
  define s1 where "s1 = (if LTCKPT_WINDOW_PROFILING b then upd_window (PROFILE_TOL LTCKPT_TYPE_TSX) site_id s else s)"
  define s2 where "s2 = (if RCVRY_AUTO_ADAPT b
                    then upd_info (\<lambda>i. i\<lparr>num_tsx_hits := num_tsx_hits i + 1\<rparr>) s1 else s1)"
  define s3 where "s3 = s2\<lparr>world := w'\<rparr>"
  have f: "world s2 = world s" "pmem s3 = pmem s" "rcvry_libcall_gates s3 = rcvry_libcall_gates s"
    "rcvry_current_site_id s3 = rcvry_current_site_id s"
    "auto_adapt_sample_size s3 = auto_adapt_sample_size s"
    by (simp_all add: s3_def s2_def s1_def upd_window_def upd_info_def)
  have g: "rcvry_type (cur_info s1) = rcvry_type (cur_info s)" "ltckpt_tsx_disabled s1 = ltckpt_tsx_disabled s"
    by (simp_all add: s1_def cur_info_def upd_window_def)
  have "\<exists>t. tsx_failed b os restart site_id s3 = Jumps t
     \<and> curr_tx_type b t = LTCKPT_TYPE_UNDOLOG
     \<and> rcvry_libcall_gates t = (rcvry_libcall_gates s)(rcvry_current_site_id s := LTCKPT_TYPE_UNDOLOG)
     \<and> pmem t = pmem s"
    using tsx_failed_switches [of b s3 os restart site_id] assms(4,5) f by simp
  moreover have "tsx_top_of_the_loop b os restart n site_id s
      = (case tsx_failed b os restart site_id s3 of
           Returns s \<Rightarrow> Returns (count_ra b (\<lambda>p. p\<lparr>num_hits_tsx := num_hits_tsx p + 1\<rparr>) s)
         | other \<Rightarrow> other)"
    unfolding tsx_top_of_the_loop_def Let_def s1_def [symmetric] s2_def [symmetric] f(1) fail
    using assms(2,3) g by (auto simp: s3_def)
  ultimately show ?thesis by auto
qed

theorem tsx_exhausted_switches_witness:
  "\<exists>t. tsx_top_of_the_loop demo_build demo_os (\<lambda>_. None) LTCKPT_TSX_MAX_TRIES 3
         (demo_rcvry RCVRY_TYPE_NOOP) = Jumps t
     \<and> rcvry_libcall_gates t 3 = LTCKPT_TYPE_UNDOLOG"
  using tsx_exhausted_switches [of demo_os 3 "demo_rcvry RCVRY_TYPE_NOOP" "[]" demo_build "\<lambda>_. None" 3]
  by (auto simp: demo_os_def demo_rcvry_defs numeral_3_eq_3)

text \<open>
  C28: The adaptive switch.  At the end of a window, when a full sample has been
  taken and the product does not overflow, the site moves to the undo log exactly
  when the share of failed transactions, scaled, reaches the threshold; both
  counters start again from zero.
\<close>

theorem auto_adapt_switches_iff:
  assumes "rcvry_libcall_gates s (rcvry_current_site_id s) \<noteq> LTCKPT_TYPE_UNDOLOG"
    and "num_tsx_hits (cur_info s) > 0" "sample_count (cur_info s) = 0"
    and "unat (num_tsx_fails (cur_info s)) * 100 * unat (auto_adapt_scale s) < 2 ^ 32"
  shows "(rcvry_libcall_gates (RCVRY_AUTO_ADAPT_CHECK_AND_SWITCH b s) (rcvry_current_site_id s) = LTCKPT_TYPE_UNDOLOG \<longleftrightarrow>
            unat (auto_adapt_threshold s) * unat (num_tsx_hits (cur_info s))
              \<le> unat (num_tsx_fails (cur_info s)) * 100 * unat (auto_adapt_scale s))
       \<and> num_tsx_hits (cur_info (RCVRY_AUTO_ADAPT_CHECK_AND_SWITCH b s)) = 0
       \<and> num_tsx_fails (cur_info (RCVRY_AUTO_ADAPT_CHECK_AND_SWITCH b s)) = 0"
proof -
  let ?t = "RCVRY_AUTO_ADAPT_CHECK_AND_SWITCH b s"
  have h: "0 < unat (num_tsx_hits (cur_info s))" using assms(2) by (simp add: word_less_nat_alt)
  have "adapt_rate s \<ge> auto_adapt_threshold s \<longleftrightarrow>
      unat (auto_adapt_threshold s) * unat (num_tsx_hits (cur_info s))
        \<le> unat (num_tsx_fails (cur_info s)) * 100 * unat (auto_adapt_scale s)"
    using h by (simp add: word_le_nat_alt adapt_rate_exact [OF assms(4)] less_eq_div_iff_mult_less_eq)
  moreover have "num_tsx_hits (cur_info ?t) = 0" "num_tsx_fails (cur_info ?t) = 0"
    "rcvry_libcall_gates ?t (rcvry_current_site_id s) = LTCKPT_TYPE_UNDOLOG
       \<longleftrightarrow> adapt_rate s \<ge> auto_adapt_threshold s"
    using assms(1-3)
    by (auto simp: RCVRY_AUTO_ADAPT_CHECK_AND_SWITCH_def Let_def cur_info_def)
      (auto simp: upd_info_def set_gate_def set_curr_tx_type_def)
  ultimately show ?thesis by simp
qed

definition demo_sample :: "u32 \<Rightarrow> u32 \<Rightarrow> (string \<times> int) list rcvry_state" where
  "demo_sample hits fails = (demo_rcvry RCVRY_TYPE_NOOP)
     \<lparr>rcvry_libcall_gates := (\<lambda>_. LTCKPT_TYPE_TSX),
      rcvry_infos := (\<lambda>_. demo_info\<lparr>num_tsx_hits := hits, num_tsx_fails := fails\<rparr>)\<rparr>"

theorem auto_adapt_switches_iff_witness:
  "rcvry_libcall_gates (RCVRY_AUTO_ADAPT_CHECK_AND_SWITCH demo_build (demo_sample 10 7)) 3 = LTCKPT_TYPE_UNDOLOG"
  using auto_adapt_switches_iff [of "demo_sample 10 7" demo_build]
  by (simp add: demo_sample_def demo_rcvry_defs cur_info_def)

text \<open>
  The product of the adaptive switch is taken modulo \<open>2 ^ 32\<close>.  A site all of
  whose 42949673 sampled transactions failed has a computed rate of 0 and stays
  with transactions whatever the threshold above zero.
\<close>

theorem auto_adapt_overflow:
  assumes "num_tsx_hits (cur_info s) = 42949673" "num_tsx_fails (cur_info s) = 42949673"
    and "auto_adapt_scale s = 1" "auto_adapt_threshold s > 0"
  shows "rcvry_libcall_gates (RCVRY_AUTO_ADAPT_CHECK_AND_SWITCH b s) = rcvry_libcall_gates s"
proof -
  have "adapt_rate s = 0" using assms(1-3) by (simp add: adapt_rate_def)
  then show ?thesis
    using assms(4) by (auto simp: RCVRY_AUTO_ADAPT_CHECK_AND_SWITCH_def Let_def)
qed

theorem auto_adapt_overflow_witness:
  "rcvry_libcall_gates (RCVRY_AUTO_ADAPT_CHECK_AND_SWITCH demo_build (demo_sample 42949673 42949673)) 3
     = LTCKPT_TYPE_TSX"
  using auto_adapt_overflow [of "demo_sample 42949673 42949673" demo_build]
  by (simp add: demo_sample_def demo_rcvry_defs cur_info_def)

end
