(* ===== verification/Rcvry_Helper.thy ===== *)
theory Rcvry_Helper
  imports Tsx
begin

text \<open>
  The part of the instrumentation that decides how a library call is recovered:
  \<open>RcvryHelper.h\<close> with the list of calls that cannot fail of \<open>tx_common.h\<close>.

  \<open>setRecoveryAction\<close> runs when the program is compiled.  It emits the
  instructions that describe the site to the recovery library; these run behind
  the library call.  The model keeps the two times apart: \<open>setRecoveryAction\<close>
  yields a list of emitted instructions, \<open>exec_emitted\<close> runs them on the state of
  the recovery library.
\<close>

section \<open>Which calls are recovered, and how\<close>

text \<open>The insertions of \<open>RcvryHelper::init\<close> in their order.\<close>

definition libCallRecoveryInserts :: "(string \<times> rcvry_type) list" where
  "libCallRecoveryInserts = [
    (''__fxstat'', RCVRY_TYPE_SET_RET_ERRNO_ENOMEM),
    (''__fxstat64'', RCVRY_TYPE_SET_RET_ERRNO_ENOMEM),
    (''__xstat'', RCVRY_TYPE_SET_RET_ERRNO_ENOMEM),
    (''accept'', RCVRY_TYPE_CLOSE_SOCKET),
    (''accept4'', RCVRY_TYPE_CLOSE_SOCKET),
    (''bind'', RCVRY_TYPE_CLOSE_SOCKET),
    (''calloc'', RCVRY_TYPE_UNDO_MALLOC),
    (''chdir'', RCVRY_TYPE_SET_RET_ERRNO_EACCES),
    (''chmod'', RCVRY_TYPE_SET_RET_ERRNO_EACCES),
    (''chown'', RCVRY_TYPE_SET_RET_ERRNO_EACCES),
    (''closedir'', RCVRY_TYPE_SET_RET_ERRNO_EBADF),
    (''clock_gettime'', RCVRY_TYPE_SET_RET_ERRNO_ENOMEM),
    (''close'', RCVRY_TYPE_SET_RET_ERRNO_ENOMEM),
    (''connect'', RCVRY_TYPE_CLOSE_SOCKET),
    (''deflate'', RCVRY_TYPE_SET_RET_ERRNO_ZSTREAM_ERROR),
    (''deflateEnd'', RCVRY_TYPE_SET_RET_ERRNO_ZSTREAM_ERROR),
    (''dlopen'', RCVRY_TYPE_DLCLOSE),
    (''dlsym'', RCVRY_TYPE_FAIL),
    (''dup2'', RCVRY_TYPE_CLOSE),
    (''epoll_create'', RCVRY_TYPE_CLOSE),
    (''epoll_ctl'', RCVRY_TYPE_SET_RET_ERRNO_EINVAL),
    (''epoll_wait'', RCVRY_TYPE_SET_RET_ERRNO_EINVAL),
    (''event_add'', RCVRY_TYPE_SET_RET_ERRNO_ENOMEM),
    (''event_base_set'', RCVRY_TYPE_SET_RET_ERRNO_ENOMEM),
    (''event_del'', RCVRY_TYPE_SET_RET_ERRNO_ENOMEM),
    (''event_set'', RCVRY_TYPE_SET_RET_ERRNO_ENOMEM),
    (''fcntl'', RCVRY_TYPE_FAIL),
    (''fstat64'', RCVRY_TYPE_SET_RET_ERRNO_ENOMEM),
    (''ftruncate64'', RCVRY_TYPE_SET_RET_ERRNO_EACCES),
    (''fdopen'', RCVRY_TYPE_CLOSE_RET_NULL),
    (''fopen64'', RCVRY_TYPE_SET_RET_NULL_ERRNO_ENOMEM),
    (''fork'', RCVRY_TYPE_UNDO_FORK),
    (''fsync'', RCVRY_TYPE_SET_RET_ERRNO_ENOSPC),
    (''getaddrinfo'', RCVRY_TYPE_UNDO_ADDRINFO),
    (''getenv'', RCVRY_TYPE_SET_RET_NULL_ERRNO_ENOMEM),
    (''getgrnam'', RCVRY_TYPE_SET_RET_NULL_ERRNO_ENOMEM),
    (''gethostname'', RCVRY_TYPE_SET_RET_ERRNO_ENOMEM),
    (''getloadavg'', RCVRY_TYPE_SET_RET_ERRNO_ENOMEM),
    (''getnameinfo'', RCVRY_TYPE_SET_RET_ERRNO_ENOMEM),
    (''getpeername'', RCVRY_TYPE_SET_RET_ERRNO_ENOMEM),
    (''getpwnam'', RCVRY_TYPE_SET_RET_ERRNO_ENOMEM),
    (''getrlimit64'', RCVRY_TYPE_SET_RET_ERRNO_ENOMEM),
    (''getsockname'', RCVRY_TYPE_SET_RET_ERRNO_EINVAL),
    (''getsockopt'', RCVRY_TYPE_SET_RET_ERRNO_EINVAL),
    (''gettimeofday'', RCVRY_TYPE_SET_RET_ERRNO_ENOMEM),
    (''initgroups'', RCVRY_TYPE_SET_RET_ERRNO_ENOMEM),
    (''listen'', RCVRY_TYPE_CLOSE_SOCKET),
    (''localtime'', RCVRY_TYPE_SET_RET_NULL_ERRNO_ENOMEM),
    (''lseek'', RCVRY_TYPE_SET_RET_ERRNO_EINVAL),
    (''lseek64'', RCVRY_TYPE_SET_RET_ERRNO_EINVAL),
    (''lstat64'', RCVRY_TYPE_SET_RET_ERRNO_ENOMEM),
    (''malloc'', RCVRY_TYPE_UNDO_MALLOC),
    (''mkdir'', RCVRY_TYPE_UNDO_MKDIR),
    (''mktime'', RCVRY_TYPE_SET_RET_ERRNO_ENOMEM),
    (''mmap64'', RCVRY_TYPE_UNDO_MMAP),
    (''mmap'', RCVRY_TYPE_UNDO_MMAP),
    (''msync'', RCVRY_TYPE_SET_RET_ERRNO_ENOMEM),
    (''munmap'', RCVRY_TYPE_SET_RET_ERRNO_ENOMEM),
    (''open'', RCVRY_TYPE_CLOSE),
    (''open64'', RCVRY_TYPE_CLOSE),
    (''opendir'', RCVRY_TYPE_SET_RET_NULL_ERRNO_EBADF),
    (''pipe'', RCVRY_TYPE_SET_RET_ERRNO_EINVAL),
    (''poll'', RCVRY_TYPE_SET_RET_ERRNO_ENOMEM),
    (''posix_memalign'', RCVRY_TYPE_UNDO_MEMALIGN),
    (''pread64'', RCVRY_TYPE_SET_RET_ERRNO_EINVAL),
    (''pthread_mutex_init'', RCVRY_TYPE_UNDO_PTHRDMUTX_INIT),
    (''pthread_mutex_lock'', RCVRY_TYPE_UNDO_PTHRDMUTX_LOCK),
    (''pthread_mutex_trylock'', RCVRY_TYPE_UNDO_PTHRDMUTX_LOCK),
    (''realloc'', RCVRY_TYPE_UNDO_REALLOC),
    (''readv'', RCVRY_TYPE_SET_RET_ERRNO_EINVAL),
    (''readdir64'', RCVRY_TYPE_SET_RET_NULL_ERRNO_EBADF),
    (''recv'', RCVRY_TYPE_SET_RET_ERRNO_ENOMEM),
    (''recvmsg'', RCVRY_TYPE_SET_RET_ERRNO_ENOMEM),
    (''rename'', RCVRY_TYPE_SET_RET_ERRNO_EINVAL),
    (''sched_setaffinity'', RCVRY_TYPE_SET_RET_ERRNO_EINVAL),
    (''select'', RCVRY_TYPE_SET_RET_ERRNO_ENOMEM),
    (''sendmsg'', RCVRY_TYPE_SET_RET_ERRNO_EFAULT),
    (''setgid'', RCVRY_TYPE_SET_RET_ERRNO_EINVAL),
    (''setitimer'', RCVRY_TYPE_SET_RET_ERRNO_EINVAL),
    (''setlocale'', RCVRY_TYPE_UNDO_SETLOCALE),
    (''setpriority'', RCVRY_TYPE_SET_RET_ERRNO_EINVAL),
    (''setrlimit64'', RCVRY_TYPE_SET_RET_ERRNO_EINVAL),
    (''setsid'', RCVRY_TYPE_SET_RET_ERRNO_ENOMEM),
    (''setsockopt'', RCVRY_TYPE_SET_RET_ERRNO_ENOMEM),
    (''setuid'', RCVRY_TYPE_SET_RET_ERRNO_EINVAL),
    (''shutdown'', RCVRY_TYPE_SET_RET_ERRNO_EINVAL),
    (''socket'', RCVRY_TYPE_CLOSE),
    (''socketpair'', RCVRY_TYPE_SET_RET_ERRNO_EMFILE),
    (''stat64'', RCVRY_TYPE_SET_RET_ERRNO_ENOMEM),
    (''statfs64'', RCVRY_TYPE_SET_RET_ERRNO_ENOMEM),
    (''sysconf'', RCVRY_TYPE_SET_RET_ERRNO_ENOMEM),
    (''time'', RCVRY_TYPE_SET_RET_ERRNO_EFAULT),
    (''uname'', RCVRY_TYPE_SET_RET_ERRNO_EFAULT),
    (''usleep'', RCVRY_TYPE_SET_RET_ERRNO_ENOMEM),
    (''waitpid'', RCVRY_TYPE_SET_RET_ERRNO_EINVAL),
    (''pread64'', RCVRY_TYPE_FAIL),
    (''pthread_cond_signal'', RCVRY_TYPE_FAIL),
    (''pthread_cond_wait'', RCVRY_TYPE_FAIL),
    (''read'', RCVRY_TYPE_FAIL),
    (''semctl'', RCVRY_TYPE_FAIL),
    (''shmctl'', RCVRY_TYPE_FAIL),
    (''shmdt'', RCVRY_TYPE_FAIL),
    (''strstr'', RCVRY_TYPE_FAIL),
    (''sigaction'', RCVRY_TYPE_FAIL),
    (''sigemptyset'', RCVRY_TYPE_FAIL),
    (''utimes'', RCVRY_TYPE_SET_RET_ERRNO_EACCES)]"

text \<open>\<open>std::map::insert\<close> leaves an existing entry alone.\<close>

definition map_insert :: "string \<times> rcvry_type \<Rightarrow> (string \<rightharpoonup> rcvry_type) \<Rightarrow> (string \<rightharpoonup> rcvry_type)" where
  "map_insert kv m = (if m (fst kv) = None then m(fst kv \<mapsto> snd kv) else m)"

definition libCallRecoveryMap :: "string \<rightharpoonup> rcvry_type" where
  "libCallRecoveryMap = fold map_insert libCallRecoveryInserts Map.empty"

text \<open>The cache of the helper; a function of the module is known by its name.\<close>

definition addLibCall :: "string \<Rightarrow> (string \<rightharpoonup> rcvry_type) \<Rightarrow> (string \<rightharpoonup> rcvry_type)" where
  "addLibCall f cache =
     (if cache f = None
      then (case libCallRecoveryMap f of None \<Rightarrow> cache | Some ty \<Rightarrow> cache(f \<mapsto> ty))
      else cache)"

definition NonFaultableLibCalls :: "string list" where
  "NonFaultableLibCalls = [
    ''__ctype_b_loc'', ''__errno_location'', ''__h_errno_location'', ''__libc_start_main'',
    ''__mulsc3'', ''__isnan'', ''__isinf'', ''atoi'', ''abs'', ''bsearch'', ''exit'',
    ''freeaddrinfo'', ''getegid'', ''geteuid'', ''getpagesize'', ''getpid'', ''getppid'',
    ''getopt'', ''gettimeofday'', ''getuid'', ''gmtime'', ''htons'', ''htonl'', ''iswxdigit'',
    ''localtime'', ''localtime_r'', ''log'', ''memchr'', ''memcmp'', ''memcpy'', ''memmove'',
    ''memset'', ''modf'', ''nl_langinfo'', ''ntohs'', ''ntohl'', ''pow'', ''printf'',
    ''random'', ''realloc'', ''setbuf'', ''sprintf'', ''srandom'', ''strcasecmp'', ''strcat'',
    ''strchr'', ''strcmp'', ''strcpy'', ''strcspn'', ''strdup'', ''strerror'', ''strftime'',
    ''strlen'', ''strncat'', ''strncasecmp'', ''strncmp'', ''strpbrk'', ''strrchr'', ''strspn'',
    ''strstr'', ''strtol'', ''strtold'', ''strtof'', ''strtoul'', ''_ZNSi5tellgEv'',
    ''tolower'', ''toupper'', ''truncate'', ''time'', ''ungetc'', ''vsnprintf'', ''acos'',
    ''acosh'', ''asin'', ''asinh'', ''atan'', ''atan2'', ''atanh'', ''atof'', ''cbrt'',
    ''clearerr'', ''copysign'', ''cos'', ''cosh'', ''crc32'', ''ctime'', ''difftime'',
    ''erand48'', ''erfc'', ''exp'', ''fabs'', ''fabsf'', ''fileno'', ''floor'', ''fmod'',
    ''frexp'', ''fscanf'', ''fgets'', ''gcvt'', ''int_vasprintf'', ''isalnum'', ''isalpha'',
    ''isatty'', ''islower'', ''isspace'', ''isxdigit'', ''ldexp'', ''log10'', ''logb'',
    ''modf'', ''pcre_exec'', ''qsort'', ''rand'', ''rint'', ''_ZdaPv'', ''_ZdlPv'', ''_Znam'',
    ''_Znwm'', ''sin'', ''sinh'', ''sqrt'', ''sqrtf'', ''sscanf'', ''strtok'', ''tan'',
    ''tanh'', ''vsprintf'', ''_ZSt9terminatev'', ''__cxa_begin_catch'', ''ceil'', ''gmtime_r'',
    ''_ZStlsISt11char_traitsIcEERSt13basic_ostreamIcT_ES5_PKc'',
    ''_ZNKSt9basic_iosIcSt11char_traitsIcEEcvPvEv'', ''_ZNSt6vectorIjSaIjEE6resizeEmj'',
    ''backtrace_symbols'', ''strtod'', ''lua_tonumber'']"

definition isNonFaultableLibCall :: "string \<Rightarrow> bool" where
  "isNonFaultableLibCall f \<longleftrightarrow> f \<in> set NonFaultableLibCalls"

section \<open>Emitting the description of a site\<close>

datatype tx_type = TX_TYPE_INVALID | TX_TYPE_LTCKPT | TX_TYPE_TSX | TX_TYPE_HYBRID

text \<open>The table has no value for the last type.\<close>

fun txTypeMap :: "tx_type \<Rightarrow> u32 option" where
  "txTypeMap TX_TYPE_INVALID = Some LTCKPT_TYPE_INVALID"
| "txTypeMap TX_TYPE_LTCKPT = Some LTCKPT_TYPE_UNDOLOG"
| "txTypeMap TX_TYPE_TSX = Some LTCKPT_TYPE_TSX"
| "txTypeMap TX_TYPE_HYBRID = None"

abbreviation (input) "EBADF \<equiv> 9 :: int"
abbreviation (input) "EINVAL \<equiv> 22 :: int"
abbreviation (input) "EMFILE \<equiv> 24 :: int"
abbreviation (input) "ENOSPC \<equiv> 28 :: int"
abbreviation (input) "EAI_MEMORY \<equiv> - 10 :: int"
abbreviation (input) "Z_STREAM_ERROR \<equiv> - 2 :: int"

text \<open>An operand of an emitted store: the local that holds the call's result, an argument of
  the call, an \<open>i32\<close> constant or NULL.\<close>

datatype operand = RetVal | Arg nat | Const int | Null

datatype emitted =
    Count_branch u32
  | Set_rinfo u32 u32 rcvry_type int operand operand operand
  | Tol_undolog
  | Memcpy_undolog operand operand

record call_inst =
  callee :: string
  num_args :: nat

record helper_conf =
  no_ckpt_in_fails :: bool
  have_prof_hooks :: bool
  stm_lib_calls :: "string list"

text \<open>The operands each type of recovery gets: \<open>argc\<close> and three values.\<close>

definition RCVRY_SET_RET_ERRNO :: "int \<Rightarrow> int \<Rightarrow> int \<times> operand \<times> operand \<times> operand" where
  "RCVRY_SET_RET_ERRNO ret e = (2, Const ret, Const e, Null)"

fun rinfo_operands :: "rcvry_type \<Rightarrow> string \<Rightarrow> int \<times> operand \<times> operand \<times> operand" where
  "rinfo_operands RCVRY_TYPE_UNDO_MALLOC f = (1, RetVal, Null, Null)"
| "rinfo_operands RCVRY_TYPE_DLCLOSE f = (1, RetVal, Null, Null)"
| "rinfo_operands RCVRY_TYPE_UNDO_FORK f = (1, RetVal, Null, Null)"
| "rinfo_operands RCVRY_TYPE_UNDO_SETLOCALE f = (1, RetVal, Null, Null)"
| "rinfo_operands RCVRY_TYPE_UNDO_REALLOC f = (2, RetVal, Arg 0, Null)"
| "rinfo_operands RCVRY_TYPE_CLOSE f =
     (3, RetVal, Const (- 1), Const (if f = ''dup2'' then EBADF else ENOMEM))"
| "rinfo_operands RCVRY_TYPE_CLOSE_RET_NULL f = (3, RetVal, Const 0, Const ENOMEM)"
| "rinfo_operands RCVRY_TYPE_CLOSE_SOCKET f =
     (3, Arg 0, Const (- 1),
      Const (if f = ''accept'' then EINVAL else if f = ''connect'' then EBADF else ENOMEM))"
| "rinfo_operands RCVRY_TYPE_UNDO_MEMALIGN f = (1, Arg 0, Null, Null)"
| "rinfo_operands RCVRY_TYPE_UNDO_ADDRINFO f = (2, Arg 3, Const EAI_MEMORY, Null)"
| "rinfo_operands RCVRY_TYPE_UNDO_MKDIR f = (2, Arg 0, Const ENOMEM, Null)"
| "rinfo_operands RCVRY_TYPE_UNDO_MMAP f = (3, Arg 0, Arg 1, Const ENOMEM)"
| "rinfo_operands RCVRY_TYPE_UNDO_PTHRDMUTX_INIT f = (2, Arg 0, Const ENOMEM, Null)"
| "rinfo_operands RCVRY_TYPE_UNDO_PTHRDMUTX_LOCK f = (2, Arg 0, Const EINVAL, Null)"
| "rinfo_operands RCVRY_TYPE_SET_RET_ERRNO_ENOMEM f = RCVRY_SET_RET_ERRNO (- 1) ENOMEM"
| "rinfo_operands RCVRY_TYPE_SET_RET_ERRNO_ENOSPC f = RCVRY_SET_RET_ERRNO (- 1) ENOSPC"
| "rinfo_operands RCVRY_TYPE_SET_RET_ERRNO_EINVAL f = RCVRY_SET_RET_ERRNO (- 1) EINVAL"
| "rinfo_operands RCVRY_TYPE_SET_RET_ERRNO_EACCES f = RCVRY_SET_RET_ERRNO (- 1) EACCES"
| "rinfo_operands RCVRY_TYPE_SET_RET_ERRNO_EBADF f = RCVRY_SET_RET_ERRNO (- 1) EBADF"
| "rinfo_operands RCVRY_TYPE_SET_RET_ERRNO_EMFILE f = RCVRY_SET_RET_ERRNO (- 1) EMFILE"
| "rinfo_operands RCVRY_TYPE_SET_RET_ERRNO_EFAULT f = RCVRY_SET_RET_ERRNO (- 1) EBADF"
| "rinfo_operands RCVRY_TYPE_SET_RET_ERRNO_ZSTREAM_ERROR f = RCVRY_SET_RET_ERRNO Z_STREAM_ERROR EINVAL"
| "rinfo_operands RCVRY_TYPE_SET_RET_NULL_ERRNO_ENOMEM f = RCVRY_SET_RET_ERRNO 0 ENOMEM"
| "rinfo_operands RCVRY_TYPE_SET_RET_NULL_ERRNO_EBADF f = RCVRY_SET_RET_ERRNO 0 EBADF"
| "rinfo_operands ty f = (0, Null, Null, Null)"

text \<open>An argument the call does not have stops the compiler.\<close>

fun operand_ok :: "call_inst \<Rightarrow> operand \<Rightarrow> bool" where
  "operand_ok c (Arg n) \<longleftrightarrow> n < num_args c"
| "operand_ok c p \<longleftrightarrow> True"

definition emit_action :: "u32 \<Rightarrow> u32 \<Rightarrow> rcvry_type \<Rightarrow> call_inst \<Rightarrow> emitted list option" where
  "emit_action site_id tx ty c =
     (if ty = RCVRY_TYPE_CKPT_BUFF_PREAD
      then if operand_ok c (Arg 1) \<and> operand_ok c (Arg 2)
           then Some [Tol_undolog, Memcpy_undolog (Arg 1) (Arg 2)] else None
      else let (n, a, b, d) = rinfo_operands ty (callee c)
           in if operand_ok c a \<and> operand_ok c b \<and> operand_ok c d
              then Some [Set_rinfo site_id tx ty n a b d] else None)"

text \<open>The result is what is emitted, and whether the checkpointing of the window is to be
  removed; None is a failed assertion of the compiler.\<close>

definition setRecoveryAction ::
    "helper_conf \<Rightarrow> (string \<rightharpoonup> rcvry_type) \<Rightarrow> u32 \<Rightarrow> tx_type \<Rightarrow> call_inst \<Rightarrow> bool
     \<Rightarrow> (emitted list \<times> bool) option" where
  "setRecoveryAction h cache site_id txType c profile =
     (if profile \<and> \<not> have_prof_hooks h then None
      else let pre = (if profile then [Count_branch site_id] else []);
               rcvryType = (case cache (callee c) of None \<Rightarrow> RCVRY_TYPE_FAIL | Some ty \<Rightarrow> ty)
           in if no_ckpt_in_fails h \<and> rcvryType = RCVRY_TYPE_FAIL then Some (pre, True)
              else let txType = (if callee c \<in> set (stm_lib_calls h) then TX_TYPE_LTCKPT else txType)
                   in case txTypeMap txType of
                        None \<Rightarrow> None
                      | Some tx \<Rightarrow> map_option (\<lambda>es. (pre @ es, False)) (emit_action site_id tx rcvryType c))"

section \<open>Running what was emitted\<close>

datatype ir_value = Ir_ptr va | Ir_i32 u32 | Ir_i64 u64

fun RCVRY_TO_VOID_PTR :: "ir_value \<Rightarrow> va" where
  "RCVRY_TO_VOID_PTR (Ir_ptr p) = p"
| "RCVRY_TO_VOID_PTR (Ir_i32 i) = ucast i"
| "RCVRY_TO_VOID_PTR (Ir_i64 i) = i"

record frame =
  ret_slot :: va
  call_args :: "ir_value list"

fun operand_value :: "frame \<Rightarrow> operand \<Rightarrow> va" where
  "operand_value fr RetVal = ret_slot fr"
| "operand_value fr (Arg n) = RCVRY_TO_VOID_PTR (call_args fr ! n)"
| "operand_value fr (Const i) = RCVRY_TO_VOID_PTR (Ir_i32 (word_of_int i))"
| "operand_value fr Null = 0"

definition RCVRY_SET_RINFO ::
    "u32 \<Rightarrow> u32 \<Rightarrow> rcvry_type \<Rightarrow> int \<Rightarrow> va \<Rightarrow> va \<Rightarrow> va \<Rightarrow> 'a runtime_scheme \<Rightarrow> 'a runtime_scheme" where
  "RCVRY_SET_RINFO site_id tx ty n a0 a1 a2 s =
     (let i = rcvry_infos s site_id
      in s\<lparr>rcvry_infos := (rcvry_infos s)(site_id :=
           i\<lparr>ltckpt_type := tx, rcvry_type := ty, argc := n,
             argv := (argv i)(0 := a0, 1 := a1, 2 := a2)\<rparr>)\<rparr>)"

definition rcvry_prof_count_rcvry_branch_hits :: "u32 \<Rightarrow> 'a runtime_scheme \<Rightarrow> 'a runtime_scheme" where
  "rcvry_prof_count_rcvry_branch_hits site_id s =
     (let i = rcvry_infos s site_id
      in s\<lparr>rcvry_infos := (rcvry_infos s)(site_id :=
           i\<lparr>rcvry_prof := (rcvry_prof i)\<lparr>num_hits_rcvry_branch := num_hits_rcvry_branch (rcvry_prof i) + 1\<rparr>\<rparr>)\<rparr>)"

fun exec_emitted :: "build \<Rightarrow> frame \<Rightarrow> emitted \<Rightarrow> 'w rcvry_state \<Rightarrow> 'w rcvry_state option" where
  "exec_emitted b fr (Count_branch i) s = Some (rcvry_prof_count_rcvry_branch_hits i s)"
| "exec_emitted b fr (Set_rinfo i tx ty n a0 a1 a2) s =
     Some (RCVRY_SET_RINFO i tx ty n (operand_value fr a0) (operand_value fr a1) (operand_value fr a2) s)"
| "exec_emitted b fr Tol_undolog s = Some (wl_top_of_the_loop b (rcvry_current_site_id s) s)"
| "exec_emitted b fr (Memcpy_undolog p n) s = wl_memcpy_hook b (operand_value fr p) (operand_value fr n) s"

primrec exec_all :: "build \<Rightarrow> frame \<Rightarrow> emitted list \<Rightarrow> 'w rcvry_state \<Rightarrow> 'w rcvry_state option" where
  "exec_all b fr [] s = Some s"
| "exec_all b fr (e # es) s = (case exec_emitted b fr e s of None \<Rightarrow> None | Some s \<Rightarrow> exec_all b fr es s)"

section \<open>Lemmas\<close>

lemma fold_map_insert:
  "fold map_insert xs m k = (case m k of None \<Rightarrow> map_of xs k | Some v \<Rightarrow> Some v)"
  by (induction xs arbitrary: m) (auto simp: map_insert_def split: option.splits)

lemma libCallRecoveryMap_lookup: "libCallRecoveryMap f = map_of libCallRecoveryInserts f"
  by (simp add: libCallRecoveryMap_def fold_map_insert)

lemma addLibCall_keeps:
  "(\<forall>f ty. cache f = Some ty \<longrightarrow> libCallRecoveryMap f = Some ty)
   \<Longrightarrow> addLibCall g cache f = Some ty \<Longrightarrow> libCallRecoveryMap f = Some ty"
  by (auto simp: addLibCall_def split: if_splits option.splits)

lemma addLibCall_fold:
  assumes "\<forall>f ty. cache f = Some ty \<longrightarrow> libCallRecoveryMap f = Some ty"
  shows "(\<forall>f. f \<in> set fs \<or> cache f = libCallRecoveryMap f \<longrightarrow> fold addLibCall fs cache f = libCallRecoveryMap f)
     \<and> (\<forall>f ty. fold addLibCall fs cache f = Some ty \<longrightarrow> libCallRecoveryMap f = Some ty)"
  using assms
proof (induction fs arbitrary: cache)
  case (Cons g fs)
  let ?c = "addLibCall g cache"
  have inv: "\<forall>f ty. ?c f = Some ty \<longrightarrow> libCallRecoveryMap f = Some ty"
    using addLibCall_keeps [OF Cons.prems] by blast
  have hit: "?c f = libCallRecoveryMap f" if "f = g \<or> cache f = libCallRecoveryMap f" for f
  proof -
    have "?c g = libCallRecoveryMap g"
      using Cons.prems by (cases "cache g") (auto simp: addLibCall_def split: option.splits)
    then show ?thesis using that by (auto simp: addLibCall_def split: option.splits)
  qed
  have "fold addLibCall (g # fs) cache f = libCallRecoveryMap f"
    if "f \<in> set (g # fs) \<or> cache f = libCallRecoveryMap f" for f
    using conjunct1 [OF Cons.IH [OF inv]] hit [of f] that by simp blast
  moreover have "fold addLibCall (g # fs) cache f = Some ty \<Longrightarrow> libCallRecoveryMap f = Some ty" for f ty
    using conjunct2 [OF Cons.IH [OF inv]] by simp
  ultimately show ?case by blast
next
  case Nil
  then show ?case unfolding fold_simps list.set by blast
qed

lemma setRecoveryAction_emits:
  assumes "setRecoveryAction h cache i txt c profile = Some (es, False)"
    and "cache (callee c) = Some ty" "ty \<noteq> RCVRY_TYPE_CKPT_BUFF_PREAD"
    and "rinfo_operands ty (callee c) = (n, a0, a1, a2)"
  shows "\<exists>tx. txTypeMap (if callee c \<in> set (stm_lib_calls h) then TX_TYPE_LTCKPT else txt) = Some tx
     \<and> es = (if profile then [Count_branch i] else []) @ [Set_rinfo i tx ty n a0 a1 a2]"
  using assms
  by (auto simp: setRecoveryAction_def emit_action_def Let_def
      split: if_splits option.splits)

lemma setRecoveryAction_exists:
  assumes "cache (callee c) = Some ty" "ty \<noteq> RCVRY_TYPE_CKPT_BUFF_PREAD" "ty \<noteq> RCVRY_TYPE_FAIL"
    and "4 \<le> num_args c" "profile \<longrightarrow> have_prof_hooks h"
  shows "\<exists>es. setRecoveryAction h cache i TX_TYPE_INVALID c profile = Some (es, False)"
  using assms by (cases ty) (auto simp: setRecoveryAction_def emit_action_def RCVRY_SET_RET_ERRNO_def Let_def)

text \<open>What the emitted code leaves in the description of the site.\<close>

definition same_but_infos :: "'w rcvry_state \<Rightarrow> 'w rcvry_state \<Rightarrow> bool" where
  "same_but_infos s t \<longleftrightarrow> t = s\<lparr>rcvry_infos := rcvry_infos t\<rparr>"

lemma exec_site:
  assumes "setRecoveryAction h cache i TX_TYPE_INVALID c profile = Some (es, False)"
    and "cache (callee c) = Some ty" "ty \<noteq> RCVRY_TYPE_CKPT_BUFF_PREAD"
    and "rinfo_operands ty (callee c) = (n, a0, a1, a2)"
    and "exec_all b fr es s = Some t"
  shows "same_but_infos s t"
    and "rcvry_type (rcvry_infos t i) = ty" "argc (rcvry_infos t i) = n"
    and "argv (rcvry_infos t i) 0 = operand_value fr a0" "argv (rcvry_infos t i) 1 = operand_value fr a1"
    and "argv (rcvry_infos t i) 2 = operand_value fr a2"
    and "ltckpt_type (rcvry_infos t i) = (if callee c \<in> set (stm_lib_calls h) then LTCKPT_TYPE_UNDOLOG else LTCKPT_TYPE_INVALID)"
    and "j \<noteq> i \<Longrightarrow> rcvry_infos t j = rcvry_infos s j"
proof -
  obtain tx where tx: "txTypeMap (if callee c \<in> set (stm_lib_calls h) then TX_TYPE_LTCKPT else TX_TYPE_INVALID) = Some tx"
    and es: "es = (if profile then [Count_branch i] else []) @ [Set_rinfo i tx ty n a0 a1 a2]"
    using setRecoveryAction_emits [OF assms(1-4)] by auto
  define s1 where "s1 = (if profile then rcvry_prof_count_rcvry_branch_hits i s else s)"
  have t: "t = RCVRY_SET_RINFO i tx ty n (operand_value fr a0) (operand_value fr a1) (operand_value fr a2) s1"
    using assms(5) unfolding es s1_def by (simp split: if_splits)
  have s1: "same_but_infos s s1" "j \<noteq> i \<Longrightarrow> rcvry_infos s1 j = rcvry_infos s j" for j
    by (simp_all add: s1_def same_but_infos_def rcvry_prof_count_rcvry_branch_hits_def Let_def)
  have "same_but_infos s (s1\<lparr>rcvry_infos := g\<rparr>)" for g
    using s1(1) by (cases s, cases s1) (simp add: same_but_infos_def)
  then show "same_but_infos s t" unfolding t RCVRY_SET_RINFO_def Let_def by simp
  show "rcvry_type (rcvry_infos t i) = ty" "argc (rcvry_infos t i) = n"
    "argv (rcvry_infos t i) 0 = operand_value fr a0" "argv (rcvry_infos t i) 1 = operand_value fr a1"
    "argv (rcvry_infos t i) 2 = operand_value fr a2"
    by (simp_all add: t RCVRY_SET_RINFO_def Let_def)
  show "ltckpt_type (rcvry_infos t i) = (if callee c \<in> set (stm_lib_calls h) then LTCKPT_TYPE_UNDOLOG else LTCKPT_TYPE_INVALID)"
    using tx by (auto simp: t RCVRY_SET_RINFO_def Let_def split: if_splits)
  show "j \<noteq> i \<Longrightarrow> rcvry_infos t j = rcvry_infos s j"
    using s1(2) by (simp add: t RCVRY_SET_RINFO_def Let_def)
qed

section \<open>Properties\<close>

text \<open>
  C29: The cache of the helper is a cache of the table: whatever calls a module
  has, and in whatever order they are added, looking one of them up gives what
  the table says, and the cache holds nothing else.
\<close>

theorem addLibCall_cache:
  "(\<forall>f. f \<in> set fs \<longrightarrow> fold addLibCall fs Map.empty f = libCallRecoveryMap f)
   \<and> (\<forall>f ty. fold addLibCall fs Map.empty f = Some ty \<longrightarrow> libCallRecoveryMap f = Some ty)"
proof -
  have "\<forall>f ty. Map.empty f = Some ty \<longrightarrow> libCallRecoveryMap f = Some ty" by simp
  from addLibCall_fold [OF this, of fs] show ?thesis by blast
qed

theorem addLibCall_cache_witness:
  "fold addLibCall [''open'', ''malloc'', ''open''] Map.empty ''open'' = libCallRecoveryMap ''open''"
proof -
  have "''open'' \<in> set [''open'', ''malloc'', ''open'']" by simp
  then show ?thesis using addLibCall_cache [of "[''open'', ''malloc'', ''open'']"] by blast
qed

text \<open>
  A call listed as irrecoverable is recovered.  \<open>pread64\<close> is inserted twice,
  and the second insertion, among the irrecoverable calls, has no effect.
\<close>

theorem pread64_first_entry_wins:
  "(''pread64'', RCVRY_TYPE_FAIL) \<in> set libCallRecoveryInserts
   \<and> libCallRecoveryMap ''pread64'' = Some RCVRY_TYPE_SET_RET_ERRNO_EINVAL"
  by (simp add: libCallRecoveryMap_lookup libCallRecoveryInserts_def)

end
