(* ===== verification/Rcvry_Fi.thy ===== *)
theory Rcvry_Fi
  imports Tsx
begin

text \<open>
  Fault injection at library calls (\<open>static/rcvry/rcvry_fi.c\<close>): which sites are
  armed is read from the environment when the process starts, and an armed site
  faults the first time it is passed.

  The arrays of the library have a fixed number of sites; an index out of range,
  which the code does not check, is the value None.
\<close>

section \<open>Arming the sites\<close>

definition set_fault_probability :: "u32 \<Rightarrow> u32 \<Rightarrow> 'a runtime_scheme \<Rightarrow> 'a runtime_scheme" where
  "set_fault_probability p i s =
     s\<lparr>rcvry_infos := (rcvry_infos s)(i := (rcvry_infos s i)\<lparr>fault_probability := p\<rparr>)\<rparr>"

definition fi_skip :: "u32 list" where
  "fi_skip = [46, 47, 396, 394, 568, 507, 215, 276, 278, 397, 351, 281, 110, 219, 221,
              177, 179, 432, 186, 194, 203, 355, 454, 476, 489, 492, 495, 497, 499, 0]"

text \<open>The loop over the fields of a comma-separated list.\<close>

primrec set_listed :: "u32 \<Rightarrow> string list \<Rightarrow> 'a runtime_scheme \<Rightarrow> 'a runtime_scheme option" where
  "set_listed p [] s = Some s"
| "set_listed p (t # ts) s =
     (let site_id = (ucast (strtoul0 t) :: u32)
      in if site_id < RCVRY_MAX_LIBCALL_SITES
         then set_listed p ts (set_fault_probability p site_id s) else None)"

definition rcvry_fi_init :: "environ \<Rightarrow> 'a runtime_scheme \<Rightarrow> 'a runtime_scheme option" where
  "rcvry_fi_init env s =
     (let first = (case env ''RCVRY_FI_SITES'' of
                     Some (c # cs) \<Rightarrow> set_listed 100 (split_commas (c # cs)) s
                   | _ \<Rightarrow> Some (fold (set_fault_probability 0) fi_skip
                       (s\<lparr>rcvry_infos := (\<lambda>i. if i < RCVRY_MAX_LIBCALL_SITES
                            then (rcvry_infos s i)\<lparr>fault_probability := 100\<rparr> else rcvry_infos s i)\<rparr>)))
      in case first of
           None \<Rightarrow> None
         | Some s \<Rightarrow> (case env ''RCVRY_NON_FI_SITES'' of
                         None \<Rightarrow> Some s
                       | Some str \<Rightarrow> set_listed 0 (split_commas str) s))"

definition rcvry_fi_enabled :: "u32 \<Rightarrow> 'a runtime_scheme \<Rightarrow> bool" where
  "rcvry_fi_enabled site_id s \<longleftrightarrow> fault_probability (rcvry_infos s site_id) = 100"

text \<open>The result says whether the store through NULL is executed.\<close>

definition rcvry_fi_fatal_fault :: "u32 \<Rightarrow> 'a runtime_scheme \<Rightarrow> bool \<times> 'a runtime_scheme" where
  "rcvry_fi_fatal_fault site_id s =
     (if rcvry_fi_enabled site_id s then (True, set_fault_probability 0 site_id s) else (False, s))"

text \<open>The sites that fault when the hook is passed at a sequence of sites, recovery returning
  after each fault.\<close>

primrec fi_run :: "u32 list \<Rightarrow> 'a runtime_scheme \<Rightarrow> u32 list \<times> 'a runtime_scheme" where
  "fi_run [] s = ([], s)"
| "fi_run (i # is) s =
     (let (hit, s) = rcvry_fi_fatal_fault i s; (fs, s) = fi_run is s
      in (if hit then i # fs else fs, s))"

section \<open>Lemmas\<close>

lemma set_prob_at [simp]:
  "fault_probability (rcvry_infos (set_fault_probability p i s) j)
     = (if j = i then p else fault_probability (rcvry_infos s j))"
  by (simp add: set_fault_probability_def)

lemma fold_set_prob:
  "fault_probability (rcvry_infos (fold (set_fault_probability p) is s) j)
     = (if j \<in> set is then p else fault_probability (rcvry_infos s j))"
  by (induction "is" arbitrary: s) auto

lemma set_listed_fold:
  assumes "\<forall>t \<in> set ts. (ucast (strtoul0 t) :: u32) < RCVRY_MAX_LIBCALL_SITES"
  shows "set_listed p ts s = Some (fold (set_fault_probability p) (map (\<lambda>t. ucast (strtoul0 t)) ts) s)"
  using assms by (induction ts arbitrary: s) (auto simp: Let_def)

lemma fi_run_sites:
  "distinct (fst (fi_run is s)) \<and> set (fst (fi_run is s)) = {i \<in> set is. rcvry_fi_enabled i s}
   \<and> (\<forall>i. rcvry_fi_enabled i (snd (fi_run is s)) \<longleftrightarrow> rcvry_fi_enabled i s \<and> i \<notin> set is)"
proof (induction "is" arbitrary: s)
  case (Cons i "is")
  define u where "u = snd (rcvry_fi_fatal_fault i s)"
  obtain fs t where r: "fi_run is u = (fs, t)" by fastforce
  have ih: "distinct fs" "set fs = {j \<in> set is. rcvry_fi_enabled j u}"
    "\<forall>j. rcvry_fi_enabled j t \<longleftrightarrow> rcvry_fi_enabled j u \<and> j \<notin> set is"
    using Cons [of u] unfolding r by simp_all
  have run: "fi_run (i # is) s = (if rcvry_fi_enabled i s then i # fs else fs, t)"
    using r by (simp add: rcvry_fi_fatal_fault_def u_def split: if_splits)
  have en: "rcvry_fi_enabled j u \<longleftrightarrow> rcvry_fi_enabled j s \<and> j \<noteq> i" for j
    by (simp add: rcvry_fi_enabled_def rcvry_fi_fatal_fault_def u_def)
  show ?case unfolding run using ih en by (cases "rcvry_fi_enabled i s") (simp_all, blast+)
qed simp

text \<open>A list of site numbers as a user writes it.\<close>

fun site_list :: "u32 list \<Rightarrow> string" where
  "site_list [] = []"
| "site_list [i] = lt_kputn (unat i)"
| "site_list (i # is) = lt_kputn (unat i) @ CHR '','' # site_list is"

lemma kputn_ne: "lt_kputn n \<noteq> []"
  using lt_kputn_hd [of n] by auto

lemma kputn_no_comma: "CHR '','' \<notin> set (lt_kputn n)"
  using lt_kputn_digits [of "CHR '',''" n] by (auto simp: digit_in_def digit_val_def)

lemma split_site_list:
  "is \<noteq> [] \<Longrightarrow> split_commas (site_list is) = map (\<lambda>i. lt_kputn (unat i)) is"
  by (induction "is" rule: site_list.induct)
    (simp_all add: split_commas_append split_commas_no_comma kputn_no_comma)

lemma site_list_ne: "is \<noteq> [] \<Longrightarrow> site_list is \<noteq> []"
  by (cases "is" rule: site_list.cases) (simp_all add: kputn_ne)

lemma strtoul_site: "ucast (strtoul0 (lt_kputn (unat i))) = (i :: u32)"
proof -
  have "unat i < 2 ^ 32" using unsigned_less [of i] by simp
  then have "strtoul0 (lt_kputn (unat i)) = ucast i" by (simp add: strtoul0_lt_kputn)
  moreover have "ucast (ucast i :: u64) = i" by transfer simp
  ultimately show ?thesis by simp
qed

lemma set_listed_sites:
  assumes "is \<noteq> []" "\<forall>i \<in> set is. i < RCVRY_MAX_LIBCALL_SITES"
  shows "set_listed p (split_commas (site_list is)) s = Some (fold (set_fault_probability p) is s)"
proof -
  have m: "map (\<lambda>t. ucast (strtoul0 t)) (split_commas (site_list is)) = is"
    using assms(1) by (simp add: split_site_list strtoul_site comp_def)
  have "(ucast (strtoul0 t) :: u32) < RCVRY_MAX_LIBCALL_SITES" if "t \<in> set (split_commas (site_list is))" for t
    using that assms by (auto simp: split_site_list strtoul_site)
  then show ?thesis using set_listed_fold [of "split_commas (site_list is)" p s] m by simp
qed

section \<open>Properties\<close>

text \<open>
  C25: The environment decides which sites are armed.  When both variables hold
  lists of site numbers in range, written in decimal and separated by commas, and
  no site was armed before, initialisation succeeds and arms exactly the sites of
  the first list that are not in the second.
\<close>

theorem rcvry_fi_init_arms:
  assumes "env ''RCVRY_FI_SITES'' = Some (site_list fi)" "fi \<noteq> []"
    and "env ''RCVRY_NON_FI_SITES'' = Some (site_list non)" "non \<noteq> []"
    and "\<forall>i \<in> set fi \<union> set non. i < RCVRY_MAX_LIBCALL_SITES"
    and "\<forall>i. \<not> rcvry_fi_enabled i s"
  shows "\<exists>t. rcvry_fi_init env s = Some t
     \<and> (\<forall>i. rcvry_fi_enabled i t \<longleftrightarrow> i \<in> set fi \<and> i \<notin> set non)"
proof -
  obtain c cs where ne: "site_list fi = c # cs" using site_list_ne [OF assms(2)] by (cases "site_list fi") auto
  have "rcvry_fi_init env s
      = Some (fold (set_fault_probability 0) non (fold (set_fault_probability 100) fi s))"
    using set_listed_sites [OF assms(2), of 100 s] set_listed_sites [OF assms(4), of 0] assms(5)
    by (simp add: rcvry_fi_init_def assms(1,3) ne)
  then show ?thesis using assms(6) by (simp add: rcvry_fi_enabled_def fold_set_prob)
qed

theorem rcvry_fi_init_arms_witness:
  "\<exists>t. rcvry_fi_init (\<lambda>n. if n = ''RCVRY_FI_SITES'' then Some (site_list [3, 17])
                          else if n = ''RCVRY_NON_FI_SITES'' then Some (site_list [17]) else None)
         (demo_rcvry RCVRY_TYPE_NOOP) = Some t
     \<and> (\<forall>i. rcvry_fi_enabled i t \<longleftrightarrow> i \<in> set [3, 17] \<and> i \<notin> set [17])"
  by (rule rcvry_fi_init_arms) (auto simp: rcvry_fi_enabled_def demo_rcvry_defs)

text \<open>
  C24: An armed site faults once.  Along any sequence of passes through the hook,
  with recovery returning each time, the sites that fault are exactly the armed
  ones that are passed, each of them once.
\<close>

theorem rcvry_fi_fires_once:
  "distinct (fst (fi_run is s)) \<and> set (fst (fi_run is s)) = {i. i \<in> set is \<and> rcvry_fi_enabled i s}"
  using fi_run_sites [of "is" s] by auto

end
