(* ===== verification/Window.thy ===== *)
theory Window
  imports Rcvry_Helper Rcvry_Fi
begin

text \<open>
  The window around a library call as \<open>HybRcvryPass.h\<close> constructs it: what runs in
  front of the call, what runs behind it, and the gate that selects the clone of
  the function the window continues in.  The model gives the meaning of the
  emitted blocks; how the pass splits and merges basic blocks is left out.

  Behind the call the registers are saved.  A recovery jumps back to that point,
  so the second half of the entry (\<open>windowGate\<close>) runs once when the window is
  entered and once more after every recovery.
\<close>

section \<open>Which calls get a window\<close>

datatype gate_kind = Skipped_nonfaultable | Skipped_nousers | Protected

definition rewireLibCallUsage :: "string \<Rightarrow> bool \<Rightarrow> gate_kind" where
  "rewireLibCallUsage f has_users =
     (if isNonFaultableLibCall f then Skipped_nonfaultable
      else if \<not> has_users then Skipped_nousers else Protected)"

definition rcvry_prof_count_libcalls__skipped_nonfaultable :: "u32 \<Rightarrow> 'a runtime_scheme \<Rightarrow> 'a runtime_scheme" where
  "rcvry_prof_count_libcalls__skipped_nonfaultable site_id s =
     (let i = rcvry_infos s site_id; p = rcvry_prof i
      in s\<lparr>rcvry_infos := (rcvry_infos s)(site_id :=
           i\<lparr>rcvry_prof := p\<lparr>libcalls__skipped_nonfaultable := libcalls__skipped_nonfaultable p + 1\<rparr>\<rparr>)\<rparr>)"

definition rcvry_prof_count_libcalls__skipped_nousers :: "u32 \<Rightarrow> 'a runtime_scheme \<Rightarrow> 'a runtime_scheme" where
  "rcvry_prof_count_libcalls__skipped_nousers site_id s =
     (let i = rcvry_infos s site_id; p = rcvry_prof i
      in s\<lparr>rcvry_infos := (rcvry_infos s)(site_id :=
           i\<lparr>rcvry_prof := p\<lparr>libcalls__skipped_nousers := libcalls__skipped_nousers p + 1\<rparr>\<rparr>)\<rparr>)"

definition rcvry_prof_count_libcalls__protected :: "u32 \<Rightarrow> 'a runtime_scheme \<Rightarrow> 'a runtime_scheme" where
  "rcvry_prof_count_libcalls__protected site_id s =
     (let i = rcvry_infos s site_id; p = rcvry_prof i
      in s\<lparr>rcvry_infos := (rcvry_infos s)(site_id :=
           i\<lparr>rcvry_prof := p\<lparr>libcalls__protected := libcalls__protected p + 1\<rparr>\<rparr>)\<rparr>)"

section \<open>In front of the call\<close>

record pass_conf =
  rcvryProfiling :: bool
  faultInjection :: bool
  endOfWindowHook :: bool

definition count_libcall :: "pass_conf \<Rightarrow> gate_kind \<Rightarrow> u32 \<Rightarrow> 'a runtime_scheme \<Rightarrow> 'a runtime_scheme" where
  "count_libcall pc k site_id s =
     (if rcvryProfiling pc
      then (case k of
              Skipped_nonfaultable \<Rightarrow> rcvry_prof_count_libcalls__skipped_nonfaultable site_id s
            | Skipped_nousers \<Rightarrow> rcvry_prof_count_libcalls__skipped_nousers site_id s
            | Protected \<Rightarrow> rcvry_prof_count_libcalls__protected site_id s)
      else s)"

text \<open>
  The blocks in front of a protected call; the first component says that the
  injected fault was hit, before the previous window was ended.  \<open>slot\<close> is the
  local of the entering clone that receives the result.
\<close>

definition before_libcall ::
    "pass_conf \<Rightarrow> ('w rcvry_state \<Rightarrow> 'w rcvry_state) \<Rightarrow> u32 \<Rightarrow> va \<Rightarrow> 'w rcvry_state \<Rightarrow> bool \<times> 'w rcvry_state" where
  "before_libcall pc eow site_id slot s =
     (let s = count_libcall pc Protected site_id s;
          (hit, s) = (if faultInjection pc then rcvry_fi_fatal_fault site_id s else (False, s))
      in if hit then (True, s)
         else let s = (if endOfWindowHook pc then eow s else s)
              in (False, s\<lparr>rcvry_return_addr := slot\<rparr>))"

section \<open>Behind the call\<close>

text \<open>Down to the point where the registers are saved.\<close>

definition windowEntry ::
    "helper_conf \<Rightarrow> (string \<rightharpoonup> rcvry_type) \<Rightarrow> build \<Rightarrow> u32 \<Rightarrow> call_inst \<Rightarrow> bool \<Rightarrow> frame \<Rightarrow> ir_value
     \<Rightarrow> 'w rcvry_state \<Rightarrow> 'w rcvry_state option" where
  "windowEntry h cache b site_id c profile fr result s =
     (case setRecoveryAction h cache site_id TX_TYPE_INVALID c profile of
        None \<Rightarrow> None
      | Some (es, strip) \<Rightarrow>
          (case exec_all b fr es s of
             None \<Rightarrow> None
           | Some s \<Rightarrow> Some (s\<lparr>rcvry_return_value := RCVRY_TO_VOID_PTR result,
                               rcvry_current_site_id := site_id\<rparr>)))"

datatype ir_type = T_ptr | T_i32 | T_i64

fun ret_bytes :: "ir_type \<Rightarrow> va \<Rightarrow> u8 list" where
  "ret_bytes T_ptr v = ptr_bytes v"
| "ret_bytes T_i64 v = ptr_bytes v"
| "ret_bytes T_i32 v = le_bytes 4 (unat (ucast v :: u32))"

text \<open>
  From the saved registers to the gate: the result is copied to the locals of both
  clones, then the gate selects the transactional clone (True) or the other one.
\<close>

definition windowGate :: "ir_type \<Rightarrow> va \<Rightarrow> va \<Rightarrow> u32 \<Rightarrow> 'w rcvry_state \<Rightarrow> bool \<times> 'w rcvry_state" where
  "windowGate ty slot0 slot1 site_id s =
     (let bs = ret_bytes ty (rcvry_return_value s);
          s = s\<lparr>pmem := mem_write (mem_write (pmem s) slot0 bs) slot1 bs\<rparr>
      in (rcvry_libcall_gates s site_id = LTCKPT_TYPE_TSX, s))"

text \<open>The check behind an ordinary call: which clone its caller continues in.\<close>

definition txTypeCheck :: "'w rcvry_state \<Rightarrow> bool" where
  "txTypeCheck s \<longleftrightarrow> rcvry_current_tx_type s = LTCKPT_TYPE_TSX"

section \<open>Lemmas\<close>

lemma length_ret_bytes: "length (ret_bytes ty v) = (case ty of T_i32 \<Rightarrow> 4 | _ \<Rightarrow> 8)"
  by (cases ty) (simp_all add: le_bytes_def)

text \<open>What the instrumented operations of a window leave alone.\<close>

definition win_same :: "build \<Rightarrow> 'w rcvry_state \<Rightarrow> 'w rcvry_state \<Rightarrow> bool" where
  "win_same b s t \<longleftrightarrow>
     rcvry_return_addr t = rcvry_return_addr s \<and> rcvry_current_site_id t = rcvry_current_site_id s \<and>
     curr_tx_type b t = curr_tx_type b s \<and> rcvry_libcall_gates t = rcvry_libcall_gates s \<and>
     wl_data t = wl_data s \<and> rcvry_libcall_max_site_id t = rcvry_libcall_max_site_id s \<and>
     prev_site_id t = prev_site_id s \<and> repeat_count t = repeat_count s \<and>
     (\<forall>j. rcvry_type (rcvry_infos t j) = rcvry_type (rcvry_infos s j) \<and>
          argc (rcvry_infos t j) = argc (rcvry_infos s j) \<and> argv (rcvry_infos t j) = argv (rcvry_infos s j))"

lemma win_same_refl [simp]: "win_same b s s"
  by (simp add: win_same_def)

lemma win_same_trans: "win_same b s t \<Longrightarrow> win_same b t u \<Longrightarrow> win_same b s u"
  by (simp add: win_same_def)

lemma win_same_write: "win_same b s (ltckpt_write_wl p s)"
  by (simp add: win_same_def ltckpt_write_wl_def lt_panic_def curr_tx_type_def Let_def)

lemma win_same_writes: "win_same b s (fold ltckpt_write_wl ps s)"
proof (induction ps arbitrary: s)
  case (Cons p ps)
  show ?case using win_same_trans [OF win_same_write [of b s p] Cons [of "ltckpt_write_wl p s"]] by simp
qed simp

lemma win_same_upd [simp]:
  "win_same b s (t\<lparr>pmem := m\<rparr>) = win_same b s t"
  "win_same b s (t\<lparr>wl_position := n\<rparr>) = win_same b s t"
  "win_same b s (t\<lparr>ctx := c\<rparr>) = win_same b s t"
  "win_same b s (t\<lparr>current_window := i\<rparr>) = win_same b s t"
  "win_same b s (upd_window f i t) = win_same b s t"
  "win_same b s (upd_prof g t) = win_same b s t"
  by (simp_all add: win_same_def curr_tx_type_def)
    (simp_all add: upd_window_def upd_prof_def upd_info_def)

lemma win_same_tol: "win_same b s (wl_top_of_the_loop b' i s)"
  by (simp add: wl_top_of_the_loop_def Let_def split: prod.split)

lemma win_same_step:
  assumes "wl_ok b e p s" "wl_step b p s = Some t"
  shows "win_same b' s t"
proof (cases p)
  case (Store a bs)
  with assms show ?thesis
    using win_same_write [of b' s a] by (auto simp: wl_ok_def wl_store_hook_def Let_def)
next
  case (Memcpy a bs)
  with assms have "unat a + length bs + 8 \<le> 18446744073709551616" by (simp add: wl_ok_def)
  then have "unat (a + word_of_nat (length bs)) + 8 \<le> 18446744073709551616"
    by (subst unat_plus_nat) simp_all
  note loop = memcpy_loop_eq [OF this]
  show ?thesis
    using assms(2) win_same_writes by (auto simp: Memcpy wl_memcpy_hook_def loop)
qed

lemma win_same_run:
  assumes "ops_ok (wl_ok b e) (wl_step b) ps s" "run_ops (wl_step b) ps s = Some t"
  shows "win_same b' s t"
  using assms
proof (induction ps arbitrary: s)
  case (Cons p ps)
  then obtain u where u: "wl_ok b e p s" "wl_step b p s = Some u"
    "ops_ok (wl_ok b e) (wl_step b) ps u" "run_ops (wl_step b) ps u = Some t"
    by (auto split: option.splits)
  show ?case using win_same_trans [OF win_same_step [OF u(1,2)] Cons.IH [OF u(3,4)]] .
qed simp

text \<open>The second half of the entry, on memory.\<close>

lemma windowGate_same:
  "win_same b s (snd (windowGate ty a0 a1 i s))"
  "wl_position (snd (windowGate ty a0 a1 i s)) = wl_position s"
  "rcvry_return_value (snd (windowGate ty a0 a1 i s)) = rcvry_return_value s"
  by (simp_all add: windowGate_def Let_def)

lemma windowGate_mem:
  assumes "windowGate ty a0 a1 i s = (g, u)" "a0 = a1 \<or> block a0 8 \<inter> block a1 8 = {}"
  shows "mem_read (pmem u) a0 (length (ret_bytes ty (rcvry_return_value s))) = ret_bytes ty (rcvry_return_value s)"
    and "mem_read (pmem u) a1 (length (ret_bytes ty (rcvry_return_value s))) = ret_bytes ty (rcvry_return_value s)"
    and "x \<notin> block a0 8 \<union> block a1 8 \<Longrightarrow> pmem u x = pmem s x"
proof -
  let ?bs = "ret_bytes ty (rcvry_return_value s)"
  have u: "pmem u = mem_write (mem_write (pmem s) a0 ?bs) a1 ?bs"
    using assms(1) by (auto simp: windowGate_def Let_def)
  have len: "length ?bs \<le> 8" by (simp add: length_ret_bytes split: ir_type.split)
  then have "length ?bs \<le> 2 ^ 64" by simp
  note rw = mem_read_write_same [OF this refl]
  show "mem_read (pmem u) a1 (length ?bs) = ?bs" unfolding u by (rule rw)
  show "mem_read (pmem u) a0 (length ?bs) = ?bs"
  proof (cases "a0 = a1")
    case True
    then show ?thesis unfolding u using rw by simp
  next
    case False
    then have "block a0 (length ?bs) \<inter> block a1 (length ?bs) = {}"
      using assms(2) block_mono [OF len] by blast
    then show ?thesis
      unfolding u using len by (subst mem_read_write_disjoint) (simp_all add: rw)
  qed
  show "x \<notin> block a0 8 \<union> block a1 8 \<Longrightarrow> pmem u x = pmem s x"
    unfolding u using block_mono [OF len] by (subst mem_write_out, blast)+ simp
qed

lemma windowEntry_site:
  "windowEntry h cache b i c profile fr res s = Some t \<Longrightarrow> rcvry_current_site_id t = i"
  by (auto simp: windowEntry_def split: option.splits)

text \<open>The memory a fault in the window leads back to.\<close>

lemma window_rollback:
  assumes inv: "wl_inv e s" "wl_takes b s"
    and ops: "ops_ok (wl_ok b e) (wl_step b) ps (wl_top_of_the_loop b i s)"
      "run_ops (wl_step b) ps (wl_top_of_the_loop b i s) = Some s3"
    and fault: "rcvry_signal_action b os (wl_restart_hook b e) SIGSEGV s3 = Jumps t"
    and cfg: "RCVRY_CLOSE_GATE_AFTER b" "curr_tx_type b s = LTCKPT_TYPE_UNDOLOG"
    and away: "block (rcvry_return_addr s) 4 \<inter> wl_area s = {}"
    and x: "x \<notin> wl_prot e s \<union> block (rcvry_return_addr s) 4"
  shows "pmem t x = pmem s x"
proof -
  let ?c = "wl_top_of_the_loop b i s"
  have same: "win_same b s s3"
    using win_same_trans [OF win_same_tol win_same_run [OF ops]] .
  then have fs: "wl_data s3 = wl_data s" "rcvry_return_addr s3 = rcvry_return_addr s"
    "curr_tx_type b s3 = LTCKPT_TYPE_UNDOLOG"
    using cfg by (simp_all add: win_same_def)
  have ck: "wl_inv e ?c" "wl_saved b e ?c = wl_visible e s" using wl_ckpt_law [OF inv] by auto
  have s3: "wl_inv e s3" "wl_saved b e s3 = wl_visible e s"
    using wl.run_saved [OF ck(1) ops(1)] ops(2) ck(2) by auto
  have "wl_area s3 = wl_area s" by (simp add: wl_area_def fs)
  then have "pmem t = undo (wl_live b e s3)
      (mem_write (pmem s3) (rcvry_return_addr s) (int_bytes (ptr_to_int (rcvry_return_value t))))"
    using segv_memory(1) [OF fault s3(1) fs(3) cfg(1)] away fs(2) by simp
  moreover have "mem_write (pmem s3) (rcvry_return_addr s) (int_bytes (ptr_to_int (rcvry_return_value t))) x = pmem s3 x"
    using x by (simp add: mem_write_out)
  ultimately have "pmem t x = undo (wl_live b e s3) (pmem s3) x"
    by (metis undo_cong)
  moreover have "x \<notin> wl_prot e s" using x by simp
  ultimately show ?thesis
    using fun_cong [OF s3(2), of x] fs(1)
    by (simp add: wl_saved_def wl_visible_def wl_prot_def wl_area_def)
qed

text \<open>What the entry of a window tells the recovery library about its site.\<close>

lemma windowEntry_info:
  assumes "windowEntry h cache b i c profile fr res s = Some t" "cache (callee c) = Some ty"
    and "ty \<noteq> RCVRY_TYPE_CKPT_BUFF_PREAD" "ty \<noteq> RCVRY_TYPE_FAIL"
    and "rinfo_operands ty (callee c) = (n, a0, a1, a2)"
  shows "rcvry_type (cur_info t) = ty" "argc (cur_info t) = n"
    "argv (cur_info t) 0 = operand_value fr a0" "argv (cur_info t) 1 = operand_value fr a1"
    "argv (cur_info t) 2 = operand_value fr a2"
    "ltckpt_type (cur_info t) = (if callee c \<in> set (stm_lib_calls h) then LTCKPT_TYPE_UNDOLOG else LTCKPT_TYPE_INVALID)"
    "rcvry_current_site_id t = i"
proof -
  obtain es strip u where u: "setRecoveryAction h cache i TX_TYPE_INVALID c profile = Some (es, strip)"
    "exec_all b fr es s = Some u"
    "t = u\<lparr>rcvry_return_value := RCVRY_TO_VOID_PTR res, rcvry_current_site_id := i\<rparr>"
    using assms(1) by (auto simp: windowEntry_def split: option.splits)
  have "\<not> strip" using u(1) assms(2,4) by (auto simp: setRecoveryAction_def Let_def split: if_splits option.splits)
  with u(1) have set: "setRecoveryAction h cache i TX_TYPE_INVALID c profile = Some (es, False)" by simp
  note x = exec_site [OF set assms(2,3,5) u(2)]
  show "rcvry_type (cur_info t) = ty" "argc (cur_info t) = n"
    "argv (cur_info t) 0 = operand_value fr a0" "argv (cur_info t) 1 = operand_value fr a1"
    "argv (cur_info t) 2 = operand_value fr a2"
    "ltckpt_type (cur_info t) = (if callee c \<in> set (stm_lib_calls h) then LTCKPT_TYPE_UNDOLOG else LTCKPT_TYPE_INVALID)"
    "rcvry_current_site_id t = i"
    using x by (simp_all add: u(3) cur_info_def)
qed

lemma win_same_info:
  assumes "win_same b s t"
  shows "rcvry_type (cur_info t) = rcvry_type (cur_info s)" "argc (cur_info t) = argc (cur_info s)"
    "argv (cur_info t) = argv (cur_info s)"
  using assms by (simp_all add: win_same_def cur_info_def)

lemma ptr_to_int_const:
  assumes "- (2 ^ 31) \<le> r" "r < 2 ^ 31"
  shows "ptr_to_int (operand_value fr (Const r)) = r"
proof -
  have "ucast (ucast (word_of_int r :: u32) :: u64) = (word_of_int r :: u32)" by transfer simp
  then have "ptr_to_int (operand_value fr (Const r)) = sint (word_of_int r :: u32)" by (simp add: ptr_to_int_def)
  also have "\<dots> = r" using assms by (simp add: signed_of_int signed_take_bit_int_eq_self)
  finally show ?thesis .
qed

lemmas action_defs = rcvry_dispatch_def RCVRY_RA_PROLOGUE_def RCVRY_RA_EPILOGUE_ERRNO_def
  RCVRY_RA_EPILOGUE_def operate_libcall_gate_def set_gate_def Let_def

lemma count_ra_info [simp]:
  "rcvry_type (cur_info (count_ra b f s)) = rcvry_type (cur_info s)"
  "argc (cur_info (count_ra b f s)) = argc (cur_info s)" "argv (cur_info (count_ra b f s)) = argv (cur_info s)"
  "world (count_ra b f s) = world s"
  by (simp_all add: count_ra_def cur_info_def)

lemma windowEntry_exists:
  assumes "cache (callee c) = Some ty" "ty \<noteq> RCVRY_TYPE_CKPT_BUFF_PREAD" "ty \<noteq> RCVRY_TYPE_FAIL"
    and "4 \<le> num_args c" "profile \<longrightarrow> have_prof_hooks h"
  shows "\<exists>t. windowEntry h cache b i c profile fr res s = Some t \<and>
     t = s\<lparr>rcvry_infos := rcvry_infos t, rcvry_return_value := RCVRY_TO_VOID_PTR res, rcvry_current_site_id := i\<rparr>"
proof -
  obtain es where es: "setRecoveryAction h cache i TX_TYPE_INVALID c profile = Some (es, False)"
    using setRecoveryAction_exists [where cache = cache and c = c and ty = ty and profile = profile and h = h] assms
    by blast
  obtain n a0 a1 a2 where ops: "rinfo_operands ty (callee c) = (n, a0, a1, a2)" by (metis surj_pair)
  obtain u where u: "exec_all b fr es s = Some u"
    using setRecoveryAction_emits [OF es assms(1,2) ops] by (cases profile) auto
  have "same_but_infos s u" using exec_site(1) [OF es assms(1,2) ops u] .
  then have "u = s\<lparr>rcvry_infos := rcvry_infos u\<rparr>" by (simp add: same_but_infos_def)
  then show ?thesis using es u by (cases s, cases u) (simp add: windowEntry_def)
qed

text \<open>A window of the witnesses: site 3, the result in the local at 0x5000.\<close>

definition demo_helper :: "string list \<Rightarrow> helper_conf" where
  "demo_helper stm = \<lparr>no_ckpt_in_fails = False, have_prof_hooks = False, stm_lib_calls = stm\<rparr>"

definition demo_frame :: frame where
  "demo_frame = \<lparr>ret_slot = 0x5000, call_args = [Ir_ptr 0, Ir_i64 4096, Ir_i32 7, Ir_ptr 0]\<rparr>"

lemma demo_entry_some:
  assumes "libCallRecoveryMap f = Some ty" "ty \<noteq> RCVRY_TYPE_CKPT_BUFF_PREAD" "ty \<noteq> RCVRY_TYPE_FAIL"
  obtains s where "windowEntry (demo_helper stm) libCallRecoveryMap b 3
     \<lparr>callee = f, num_args = 4\<rparr> False demo_frame (Ir_i32 7) (demo_rcvry RCVRY_TYPE_NOOP) = Some s"
    "rcvry_libcall_max_site_id s = 10" "rcvry_return_addr s = 0x5000" "pmem s = pmem demo_wl" "world s = []"
    "rcvry_libcall_gates s = rcvry_libcall_gates demo_wl" "rcvry_current_site_id s = 3"
    "wl_data s = wl_data demo_wl" "wl_position s = 0" "ctx s = demo_ctx" "rcvry_return_value s = 7"
    "prev_site_id s = 0" "repeat_count s = 0" "rcvry_current_tx_type s = LTCKPT_TYPE_UNDOLOG"
proof -
  let ?c = "\<lparr>callee = f, num_args = 4\<rparr>"
  obtain t where t: "windowEntry (demo_helper stm) libCallRecoveryMap b 3 ?c
      False demo_frame (Ir_i32 7) (demo_rcvry RCVRY_TYPE_NOOP) = Some t"
    "t = (demo_rcvry RCVRY_TYPE_NOOP)\<lparr>rcvry_infos := rcvry_infos t,
         rcvry_return_value := RCVRY_TO_VOID_PTR (Ir_i32 7), rcvry_current_site_id := 3\<rparr>"
    using windowEntry_exists [where cache = libCallRecoveryMap and c = ?c and profile = False
        and h = "demo_helper stm" and b = b and i = 3 and fr = demo_frame and res = "Ir_i32 7"
        and s = "demo_rcvry RCVRY_TYPE_NOOP"] assms by auto
  show thesis by (rule that [OF t(1)]; subst t(2); simp add: demo_rcvry_def wl_state.extend_def demo_wl_def)
qed

lemma demo_recovery_types:
  "libCallRecoveryMap ''close'' = Some RCVRY_TYPE_SET_RET_ERRNO_ENOMEM"
  "libCallRecoveryMap ''malloc'' = Some RCVRY_TYPE_UNDO_MALLOC"
  "libCallRecoveryMap ''open'' = Some RCVRY_TYPE_CLOSE"
  "libCallRecoveryMap ''accept'' = Some RCVRY_TYPE_CLOSE_SOCKET"
  "libCallRecoveryMap ''setlocale'' = Some RCVRY_TYPE_UNDO_SETLOCALE"
  "libCallRecoveryMap ''mmap'' = Some RCVRY_TYPE_UNDO_MMAP"
  by (simp_all add: libCallRecoveryMap_lookup libCallRecoveryInserts_def)

lemma set_ret_type:
  assumes "rinfo_operands ty f = RCVRY_SET_RET_ERRNO r e"
  shows "rcvry_actions_map b os ty = Some (rcvry_ra_set_ret_errno b)"
    "ty \<noteq> RCVRY_TYPE_CKPT_BUFF_PREAD" "ty \<noteq> RCVRY_TYPE_FAIL" "- 2 \<le> r" "r \<le> 0"
  using assms by (cases ty; simp add: RCVRY_SET_RET_ERRNO_def)+

lemma set_ret_dispatch:
  assumes "rcvry_type (cur_info s) = ty" "argc (cur_info s) = 2" "argv (cur_info s) 0 = operand_value fr (Const r)"
    and "rinfo_operands ty f = RCVRY_SET_RET_ERRNO r e"
    and "rcvry_current_site_id s \<le> rcvry_libcall_max_site_id s" "rcvry_return_addr s \<noteq> 0"
  shows "\<exists>t. rcvry_dispatch b os s = Returns (RCVRY_E_OK, t) \<and> rcvry_return_value t = int_to_ptr r
     \<and> pmem t = mem_write (pmem s) (rcvry_return_addr s) (int_bytes r) \<and> world t = world s"
proof -
  note ty = set_ret_type [OF assms(4)]
  have r: "ptr_to_int (operand_value fr (Const r)) = r" using ty(4,5) by (intro ptr_to_int_const) simp_all
  have pr: "ptr_to_int (int_to_ptr r) = r"
  proof -
    have "ucast (word_of_int r :: u64) = (word_of_int r :: u32)" by transfer simp
    then show ?thesis
      using ty(4,5) by (simp add: ptr_to_int_def int_to_ptr_def signed_of_int signed_take_bit_int_eq_self)
  qed
  show ?thesis
    using assms
    by (simp add: action_defs rcvry_ra_set_ret_errno_def ty(1) r pr del: operand_value.simps)
qed

text \<open>A fault in the window of a call whose result is to be faked is recovered.\<close>

lemma set_ret_segv:
  assumes info: "rcvry_type (cur_info s) = ty" "argc (cur_info s) = 2"
      "argv (cur_info s) 0 = operand_value fr (Const r)" "rinfo_operands ty f = RCVRY_SET_RET_ERRNO r e'"
    and "rcvry_current_site_id s \<le> rcvry_libcall_max_site_id s" "rcvry_return_addr s \<noteq> 0"
    and "prev_site_id s = rcvry_current_site_id s \<Longrightarrow> repeat_count s + 1 \<le> 64"
    and inv: "wl_inv e s" and away: "block (rcvry_return_addr s) 4 \<inter> wl_area s = {}"
  shows "\<exists>t. rcvry_signal_action b os (wl_restart_hook b e) SIGSEGV s = Jumps t \<and> rcvry_return_value t = int_to_ptr r"
proof -
  define s1 where "s1 = (count_ra b (\<lambda>p. p\<lparr>num_hits := num_hits p + 1\<rparr>) s)
       \<lparr>repeat_count := (if prev_site_id s = rcvry_current_site_id s then repeat_count s + 1 else 0),
        prev_site_id := rcvry_current_site_id s\<rparr>"
  define s2 where "s2 = count_ra b (\<lambda>p. p\<lparr>num_rcvry_success__errpath := num_rcvry_success__errpath p + 1\<rparr>)
        (set_gate RCVRY_LIBCALL_GATE_CLOSE s1)"
  have f2: "cur_info s2 = cur_info s2" "rcvry_type (cur_info s2) = ty" "argc (cur_info s2) = 2"
    "argv (cur_info s2) 0 = operand_value fr (Const r)" "rcvry_current_site_id s2 = rcvry_current_site_id s"
    "rcvry_return_addr s2 = rcvry_return_addr s" "pmem s2 = pmem s" "wl_data s2 = wl_data s"
    "wl_position s2 = wl_position s"
    using info(1-3) by (simp_all add: s2_def s1_def cur_info_def count_ra_def)
  have m2: "rcvry_libcall_max_site_id s2 = rcvry_libcall_max_site_id s"
    by (simp add: s2_def s1_def count_ra_def upd_prof_def upd_info_def set_gate_def)
  obtain s3 where s3: "rcvry_dispatch b os s2 = Returns (RCVRY_E_OK, s3)" "rcvry_return_value s3 = int_to_ptr r"
    "pmem s3 = mem_write (pmem s) (rcvry_return_addr s) (int_bytes r)"
    using set_ret_dispatch [OF f2(2-4) info(4), of b os] f2 m2 assms(5,6) by auto
  have "ra_done b s2 s3" using dispatch.ok_law [OF s3(1)] .
  then have f3: "wl_data s3 = wl_data s" "wl_position s3 = wl_position s"
    by (simp_all add: ra_done_def ra_same_def f2)
  have "pmem s3 x = pmem s x" if "x \<in> wl_area s" for x
    using away that unfolding s3(3) by (intro mem_write_out) auto
  then have "wl_inv e s3" using wl_same_log(2) [OF f3] inv by (auto simp: wl_inv_def)
  note restart = wl_restart_undo [OF this, of b]
  have seg: "\<exists>t. segv_recover b os (wl_restart_hook b e) s1 = Returns t \<and> rcvry_return_value t = int_to_ptr r"
    by (simp add: segv_recover_def s2_def [symmetric] s3(1,2) restart Let_def)
  have "rcvry_signal_action b os (wl_restart_hook b e) SIGSEGV s =
      (case segv_recover b os (wl_restart_hook b e) s1 of
         Returns s \<Rightarrow> Jumps (count_ra b (\<lambda>p. p\<lparr>num_rcvry_successes := num_rcvry_successes p + 1\<rparr>) s)
       | other \<Rightarrow> other)"
    using assms(7) by (auto simp: rcvry_signal_action_def is_expected_signal_def s1_def Let_def)
  then show ?thesis using seg by auto
qed

lemma window_recovery_mem:
  assumes "windowEntry h cache b i c profile fr res s0 = Some s1"
    and gate: "windowGate ty a0 a1 i s1 = (False, s2)"
    and inv: "wl_inv e s2" "wl_takes b s2"
    and ops: "ops_ok (wl_ok b e) (wl_step b) ps (wl_top_of_the_loop b i s2)"
      "run_ops (wl_step b) ps (wl_top_of_the_loop b i s2) = Some s3"
    and fault: "rcvry_signal_action b os (wl_restart_hook b e) SIGSEGV s3 = Jumps t"
    and cfg: "RCVRY_CLOSE_GATE_AFTER b" "curr_tx_type b s2 = LTCKPT_TYPE_UNDOLOG"
    and slots: "rcvry_return_addr s2 = a0 \<or> rcvry_return_addr s2 = a1"
      "a0 = a1 \<or> block a0 8 \<inter> block a1 8 = {}" "(block a0 8 \<union> block a1 8) \<inter> wl_area s2 = {}"
  shows "\<exists>u. windowGate ty a0 a1 i t = (False, u)
     \<and> mem_read (pmem u) a0 (length (ret_bytes ty (rcvry_return_value t))) = ret_bytes ty (rcvry_return_value t)
     \<and> mem_read (pmem u) a1 (length (ret_bytes ty (rcvry_return_value t))) = ret_bytes ty (rcvry_return_value t)
     \<and> (\<forall>x. x \<notin> wl_prot e s2 \<union> block a0 8 \<union> block a1 8 \<longrightarrow> pmem u x = pmem s2 x)
     \<and> wl_position u = 0 \<and> rcvry_libcall_gates u i = RCVRY_LIBCALL_GATE_CLOSE"
proof -
  obtain g u where u: "windowGate ty a0 a1 i t = (g, u)" by fastforce
  note mem = windowGate_mem [OF u slots(2)]
  have same: "win_same b s2 s3" using win_same_trans [OF win_same_tol win_same_run [OF ops]] .
  have i: "rcvry_current_site_id s2 = i"
    using windowEntry_site [OF assms(1)] windowGate_same(1) [of b s1 ty a0 a1 i] gate by (simp add: win_same_def)
  have sub: "block (rcvry_return_addr s2) 4 \<subseteq> block a0 8 \<union> block a1 8"
    using slots(1) block_mono [of 4 8] by auto
  then have away: "block (rcvry_return_addr s2) 4 \<inter> wl_area s2 = {}" using slots(3) by blast
  have inv3: "wl_inv e s3" using wl.run_saved [OF _ ops(1)] wl_ckpt_law [OF inv] ops(2) by auto
  have segv: "wl_position t = 0" "rcvry_libcall_gates t i = RCVRY_LIBCALL_GATE_CLOSE"
    using segv_memory(2,4) [OF fault inv3 _ cfg(1)] same cfg(2) away i by (auto simp: win_same_def wl_area_def)
  have g: "\<not> g" "wl_position u = 0" "rcvry_libcall_gates u i = RCVRY_LIBCALL_GATE_CLOSE"
    using u segv by (auto simp: windowGate_def Let_def)
  have "pmem u x = pmem s2 x" if "x \<notin> wl_prot e s2 \<union> block a0 8 \<union> block a1 8" for x
    using mem(3) [of x] window_rollback [OF inv ops fault cfg away, of x] that sub by auto
  then show ?thesis using u mem(1,2) g by auto
qed

text \<open>The state at the gate of the witnesses' window, for a call kept on the undo log.\<close>

lemma demo_at_gate:
  obtains s1 s2 where
    "windowEntry (demo_helper [''close'']) libCallRecoveryMap demo_build 3
       \<lparr>callee = ''close'', num_args = 4\<rparr> False demo_frame (Ir_i32 7) (demo_rcvry RCVRY_TYPE_NOOP) = Some s1"
    "windowGate T_i32 0x5000 0x6000 3 s1 = (False, s2)" "wl_inv demo_env s2" "wl_takes demo_build s2"
    "curr_tx_type demo_build s2 = LTCKPT_TYPE_UNDOLOG" "rcvry_return_addr s2 = 0x5000"
    "rcvry_libcall_max_site_id s2 = 10" "prev_site_id s2 = 0"
    "(block 0x5000 8 \<union> block 0x6000 8) \<inter> wl_area s2 = {}"
    "ops_ok (wl_ok demo_build demo_env) (wl_step demo_build) [Store 0x2004 [1, 2, 3, 4]]
       (wl_top_of_the_loop demo_build 3 s2)"
proof -
  obtain s1 where s1: "windowEntry (demo_helper [''close'']) libCallRecoveryMap demo_build 3
     \<lparr>callee = ''close'', num_args = 4\<rparr> False demo_frame (Ir_i32 7) (demo_rcvry RCVRY_TYPE_NOOP) = Some s1"
    "rcvry_libcall_max_site_id s1 = 10" "rcvry_return_addr s1 = 0x5000"
    "rcvry_libcall_gates s1 = rcvry_libcall_gates demo_wl" "rcvry_current_site_id s1 = 3"
    "wl_data s1 = wl_data demo_wl" "wl_position s1 = 0" "ctx s1 = demo_ctx" "prev_site_id s1 = 0"
    "rcvry_current_tx_type s1 = LTCKPT_TYPE_UNDOLOG"
    by (rule demo_entry_some [OF demo_recovery_types(1)]) simp_all
  define s2 where "s2 = snd (windowGate T_i32 0x5000 0x6000 3 s1)"
  have g: "windowGate T_i32 0x5000 0x6000 3 s1 = (False, s2)"
    using s1(4) by (simp add: s2_def windowGate_def Let_def demo_wl_def)
  note same = windowGate_same(1) [of demo_build s1 T_i32 "0x5000" "0x6000" 3, folded s2_def]
  have pos: "wl_position s2 = 0" "wl_data s2 = 0x100000000000" "ctx s2 = demo_ctx"
    using s1(6-8) by (simp_all add: s2_def windowGate_def Let_def)
  show thesis
  proof (rule that [OF s1(1) g])
    show "wl_inv demo_env s2"
      by (simp add: wl_inv_def wl_geometry_def wl_entries_def log_entries_def demo_env_def pos)
    show "wl_takes demo_build s2"
      by (simp add: wl_takes_def pos demo_ctx_def ctx_new_log_size_def ctx_new_tol_or_return_def)
    show "curr_tx_type demo_build s2 = LTCKPT_TYPE_UNDOLOG" "rcvry_return_addr s2 = 0x5000"
      "rcvry_libcall_max_site_id s2 = 10" "prev_site_id s2 = 0"
      using same s1 by (simp_all add: win_same_def) (simp add: curr_tx_type_def demo_build_def)
    show "(block 0x5000 8 \<union> block 0x6000 8) \<inter> wl_area s2 = {}"
      by (auto simp: wl_area_def pos block_nowrap)
    show "ops_ok (wl_ok demo_build demo_env) (wl_step demo_build) [Store 0x2004 [1, 2, 3, 4]]
       (wl_top_of_the_loop demo_build 3 s2)"
      by (simp add: wl_ok_def wl_restorable_def ltckpt_can_restore_def ltckpt_overlaps_def
          wl_store_hook_def wl_top_of_the_loop_def demo_ctx_def demo_env_def pos ctx_new_log_size_def
          ctx_new_tol_or_return_def align_down_def mask_eq_exp_minus_1 Let_def)
  qed
qed

lemma errno_window_total:
  assumes entry: "windowEntry h cache b i c profile fr res s0 = Some s1"
    and gate: "windowGate ty a0 a1 i s1 = (False, s2)"
    and inv: "wl_inv e s2" "wl_takes b s2"
    and ops: "ops_ok (wl_ok b e) (wl_step b) ps (wl_top_of_the_loop b i s2)"
    and cfg: "RCVRY_CLOSE_GATE_AFTER b" "curr_tx_type b s2 = LTCKPT_TYPE_UNDOLOG"
    and slots: "rcvry_return_addr s2 = a0 \<or> rcvry_return_addr s2 = a1" "a0 \<noteq> 0" "a1 \<noteq> 0"
      "a0 = a1 \<or> block a0 8 \<inter> block a1 8 = {}" "(block a0 8 \<union> block a1 8) \<inter> wl_area s2 = {}"
    and site: "cache (callee c) = Some rty" "rinfo_operands rty (callee c) = RCVRY_SET_RET_ERRNO r e'"
      "i \<le> rcvry_libcall_max_site_id s2" "prev_site_id s2 = i \<longrightarrow> repeat_count s2 < 64"
  shows "\<exists>s3 t u. run_ops (wl_step b) ps (wl_top_of_the_loop b i s2) = Some s3
     \<and> rcvry_signal_action b os (wl_restart_hook b e) SIGSEGV s3 = Jumps t
     \<and> windowGate ty a0 a1 i t = (False, u)
     \<and> mem_read (pmem u) a0 (length (ret_bytes ty (int_to_ptr r))) = ret_bytes ty (int_to_ptr r)
     \<and> mem_read (pmem u) a1 (length (ret_bytes ty (int_to_ptr r))) = ret_bytes ty (int_to_ptr r)
     \<and> (\<forall>x. x \<notin> wl_prot e s2 \<union> block a0 8 \<union> block a1 8 \<longrightarrow> pmem u x = pmem s2 x)"
proof -
  have inv_c: "wl_inv e (wl_top_of_the_loop b i s2)" using wl_ckpt_law [OF inv] by simp
  obtain s3 where s3: "run_ops (wl_step b) ps (wl_top_of_the_loop b i s2) = Some s3" "wl_inv e s3"
    using wl.run_saved [OF inv_c ops] by blast
  have same12: "win_same b s1 s2" using windowGate_same(1) [of b s1 ty a0 a1 i] gate by simp
  have same23: "win_same b s2 s3" using win_same_trans [OF win_same_tol win_same_run [OF ops s3(1)]] .
  have opr: "rinfo_operands rty (callee c) = (2, Const r, Const e', Null)"
    using site(2) by (simp add: RCVRY_SET_RET_ERRNO_def)
  note info = windowEntry_info [OF entry site(1) set_ret_type(2,3) [OF site(2)] opr]
  note eq = win_same_info [OF win_same_trans [OF same12 same23]]
  have i: "rcvry_current_site_id s3 = i" using info(7) same12 same23 by (simp add: win_same_def)
  have addr: "rcvry_return_addr s3 = a0 \<or> rcvry_return_addr s3 = a1" using slots(1) same23 by (simp add: win_same_def)
  then have sub: "block (rcvry_return_addr s3) 4 \<subseteq> block a0 8 \<union> block a1 8" using block_mono [of 4 8] by auto
  have area: "wl_area s3 = wl_area s2" using same23 by (simp add: win_same_def wl_area_def)
  have away: "block (rcvry_return_addr s3) 4 \<inter> wl_area s3 = {}" using sub slots(5) unfolding area by blast
  have rep: "repeat_count s3 + 1 \<le> 64" if "prev_site_id s3 = rcvry_current_site_id s3"
  proof -
    have "repeat_count s3 < 64" using site(4) that same23 i by (auto simp: win_same_def)
    then show ?thesis by (rule inc_le)
  qed
  have nz: "rcvry_return_addr s3 \<noteq> 0" using addr slots(2,3) by auto
  have le: "rcvry_current_site_id s3 \<le> rcvry_libcall_max_site_id s3"
    using site(3) same23 i by (simp add: win_same_def)
  obtain t where t: "rcvry_signal_action b os (wl_restart_hook b e) SIGSEGV s3 = Jumps t"
    "rcvry_return_value t = int_to_ptr r"
    using set_ret_segv [OF _ _ _ site(2) le nz rep s3(2) away] info(1-3) eq by auto
  show ?thesis
    using window_recovery_mem [OF entry gate inv ops s3(1) t(1) cfg slots(1,4,5)] s3(1) t by auto
qed

section \<open>Properties\<close>

text \<open>
  C1: Recovery of a window, end to end.  A library call returns, its window is
  entered through the undo-log side of the gate, a checkpoint is taken and the
  application runs instrumented stores and copies until it faults.  If the signal
  handler jumps back, the second pass through the gate again selects the undo-log
  clone, both locals hold the return value the recovery action chose, and every
  other byte outside the log and its variables is what it was when the window was
  entered; the log is empty and the gate of the site closed.
\<close>

theorem window_recovery:
  assumes "windowEntry h cache b i c profile fr res s0 = Some s1"
    and gate: "windowGate ty a0 a1 i s1 = (False, s2)"
    and inv: "wl_inv e s2" "wl_takes b s2"
    and ops: "ops_ok (wl_ok b e) (wl_step b) ps (wl_top_of_the_loop b i s2)"
      "run_ops (wl_step b) ps (wl_top_of_the_loop b i s2) = Some s3"
    and fault: "rcvry_signal_action b os (wl_restart_hook b e) SIGSEGV s3 = Jumps t"
    and cfg: "RCVRY_CLOSE_GATE_AFTER b" "curr_tx_type b s2 = LTCKPT_TYPE_UNDOLOG"
    and slots: "rcvry_return_addr s2 = a0 \<or> rcvry_return_addr s2 = a1"
      "a0 = a1 \<or> block a0 8 \<inter> block a1 8 = {}" "(block a0 8 \<union> block a1 8) \<inter> wl_area s2 = {}"
  shows "\<exists>u. windowGate ty a0 a1 i t = (False, u)
     \<and> mem_read (pmem u) a0 (length (ret_bytes ty (rcvry_return_value t))) = ret_bytes ty (rcvry_return_value t)
     \<and> mem_read (pmem u) a1 (length (ret_bytes ty (rcvry_return_value t))) = ret_bytes ty (rcvry_return_value t)
     \<and> (\<forall>x. x \<notin> wl_prot e s2 \<union> block a0 8 \<union> block a1 8 \<longrightarrow> pmem u x = pmem s2 x)
     \<and> wl_position u = 0 \<and> rcvry_libcall_gates u i = RCVRY_LIBCALL_GATE_CLOSE"
  by (rule window_recovery_mem [OF assms])

theorem window_recovery_witness:
  "\<exists>s t u. rcvry_signal_action demo_build demo_os (wl_restart_hook demo_build demo_env) SIGSEGV s = Jumps t
     \<and> windowGate T_i32 0x5000 0x6000 3 t = (False, u) \<and> wl_position u = 0
     \<and> rcvry_libcall_gates u 3 = RCVRY_LIBCALL_GATE_CLOSE"
proof -
  obtain s1 s2 where s: "windowEntry (demo_helper [''close'']) libCallRecoveryMap demo_build 3
       \<lparr>callee = ''close'', num_args = 4\<rparr> False demo_frame (Ir_i32 7) (demo_rcvry RCVRY_TYPE_NOOP) = Some s1"
    "windowGate T_i32 0x5000 0x6000 3 s1 = (False, s2)" "wl_inv demo_env s2" "wl_takes demo_build s2"
    "ops_ok (wl_ok demo_build demo_env) (wl_step demo_build) [Store 0x2004 [1, 2, 3, 4]]
       (wl_top_of_the_loop demo_build 3 s2)"
    and f: "curr_tx_type demo_build s2 = LTCKPT_TYPE_UNDOLOG" "rcvry_return_addr s2 = 0x5000"
    "rcvry_libcall_max_site_id s2 = 10" "prev_site_id s2 = 0"
    "(block 0x5000 8 \<union> block 0x6000 8) \<inter> wl_area s2 = {}"
    by (rule demo_at_gate) blast
  have dis: "(0x5000 :: va) = 0x6000 \<or> block (0x5000 :: va) 8 \<inter> block 0x6000 8 = {}"
    by (auto simp: block_nowrap)
  obtain s3 t where t: "run_ops (wl_step demo_build) [Store 0x2004 [1, 2, 3, 4]] (wl_top_of_the_loop demo_build 3 s2) = Some s3"
    "rcvry_signal_action demo_build demo_os (wl_restart_hook demo_build demo_env) SIGSEGV s3 = Jumps t"
    using errno_window_total [OF s _ f(1) _ _ _ dis f(5), of RCVRY_TYPE_SET_RET_ERRNO_ENOMEM "- 1" ENOMEM demo_os]
    by (auto simp: demo_recovery_types demo_build_def f)
  show ?thesis
    using window_recovery [OF s t _ f(1) _ dis f(5)] t(2) by (auto simp: demo_build_def f)
qed

text \<open>
  C2: A call whose result is to be faked is always recovered.  Under the
  assumptions of the previous property, the application may run any instrumented
  operations; then a fault is handled, control is back at the gate, and the
  application finds the value the instrumentation chose for the call in both
  locals and all other memory as at the entry of the window.
\<close>

theorem errno_window_recovers:
  assumes entry: "windowEntry h cache b i c profile fr res s0 = Some s1"
    and gate: "windowGate ty a0 a1 i s1 = (False, s2)"
    and inv: "wl_inv e s2" "wl_takes b s2"
    and ops: "ops_ok (wl_ok b e) (wl_step b) ps (wl_top_of_the_loop b i s2)"
    and cfg: "RCVRY_CLOSE_GATE_AFTER b" "curr_tx_type b s2 = LTCKPT_TYPE_UNDOLOG"
    and slots: "rcvry_return_addr s2 = a0 \<or> rcvry_return_addr s2 = a1" "a0 \<noteq> 0" "a1 \<noteq> 0"
      "a0 = a1 \<or> block a0 8 \<inter> block a1 8 = {}" "(block a0 8 \<union> block a1 8) \<inter> wl_area s2 = {}"
    and site: "cache (callee c) = Some rty" "rinfo_operands rty (callee c) = RCVRY_SET_RET_ERRNO r e'"
      "i \<le> rcvry_libcall_max_site_id s2" "prev_site_id s2 = i \<longrightarrow> repeat_count s2 < 64"
  shows "\<exists>s3 t u. run_ops (wl_step b) ps (wl_top_of_the_loop b i s2) = Some s3
     \<and> rcvry_signal_action b os (wl_restart_hook b e) SIGSEGV s3 = Jumps t
     \<and> windowGate ty a0 a1 i t = (False, u)
     \<and> mem_read (pmem u) a0 (length (ret_bytes ty (int_to_ptr r))) = ret_bytes ty (int_to_ptr r)
     \<and> mem_read (pmem u) a1 (length (ret_bytes ty (int_to_ptr r))) = ret_bytes ty (int_to_ptr r)
     \<and> (\<forall>x. x \<notin> wl_prot e s2 \<union> block a0 8 \<union> block a1 8 \<longrightarrow> pmem u x = pmem s2 x)"
  by (rule errno_window_total [OF assms])

theorem errno_window_recovers_witness:
  "\<exists>s t u. rcvry_signal_action demo_build demo_os (wl_restart_hook demo_build demo_env) SIGSEGV s = Jumps t
     \<and> windowGate T_i32 0x5000 0x6000 3 t = (False, u)
     \<and> mem_read (pmem u) 0x5000 (length (ret_bytes T_i32 (int_to_ptr (- 1)))) = ret_bytes T_i32 (int_to_ptr (- 1))"
proof -
  obtain s1 s2 where s: "windowEntry (demo_helper [''close'']) libCallRecoveryMap demo_build 3
       \<lparr>callee = ''close'', num_args = 4\<rparr> False demo_frame (Ir_i32 7) (demo_rcvry RCVRY_TYPE_NOOP) = Some s1"
    "windowGate T_i32 0x5000 0x6000 3 s1 = (False, s2)" "wl_inv demo_env s2" "wl_takes demo_build s2"
    "ops_ok (wl_ok demo_build demo_env) (wl_step demo_build) [Store 0x2004 [1, 2, 3, 4]]
       (wl_top_of_the_loop demo_build 3 s2)"
    and f: "curr_tx_type demo_build s2 = LTCKPT_TYPE_UNDOLOG" "rcvry_return_addr s2 = 0x5000"
    "rcvry_libcall_max_site_id s2 = 10" "prev_site_id s2 = 0"
    "(block 0x5000 8 \<union> block 0x6000 8) \<inter> wl_area s2 = {}"
    by (rule demo_at_gate) blast
  have dis: "(0x5000 :: va) = 0x6000 \<or> block (0x5000 :: va) 8 \<inter> block 0x6000 8 = {}"
    by (auto simp: block_nowrap)
  show ?thesis
    using errno_window_recovers [OF s _ f(1) _ _ _ dis f(5), of RCVRY_TYPE_SET_RET_ERRNO_ENOMEM "- 1" ENOMEM demo_os]
    by (auto simp: demo_recovery_types demo_build_def f)
qed

text \<open>
  A call that allocates.  Its compensation frees the block the result points
  to, once, and makes the call return NULL with \<open>ENOMEM\<close>.
\<close>

theorem malloc_site_frees:
  assumes "windowEntry h cache b i c profile fr res s0 = Some s1" "win_same b s1 s"
    and "cache (callee c) = Some RCVRY_TYPE_UNDO_MALLOC"
    and "i \<le> rcvry_libcall_max_site_id s" "rcvry_return_addr s \<noteq> 0"
    and "ret_slot fr \<noteq> 0" "read_ptr (pmem s) (ret_slot fr) \<noteq> 0"
  shows "\<exists>t. rcvry_dispatch b os s = Returns (RCVRY_E_OK, t) \<and> rcvry_return_value t = 0 \<and> errno t = ENOMEM
     \<and> world t = os_free os (read_ptr (pmem s) (ret_slot fr)) (world s)"
proof -
  note info = windowEntry_info [OF assms(1,3) _ _ rinfo_operands.simps(1)]
  have s: "rcvry_type (cur_info s) = RCVRY_TYPE_UNDO_MALLOC" "argc (cur_info s) = 1"
    "argv (cur_info s) 0 = ret_slot fr" "rcvry_current_site_id s = i"
    using info win_same_info [OF assms(2)] assms(2) by (simp_all add: win_same_def)
  show ?thesis
    using assms(4-7)
    by (simp add: action_defs rcvry_ra_undo_malloc_def free_through_def s)
qed

theorem malloc_site_frees_witness:
  "\<exists>s t. rcvry_dispatch demo_build demo_os s = Returns (RCVRY_E_OK, t) \<and> rcvry_return_value t = 0
     \<and> world t = [(''free'', uint (read_ptr (pmem demo_wl) 0x5000))]"
proof -
  obtain s where s: "windowEntry (demo_helper []) libCallRecoveryMap demo_build 3
     \<lparr>callee = ''malloc'', num_args = 4\<rparr> False demo_frame (Ir_i32 7) (demo_rcvry RCVRY_TYPE_NOOP) = Some s"
    "rcvry_libcall_max_site_id s = 10" "rcvry_return_addr s = 0x5000" "pmem s = pmem demo_wl" "world s = []"
    by (rule demo_entry_some [OF demo_recovery_types(2)]) simp_all
  have "read_ptr (pmem demo_wl) 0x5000 \<noteq> 0"
    by (simp add: read_ptr_def mem_read_def bytes_ptr_def le_value_def demo_wl_def upt_rec)
  then show ?thesis
    using malloc_site_frees [OF s(1) win_same_refl, of demo_os]
    by (auto simp: s demo_recovery_types demo_frame_def demo_os_def)
qed

text \<open>
  A call that opens a descriptor.  Its compensation closes the descriptor the
  call returned and makes the call return -1 with the errno chosen for it.
\<close>

theorem close_site_closes:
  assumes "windowEntry h cache b i c profile fr res s0 = Some s1" "win_same b s1 s"
    and "cache (callee c) = Some RCVRY_TYPE_CLOSE"
    and "i \<le> rcvry_libcall_max_site_id s" "rcvry_return_addr s \<noteq> 0" "ret_slot fr \<noteq> 0"
    and "read_int (pmem s) (ret_slot fr) > 0"
    and "os_close os (read_int (pmem s) (ret_slot fr)) (world s) = (0, w)"
  shows "\<exists>t. rcvry_dispatch b os s = Returns (RCVRY_E_OK, t) \<and> rcvry_return_value t = int_to_ptr (- 1)
     \<and> errno t = (if callee c = ''dup2'' then EBADF else ENOMEM) \<and> world t = w"
proof -
  define en where "en = (if callee c = ''dup2'' then EBADF else ENOMEM)"
  have "rinfo_operands RCVRY_TYPE_CLOSE (callee c) = (3, RetVal, Const (- 1), Const en)" by (simp add: en_def)
  note info = windowEntry_info [OF assms(1,3) _ _ this]
  have s: "rcvry_type (cur_info s) = RCVRY_TYPE_CLOSE" "argc (cur_info s) = 3"
    "argv (cur_info s) 0 = ret_slot fr" "argv (cur_info s) (Suc 0) = operand_value fr (Const (- 1))"
    "argv (cur_info s) 2 = operand_value fr (Const en)" "rcvry_current_site_id s = i"
    using info win_same_info [OF assms(2)] assms(2) by (simp_all add: win_same_def)
  have c: "ptr_to_int (operand_value fr (Const (- 1))) = - 1" "ptr_to_int (operand_value fr (Const en)) = en"
    by (intro ptr_to_int_const; simp add: en_def)+
  show ?thesis
    using assms(4-8) unfolding en_def [symmetric]
    by (simp add: action_defs rcvry_ra_close_def s c del: operand_value.simps)
qed

theorem close_site_closes_witness:
  "\<exists>s t. rcvry_dispatch demo_build demo_os s = Returns (RCVRY_E_OK, t) \<and> rcvry_return_value t = int_to_ptr (- 1)
     \<and> errno t = ENOMEM \<and> world t = [(''close'', read_int (pmem demo_wl) 0x5000)]"
proof -
  obtain s where s: "windowEntry (demo_helper []) libCallRecoveryMap demo_build 3
     \<lparr>callee = ''open'', num_args = 4\<rparr> False demo_frame (Ir_i32 7) (demo_rcvry RCVRY_TYPE_NOOP) = Some s"
    "rcvry_libcall_max_site_id s = 10" "rcvry_return_addr s = 0x5000" "pmem s = pmem demo_wl" "world s = []"
    by (rule demo_entry_some [OF demo_recovery_types(3)]) simp_all
  have "read_int (pmem demo_wl) 0x5000 > 0"
    by (simp add: read_int_def mem_read_def le_value_def demo_wl_def upt_rec)
  then show ?thesis
    using close_site_closes [OF s(1) win_same_refl, of demo_os]
    by (auto simp: s demo_recovery_types demo_frame_def demo_os_def)
qed

text \<open>
  The compensation of calls on sockets takes the wrong argument as errno.  The
  instrumentation passes the return value second and the errno third; the action
  reads the errno from the second, so a call such as \<open>accept\<close> fails with errno -1.
\<close>

theorem socket_site_errno:
  assumes "windowEntry h cache b i c profile fr res s0 = Some s1" "win_same b s1 s"
    and "cache (callee c) = Some RCVRY_TYPE_CLOSE_SOCKET"
    and "rcvry_dispatch b os s = Returns (r, t)"
  shows "errno t = - 1"
proof -
  obtain en where en: "rinfo_operands RCVRY_TYPE_CLOSE_SOCKET (callee c) = (3, Arg 0, Const (- 1), Const en)"
    by simp
  note info = windowEntry_info [OF assms(1,3) _ _ en]
  have s: "rcvry_type (cur_info s) = RCVRY_TYPE_CLOSE_SOCKET" "argc (cur_info s) = 3"
    "argv (cur_info s) (Suc 0) = operand_value fr (Const (- 1))"
    using info win_same_info [OF assms(2)] by simp_all
  have c: "ptr_to_int (operand_value fr (Const (- 1))) = - 1" by (intro ptr_to_int_const) simp_all
  show ?thesis
    using assms(4)
    by (auto simp: action_defs rcvry_ra_close_socket_def s c simp del: operand_value.simps
        split: if_splits prod.splits)
qed

theorem socket_site_errno_witness:
  "\<exists>s r t. rcvry_dispatch demo_build demo_os s = Returns (r, t) \<and> errno t = - 1"
proof -
  let ?fr = "demo_frame\<lparr>call_args := [Ir_i32 7, Ir_ptr 0, Ir_ptr 0, Ir_ptr 0]\<rparr>"
  have "\<exists>s. windowEntry (demo_helper []) libCallRecoveryMap demo_build 3
     \<lparr>callee = ''accept'', num_args = 4\<rparr> False ?fr (Ir_i32 7) (demo_rcvry RCVRY_TYPE_NOOP) = Some s
     \<and> (\<exists>r t. rcvry_dispatch demo_build demo_os s = Returns (r, t))"
    by (simp add: windowEntry_def setRecoveryAction_def emit_action_def demo_helper_def demo_recovery_types
        RCVRY_SET_RINFO_def demo_frame_def action_defs rcvry_ra_close_socket_def count_ra_def demo_rcvry_defs
        cur_info_def demo_os_def ptr_to_int_def)
  then show ?thesis
    using socket_site_errno [OF _ win_same_refl] demo_recovery_types(4) by (metis call_inst.select_convs(1))
qed

text \<open>
  \<open>setlocale\<close> cannot be recovered.  The instrumentation describes its sites
  with one argument, the action its type is mapped to asserts two: every dispatch
  at such a site fails the assertion.
\<close>

theorem setlocale_site_aborts:
  assumes "windowEntry h cache b i c profile fr res s0 = Some s1" "win_same b s1 s"
    and "cache (callee c) = Some RCVRY_TYPE_UNDO_SETLOCALE"
  shows "rcvry_dispatch b os s = Aborts"
proof -
  note info = windowEntry_info [OF assms(1,3) _ _ rinfo_operands.simps(4)]
  have "rcvry_type (cur_info s) = RCVRY_TYPE_UNDO_SETLOCALE" "argc (cur_info s) = 1"
    using info win_same_info [OF assms(2)] by simp_all
  then show ?thesis by (simp add: action_defs rcvry_ra_set_ret_errno_def)
qed

theorem setlocale_site_aborts_witness:
  "\<exists>s. windowEntry (demo_helper []) libCallRecoveryMap demo_build 3
     \<lparr>callee = ''setlocale'', num_args = 4\<rparr> False demo_frame (Ir_i32 7) (demo_rcvry RCVRY_TYPE_NOOP) = Some s
     \<and> rcvry_dispatch demo_build demo_os s = Aborts"
proof -
  obtain s where s: "windowEntry (demo_helper []) libCallRecoveryMap demo_build 3
     \<lparr>callee = ''setlocale'', num_args = 4\<rparr> False demo_frame (Ir_i32 7) (demo_rcvry RCVRY_TYPE_NOOP) = Some s"
    by (rule demo_entry_some [OF demo_recovery_types(5)]) simp_all
  then show ?thesis
    using setlocale_site_aborts [OF s win_same_refl, of demo_os] by (simp add: demo_recovery_types)
qed

text \<open>
  The compensation of \<open>mmap\<close> unmaps the address hint.  It is given the first
  argument of the call, not its result: a mapping the kernel placed somewhere else
  stays, and the range at the hint is unmapped instead.
\<close>

theorem mmap_site_unmaps_hint:
  assumes "windowEntry h cache b i c profile fr res s0 = Some s1" "win_same b s1 s"
    and "cache (callee c) = Some RCVRY_TYPE_UNDO_MMAP"
    and "rcvry_dispatch b os s = Returns (r, t)"
  shows "world t = snd (os_munmap os (RCVRY_TO_VOID_PTR (call_args fr ! 0))
           (word_of_int (ptr_to_int (RCVRY_TO_VOID_PTR (call_args fr ! 1)))) (world s))"
proof -
  note info = windowEntry_info [OF assms(1,3) _ _ rinfo_operands.simps(12)]
  have s: "rcvry_type (cur_info s) = RCVRY_TYPE_UNDO_MMAP" "argc (cur_info s) = 3"
    "argv (cur_info s) 0 = RCVRY_TO_VOID_PTR (call_args fr ! 0)"
    "argv (cur_info s) (Suc 0) = RCVRY_TO_VOID_PTR (call_args fr ! 1)"
    using info win_same_info [OF assms(2)] by simp_all
  show ?thesis
    using assms(4)
    by (auto simp: action_defs rcvry_ra_undo_mmap_def s split: if_splits prod.splits)
qed

theorem mmap_site_unmaps_hint_witness:
  "\<exists>s r t. windowEntry (demo_helper []) libCallRecoveryMap demo_build 3
       \<lparr>callee = ''mmap'', num_args = 4\<rparr> False demo_frame (Ir_ptr 0x7f0000000000) (demo_rcvry RCVRY_TYPE_NOOP) = Some s
     \<and> rcvry_dispatch demo_build (demo_os\<lparr>os_munmap := (\<lambda>p l w. (0, (''munmap'', uint p) # w))\<rparr>) s = Returns (r, t)
     \<and> world t = [(''munmap'', 0)]"
proof -
  let ?os = "demo_os\<lparr>os_munmap := (\<lambda>p l w. (0, (''munmap'', uint p) # w))\<rparr>"
  have "\<exists>s. windowEntry (demo_helper []) libCallRecoveryMap demo_build 3
       \<lparr>callee = ''mmap'', num_args = 4\<rparr> False demo_frame (Ir_ptr 0x7f0000000000) (demo_rcvry RCVRY_TYPE_NOOP) = Some s
     \<and> world s = [] \<and> (\<exists>r t. rcvry_dispatch demo_build ?os s = Returns (r, t))"
    by (simp add: windowEntry_def setRecoveryAction_def emit_action_def demo_helper_def demo_recovery_types
        RCVRY_SET_RINFO_def demo_frame_def action_defs rcvry_ra_undo_mmap_def count_ra_def demo_rcvry_defs
        cur_info_def)
  then obtain s r t where s: "windowEntry (demo_helper []) libCallRecoveryMap demo_build 3
       \<lparr>callee = ''mmap'', num_args = 4\<rparr> False demo_frame (Ir_ptr 0x7f0000000000) (demo_rcvry RCVRY_TYPE_NOOP) = Some s"
    "world s = []" "rcvry_dispatch demo_build ?os s = Returns (r, t)" by blast
  moreover have "world t = [(''munmap'', 0)]"
    using mmap_site_unmaps_hint [OF s(1) win_same_refl _ s(3)] s(2)
    by (simp add: demo_recovery_types demo_frame_def)
  ultimately show ?thesis by blast
qed

text \<open>
  Without dynamic switching a window is not rolled back unless its call is
  listed.  The entry of the window resets the transaction type of the site, and
  the handler rolls back only a site of the undo-log type: after the recovery
  memory is as at the fault, but for the return value, and the log still holds its
  entries.
\<close>

theorem static_window_not_rolled_back:
  assumes "windowEntry h cache b i c profile fr res s0 = Some s1" "win_same b s1 s"
    and "cache (callee c) = Some ty" "ty \<noteq> RCVRY_TYPE_CKPT_BUFF_PREAD" "ty \<noteq> RCVRY_TYPE_FAIL"
    and "\<not> RCVRY_DYNAMIC_SWITCH b" "callee c \<notin> set (stm_lib_calls h)"
    and "rcvry_signal_action b os restart SIGSEGV s = Jumps t"
  shows "wl_position t = wl_position s
     \<and> (\<forall>x. x \<notin> block (rcvry_return_addr s) 4 \<longrightarrow> pmem t x = pmem s x)"
proof -
  obtain n a0 a1 a2 where ops: "rinfo_operands ty (callee c) = (n, a0, a1, a2)" by (metis surj_pair)
  have "curr_tx_type b s1 = LTCKPT_TYPE_INVALID"
    using windowEntry_info(6) [OF assms(1,3-5) ops] assms(6,7) by (simp add: curr_tx_type_def cur_info_def)
  then have inv: "curr_tx_type b s = LTCKPT_TYPE_INVALID" using assms(2) by (simp add: win_same_def)
  obtain s2 u where u: "segv_recover b os restart s2 = Returns u"
    "t = count_ra b (\<lambda>p. p\<lparr>num_rcvry_successes := num_rcvry_successes p + 1\<rparr>) u"
    and s2: "s2 = (count_ra b (\<lambda>p. p\<lparr>num_hits := num_hits p + 1\<rparr>) s)
       \<lparr>repeat_count := (if prev_site_id s = rcvry_current_site_id s then repeat_count s + 1 else 0),
        prev_site_id := rcvry_current_site_id s\<rparr>"
    using signal_segv_jumps [OF assms(8)] by blast
  have "curr_tx_type b s2 = curr_tx_type b s"
    unfolding s2 by (simp add: curr_tx_type_def count_ra_def)
  then have "curr_tx_type b s2 \<noteq> LTCKPT_TYPE_UNDOLOG" using inv by simp
  then obtain s3 where s3: "ra_done b (count_ra b (\<lambda>p. p\<lparr>num_rcvry_success__errpath := num_rcvry_success__errpath p + 1\<rparr>)
        (set_gate RCVRY_LIBCALL_GATE_CLOSE s2)) s3" "u = unblock_sig SIGSEGV s3"
    using segv_recover_returns [OF u(1)] by (auto split: if_splits)
  then have "wl_position t = wl_position s"
    "pmem t = mem_write (pmem s) (rcvry_return_addr s) (int_bytes (ptr_to_int (rcvry_return_value s3)))"
    unfolding u(2) s2 by (simp_all add: ra_done_def ra_same_def)
  then show ?thesis by (simp add: mem_write_out)
qed

theorem static_window_not_rolled_back_witness:
  "\<exists>s t. rcvry_signal_action (demo_build\<lparr>RCVRY_DYNAMIC_SWITCH := False\<rparr>) demo_os (wl_restart_hook (demo_build\<lparr>RCVRY_DYNAMIC_SWITCH := False\<rparr>) demo_env) SIGSEGV s = Jumps t
     \<and> wl_position t = wl_position s"
proof -
  let ?b = "demo_build\<lparr>RCVRY_DYNAMIC_SWITCH := False\<rparr>"
  obtain s where s: "windowEntry (demo_helper []) libCallRecoveryMap ?b 3
     \<lparr>callee = ''close'', num_args = 4\<rparr> False demo_frame (Ir_i32 7) (demo_rcvry RCVRY_TYPE_NOOP) = Some s"
    "rcvry_libcall_max_site_id s = 10" "rcvry_return_addr s = 0x5000" "prev_site_id s = 0"
    "rcvry_current_site_id s = 3" "wl_data s = wl_data demo_wl" "wl_position s = 0"
    by (rule demo_entry_some [OF demo_recovery_types(1)]) simp_all
  note info = windowEntry_info [OF s(1), of RCVRY_TYPE_SET_RET_ERRNO_ENOMEM 2 "Const (- 1)" "Const ENOMEM" Null]
  have inv: "wl_inv demo_env s"
    by (simp add: wl_inv_def wl_geometry_def wl_entries_def log_entries_def demo_env_def s)
  have away: "block (rcvry_return_addr s) 4 \<inter> wl_area s = {}"
    by (auto simp: wl_area_def s block_nowrap)
  have "\<exists>t. rcvry_signal_action (demo_build\<lparr>RCVRY_DYNAMIC_SWITCH := False\<rparr>) demo_os (wl_restart_hook (demo_build\<lparr>RCVRY_DYNAMIC_SWITCH := False\<rparr>) demo_env) SIGSEGV s = Jumps t"
    using set_ret_segv [of s RCVRY_TYPE_SET_RET_ERRNO_ENOMEM demo_frame "- 1" "''close''" ENOMEM demo_env ?b demo_os]
      info inv away s by (auto simp: demo_recovery_types RCVRY_SET_RET_ERRNO_def simp del: operand_value.simps)
  then obtain t where t: "rcvry_signal_action ?b demo_os (wl_restart_hook ?b demo_env) SIGSEGV s = Jumps t"
    by blast
  have "wl_position t = wl_position s"
    using static_window_not_rolled_back [OF s(1) win_same_refl _ _ _ _ _ t]
    by (simp add: demo_recovery_types demo_build_def demo_helper_def)
  then show ?thesis using t by blast
qed

end
