(* ===== verification/Edfi.thy ===== *)
theory Edfi
  imports Env Complex_Main
begin

text \<open>
  The fault injector's runtime (\<open>static/edfi/df/edfi_df.c\<close>) with the services of
  its control server it uses (\<open>static/edfi/platform/unix_apps/ctl/server\<close>): the
  decision whether a basic block runs its faulty copy, the commands, the random
  numbers and the loading of a library of handlers.

  The time stamp counter and the dynamic linker are functions of a state \<open>'w\<close>;
  the handlers of a loaded library are parameters.  Arrays indexed by a basic
  block are functions of the index.
\<close>

section \<open>The context\<close>

abbreviation (input) "EDFI_RAND_MAX \<equiv> 32767 :: u64"
abbreviation (input) "EDFI_CANARY_VALUE \<equiv> 0xFF0A0011 :: u32"

record fault_type_stats =
  ft_name :: string
  bb_num_injected :: "nat \<Rightarrow> u32"
  bb_num_candidates :: "nat \<Rightarrow> u32"

record edfi_context_conf =
  fault_prob :: rat
  fault_prob_randmax :: u64
  min_fdp_interval :: int
  faulty_bb_index :: int
  min_fault_time_interval :: u32
  max_time :: u32
  max_faults :: u64
  rand_seed :: u32
  dflib_path :: string

record edfi_context =
  canary_value1 :: u32
  fault_fdp_count :: int
  fault_time :: u64
  start_time :: u64
  total_faults :: u64
  fault_types :: "fault_type_stats list"
  bb_num_executions :: "int \<Rightarrow> u64"
  bb_num_faults :: "int \<Rightarrow> int"
  num_bbs :: u32
  no_svr_thread :: int
  output_dir :: string
  num_requests_on_start :: int
  verbosity :: int
  cfg :: edfi_context_conf
  canary_value2 :: u32

text \<open>Handlers are the default ones or those of a loaded library, known by its path.\<close>

datatype hooks = Default_hooks | Lib_hooks string

record 'w edfi_state =
  ectx :: edfi_context
  edfi_onfdp_count :: u64
  edfi_faultinjection_enabled :: bool
  edfi_faultinjection_enabled_version :: u32
  edfi_last_fault_time :: u64
  edfi_rand_next :: u64
  edfi_cycles_per_ns :: u64
  edfi_hooks :: hooks
  edfi_dflib :: "string option"
  ew :: 'w

record 'w edfi_os =
  rdtsc :: "'w \<Rightarrow> u64 \<times> 'w"
  dlopen :: "string \<Rightarrow> 'w \<Rightarrow> bool \<times> 'w"
  has_sym :: "string \<Rightarrow> string \<Rightarrow> bool"
  dl_close :: "string \<Rightarrow> 'w \<Rightarrow> 'w"

record 'w edfi_lib =
  lib_onstart :: "string \<Rightarrow> 'w edfi_state \<Rightarrow> 'w edfi_state"
  lib_onstop :: "string \<Rightarrow> 'w edfi_state \<Rightarrow> 'w edfi_state"

definition upd_ectx :: "(edfi_context \<Rightarrow> edfi_context) \<Rightarrow> 'w edfi_state \<Rightarrow> 'w edfi_state" where
  "upd_ectx f s = s\<lparr>ectx := f (ectx s)\<rparr>"

abbreviation (input) "conf s \<equiv> cfg (ectx s)"

section \<open>Services of the control server\<close>

definition edfi_srand :: "u32 \<Rightarrow> 'w edfi_state \<Rightarrow> 'w edfi_state" where
  "edfi_srand seed s = s\<lparr>edfi_rand_next := ucast seed\<rparr>"

definition edfi_rand :: "'w edfi_state \<Rightarrow> u64 \<times> 'w edfi_state" where
  "edfi_rand s =
     (let n = edfi_rand_next s * 1103515245 + 12345
      in (ucast (ucast (n div 65536) :: u32) mod 32768, s\<lparr>edfi_rand_next := n\<rparr>))"

definition edfi_getcurrtime_ns :: "'w edfi_os \<Rightarrow> 'w edfi_state \<Rightarrow> u64 \<times> 'w edfi_state" where
  "edfi_getcurrtime_ns os s =
     (let (x, w) = rdtsc os (ew s) in (x div edfi_cycles_per_ns s, s\<lparr>ew := w\<rparr>))"

definition edfi_load_dflib :: "'w edfi_os \<Rightarrow> string \<Rightarrow> 'w edfi_state \<Rightarrow> int \<times> 'w edfi_state" where
  "edfi_load_dflib os path s =
     (let (ok, w) = dlopen os path (ew s); s = s\<lparr>ew := w\<rparr>
      in if \<not> ok then (- 1, s)
         else if \<not> has_sym os path ''edfi_onstart'' then (- 2, s)
         else if \<not> has_sym os path ''edfi_onfdp'' then (- 3, s)
         else if \<not> has_sym os path ''edfi_onfault'' then (- 4, s)
         else if \<not> has_sym os path ''edfi_onstop'' then (- 5, s)
         else let s = s\<lparr>edfi_hooks := Lib_hooks path\<rparr>;
                  s = (case edfi_dflib s of None \<Rightarrow> s | Some old \<Rightarrow> s\<lparr>ew := dl_close os old (ew s)\<rparr>)
              in (0, s\<lparr>edfi_dflib := Some path\<rparr>))"

section \<open>Starting and stopping\<close>

definition edfi_onstart_default :: "'w edfi_os \<Rightarrow> 'w edfi_state \<Rightarrow> 'w edfi_state" where
  "edfi_onstart_default os s =
     (let s = upd_ectx (\<lambda>c. c\<lparr>fault_fdp_count := min_fdp_interval (cfg c)\<rparr>) s;
          (now, s) = edfi_getcurrtime_ns os s
      in upd_ectx (\<lambda>c. c\<lparr>start_time := now\<rparr>) s)"

text \<open>The default handler of a stop only prints.\<close>

definition edfi_onstop_default :: "'w edfi_state \<Rightarrow> 'w edfi_state" where
  "edfi_onstop_default s = s"

definition edfi_stop :: "'w edfi_lib \<Rightarrow> 'w edfi_state \<Rightarrow> 'w edfi_state" where
  "edfi_stop lib s =
     (let s = s\<lparr>edfi_faultinjection_enabled := False,
                edfi_faultinjection_enabled_version := edfi_faultinjection_enabled_version s + 1\<rparr>
      in case edfi_hooks s of
           Default_hooks \<Rightarrow> edfi_onstop_default s
         | Lib_hooks p \<Rightarrow> lib_onstop lib p s)"

definition edfi_update_context ::
    "'w edfi_os \<Rightarrow> edfi_context option \<Rightarrow> 'w edfi_state \<Rightarrow> int \<times> 'w edfi_state" where
  "edfi_update_context os new_context s =
     (case new_context of
        None \<Rightarrow> (0, s)
      | Some nc \<Rightarrow>
          (let s = edfi_srand (rand_seed (cfg nc)) s;
               (ret, s) = (if dflib_path (cfg nc) \<noteq> [] then edfi_load_dflib os (dflib_path (cfg nc)) s else (0, s))
           in if ret < 0 then (ret, s)
              else (0, upd_ectx (\<lambda>c. c\<lparr>cfg := cfg nc\<rparr>) s)))"

definition edfi_start ::
    "'w edfi_os \<Rightarrow> 'w edfi_lib \<Rightarrow> edfi_context option \<Rightarrow> 'w edfi_state \<Rightarrow> int \<times> 'w edfi_state" where
  "edfi_start os lib context s =
     (let (ret, s) = edfi_update_context os context s
      in if ret < 0 then (ret, s)
         else let s = s\<lparr>edfi_faultinjection_enabled := True,
                        edfi_faultinjection_enabled_version := edfi_faultinjection_enabled_version s + 1\<rparr>
              in (0, case edfi_hooks s of
                       Default_hooks \<Rightarrow> edfi_onstart_default os s
                     | Lib_hooks p \<Rightarrow> lib_onstart lib p s))"

definition edfi_stat :: "'w edfi_os \<Rightarrow> edfi_context option \<Rightarrow> 'w edfi_state \<Rightarrow> int \<times> 'w edfi_state" where
  "edfi_stat os context s = edfi_update_context os context s"

datatype edfi_ctl_cmd =
    EDFI_CTL_CMD_STOP
  | EDFI_CTL_CMD_START
  | EDFI_CTL_CMD_TEST
  | EDFI_CTL_CMD_STAT
  | EDFI_CTL_CMD_UPDATE
  | EDFI_CTL_CMD_OTHER

fun edfi_process_cmd ::
    "'w edfi_os \<Rightarrow> 'w edfi_lib \<Rightarrow> edfi_ctl_cmd \<Rightarrow> edfi_context option \<Rightarrow> 'w edfi_state \<Rightarrow> int \<times> 'w edfi_state" where
  "edfi_process_cmd os lib EDFI_CTL_CMD_STOP context s = (0, edfi_stop lib s)"
| "edfi_process_cmd os lib EDFI_CTL_CMD_START context s = edfi_start os lib context s"
| "edfi_process_cmd os lib EDFI_CTL_CMD_TEST context s = (0, s)"
| "edfi_process_cmd os lib EDFI_CTL_CMD_STAT context s = (0, snd (edfi_stat os context s))"
| "edfi_process_cmd os lib EDFI_CTL_CMD_UPDATE context s = edfi_update_context os context s"
| "edfi_process_cmd os lib EDFI_CTL_CMD_OTHER context s = (- 1, s)"

section \<open>The decision at a basic block\<close>

definition edfi_onfdp_min_fdp_interval :: "'w edfi_state \<Rightarrow> bool \<times> 'w edfi_state" where
  "edfi_onfdp_min_fdp_interval s =
     (if min_fdp_interval (conf s) > 0 \<and> fault_fdp_count (ectx s) < min_fdp_interval (conf s)
      then (False, upd_ectx (\<lambda>c. c\<lparr>fault_fdp_count := fault_fdp_count c + 1\<rparr>) s)
      else (True, s\<lparr>edfi_onfdp_count := edfi_onfdp_count s + word_of_int (min_fdp_interval (conf s))\<rparr>))"

definition edfi_onfdp_min_fault_time_interval :: "'w edfi_os \<Rightarrow> 'w edfi_state \<Rightarrow> bool \<times> 'w edfi_state" where
  "edfi_onfdp_min_fault_time_interval os s =
     (let s = s\<lparr>edfi_last_fault_time := 0\<rparr>;
          armed = (min_fault_time_interval (conf s) > 0 \<and> fault_time (ectx s) \<noteq> 0);
          (now, s) = (if armed then edfi_getcurrtime_ns os s else (0, s));
          s = (if armed then s\<lparr>edfi_last_fault_time := now\<rparr> else s)
      in if armed \<and> fault_time (ectx s) + ucast (min_fault_time_interval (conf s)) < edfi_last_fault_time s
         then (False, s)
         else (True, s\<lparr>edfi_onfdp_count := edfi_onfdp_count s + ucast (min_fault_time_interval (conf s))\<rparr>))"

definition edfi_onfdp_fault_prob :: "'w edfi_state \<Rightarrow> bool \<times> 'w edfi_state" where
  "edfi_onfdp_fault_prob s =
     (if fault_prob_randmax (conf s) = 0 then (True, s)
      else let (r, s) = edfi_rand s
           in if r \<ge> fault_prob_randmax (conf s) then (False, s)
              else (True, s\<lparr>edfi_onfdp_count := edfi_onfdp_count s + 1\<rparr>))"

definition edfi_onfdp_dyn_fault_prob :: "'w edfi_state \<Rightarrow> bool \<times> 'w edfi_state" where
  "edfi_onfdp_dyn_fault_prob s =
     (if \<not> edfi_faultinjection_enabled s \<or> fault_prob_randmax (conf s) = 0 then (False, s)
      else let (r, s) = edfi_rand s in (\<not> r \<ge> fault_prob_randmax (conf s), s))"

definition edfi_onfdp_bb_index :: "int \<Rightarrow> 'w edfi_state \<Rightarrow> bool \<times> 'w edfi_state" where
  "edfi_onfdp_bb_index bb_index s =
     (if \<not> edfi_faultinjection_enabled s then (False, s)
      else if bb_index \<noteq> faulty_bb_index (conf s) \<and> faulty_bb_index (conf s) > 0 then (False, s)
      else (True, if faulty_bb_index (conf s) > 0 then s\<lparr>edfi_onfdp_count := 1\<rparr> else s))"

definition edfi_onfdp_min_fdp_interval_update :: "'w edfi_state \<Rightarrow> 'w edfi_state" where
  "edfi_onfdp_min_fdp_interval_update s = upd_ectx (\<lambda>c. c\<lparr>fault_fdp_count := 1\<rparr>) s"

definition edfi_onfdp_min_fault_time_interval_update :: "'w edfi_os \<Rightarrow> 'w edfi_state \<Rightarrow> 'w edfi_state" where
  "edfi_onfdp_min_fault_time_interval_update os s =
     (if min_fault_time_interval (conf s) > 0
      then let (now, s) = (if edfi_last_fault_time s \<noteq> 0 then (edfi_last_fault_time s, s) else edfi_getcurrtime_ns os s)
           in upd_ectx (\<lambda>c. c\<lparr>fault_time := now\<rparr>) s
      else s)"

definition edfi_onfdp_max_time :: "'w edfi_os \<Rightarrow> 'w edfi_lib \<Rightarrow> 'w edfi_state \<Rightarrow> bool \<times> 'w edfi_state" where
  "edfi_onfdp_max_time os lib s =
     (if max_time (conf s) > 0
      then let (now, s) = edfi_getcurrtime_ns os s
           in if start_time (ectx s) + ucast (max_time (conf s)) \<ge> now then (False, edfi_stop lib s)
              else (True, s\<lparr>edfi_onfdp_count := edfi_onfdp_count s + ucast (max_time (conf s))\<rparr>)
      else (True, s\<lparr>edfi_onfdp_count := edfi_onfdp_count s + ucast (max_time (conf s))\<rparr>))"

definition edfi_onfdp_max_faults :: "'w edfi_state \<Rightarrow> bool \<times> 'w edfi_state" where
  "edfi_onfdp_max_faults s =
     (if max_faults (conf s) > 0 \<and> total_faults (ectx s) > max_faults (conf s) then (False, s)
      else (True, s\<lparr>edfi_onfdp_count := edfi_onfdp_count s + max_faults (conf s)\<rparr>))"

text \<open>A test that fails ends the decision.\<close>

definition and_then ::
    "bool \<times> 'w edfi_state \<Rightarrow> ('w edfi_state \<Rightarrow> bool \<times> 'w edfi_state) \<Rightarrow> bool \<times> 'w edfi_state" where
  "and_then r f = (if fst r then f (snd r) else (False, snd r))"

definition count_block :: "int \<Rightarrow> 'w edfi_state \<Rightarrow> 'w edfi_state" where
  "count_block bb_index s =
     upd_ectx (\<lambda>c. c\<lparr>bb_num_executions := (bb_num_executions c)(bb_index := bb_num_executions c bb_index + 1)\<rparr>) s"

definition edfi_onfdp_default ::
    "bool \<Rightarrow> 'w edfi_os \<Rightarrow> 'w edfi_lib \<Rightarrow> int \<Rightarrow> 'w edfi_state \<Rightarrow> bool \<times> 'w edfi_state" where
  "edfi_onfdp_default EDFI_COUNT_ALL_BLOCKS os lib bb_index s =
     (let s = (if EDFI_COUNT_ALL_BLOCKS then count_block bb_index s else s)
      in if \<not> edfi_faultinjection_enabled s then (False, s)
         else and_then (edfi_onfdp_min_fdp_interval (s\<lparr>edfi_onfdp_count := 0\<rparr>)) (\<lambda>s.
              and_then (edfi_onfdp_min_fault_time_interval os s) (\<lambda>s.
              and_then (edfi_onfdp_fault_prob s) (\<lambda>s.
              and_then (edfi_onfdp_bb_index bb_index s) (\<lambda>s.
              and_then (edfi_onfdp_max_time os lib s) (\<lambda>s.
              and_then (edfi_onfdp_max_faults s) (\<lambda>s.
                if edfi_onfdp_count s = 0 then (False, s)
                else (True, edfi_onfdp_min_fault_time_interval_update os
                              (edfi_onfdp_min_fdp_interval_update s)))))))))"

definition edfi_onfault_default :: "bool \<Rightarrow> int \<Rightarrow> 'w edfi_state \<Rightarrow> 'w edfi_state" where
  "edfi_onfault_default EDFI_COUNT_ALL_BLOCKS bb_index s =
     (let s = (if EDFI_COUNT_ALL_BLOCKS then s else count_block bb_index s)
      in upd_ectx (\<lambda>c. c\<lparr>total_faults := total_faults c + word_of_int (bb_num_faults c (bb_index - 1))\<rparr>) s)"

section \<open>Lemmas\<close>

text \<open>A sequence of decisions, at the blocks of a list.\<close>

primrec fdp_run ::
    "bool \<Rightarrow> 'w edfi_os \<Rightarrow> 'w edfi_lib \<Rightarrow> int list \<Rightarrow> 'w edfi_state \<Rightarrow> bool list \<times> 'w edfi_state" where
  "fdp_run all os lib [] s = ([], s)"
| "fdp_run all os lib (b # bs) s =
     (let (r, s) = edfi_onfdp_default all os lib b s; (rs, s) = fdp_run all os lib bs s in (r # rs, s))"

lemma upd_ectx_simps [simp]:
  "ectx (upd_ectx f s) = f (ectx s)" "edfi_faultinjection_enabled (upd_ectx f s) = edfi_faultinjection_enabled s"
  "edfi_onfdp_count (upd_ectx f s) = edfi_onfdp_count s" "ew (upd_ectx f s) = ew s"
  "edfi_rand_next (upd_ectx f s) = edfi_rand_next s" "edfi_hooks (upd_ectx f s) = edfi_hooks s"
  "edfi_last_fault_time (upd_ectx f s) = edfi_last_fault_time s"
  by (simp_all add: upd_ectx_def)

lemma getcurrtime_simps [simp]:
  "ectx (snd (edfi_getcurrtime_ns os s)) = ectx s"
  "edfi_faultinjection_enabled (snd (edfi_getcurrtime_ns os s)) = edfi_faultinjection_enabled s"
  "edfi_onfdp_count (snd (edfi_getcurrtime_ns os s)) = edfi_onfdp_count s"
  by (simp_all add: edfi_getcurrtime_ns_def Let_def split: prod.split)

lemma edfi_rand_less: "fst (edfi_rand s) < 32768"
  by (simp add: edfi_rand_def Let_def word_mod_less_divisor)

text \<open>While the interval is not over the decision is no and counts up.\<close>

lemma fdp_within_interval:
  assumes "0 < min_fdp_interval (conf s)" "fault_fdp_count (ectx s) < min_fdp_interval (conf s)"
    and "edfi_faultinjection_enabled s"
  shows "fst (edfi_onfdp_default all os lib bb s) = False"
    "conf (snd (edfi_onfdp_default all os lib bb s)) = conf s"
    "fault_fdp_count (ectx (snd (edfi_onfdp_default all os lib bb s))) = fault_fdp_count (ectx s) + 1"
    "edfi_faultinjection_enabled (snd (edfi_onfdp_default all os lib bb s))"
  using assms
  by (simp_all add: edfi_onfdp_default_def edfi_onfdp_min_fdp_interval_def and_then_def count_block_def Let_def)

lemma fdp_run_within_interval:
  assumes "0 < min_fdp_interval (conf s)" "fault_fdp_count (ectx s) + int (length bs) \<le> min_fdp_interval (conf s)"
    and "edfi_faultinjection_enabled s"
  shows "fst (fdp_run all os lib bs s) = replicate (length bs) False"
  using assms
proof (induction bs arbitrary: s)
  case (Cons bb bs)
  let ?t = "snd (edfi_onfdp_default all os lib bb s)"
  have lt: "fault_fdp_count (ectx s) < min_fdp_interval (conf s)" using Cons.prems(2) by simp
  note step = fdp_within_interval [OF Cons.prems(1) lt Cons.prems(3), of all os lib bb]
  have "fst (fdp_run all os lib bs ?t) = replicate (length bs) False"
    using step Cons.prems by (intro Cons.IH) simp_all
  then show ?case using step(1) by (auto simp: case_prod_beta Let_def)
qed simp

text \<open>What a test leaves when it succeeds.\<close>

lemma and_then_yes: "and_then r f = (True, t) \<longleftrightarrow> (\<exists>u. r = (True, u) \<and> f u = (True, t))"
  by (cases r) (auto simp: and_then_def)

definition same_decision :: "'w edfi_state \<Rightarrow> 'w edfi_state \<Rightarrow> bool" where
  "same_decision s t \<longleftrightarrow>
     ectx t = ectx s \<and> edfi_faultinjection_enabled t = edfi_faultinjection_enabled s
     \<and> edfi_cycles_per_ns t = edfi_cycles_per_ns s"

lemma same_decision_trans: "same_decision s t \<Longrightarrow> same_decision t u \<Longrightarrow> same_decision s u"
  by (simp add: same_decision_def)

lemma test_yes:
  "edfi_onfdp_min_fdp_interval s = (True, t) \<Longrightarrow> same_decision s t \<and> edfi_rand_next t = edfi_rand_next s
     \<and> (0 < min_fdp_interval (conf s) \<longrightarrow> min_fdp_interval (conf s) \<le> fault_fdp_count (ectx s))"
  "edfi_onfdp_min_fault_time_interval os s = (True, t) \<Longrightarrow> same_decision s t \<and> edfi_rand_next t = edfi_rand_next s"
  "edfi_onfdp_fault_prob s = (True, t) \<Longrightarrow> same_decision s t
     \<and> (fault_prob_randmax (conf s) \<noteq> 0 \<longrightarrow> fst (edfi_rand s) < fault_prob_randmax (conf s))"
  "edfi_onfdp_bb_index bb s = (True, t) \<Longrightarrow> same_decision s t
     \<and> (faulty_bb_index (conf s) > 0 \<longrightarrow> bb = faulty_bb_index (conf s))"
  "edfi_onfdp_max_time os lib s = (True, t) \<Longrightarrow> same_decision s t
     \<and> (max_time (conf s) > 0 \<longrightarrow> start_time (ectx s) + ucast (max_time (conf s)) < fst (edfi_getcurrtime_ns os s))"
  "edfi_onfdp_max_faults s = (True, t) \<Longrightarrow> same_decision s t
     \<and> (max_faults (conf s) > 0 \<longrightarrow> total_faults (ectx s) \<le> max_faults (conf s))"
  by (auto simp: edfi_onfdp_min_fdp_interval_def edfi_onfdp_min_fault_time_interval_def
      edfi_onfdp_fault_prob_def edfi_onfdp_bb_index_def edfi_onfdp_max_time_def edfi_onfdp_max_faults_def
      same_decision_def edfi_getcurrtime_ns_def edfi_rand_def Let_def not_le not_less
      split: if_splits prod.splits)

text \<open>What a positive decision means and what it leaves.\<close>

lemma fdp_yes:
  assumes "edfi_onfdp_default all os lib bb s = (True, t)"
  shows "edfi_faultinjection_enabled s" "edfi_faultinjection_enabled t" "conf t = conf s"
    "fault_fdp_count (ectx t) = 1"
    "0 < min_fdp_interval (conf s) \<longrightarrow> min_fdp_interval (conf s) \<le> fault_fdp_count (ectx s)"
    "fault_prob_randmax (conf s) \<noteq> 0 \<longrightarrow> fst (edfi_rand s) < fault_prob_randmax (conf s)"
    "faulty_bb_index (conf s) > 0 \<longrightarrow> bb = faulty_bb_index (conf s)"
    "max_time (conf s) > 0 \<longrightarrow>
       (\<exists>w. start_time (ectx s) + ucast (max_time (conf s)) < fst (rdtsc os w) div edfi_cycles_per_ns s)"
    "max_faults (conf s) > 0 \<longrightarrow> total_faults (ectx s) \<le> max_faults (conf s)"
proof -
  define s0 where "s0 = (if all then count_block bb s else s)\<lparr>edfi_onfdp_count := 0\<rparr>"
  have en: "edfi_faultinjection_enabled s"
    using assms by (auto simp: edfi_onfdp_default_def count_block_def Let_def split: if_splits)
  obtain s1 s2 s3 s4 s5 s6 where
    st: "edfi_onfdp_min_fdp_interval s0 = (True, s1)" "edfi_onfdp_min_fault_time_interval os s1 = (True, s2)"
      "edfi_onfdp_fault_prob s2 = (True, s3)" "edfi_onfdp_bb_index bb s3 = (True, s4)"
      "edfi_onfdp_max_time os lib s4 = (True, s5)" "edfi_onfdp_max_faults s5 = (True, s6)"
    and t: "t = edfi_onfdp_min_fault_time_interval_update os (edfi_onfdp_min_fdp_interval_update s6)"
    using assms
    by (auto simp: edfi_onfdp_default_def and_then_yes count_block_def s0_def Let_def split: if_splits)
  note y = test_yes(1) [OF st(1)] test_yes(2) [OF st(2)] test_yes(3) [OF st(3)] test_yes(4) [OF st(4)]
    test_yes(5) [OF st(5)] test_yes(6) [OF st(6)]
  have s0: "conf s0 = conf s" "fault_fdp_count (ectx s0) = fault_fdp_count (ectx s)"
    "edfi_rand_next s0 = edfi_rand_next s" "total_faults (ectx s0) = total_faults (ectx s)"
    "start_time (ectx s0) = start_time (ectx s)" "edfi_cycles_per_ns s0 = edfi_cycles_per_ns s"
    "edfi_faultinjection_enabled s0 = edfi_faultinjection_enabled s"
    by (simp_all add: s0_def count_block_def) (simp add: upd_ectx_def)
  have c: "ectx s1 = ectx s0" "ectx s2 = ectx s0" "ectx s3 = ectx s0" "ectx s4 = ectx s0" "ectx s5 = ectx s0"
    "ectx s6 = ectx s0" "edfi_cycles_per_ns s4 = edfi_cycles_per_ns s" "edfi_rand_next s2 = edfi_rand_next s"
    "edfi_faultinjection_enabled s6"
    using y s0 en by (simp_all add: same_decision_def)
  have r: "fst (edfi_rand s2) = fst (edfi_rand s)" by (simp add: edfi_rand_def c(8) Let_def)
  show "edfi_faultinjection_enabled s" by (rule en)
  show "edfi_faultinjection_enabled t" "conf t = conf s" "fault_fdp_count (ectx t) = 1"
    using c s0 unfolding t
    by (auto simp: edfi_onfdp_min_fault_time_interval_update_def edfi_onfdp_min_fdp_interval_update_def
        edfi_getcurrtime_ns_def Let_def split: prod.split)
  show "0 < min_fdp_interval (conf s) \<longrightarrow> min_fdp_interval (conf s) \<le> fault_fdp_count (ectx s)"
    "fault_prob_randmax (conf s) \<noteq> 0 \<longrightarrow> fst (edfi_rand s) < fault_prob_randmax (conf s)"
    "faulty_bb_index (conf s) > 0 \<longrightarrow> bb = faulty_bb_index (conf s)"
    "max_faults (conf s) > 0 \<longrightarrow> total_faults (ectx s) \<le> max_faults (conf s)"
    using y c s0 r by auto
  have "fst (edfi_getcurrtime_ns os s4) = fst (rdtsc os (ew s4)) div edfi_cycles_per_ns s"
    using c(7) by (simp add: edfi_getcurrtime_ns_def Let_def case_prod_beta)
  then show "max_time (conf s) > 0 \<longrightarrow>
       (\<exists>w. start_time (ectx s) + ucast (max_time (conf s)) < fst (rdtsc os w) div edfi_cycles_per_ns s)"
    using y(5) c(4) s0 by auto
qed




section \<open>Properties\<close>


definition demo_conf :: edfi_context_conf where
  "demo_conf = \<lparr>fault_prob = 0, fault_prob_randmax = 0, min_fdp_interval = 3, faulty_bb_index = 5,
     min_fault_time_interval = 0, max_time = 0, max_faults = 0, rand_seed = 1, dflib_path = []\<rparr>"

definition demo_edfi :: "edfi_context_conf \<Rightarrow> u64 edfi_state" where
  "demo_edfi c = \<lparr>ectx = \<lparr>canary_value1 = EDFI_CANARY_VALUE, fault_fdp_count = 3, fault_time = 0, start_time = 100,
       total_faults = 0, fault_types = [], bb_num_executions = (\<lambda>_. 0), bb_num_faults = (\<lambda>_. 1), num_bbs = 8,
       no_svr_thread = 1, output_dir = ''/tmp'', num_requests_on_start = 0, verbosity = 0, cfg = c,
       canary_value2 = EDFI_CANARY_VALUE\<rparr>,
     edfi_onfdp_count = 0, edfi_faultinjection_enabled = True, edfi_faultinjection_enabled_version = 1,
     edfi_last_fault_time = 0, edfi_rand_next = 1, edfi_cycles_per_ns = 1, edfi_hooks = Default_hooks,
     edfi_dflib = None, ew = 150\<rparr>"

definition demo_edfi_os :: "u64 edfi_os" where
  "demo_edfi_os = \<lparr>rdtsc = (\<lambda>w. (w, w)), dlopen = (\<lambda>p w. (False, w)), has_sym = (\<lambda>p n. False), dl_close = (\<lambda>p w. w)\<rparr>"

definition demo_edfi_lib :: "u64 edfi_lib" where
  "demo_edfi_lib = \<lparr>lib_onstart = (\<lambda>p s. s), lib_onstop = (\<lambda>p s. s)\<rparr>"

lemmas decision_defs = edfi_onfdp_default_def edfi_onfdp_min_fdp_interval_def
  edfi_onfdp_min_fault_time_interval_def edfi_onfdp_fault_prob_def edfi_onfdp_bb_index_def
  edfi_onfdp_max_time_def edfi_onfdp_max_faults_def edfi_onfdp_min_fdp_interval_update_def
  edfi_onfdp_min_fault_time_interval_update_def edfi_getcurrtime_ns_def and_then_def Let_def

lemma demo_fault:
  "\<exists>t. edfi_onfdp_default False demo_edfi_os demo_edfi_lib 5 (demo_edfi demo_conf) = (True, t)"
  by (simp add: decision_defs demo_edfi_def demo_conf_def)


text \<open>
  Faults are spaced.  After a fault the next decisions, one fewer than the
  configured interval, are all negative, whatever blocks they are taken at.
\<close>

theorem edfi_faults_spaced:
  assumes "edfi_onfdp_default all os lib bb s = (True, t)"
    and "int (length bbs) < min_fdp_interval (conf s)"
  shows "fst (fdp_run all os lib bbs t) = replicate (length bbs) False"
  using fdp_yes(2,3,4) [OF assms(1)] assms(2) by (intro fdp_run_within_interval) auto

theorem edfi_faults_spaced_witness:
  "\<exists>t. edfi_onfdp_default False demo_edfi_os demo_edfi_lib 5 (demo_edfi demo_conf) = (True, t)
     \<and> fst (fdp_run False demo_edfi_os demo_edfi_lib [5, 5] t) = replicate (length [5 :: int, 5]) False"
proof -
  obtain t where t: "edfi_onfdp_default False demo_edfi_os demo_edfi_lib 5 (demo_edfi demo_conf) = (True, t)"
    using demo_fault by blast
  have "int (length [5 :: int, 5]) < min_fdp_interval (conf (demo_edfi demo_conf))"
    by (simp add: demo_edfi_def demo_conf_def)
  then show ?thesis using t edfi_faults_spaced [OF t, of "[5, 5]"] by blast
qed

text \<open>
  The limit on the run time works the other way round.  While the clock has
  not passed the start time plus the configured maximum no decision is positive:
  with a maximum run time set, faults are injected only after it is over.
\<close>

theorem edfi_max_time_inverted:
  assumes "max_time (conf s) > 0"
    and "\<forall>w. fst (rdtsc os w) div edfi_cycles_per_ns s \<le> start_time (ectx s) + ucast (max_time (conf s))"
  shows "\<not> fst (edfi_onfdp_default all os lib bb s)"
proof
  assume "fst (edfi_onfdp_default all os lib bb s)"
  then obtain t where "edfi_onfdp_default all os lib bb s = (True, t)"
    by (cases "edfi_onfdp_default all os lib bb s") auto
  from fdp_yes(8) [OF this] assms show False by (meson leD)
qed

theorem edfi_max_time_inverted_witness:
  "\<not> fst (edfi_onfdp_default False (demo_edfi_os\<lparr>rdtsc := (\<lambda>w. (150, w))\<rparr>) demo_edfi_lib 5
       (demo_edfi (demo_conf\<lparr>max_time := 1000\<rparr>)))"
  by (rule edfi_max_time_inverted) (simp_all add: demo_edfi_def demo_conf_def)

text \<open>
  C33: A configuration whose fault library cannot be loaded is not applied in part.  When the
  library cannot be opened or lacks one of the four handlers, the start and the update command
  return a negative number and leave everything as it was: the context with its configuration,
  the handlers, the loaded library, whether injection is enabled and all other variables, except
  for the seed of the random numbers, which is replaced before the library is loaded.  (The
  command for statistics loads the library too, but ignores whether that succeeds.)
\<close>

theorem edfi_update_fails_clean:
  assumes "cmd = EDFI_CTL_CMD_START \<or> cmd = EDFI_CTL_CMD_UPDATE"
    and "p = dflib_path (cfg nc)" "p \<noteq> []"
    and "fst (dlopen os p (ew s)) \<longrightarrow>
      (\<exists>h \<in> {''edfi_onstart'', ''edfi_onfdp'', ''edfi_onfault'', ''edfi_onstop''}. \<not> has_sym os p h)"
  shows "\<exists>r < 0. edfi_process_cmd os lib cmd (Some nc) s =
     (r, s\<lparr>edfi_rand_next := ucast (rand_seed (cfg nc)), ew := snd (dlopen os p (ew s))\<rparr>)"
  using assms
  by (auto simp: edfi_start_def edfi_update_context_def edfi_load_dflib_def edfi_srand_def Let_def case_prod_beta)

theorem edfi_update_fails_clean_witness:
  "\<exists>r < 0. edfi_process_cmd (demo_edfi_os\<lparr>dlopen := (\<lambda>p w. (True, w + 1)), has_sym := (\<lambda>p n. n \<noteq> ''edfi_onstop'')\<rparr>)
         demo_edfi_lib EDFI_CTL_CMD_START
         (Some ((ectx (demo_edfi demo_conf))\<lparr>cfg := demo_conf\<lparr>dflib_path := ''df.so'', rand_seed := 7\<rparr>\<rparr>)) (demo_edfi demo_conf) =
     (r, (demo_edfi demo_conf)\<lparr>edfi_rand_next := 7, ew := 151\<rparr>)"
  using edfi_update_fails_clean [of EDFI_CTL_CMD_START "''df.so''"
      "(ectx (demo_edfi demo_conf))\<lparr>cfg := demo_conf\<lparr>dflib_path := ''df.so'', rand_seed := 7\<rparr>\<rparr>"
      "demo_edfi_os\<lparr>dlopen := (\<lambda>p w. (True, w + 1)), has_sym := (\<lambda>p n. n \<noteq> ''edfi_onstop'')\<rparr>"
      "demo_edfi demo_conf" demo_edfi_lib]
  by (simp add: demo_edfi_def)

end
