(* ===== verification/Edfi_Stats.thy ===== *)
theory Edfi_Stats
  imports Edfi
begin

text \<open>
  The statistics of the fault injector (\<open>static/edfi/df/edfi_df.c\<close>,
  \<open>include/edfi/df/statfile.h\<close>): the file that accumulates the execution counts of
  all runs of a program, byte by byte, the identifier in its name, the totals per
  fault type and the run-length encoded dump.
\<close>

section \<open>Bytes of a buffer\<close>

definition put :: "u8 list \<Rightarrow> nat \<Rightarrow> u8 list \<Rightarrow> u8 list" where
  "put d off bs = take off d @ bs @ drop (off + length bs) d"

definition get :: "u8 list \<Rightarrow> nat \<Rightarrow> nat \<Rightarrow> u8 list" where
  "get d off n = take n (drop off d)"

definition u32_bytes :: "u32 \<Rightarrow> u8 list" where
  "u32_bytes v = le_bytes 4 (unat v)"

definition u64_bytes :: "u64 \<Rightarrow> u8 list" where
  "u64_bytes v = le_bytes 8 (unat v)"

definition bytes_u32 :: "u8 list \<Rightarrow> u32" where
  "bytes_u32 bs = word_of_nat (le_value bs)"

definition bytes_u64 :: "u8 list \<Rightarrow> u64" where
  "bytes_u64 bs = word_of_nat (le_value bs)"

definition str_bytes :: "string \<Rightarrow> u8 list" where
  "str_bytes s = map of_char s"

text \<open>\<open>strncpy\<close> pads with NUL; \<open>strncmp\<close> compares up to the bound or the first NUL.\<close>

definition strncpy_bytes :: "string \<Rightarrow> nat \<Rightarrow> u8 list" where
  "strncpy_bytes s n = take n (str_bytes s @ replicate n 0)"

fun strncmp_eq :: "u8 list \<Rightarrow> u8 list \<Rightarrow> nat \<Rightarrow> bool" where
  "strncmp_eq xs ys 0 \<longleftrightarrow> True"
| "strncmp_eq (x # xs) (y # ys) (Suc n) \<longleftrightarrow> x = y \<and> (x = 0 \<or> strncmp_eq xs ys n)"
| "strncmp_eq xs ys (Suc n) \<longleftrightarrow> xs = ys"

section \<open>The identifier of a binary\<close>

definition add_byte :: "u8 \<Rightarrow> u64 \<times> nat \<Rightarrow> u64 \<times> nat" where
  "add_byte p ri =
     (let result = fst ri XOR push_bit (8 * snd ri) (ucast p); index = snd ri + 1
      in if index \<ge> 8 then (result * 3, 0) else (result, index))"

definition edfi_stats_per_bb_add_data :: "u8 list \<Rightarrow> u64 \<times> nat \<Rightarrow> u64 \<times> nat" where
  "edfi_stats_per_bb_add_data data ri = fold add_byte data ri"

definition candidates :: "edfi_context \<Rightarrow> fault_type_stats \<Rightarrow> u8 list" where
  "candidates c ft = concat (map (\<lambda>i. u32_bytes (bb_num_candidates ft i)) [0..<unat (num_bbs c)])"

definition edfi_stats_per_bb_get_id :: "edfi_context \<Rightarrow> u64" where
  "edfi_stats_per_bb_get_id c =
     (let ri = edfi_stats_per_bb_add_data (u32_bytes (num_bbs c)) (0, 0);
          ri = edfi_stats_per_bb_add_data (u32_bytes (word_of_nat (length (fault_types c)))) ri;
          ri = fold (\<lambda>ft ri. edfi_stats_per_bb_add_data (candidates c ft) ri) (fault_types c) ri
      in fst ri XOR word_of_nat (snd ri))"

section \<open>The statistics file\<close>

abbreviation (input) "EDFI_STATS_MAGIC \<equiv> 0x74536445 :: u32"
abbreviation (input) "EDFI_STATS_FAULT_NAME_LEN \<equiv> 64 :: nat"

text \<open>Offsets of the parts; the product with the length of a name is taken in 32 bits.\<close>

definition names_size :: "edfi_context \<Rightarrow> nat" where
  "names_size c = (EDFI_STATS_FAULT_NAME_LEN * length (fault_types c)) mod 2 ^ 32"

definition off_execs :: "edfi_context \<Rightarrow> nat" where
  "off_execs c = 16 + names_size c"

definition off_cands :: "edfi_context \<Rightarrow> nat" where
  "off_cands c = off_execs c + 8 * unat (num_bbs c)"

definition datasize :: "edfi_context \<Rightarrow> nat" where
  "datasize c = off_cands c + 4 * unat (num_bbs c) * length (fault_types c)"

text \<open>The index of the first candidate count of a fault type, an unsigned 32-bit product.\<close>

definition cand_index :: "edfi_context \<Rightarrow> nat \<Rightarrow> nat" where
  "cand_index c i = (i * unat (num_bbs c)) mod 2 ^ 32"

definition stats_header :: "edfi_context \<Rightarrow> u8 list" where
  "stats_header c = u32_bytes EDFI_STATS_MAGIC @ u32_bytes (num_bbs c)
     @ u32_bytes (word_of_nat (length (fault_types c))) @ u32_bytes (word_of_nat EDFI_STATS_FAULT_NAME_LEN)"

definition new_stats :: "edfi_context \<Rightarrow> u8 list" where
  "new_stats c =
     (let data = put (replicate (datasize c) 0) 0 (stats_header c)
      in fold (\<lambda>i data.
           let ft = fault_types c ! i;
               data = put data (16 + i * EDFI_STATS_FAULT_NAME_LEN) (strncpy_bytes (ft_name ft) EDFI_STATS_FAULT_NAME_LEN)
           in put data (off_cands c + 4 * cand_index c i) (candidates c ft))
         [0..<length (fault_types c)] data)"

definition header_ok :: "edfi_context \<Rightarrow> u8 list \<Rightarrow> bool" where
  "header_ok c data \<longleftrightarrow>
     bytes_u32 (get data 0 4) = EDFI_STATS_MAGIC \<and> bytes_u32 (get data 4 4) = num_bbs c
     \<and> bytes_u32 (get data 8 4) = word_of_nat (length (fault_types c))
     \<and> bytes_u32 (get data 12 4) = word_of_nat EDFI_STATS_FAULT_NAME_LEN"

definition fault_type_ok :: "edfi_context \<Rightarrow> u8 list \<Rightarrow> nat \<Rightarrow> bool" where
  "fault_type_ok c data i \<longleftrightarrow>
     (let ft = fault_types c ! i
      in strncmp_eq (drop (16 + i * EDFI_STATS_FAULT_NAME_LEN) data) (str_bytes (ft_name ft) @ [0]) EDFI_STATS_FAULT_NAME_LEN
         \<and> get data (off_cands c + 4 * cand_index c i) (4 * unat (num_bbs c)) = candidates c ft)"

definition add_execs :: "edfi_context \<Rightarrow> u8 list \<Rightarrow> u8 list" where
  "add_execs c data = fold (\<lambda>i data.
       let o8 = off_execs c + 8 * i
       in put data o8 (u64_bytes (bytes_u64 (get data o8 8) + bb_num_executions c (int i + 1))))
     [0..<unat (num_bbs c)] data"

text \<open>
  What can go wrong around the file: it cannot be opened or locked, there is no memory,
  a read or seek fails, or a write stops early.
\<close>

record stat_io =
  open_ok :: bool
  lock_ok :: bool
  malloc_ok :: bool
  read_ok :: bool
  seek_ok :: bool
  written :: "nat option"

definition edfi_stats_per_bb_add_with_fd :: "stat_io \<Rightarrow> edfi_context \<Rightarrow> u8 list \<Rightarrow> bool \<times> u8 list" where
  "edfi_stats_per_bb_add_with_fd io c file =
     (if \<not> malloc_ok io \<or> \<not> read_ok io then (False, file)
      else let r = min (length file) (datasize c);
               data = (if r = 0 then Some (new_stats c)
                       else if r = datasize c
                            then (let data = take (datasize c) file
                                  in if header_ok c data \<and> list_all (fault_type_ok c data) [0..<length (fault_types c)]
                                     then Some data else None)
                            else None)
           in case data of
                None \<Rightarrow> (False, file)
              | Some data \<Rightarrow>
                  (let data = add_execs c data
                   in if \<not> seek_ok io then (False, file)
                      else case written io of
                             None \<Rightarrow> (True, data @ drop (datasize c) file)
                           | Some k \<Rightarrow> (False, take k data @ drop (min k (datasize c)) file)))"

definition edfi_stats_available :: "edfi_context \<Rightarrow> bool" where
  "edfi_stats_available c \<longleftrightarrow> list_ex (\<lambda>i. bb_num_executions c (int i) > 0) [1..<unat (num_bbs c) + 1]"

text \<open>The name of the file: the directory, a fixed stem and the identifier in 16 hexadecimal digits.\<close>

definition hexdigit :: "nat \<Rightarrow> char" where
  "hexdigit d = char_of (if d < 10 then 48 + d else 87 + d)"

definition hex16 :: "u64 \<Rightarrow> string" where
  "hex16 v = map (\<lambda>i. hexdigit (unat v div 16 ^ i mod 16)) (rev [0..<16])"

definition edfi_stats_per_bb_get_path :: "edfi_context \<Rightarrow> string" where
  "edfi_stats_per_bb_get_path c = take 511 (output_dir c @ ''/'' @ ''edfi.stat'' @ ''.'' @ hex16 (edfi_stats_per_bb_get_id c))"

text \<open>The files of the system by name; opening creates an empty file. What is printed is left out.\<close>

type_synonym files = "string \<Rightarrow> u8 list option"

definition edfi_stats_per_bb_add :: "stat_io \<Rightarrow> edfi_context \<Rightarrow> files \<Rightarrow> files" where
  "edfi_stats_per_bb_add io c fs =
     (if \<not> edfi_stats_available c then fs
      else let path = edfi_stats_per_bb_get_path c
           in if \<not> open_ok io then fs
              else let file = (case fs path of None \<Rightarrow> [] | Some file \<Rightarrow> file);
                       fs = fs(path \<mapsto> file)
                   in if \<not> lock_ok io then fs
                      else fs(path \<mapsto> snd (edfi_stats_per_bb_add_with_fd io c file)))"

section \<open>Totals\<close>

definition section_counts :: "edfi_context \<Rightarrow> fault_type_stats \<Rightarrow> u64 \<times> u64" where
  "section_counts c ft = fold (\<lambda>i (inj, cand).
       let n = bb_num_executions c (int i + 1)
       in (inj + scast (bb_num_injected ft i) * n, cand + scast (bb_num_candidates ft i) * n))
     [0..<unat (num_bbs c)] (0, 0)"

definition edfi_print_stats_section :: "edfi_context \<Rightarrow> (string \<times> u64 \<times> u64) list" where
  "edfi_print_stats_section c = map (\<lambda>ft. (ft_name ft, section_counts c ft)) (fault_types c)"

section \<open>The run-length encoded dump\<close>

text \<open>The state of the loop: the groups printed, the current count and its repetitions.\<close>

definition dump_step :: "u64 \<Rightarrow> (u64 \<times> nat) list \<times> u64 \<times> nat \<Rightarrow> (u64 \<times> nat) list \<times> u64 \<times> nat" where
  "dump_step count st =
     (let (out, countrep, repeats) = st
      in if countrep = count then (out, countrep, repeats + 1)
         else (if repeats \<noteq> 0 then out @ [(countrep, repeats)] else out, count, 1))"

definition hypermemlike_groups :: "u64 list \<Rightarrow> (u64 \<times> nat) list" where
  "hypermemlike_groups counts =
     (let (out, countrep, repeats) = fold dump_step counts ([], 0, 0)
      in if repeats \<noteq> 0 then out @ [(countrep, repeats)] else out)"

definition print_group :: "u64 \<times> nat \<Rightarrow> string" where
  "print_group g = (if snd g = 1 then CHR '' '' # lt_kputn (unat (fst g))
     else CHR '' '' # lt_kputn (unat (fst g)) @ CHR ''x'' # lt_kputn (snd g))"

definition edfi_print_hypermemlike_stats :: "string \<Rightarrow> edfi_context \<Rightarrow> string" where
  "edfi_print_hypermemlike_stats module_name c =
     CHR 0x0A # ''[edfi-hypermemlike-stats]'' @ CHR 0x0A # ''edfi_dump_stats_module name='' @ module_name
     @ concat (map print_group (hypermemlike_groups
         (map (\<lambda>i. bb_num_executions c (int i)) [1..<unat (num_bbs c) + 1]))) @ [CHR 0x0A]"

section \<open>Lemmas on buffers\<close>

lemma length_put: "off + length bs \<le> length d \<Longrightarrow> length (put d off bs) = length d"
  by (simp add: put_def)

lemma put_left: "off + length bs \<le> length xs \<Longrightarrow> put (xs @ ys) off bs = put xs off bs @ ys"
  by (simp add: put_def)

lemma put_right: "put (xs @ ys) (length xs + off) bs = xs @ put ys off bs"
  by (simp add: put_def)

lemma put_whole: "length bs \<le> length d \<Longrightarrow> put d 0 bs = bs @ drop (length bs) d"
  by (simp add: put_def)

lemma get_left: "off + n \<le> length xs \<Longrightarrow> get (xs @ ys) off n = get xs off n"
  by (simp add: get_def)

lemma get_right: "get (xs @ ys) (length xs + off) n = get ys off n"
  by (simp add: get_def)

lemma get_prefix: "length xs = n \<Longrightarrow> get (xs @ ys) 0 n = xs"
  by (simp add: get_def)

text \<open>Filling a region block by block.\<close>

lemma length_concat_blocks: "(\<And>i. i < n \<Longrightarrow> length (f i) = k) \<Longrightarrow> length (concat (map f [0..<n])) = n * k"
  by (induction n) auto

lemma fold_put:
  assumes "\<And>i. i < n \<Longrightarrow> length (f i) = k" "n * k \<le> length d"
  shows "fold (\<lambda>i d. put d (i * k) (f i)) [0..<n] d = concat (map f [0..<n]) @ drop (n * k) d"
  using assms
proof (induction n)
  case (Suc n)
  have l: "length (concat (map f [0..<n])) = n * k" using Suc.prems by (intro length_concat_blocks) simp
  have "fold (\<lambda>i d. put d (i * k) (f i)) [0..<n] d = concat (map f [0..<n]) @ drop (n * k) d"
    using Suc by simp
  moreover have "put (concat (map f [0..<n]) @ drop (n * k) d) (n * k) (f n)
      = concat (map f [0..<n]) @ put (drop (n * k) d) 0 (f n)"
    using put_right [of "concat (map f [0..<n])" "drop (n * k) d" 0 "f n"] l by simp
  moreover have "put (drop (n * k) d) 0 (f n) = f n @ drop (Suc n * k) d"
    using Suc.prems by (simp add: put_whole add.commute)
  ultimately show ?case by simp
qed simp

lemma fold_put_all:
  assumes "\<And>i. i < n \<Longrightarrow> length (f i) = k" "length d = n * k"
  shows "fold (\<lambda>i d. put d (i * k) (f i)) [0..<n] d = concat (map f [0..<n])"
  using fold_put [of n f k d] assms by simp

text \<open>Two regions of one buffer filled in step.\<close>

lemma length_fold_put:
  assumes "\<And>i. i < n \<Longrightarrow> i * k + length (f i) \<le> length d"
  shows "length (fold (\<lambda>i d. put d (i * k) (f i)) [0..<n] d) = length d"
  using assms by (induction n) (simp_all add: length_put)

lemma fold_put_two:
  assumes "\<And>i. i < n \<Longrightarrow> i * k + length (f i) \<le> length N" "\<And>i. i < n \<Longrightarrow> i * m + length (g i) \<le> length C"
  shows "fold (\<lambda>i d. put (put d (length A + i * k) (f i)) (length A + length N + length X + i * m) (g i)) [0..<n]
           (A @ N @ X @ C)
     = A @ fold (\<lambda>i d. put d (i * k) (f i)) [0..<n] N @ X @ fold (\<lambda>i d. put d (i * m) (g i)) [0..<n] C"
  using assms
proof (induction n)
  case (Suc n)
  let ?N = "fold (\<lambda>i d. put d (i * k) (f i)) [0..<n] N" and ?C = "fold (\<lambda>i d. put d (i * m) (g i)) [0..<n] C"
  have lN: "length ?N = length N" using Suc.prems(1) by (intro length_fold_put) simp
  have "put (A @ ?N @ X @ ?C) (length A + n * k) (f n) = A @ put ?N (n * k) (f n) @ X @ ?C"
    using Suc.prems(1) [of n] lN by (simp add: put_right put_left)
  moreover have "put (A @ put ?N (n * k) (f n) @ X @ ?C) (length A + length N + length X + n * m) (g n)
      = A @ put ?N (n * k) (f n) @ X @ put ?C (n * m) (g n)"
  proof -
    have l: "length (put ?N (n * k) (f n)) = length N" using Suc.prems(1) [of n] lN by (simp add: length_put)
    show ?thesis
      using put_right [of "A @ put ?N (n * k) (f n) @ X" ?C "n * m" "g n"] l by (simp add: add.assoc)
  qed
  ultimately show ?case using Suc by simp
qed simp

text \<open>A list of 64-bit numbers in memory.\<close>

lemma length_u_bytes [simp]: "length (u32_bytes v) = 4" "length (u64_bytes w) = 8"
  by (simp_all add: u32_bytes_def u64_bytes_def le_bytes_def)

lemma bytes_u64_bytes [simp]: "bytes_u64 (u64_bytes v) = v"
  using bytes_ptr_bytes [of v] by (simp add: bytes_u64_def u64_bytes_def bytes_ptr_def ptr_bytes_def)

lemma length_u64s [simp]: "length (concat (map u64_bytes xs)) = 8 * length xs"
  by (induction xs) auto

lemma u64s_split:
  "i < length xs \<Longrightarrow> concat (map u64_bytes xs)
     = concat (map u64_bytes (take i xs)) @ u64_bytes (xs ! i) @ concat (map u64_bytes (drop (Suc i) xs))"
  by (subst id_take_nth_drop [of i xs]) auto

lemma get_u64s: "i < length xs \<Longrightarrow> get (concat (map u64_bytes xs)) (8 * i) 8 = u64_bytes (xs ! i)"
  by (subst u64s_split [of i xs])
    (use get_right [of "concat (map u64_bytes (take i xs))" _ 0 8] in \<open>auto simp: get_prefix min_def\<close>)

lemma put_u64s:
  assumes "i < length xs"
  shows "put (concat (map u64_bytes xs)) (8 * i) (u64_bytes v) = concat (map u64_bytes (xs[i := v]))"
proof -
  have "put (concat (map u64_bytes xs)) (8 * i) (u64_bytes v)
      = concat (map u64_bytes (take i xs)) @ put (u64_bytes (xs ! i) @ concat (map u64_bytes (drop (Suc i) xs))) 0 (u64_bytes v)"
    using assms put_right [of "concat (map u64_bytes (take i xs))" _ 0 "u64_bytes v"]
    by (subst u64s_split [OF assms]) (simp add: min_def)
  also have "\<dots> = concat (map u64_bytes (xs[i := v]))"
    using assms by (simp add: put_whole upd_conv_take_nth_drop)
  finally show ?thesis .
qed

section \<open>The layout of the file\<close>

text \<open>The file of a program after some runs: \<open>X\<close> are the accumulated counts.\<close>

definition layout :: "edfi_context \<Rightarrow> u64 list \<Rightarrow> u8 list" where
  "layout c X = stats_header c
     @ concat (map (\<lambda>i. strncpy_bytes (ft_name (fault_types c ! i)) EDFI_STATS_FAULT_NAME_LEN) [0..<length (fault_types c)])
     @ concat (map u64_bytes X)
     @ concat (map (\<lambda>i. candidates c (fault_types c ! i)) [0..<length (fault_types c)])"

text \<open>The tables are small enough for the 32-bit products, and names are C strings.\<close>

definition stats_fit :: "edfi_context \<Rightarrow> bool" where
  "stats_fit c \<longleftrightarrow> EDFI_STATS_FAULT_NAME_LEN * length (fault_types c) < 2 ^ 31
     \<and> unat (num_bbs c) * length (fault_types c) < 2 ^ 32
     \<and> list_all (\<lambda>ft. 0 \<notin> set (str_bytes (ft_name ft))) (fault_types c)"

lemma length_strncpy_bytes [simp]: "length (strncpy_bytes s n) = n"
  by (simp add: strncpy_bytes_def)

lemma length_candidates [simp]: "length (candidates c ft) = 4 * unat (num_bbs c)"
  unfolding candidates_def by (subst length_concat_blocks [where k = 4]) simp_all

lemma length_stats_header [simp]: "length (stats_header c) = 16"
  by (simp add: stats_header_def)

lemma stats_fitD:
  assumes "stats_fit c"
  shows "names_size c = length (fault_types c) * 64"
    "\<And>i. i < length (fault_types c) \<Longrightarrow> cand_index c i = i * unat (num_bbs c)"
proof -
  show "names_size c = length (fault_types c) * 64" using assms by (simp add: stats_fit_def names_size_def)
  fix i assume "i < length (fault_types c)"
  then have "i * unat (num_bbs c) \<le> length (fault_types c) * unat (num_bbs c)" by simp
  moreover have "length (fault_types c) * unat (num_bbs c) < 2 ^ 32" using assms by (simp add: stats_fit_def mult.commute)
  ultimately have "i * unat (num_bbs c) < 2 ^ 32" by (rule le_less_trans)
  then show "cand_index c i = i * unat (num_bbs c)" by (simp add: cand_index_def)
qed

lemma length_names: "length (concat (map (\<lambda>i. strncpy_bytes (ft_name (fault_types c ! i)) 64) [0..<n])) = n * 64"
  by (rule length_concat_blocks) simp

lemma length_cands: "length (concat (map (\<lambda>i. candidates c (fault_types c ! i)) [0..<n])) = n * (4 * unat (num_bbs c))"
  by (rule length_concat_blocks) simp

lemma length_layout:
  "stats_fit c \<Longrightarrow> length X = unat (num_bbs c) \<Longrightarrow> length (layout c X) = datasize c"
  by (simp add: layout_def length_names length_cands datasize_def off_cands_def off_execs_def stats_fitD
        length_concat_blocks ac_simps)

lemma u64_bytes_0: "u64_bytes 0 = replicate 8 0"
  by (simp add: u64_bytes_def le_bytes_def map_replicate_trivial)

lemma replicate_u64s: "concat (map u64_bytes (replicate n 0)) = replicate (8 * n) 0"
proof (induction n)
  case (Suc n)
  have "replicate (8 * Suc n) (0::u8) = replicate 8 0 @ replicate (8 * n) 0"
    by (simp only: mult_Suc_right replicate_add)
  then show ?case using Suc by (simp add: u64_bytes_0)
qed simp

lemma new_stats_layout:
  assumes "stats_fit c"
  shows "new_stats c = layout c (replicate (unat (num_bbs c)) 0)"
proof -
  let ?n = "length (fault_types c)" and ?b = "unat (num_bbs c)"
  let ?A = "stats_header c" and ?N = "replicate (?n * 64) (0::u8)" and ?X = "replicate (8 * ?b) (0::u8)"
    and ?C = "replicate (?n * (4 * ?b)) (0::u8)"
  let ?f = "\<lambda>i. strncpy_bytes (ft_name (fault_types c ! i)) 64" and ?g = "\<lambda>i. candidates c (fault_types c ! i)"
  have "datasize c = 16 + (?n * 64 + (8 * ?b + ?n * (4 * ?b)))"
    using assms by (simp add: datasize_def off_cands_def off_execs_def stats_fitD)
  then have "put (replicate (datasize c) 0) 0 ?A = ?A @ ?N @ ?X @ ?C"
    by (simp add: put_def replicate_add)
  moreover have "fold (\<lambda>i data. put (put data (16 + i * 64) (?f i)) (off_cands c + 4 * cand_index c i) (?g i)) [0..<?n] d
      = fold (\<lambda>i d. put (put d (length ?A + i * 64) (?f i)) (length ?A + length ?N + length ?X + i * (4 * ?b)) (?g i)) [0..<?n] d"
    for d
    using assms by (intro fold_cong) (auto simp: off_cands_def off_execs_def stats_fitD ac_simps)
  moreover have "fold (\<lambda>i d. put (put d (length ?A + i * 64) (?f i)) (length ?A + length ?N + length ?X + i * (4 * ?b)) (?g i)) [0..<?n]
      (?A @ ?N @ ?X @ ?C)
    = ?A @ fold (\<lambda>i d. put d (i * 64) (?f i)) [0..<?n] ?N @ ?X @ fold (\<lambda>i d. put d (i * (4 * ?b)) (?g i)) [0..<?n] ?C"
  proof (rule fold_put_two)
    fix i assume "i < ?n"
    then have "Suc i * 64 \<le> ?n * 64" "Suc i * (4 * ?b) \<le> ?n * (4 * ?b)" by (simp_all only: mult_le_mono1 Suc_leI)
    then show "i * 64 + length (?f i) \<le> length ?N" "i * (4 * ?b) + length (?g i) \<le> length ?C" by simp_all
  qed
  moreover have "fold (\<lambda>i d. put d (i * 64) (?f i)) [0..<?n] ?N = concat (map ?f [0..<?n])"
    by (rule fold_put_all) simp_all
  moreover have "fold (\<lambda>i d. put d (i * (4 * ?b)) (?g i)) [0..<?n] ?C = concat (map ?g [0..<?n])"
    by (rule fold_put_all) simp_all
  ultimately show ?thesis unfolding new_stats_def Let_def layout_def replicate_u64s by (simp only:)
qed

lemma add_execs_region:
  assumes "length A = off" "j \<le> length X"
  shows "fold (\<lambda>i data. put data (off + 8 * i) (u64_bytes (bytes_u64 (get data (off + 8 * i) 8) + e i))) [0..<j]
           (A @ concat (map u64_bytes X) @ T)
     = A @ concat (map u64_bytes (map (\<lambda>i. X ! i + e i) [0..<j] @ drop j X)) @ T"
  using assms(2)
proof (induction j)
  case (Suc j)
  let ?Y = "map (\<lambda>i. X ! i + e i) [0..<j] @ drop j X"
  let ?E = "concat (map u64_bytes ?Y)"
  have l: "j < length ?Y" "8 * j + 8 \<le> length ?E" using Suc.prems by (simp_all del: map_append)
  have n: "?Y ! j = X ! j" using Suc.prems by (simp add: nth_append)
  have u: "?Y[j := X ! j + e j] = map (\<lambda>i. X ! i + e i) [0..<Suc j] @ drop (Suc j) X"
    using Suc.prems by (simp add: list_update_append Cons_nth_drop_Suc [symmetric])
  have "get (A @ ?E @ T) (off + 8 * j) 8 = u64_bytes (X ! j)"
    unfolding assms(1) [symmetric] get_right get_left [OF l(2)] get_u64s [OF l(1)] n ..
  moreover have "put (A @ ?E @ T) (off + 8 * j) (u64_bytes v) = A @ concat (map u64_bytes (?Y[j := v])) @ T" for v
    using l(2) by (simp only: assms(1) [symmetric] put_right put_left length_u_bytes put_u64s [OF l(1)])
  moreover have "fold (\<lambda>i data. put data (off + 8 * i) (u64_bytes (bytes_u64 (get data (off + 8 * i) 8) + e i))) [0..<j]
      (A @ concat (map u64_bytes X) @ T) = A @ ?E @ T"
    using Suc by simp
  ultimately show ?case by (simp only: upt_Suc_append fold_append fold.simps comp_def id_def bytes_u64_bytes u le0)
qed simp

lemma add_execs_layout:
  assumes "stats_fit c" "length X = unat (num_bbs c)"
  shows "add_execs c (layout c X) = layout c (map (\<lambda>i. X ! i + bb_num_executions c (int i + 1)) [0..<unat (num_bbs c)])"
proof -
  have "length (stats_header c @ concat (map (\<lambda>i. strncpy_bytes (ft_name (fault_types c ! i)) 64) [0..<length (fault_types c)]))
      = off_execs c"
    using assms(1) by (simp add: length_names off_execs_def stats_fitD)
  from add_execs_region [OF this, of "length X" X "\<lambda>i. bb_num_executions c (int i + 1)"] show ?thesis
    using assms(2) by (simp add: add_execs_def layout_def Let_def)
qed

text \<open>A file in this layout passes the checks of the next run.\<close>

lemma strncmp_padded:
  assumes "n \<le> m" "0 \<notin> set bs"
  shows "strncmp_eq (take n (bs @ replicate m 0) @ rest) (bs @ [0]) n"
  using assms
proof (induction bs arbitrary: n)
  case Nil
  then show ?case by (cases n; cases m) auto
next
  case (Cons b bs)
  then show ?case by (cases n) auto
qed

lemma blocks_split:
  assumes "i < n"
  shows "concat (map f [0..<n]) = concat (map f [0..<i]) @ f i @ concat (map f [Suc i..<n])"
proof -
  have "[0..<n] = [0..<i] @ [i..<n]" using assms upt_add_eq_append [of 0 i "n - i"] by simp
  then show ?thesis using assms by (simp add: upt_conv_Cons)
qed

lemma header_ok_layout: "header_ok c (layout c X)"
proof -
  have b: "bytes_u32 (u32_bytes v) = v" for v
  proof -
    have "le_value (u32_bytes v) = unat v mod 256 ^ 4"
      unfolding u32_bytes_def le_bytes_def by (rule le_value_map)
    moreover have "unat v < 256 ^ 4" using unsigned_less [of v] by simp
    ultimately show ?thesis by (simp add: bytes_u32_def)
  qed
  show ?thesis by (simp add: header_ok_def layout_def stats_header_def get_def b)
qed

lemma fault_type_ok_layout:
  assumes "stats_fit c" "length X = unat (num_bbs c)" "i < length (fault_types c)"
  shows "fault_type_ok c (layout c X) i"
proof -
  let ?f = "\<lambda>i. strncpy_bytes (ft_name (fault_types c ! i)) 64" and ?g = "\<lambda>i. candidates c (fault_types c ! i)"
  let ?n = "length (fault_types c)" and ?b = "unat (num_bbs c)"
  have lf: "length (concat (map ?f [0..<i])) = i * 64" by (rule length_names)
  have lg: "length (concat (map ?g [0..<i])) = i * (4 * ?b)" by (rule length_cands)
  have "layout c X = (stats_header c @ concat (map ?f [0..<i])) @ ?f i @ concat (map ?f [Suc i..<?n])
      @ concat (map u64_bytes X) @ concat (map ?g [0..<?n])"
    unfolding layout_def by (subst blocks_split [OF assms(3), of ?f]) simp
  then have "drop (16 + i * 64) (layout c X) = ?f i @ concat (map ?f [Suc i..<?n])
      @ concat (map u64_bytes X) @ concat (map ?g [0..<?n])"
    by (simp add: lf)
  moreover have "0 \<notin> set (str_bytes (ft_name (fault_types c ! i)))"
    using assms by (simp add: stats_fit_def list_all_length)
  ultimately have 1: "strncmp_eq (drop (16 + i * 64) (layout c X)) (str_bytes (ft_name (fault_types c ! i)) @ [0]) 64"
    by (simp add: strncpy_bytes_def strncmp_padded del: take_append)
  have "layout c X = (stats_header c @ concat (map ?f [0..<?n]) @ concat (map u64_bytes X) @ concat (map ?g [0..<i]))
      @ ?g i @ concat (map ?g [Suc i..<?n])"
    unfolding layout_def by (subst blocks_split [OF assms(3), of ?g]) simp
  moreover have "length (stats_header c @ concat (map ?f [0..<?n]) @ concat (map u64_bytes X) @ concat (map ?g [0..<i]))
      = off_cands c + 4 * cand_index c i"
    using assms lg by (simp add: length_names off_cands_def off_execs_def stats_fitD)
  ultimately have "get (layout c X) (off_cands c + 4 * cand_index c i) (4 * ?b) = ?g i"
    by (simp add: get_def)
  then show ?thesis using 1 by (simp add: fault_type_ok_def Let_def)
qed

section \<open>Runs of one program\<close>

abbreviation (input) "io_fine \<equiv> \<lparr>open_ok = True, lock_ok = True, malloc_ok = True, read_ok = True, seek_ok = True, written = None\<rparr>"

definition same_program :: "edfi_context \<Rightarrow> edfi_context \<Rightarrow> bool" where
  "same_program c d \<longleftrightarrow> num_bbs d = num_bbs c \<and> fault_types d = fault_types c \<and> output_dir d = output_dir c"

definition stats_runs :: "edfi_context list \<Rightarrow> files \<Rightarrow> files" where
  "stats_runs cs fs = fold (edfi_stats_per_bb_add io_fine) cs fs"

definition total_executions :: "edfi_context list \<Rightarrow> nat \<Rightarrow> u64" where
  "total_executions cs i = sum_list (map (\<lambda>c. bb_num_executions c (int i + 1)) cs)"

lemma map_upt_nth [simp]:
  "map (\<lambda>i. map f [0..<n] ! i + e i) [0..<n] = map (\<lambda>i. f i + e i) [0..<n]"
  "map (\<lambda>i. replicate n x ! i + e i) [0..<n] = map (\<lambda>i. x + e i) [0..<n]"
  by simp_all

lemma same_program_layout:
  assumes "same_program c d"
  shows "layout d X = layout c X" "datasize d = datasize c" "stats_fit d = stats_fit c" "num_bbs d = num_bbs c"
    "edfi_stats_per_bb_get_path d = edfi_stats_per_bb_get_path c"
  using assms by (simp_all add: same_program_def layout_def stats_header_def candidates_def datasize_def
      off_cands_def off_execs_def names_size_def stats_fit_def edfi_stats_per_bb_get_path_def edfi_stats_per_bb_get_id_def)

lemma add_old:
  assumes "stats_fit c" "length X = unat (num_bbs c)"
  shows "edfi_stats_per_bb_add_with_fd io_fine c (layout c X)
     = (True, layout c (map (\<lambda>i. X ! i + bb_num_executions c (int i + 1)) [0..<unat (num_bbs c)]))"
proof -
  have "datasize c \<noteq> 0" by (simp add: datasize_def off_cands_def off_execs_def)
  moreover have "list_all (fault_type_ok c (layout c X)) [0..<length (fault_types c)]"
    using fault_type_ok_layout [OF assms] by (simp add: list_all_iff)
  ultimately show ?thesis
    using assms by (simp add: edfi_stats_per_bb_add_with_fd_def length_layout header_ok_layout add_execs_layout Let_def)
qed

lemma add_new:
  assumes "stats_fit c"
  shows "edfi_stats_per_bb_add_with_fd io_fine c []
     = (True, layout c (map (\<lambda>i. bb_num_executions c (int i + 1)) [0..<unat (num_bbs c)]))"
  using assms by (simp add: edfi_stats_per_bb_add_with_fd_def new_stats_layout add_execs_layout Let_def)

lemma not_available:
  "\<not> edfi_stats_available c \<Longrightarrow> i < unat (num_bbs c) \<Longrightarrow> bb_num_executions c (int i + 1) = 0"
proof -
  assume "\<not> edfi_stats_available c" "i < unat (num_bbs c)"
  then have "\<not> bb_num_executions c (int (Suc i)) > 0"
    unfolding edfi_stats_available_def list_ex_iff by (metis One_nat_def Suc_eq_plus1 Suc_leI Suc_mono atLeastLessThan_iff set_upt zero_less_Suc)
  then show ?thesis by (simp add: word_gt_0 add.commute)
qed

lemma run_old:
  assumes "stats_fit c" "length X = unat (num_bbs c)" "fs (edfi_stats_per_bb_get_path c) = Some (layout c X)"
  shows "edfi_stats_per_bb_add io_fine c fs = fs(edfi_stats_per_bb_get_path c \<mapsto>
     layout c (map (\<lambda>i. X ! i + bb_num_executions c (int i + 1)) [0..<unat (num_bbs c)]))"
proof (cases "edfi_stats_available c")
  case True
  then show ?thesis using assms by (simp add: edfi_stats_per_bb_add_def add_old)
next
  case False
  have "map (\<lambda>i. X ! i + bb_num_executions c (int i + 1)) [0..<unat (num_bbs c)] = map (\<lambda>i. X ! i) [0..<unat (num_bbs c)]"
    using not_available [OF False] by simp
  also have "\<dots> = X" using assms(2) map_nth [of X] by simp
  finally show ?thesis using False assms(3) by (simp add: edfi_stats_per_bb_add_def fun_upd_idem)
qed

lemma run_new:
  assumes "stats_fit c" "fs (edfi_stats_per_bb_get_path c) = None" "edfi_stats_available c"
  shows "edfi_stats_per_bb_add io_fine c fs = fs(edfi_stats_per_bb_get_path c \<mapsto>
     layout c (map (\<lambda>i. bb_num_executions c (int i + 1)) [0..<unat (num_bbs c)]))"
  using assms by (simp add: edfi_stats_per_bb_add_def add_new)

lemma runs_old:
  assumes "stats_fit c" "length X = unat (num_bbs c)" "list_all (same_program c) cs"
    "fs (edfi_stats_per_bb_get_path c) = Some (layout c X)"
  shows "stats_runs cs fs = fs(edfi_stats_per_bb_get_path c \<mapsto>
     layout c (map (\<lambda>i. X ! i + total_executions cs i) [0..<unat (num_bbs c)]))"
  using assms(2-)
proof (induction cs arbitrary: X fs)
  case Nil
  then show ?case using map_nth [of X] by (simp add: stats_runs_def total_executions_def fun_upd_idem)
next
  case (Cons d cs)
  have d: "same_program c d" using Cons.prems by simp
  let ?X = "map (\<lambda>i. X ! i + bb_num_executions d (int i + 1)) [0..<unat (num_bbs c)]"
  let ?fs = "fs(edfi_stats_per_bb_get_path c \<mapsto> layout c ?X)"
  have "edfi_stats_per_bb_add io_fine d fs = ?fs"
    using run_old [of d X fs] Cons.prems assms(1) by (simp add: same_program_layout [OF d])
  moreover have "stats_runs cs ?fs = ?fs(edfi_stats_per_bb_get_path c \<mapsto>
      layout c (map (\<lambda>i. ?X ! i + total_executions cs i) [0..<unat (num_bbs c)]))"
    using Cons.prems by (intro Cons.IH) simp_all
  ultimately show ?case by (simp add: stats_runs_def total_executions_def add.assoc)
qed

lemma runs_new:
  assumes "stats_fit c" "list_all (same_program c) cs" "list_ex edfi_stats_available cs"
    "fs (edfi_stats_per_bb_get_path c) = None"
  shows "stats_runs cs fs = fs(edfi_stats_per_bb_get_path c \<mapsto>
     layout c (map (total_executions cs) [0..<unat (num_bbs c)]))"
  using assms(2-)
proof (induction cs)
  case (Cons d cs)
  have d: "same_program c d" using Cons.prems by simp
  note sp = same_program_layout [OF d]
  show ?case
  proof (cases "edfi_stats_available d")
    case True
    let ?X = "map (\<lambda>i. bb_num_executions d (int i + 1)) [0..<unat (num_bbs c)]"
    let ?fs = "fs(edfi_stats_per_bb_get_path c \<mapsto> layout c ?X)"
    have "edfi_stats_per_bb_add io_fine d fs = ?fs"
      using run_new [of d fs] True Cons.prems assms(1) by (simp add: sp)
    moreover have "stats_runs cs ?fs = ?fs(edfi_stats_per_bb_get_path c \<mapsto>
        layout c (map (\<lambda>i. ?X ! i + total_executions cs i) [0..<unat (num_bbs c)]))"
      using Cons.prems assms(1) by (intro runs_old) simp_all
    ultimately show ?thesis by (simp add: stats_runs_def total_executions_def [abs_def])
  next
    case False
    then have "stats_runs (d # cs) fs = stats_runs cs fs"
      by (simp add: stats_runs_def edfi_stats_per_bb_add_def)
    moreover have "map (total_executions (d # cs)) [0..<unat (num_bbs c)] = map (total_executions cs) [0..<unat (num_bbs c)]"
      using not_available [OF False] by (simp add: total_executions_def sp)
    moreover have "stats_runs cs fs = fs(edfi_stats_per_bb_get_path c \<mapsto>
        layout c (map (total_executions cs) [0..<unat (num_bbs c)]))"
      using Cons False by (auto simp: fun_eq_iff)
    ultimately show ?thesis by (simp only:)
  qed
qed simp

lemma layout_exec:
  assumes "stats_fit c" "length X = unat (num_bbs c)" "i < unat (num_bbs c)"
  shows "bytes_u64 (get (layout c X) (off_execs c + 8 * i) 8) = X ! i"
proof -
  let ?A = "stats_header c @ concat (map (\<lambda>i. strncpy_bytes (ft_name (fault_types c ! i)) 64) [0..<length (fault_types c)])"
  have "length ?A = off_execs c" using assms(1) by (simp add: length_names off_execs_def stats_fitD)
  moreover have "8 * i + 8 \<le> length (concat (map u64_bytes X))" using assms by simp
  ultimately have "get (layout c X) (off_execs c + 8 * i) 8 = get (concat (map u64_bytes X)) (8 * i) 8"
    using get_right [of ?A _ "8 * i" 8] by (simp add: layout_def get_left)
  then show ?thesis using assms by (simp add: get_u64s)
qed

section \<open>The dump\<close>

definition expand :: "(u64 \<times> nat) list \<Rightarrow> u64 list" where
  "expand gs = concat (map (\<lambda>(count, repeats). replicate repeats count) gs)"

definition dump_inv :: "u64 list \<Rightarrow> (u64 \<times> nat) list \<times> u64 \<times> nat \<Rightarrow> bool" where
  "dump_inv xs st \<longleftrightarrow> (case st of (out, countrep, repeats) \<Rightarrow>
     expand out @ replicate repeats countrep = xs \<and> (\<forall>g \<in> set out. 0 < snd g)
     \<and> distinct_adj (map fst out @ [countrep]) \<and> (repeats = 0 \<longrightarrow> out = []))"

lemma dump_step_inv: "dump_inv xs st \<Longrightarrow> dump_inv (xs @ [x]) (dump_step x st)"
  by (cases st)
    (auto simp: dump_inv_def dump_step_def expand_def replicate_append_same distinct_adj_append_iff)

lemma fold_dump_inv: "dump_inv ys st \<Longrightarrow> dump_inv (ys @ xs) (fold dump_step xs st)"
proof (induction xs arbitrary: ys st)
  case (Cons x xs)
  show ?case using Cons.IH [OF dump_step_inv [OF Cons.prems]] by simp
qed simp

lemma groups_expand:
  "expand (hypermemlike_groups xs) = xs" "\<forall>g \<in> set (hypermemlike_groups xs). 0 < snd g"
  "distinct_adj (map fst (hypermemlike_groups xs))"
proof -
  have "dump_inv [] ([], 0, 0)" by (simp add: dump_inv_def expand_def)
  then have "dump_inv xs (fold dump_step xs ([], 0, 0))" using fold_dump_inv [of "[]"] by simp
  then show "expand (hypermemlike_groups xs) = xs" "\<forall>g \<in> set (hypermemlike_groups xs). 0 < snd g"
    "distinct_adj (map fst (hypermemlike_groups xs))"
    by (auto simp: hypermemlike_groups_def dump_inv_def expand_def split: prod.splits)
qed

section \<open>Properties\<close>

text \<open>
  C13: over any sequence of runs of one program in which some run executed an
  instrumented block, the statistics file ends with exactly the header, names and
  candidate tables of the program, each execution count is the sum of the counts of all
  runs in 64-bit arithmetic (runs without executions included), every run accepts the
  file its predecessors wrote, and no other file is touched.
\<close>

theorem edfi_stats_accumulate:
  assumes "stats_fit c" "list_all (same_program c) cs" "list_ex edfi_stats_available cs"
    "fs (edfi_stats_per_bb_get_path c) = None"
  shows "\<exists>file. stats_runs cs fs = fs(edfi_stats_per_bb_get_path c \<mapsto> file) \<and> length file = datasize c
     \<and> header_ok c file \<and> list_all (fault_type_ok c file) [0..<length (fault_types c)]
     \<and> (\<forall>i < unat (num_bbs c). bytes_u64 (get file (off_execs c + 8 * i) 8) = total_executions cs i)"
proof -
  let ?f = "layout c (map (total_executions cs) [0..<unat (num_bbs c)])"
  have "list_all (fault_type_ok c ?f) [0..<length (fault_types c)]"
    using fault_type_ok_layout [OF assms(1)] by (simp add: list_all_iff)
  then show ?thesis
    using runs_new [of c cs fs, OF assms] assms(1)
    by (intro exI [of _ ?f]) (simp add: length_layout header_ok_layout layout_exec)
qed

definition demo_run :: "u64 \<Rightarrow> edfi_context" where
  "demo_run n = (ectx (demo_edfi demo_conf))\<lparr>num_bbs := 1,
     fault_types := [\<lparr>ft_name = ''mem'', bb_num_injected = (\<lambda>_. 1), bb_num_candidates = (\<lambda>_. 4)\<rparr>],
     bb_num_executions := (\<lambda>_. n)\<rparr>"

theorem edfi_stats_accumulate_witness:
  "\<exists>data. stats_runs [demo_run 2, demo_run 0, demo_run 3] (\<lambda>_. None)
       = [edfi_stats_per_bb_get_path (demo_run 2) \<mapsto> data]
     \<and> bytes_u64 (get data (off_execs (demo_run 2)) 8) = 5"
proof -
  have "stats_fit (demo_run 2)" "list_all (same_program (demo_run 2)) [demo_run 2, demo_run 0, demo_run 3]"
    "list_ex edfi_stats_available [demo_run 2, demo_run 0, demo_run 3]"
    by (simp_all add: demo_run_def stats_fit_def str_bytes_def same_program_def edfi_stats_available_def)
  from edfi_stats_accumulate [OF this, of "\<lambda>_. None"]
  obtain data where f: "stats_runs [demo_run 2, demo_run 0, demo_run 3] (\<lambda>_. None)
      = [edfi_stats_per_bb_get_path (demo_run 2) \<mapsto> data]"
    "\<forall>i < unat (num_bbs (demo_run 2)). bytes_u64 (get data (off_execs (demo_run 2) + 8 * i) 8)
       = total_executions [demo_run 2, demo_run 0, demo_run 3] i"
    by auto
  have "unat (num_bbs (demo_run 2)) = 1" "total_executions [demo_run 2, demo_run 0, demo_run 3] 0 = 5"
    by (simp_all add: demo_run_def total_executions_def)
  with f show ?thesis by fastforce
qed

text \<open>
  C31: the run-length encoded dump loses nothing: expanding its groups gives back the
  execution counts in order, no group is empty and neighbouring groups have different
  counts, so the encoding is the shortest one.
\<close>

theorem hypermemlike_roundtrip:
  "expand (hypermemlike_groups counts) = counts
     \<and> list_all (\<lambda>g. snd g \<noteq> 0) (hypermemlike_groups counts) \<and> distinct_adj (map fst (hypermemlike_groups counts))"
  using groups_expand [of counts] by (auto simp: list_all_iff)

end
