(* ===== verification/Bitmap.thy ===== *)
theory Bitmap
  imports Runtime Checkpoint
begin

text \<open>
  The bitmap mechanism (\<open>static/ltckpt/mechanisms/bitmap\<close>) in its x86-64 build for
  Linux: every click of memory has a mark in a table, and the first store into a click
  after a checkpoint copies it to the shadow space.  The two tables that build on
  x86-64 are modelled, one bit per click (\<open>bitmap_plain.h\<close>) and one epoch number per
  click (\<open>bitmap_plain_epoch.h\<close>, the default), under both schemes, together with the
  list of store statistics (\<open>ltckpt_stat.c\<close>).

  The tables and the shadow space are parts of the one memory of the process; \<open>mmap\<close>
  and \<open>madvise\<close> act on it and are parameters.  None is \<open>ltckpt_panic\<close>.
\<close>

section \<open>bitmap.h\<close>

datatype bitmap_type = BITMAP_PLAIN | BITMAP_PLAIN_EPOCH
datatype ltckpt_scheme = LTCKPT_DIFF_SCHEME | LTCKPT_SYNC_SCHEME

record bm_conf =
  BITMAP_TYPE :: bitmap_type
  LTCKPT_SCHEME :: ltckpt_scheme
  LTCKPT_CFG_STATS_ENABLED :: bool

text \<open>The combination the header refuses with \<open>#error\<close>.\<close>

definition bm_conf_builds :: "bm_conf \<Rightarrow> bool" where
  "bm_conf_builds c \<longleftrightarrow> \<not> (LTCKPT_SCHEME c = LTCKPT_SYNC_SCHEME \<and> BITMAP_TYPE c = BITMAP_PLAIN)"

abbreviation (input) "LTCKPT_SHADOW_SPACE_SIZE \<equiv> 0x1000000000 :: va"
abbreviation (input) "LTCKPT_SHADOW_SPACE_OFFSET \<equiv> 0x2000000000 :: va"
abbreviation (input) "LTCKPT_SHADOW_SPACE_START \<equiv> LTCKPT_SHADOW_SPACE_OFFSET"

definition ltckpt_primary_to_shadow :: "va \<Rightarrow> va" where
  "ltckpt_primary_to_shadow a = (a AND (LTCKPT_SHADOW_SPACE_SIZE - 1)) + LTCKPT_SHADOW_SPACE_OFFSET"

definition ltckpt_shadow_to_primary :: "va \<Rightarrow> va" where
  "ltckpt_shadow_to_primary a = a AND (LTCKPT_SHADOW_SPACE_SIZE - 1)"

text \<open>The size of a click as a power of two, and where the table lies.\<close>

fun click_bits :: "bitmap_type \<Rightarrow> nat" where
  "click_bits BITMAP_PLAIN = 3"
| "click_bits BITMAP_PLAIN_EPOCH = 7"

fun LTCKPT_BITMAP_SIZE :: "bitmap_type \<Rightarrow> u64" where
  "LTCKPT_BITMAP_SIZE BITMAP_PLAIN = LTCKPT_SHADOW_SPACE_SIZE div (8 * 8)"
| "LTCKPT_BITMAP_SIZE BITMAP_PLAIN_EPOCH = LTCKPT_SHADOW_SPACE_SIZE div 128"

fun LTCKPT_BITMAP_OFFSET :: "bitmap_type \<Rightarrow> va" where
  "LTCKPT_BITMAP_OFFSET BITMAP_PLAIN = LTCKPT_SHADOW_SPACE_OFFSET - LTCKPT_BITMAP_SIZE BITMAP_PLAIN"
| "LTCKPT_BITMAP_OFFSET BITMAP_PLAIN_EPOCH = 0x1000000000"

abbreviation (input) "LTCKPT_BITMAP_START \<equiv> LTCKPT_BITMAP_OFFSET"

definition ltckpt_addr_to_region :: "bitmap_type \<Rightarrow> va \<Rightarrow> va" where
  "ltckpt_addr_to_region bt addr = align_down (click_bits bt) addr"

section \<open>ltckpt_stat.c\<close>

record 'w bm_state = runtime +
  ltckpt_epoch :: u8
  first_time :: bool
  stats :: "(va \<times> u32) list"
  stat_iteration :: int
  bw :: 'w

text \<open>The list in the order of its links; a new entry becomes the head.\<close>

definition ltckpt_stat_find :: "va \<Rightarrow> (va \<times> u32) list \<Rightarrow> u32 option" where
  "ltckpt_stat_find addr st = map_of st addr"

primrec stat_bump :: "va \<Rightarrow> (va \<times> u32) list \<Rightarrow> (va \<times> u32) list" where
  "stat_bump addr [] = []"
| "stat_bump addr (e # st) = (if fst e = addr then (addr, snd e + 1) # st else e # stat_bump addr st)"

definition ltckpt_stat_add :: "bm_conf \<Rightarrow> va \<Rightarrow> 'w bm_state \<Rightarrow> 'w bm_state" where
  "ltckpt_stat_add c addr s =
     (if \<not> LTCKPT_CFG_STATS_ENABLED c then s
      else case ltckpt_stat_find addr (stats s) of
             None \<Rightarrow> s\<lparr>stats := (addr, 1) # stats s\<rparr>
           | Some _ \<Rightarrow> s\<lparr>stats := stat_bump addr (stats s)\<rparr>)"

definition ltckpt_stat_clear :: "bm_conf \<Rightarrow> 'w bm_state \<Rightarrow> 'w bm_state" where
  "ltckpt_stat_clear c s = (if LTCKPT_CFG_STATS_ENABLED c then s\<lparr>stats := []\<rparr> else s)"

text \<open>The lines it prints are left out.\<close>

definition ltckpt_stat_dump :: "bm_conf \<Rightarrow> 'w bm_state \<Rightarrow> 'w bm_state" where
  "ltckpt_stat_dump c s = (if LTCKPT_CFG_STATS_ENABLED c then s\<lparr>stat_iteration := stat_iteration s + 1\<rparr> else s)"

section \<open>The tables\<close>

definition ltckpt_save_region :: "bm_conf \<Rightarrow> va \<Rightarrow> 'w bm_state \<Rightarrow> 'w bm_state" where
  "ltckpt_save_region c region s =
     s\<lparr>pmem := mem_write (pmem s) (ltckpt_primary_to_shadow region)
                 (mem_read (pmem s) region (2 ^ click_bits (BITMAP_TYPE c)))\<rparr>"

definition ltckpt_save_region_for_address :: "bm_conf \<Rightarrow> va \<Rightarrow> 'w bm_state \<Rightarrow> 'w bm_state" where
  "ltckpt_save_region_for_address c addr s = ltckpt_save_region c (ltckpt_addr_to_region (BITMAP_TYPE c) addr) s"

text \<open>One bit per click; the address is cut to 32 bits.\<close>

definition plain_set_bit :: "va \<Rightarrow> 'w bm_state \<Rightarrow> bool \<times> 'w bm_state" where
  "plain_set_bit a s =
     (let address = (ucast a :: u32) div 8;
          bit = unat (address AND 7);
          offset = address div 8;
          p = LTCKPT_BITMAP_OFFSET BITMAP_PLAIN + ucast offset;
          ret = (pmem s p AND push_bit bit 1 \<noteq> 0)
      in (ret, s\<lparr>pmem := (pmem s)(p := pmem s p OR push_bit bit 1)\<rparr>))"

definition LTCKPT_ADDR_TO_BITMAP :: "va \<Rightarrow> va" where
  "LTCKPT_ADDR_TO_BITMAP x =
     (x AND (LTCKPT_SHADOW_SPACE_SIZE - 1)) div 128 + LTCKPT_BITMAP_OFFSET BITMAP_PLAIN_EPOCH"

definition ltckpt_save_sized_region :: "va \<Rightarrow> 'w bm_state \<Rightarrow> 'w bm_state" where
  "ltckpt_save_sized_region address s =
     (let p = LTCKPT_ADDR_TO_BITMAP address; old = pmem s p
      in if old \<noteq> ltckpt_epoch s
         then let dst = ltckpt_primary_to_shadow (align_down 7 address);
                  src = align_down 7 address;
                  s = s\<lparr>pmem := mem_write (pmem s) dst (mem_read (pmem s) src 128)\<rparr>
              in s\<lparr>pmem := (pmem s)(p := ltckpt_epoch s)\<rparr>
         else s)"

definition epoch_set_bit :: "va \<Rightarrow> 'w bm_state \<Rightarrow> bool \<times> 'w bm_state" where
  "epoch_set_bit a s =
     (let p = LTCKPT_ADDR_TO_BITMAP a
      in (True, if ltckpt_epoch s \<noteq> pmem s p then ltckpt_save_sized_region a s else s))"

definition ltckpt_set_bit :: "bm_conf \<Rightarrow> va \<Rightarrow> 'w bm_state \<Rightarrow> bool \<times> 'w bm_state" where
  "ltckpt_set_bit c a s =
     (case BITMAP_TYPE c of BITMAP_PLAIN \<Rightarrow> plain_set_bit a s | BITMAP_PLAIN_EPOCH \<Rightarrow> epoch_set_bit a s)"

section \<open>ltckpt_bitmap_init.c\<close>

type_synonym 'w madvise_call = "va \<Rightarrow> u64 \<Rightarrow> mem \<times> 'w \<Rightarrow> int \<times> mem \<times> 'w"

record 'w bm_os =
  bm_mmap :: "(mem \<times> 'w) mmap_call"
  bm_munmap :: "(mem \<times> 'w) munmap_call"
  bm_madvise :: "'w madvise_call"

text \<open>\<open>PROT_WRITE | PROT_READ\<close> is passed for the library's own protection flags, which have the same values.\<close>

definition map_space :: "'w bm_os \<Rightarrow> va \<Rightarrow> u64 \<Rightarrow> 'w bm_state \<Rightarrow> 'w bm_state option" where
  "map_space os start sz s =
     (let (ret, m, w) = ltckpt_mmap (bm_mmap os) start sz (PROT_WRITE OR PROT_READ)
            (LTCKPT_MAP_FIXED OR LTCKPT_MAP_PRIVATE OR LTCKPT_MAP_NORESERVE) (pmem s, bw s)
      in if ret = LTCKPT_MAP_FAILED then None else Some (s\<lparr>pmem := m, bw := w\<rparr>))"

definition ltckpt_allocate_bitmap :: "bm_conf \<Rightarrow> 'w bm_os \<Rightarrow> 'w bm_state \<Rightarrow> 'w bm_state option" where
  "ltckpt_allocate_bitmap c os s =
     map_space os (LTCKPT_BITMAP_START (BITMAP_TYPE c)) (LTCKPT_BITMAP_SIZE (BITMAP_TYPE c)) s"

definition ltckpt_allocate_shadow_space :: "'w bm_os \<Rightarrow> 'w bm_state \<Rightarrow> 'w bm_state option" where
  "ltckpt_allocate_shadow_space os s = map_space os LTCKPT_SHADOW_SPACE_START LTCKPT_SHADOW_SPACE_SIZE s"

definition ltckpt_clean_space :: "bm_conf \<Rightarrow> 'w bm_os \<Rightarrow> 'w bm_state \<Rightarrow> 'w bm_state" where
  "ltckpt_clean_space c os s =
     (let (_, m, w) = ltckpt_munmap (bm_munmap os) (LTCKPT_BITMAP_START (BITMAP_TYPE c))
            (LTCKPT_BITMAP_SIZE (BITMAP_TYPE c) + LTCKPT_SHADOW_SPACE_SIZE) (pmem s, bw s)
      in s\<lparr>pmem := m, bw := w\<rparr>)"

definition ltckpt_bitmap_fork_prepare :: "bm_conf \<Rightarrow> 'w bm_os \<Rightarrow> 'w bm_state \<Rightarrow> 'w bm_state" where
  "ltckpt_bitmap_fork_prepare c os s =
     (let (_, m, w) = bm_madvise os (LTCKPT_BITMAP_START (BITMAP_TYPE c)) (LTCKPT_BITMAP_SIZE (BITMAP_TYPE c)) (pmem s, bw s);
          (_, m, w) = bm_madvise os LTCKPT_SHADOW_SPACE_START LTCKPT_SHADOW_SPACE_SIZE (m, w)
      in s\<lparr>pmem := m, bw := w\<rparr>)"

text \<open>On Linux the process is never restarting; registering the fork handler is left out.\<close>

definition ltckpt_bitmap_late_init_hook :: "bm_conf \<Rightarrow> 'w bm_os \<Rightarrow> 'w bm_state \<Rightarrow> 'w bm_state option" where
  "ltckpt_bitmap_late_init_hook c os s =
     (case ltckpt_allocate_bitmap c os (ltckpt_clean_space c os s) of
        None \<Rightarrow> None
      | Some s \<Rightarrow> ltckpt_allocate_shadow_space os s)"

section \<open>ltckpt_bitmap.c\<close>

definition bm_store_hook :: "bm_conf \<Rightarrow> va \<Rightarrow> 'w bm_state \<Rightarrow> 'w bm_state" where
  "bm_store_hook c addr s =
     (let s = ltckpt_stat_add c addr s;
          (bitset, s) = ltckpt_set_bit c addr s
      in if LTCKPT_SCHEME c = LTCKPT_DIFF_SCHEME \<and> \<not> bitset then ltckpt_save_region_for_address c addr s else s)"

text \<open>The loop of the memcpy hook; it does not return when the pointer runs past the end of the
  address space.\<close>

definition bm_memcpy_body :: "bm_conf \<Rightarrow> va \<Rightarrow> 'w bm_state \<Rightarrow> 'w bm_state" where
  "bm_memcpy_body c reg s =
     (let s = ltckpt_stat_add c reg s;
          (bitset, s) = ltckpt_set_bit c reg s
      in if bitset \<and> LTCKPT_SCHEME c = LTCKPT_DIFF_SCHEME then ltckpt_save_region c reg s else s)"

partial_function (option) bm_memcpy_loop :: "bm_conf \<Rightarrow> va \<Rightarrow> va \<Rightarrow> 'w bm_state \<Rightarrow> 'w bm_state option" where
  "bm_memcpy_loop c reg endp s =
     (if reg < endp then bm_memcpy_loop c (reg + 2 ^ click_bits (BITMAP_TYPE c)) endp (bm_memcpy_body c reg s)
      else Some s)"

declare bm_memcpy_loop.simps [code]

definition bm_memcpy_hook :: "bm_conf \<Rightarrow> va \<Rightarrow> u64 \<Rightarrow> 'w bm_state \<Rightarrow> 'w bm_state option" where
  "bm_memcpy_hook c addr sz s = bm_memcpy_loop c (ltckpt_addr_to_region (BITMAP_TYPE c) addr) (addr + sz) s"

definition bm_new_marks :: "bm_conf \<Rightarrow> 'w bm_os \<Rightarrow> 'w bm_state \<Rightarrow> 'w bm_state option" where
  "bm_new_marks c os s =
     (if LTCKPT_SCHEME c = LTCKPT_DIFF_SCHEME then ltckpt_allocate_bitmap c os s
      else if BITMAP_TYPE c = BITMAP_PLAIN_EPOCH
           then let s = s\<lparr>ltckpt_epoch := ltckpt_epoch s + 1\<rparr>
                in if ltckpt_epoch s = 0
                   then map_option (\<lambda>s. s\<lparr>ltckpt_epoch := 1\<rparr>) (ltckpt_allocate_bitmap c os s)
                   else Some s
           else Some s)"

definition bm_top_of_the_loop :: "bm_conf \<Rightarrow> 'w bm_os \<Rightarrow> 'w bm_state \<Rightarrow> 'w bm_state option" where
  "bm_top_of_the_loop c os s =
     (let s = ltckpt_stat_dump c s;
          (go, x) = ctx_new_tol_or_return (ctx s);
          s = s\<lparr>ctx := x\<rparr>
      in if \<not> go then Some s
      else case (if first_time s
                 then (case ltckpt_allocate_bitmap c os s of
                         None \<Rightarrow> None
                       | Some s \<Rightarrow> map_option (\<lambda>s. s\<lparr>first_time := False\<rparr>) (ltckpt_allocate_shadow_space os s))
                 else Some s) of
             None \<Rightarrow> None
           | Some s \<Rightarrow> map_option (\<lambda>s. s\<lparr>ctx := ctx_new_checkpoint (ctx s)\<rparr>) (bm_new_marks c os s))"

section \<open>Addresses of marks and shadows\<close>

abbreviation (input) "low a \<equiv> unat (a :: va) mod 68719476736"

lemma unat_low: "unat (a AND (LTCKPT_SHADOW_SPACE_SIZE - 1)) = low a"
proof -
  have "(LTCKPT_SHADOW_SPACE_SIZE - 1 :: va) = mask 36" by (simp add: mask_eq_exp_minus_1)
  then have "a AND (LTCKPT_SHADOW_SPACE_SIZE - 1) = take_bit 36 a" by (simp add: take_bit_eq_mask)
  then have "unat (a AND (LTCKPT_SHADOW_SPACE_SIZE - 1)) = take_bit 36 (unat a)" by (simp add: unsigned_take_bit_eq)
  then show ?thesis by (simp add: take_bit_eq_mod)
qed

lemma low_less: "low a < 68719476736"
  by simp

lemma unat_shadow: "unat (ltckpt_primary_to_shadow a) = 137438953472 + low a"
proof -
  have "unat (a AND (LTCKPT_SHADOW_SPACE_SIZE - 1)) + unat (LTCKPT_SHADOW_SPACE_OFFSET) < 18446744073709551616"
    using low_less [of a] by (simp only: unat_low) simp
  then have "unat (ltckpt_primary_to_shadow a)
      = unat (a AND (LTCKPT_SHADOW_SPACE_SIZE - 1)) + unat LTCKPT_SHADOW_SPACE_OFFSET"
    unfolding ltckpt_primary_to_shadow_def by (simp add: unat_plus_if')
  then show ?thesis unfolding unat_low by simp
qed

lemma unat_mark: "unat (LTCKPT_ADDR_TO_BITMAP a) = 68719476736 + low a div 128"
proof -
  have d: "unat ((a AND (LTCKPT_SHADOW_SPACE_SIZE - 1)) div 128) = low a div 128"
    by (simp only: unat_div_distrib unat_low) simp
  have "low a div 128 < 536870912" by (simp add: div_less_iff_less_mult)
  then have "unat ((a AND (LTCKPT_SHADOW_SPACE_SIZE - 1)) div 128) + 68719476736 < 18446744073709551616"
    unfolding d by linarith
  then have "unat (LTCKPT_ADDR_TO_BITMAP a) = unat ((a AND (LTCKPT_SHADOW_SPACE_SIZE - 1)) div 128) + 68719476736"
    unfolding LTCKPT_ADDR_TO_BITMAP_def by (simp add: unat_plus_if')
  then show ?thesis unfolding d by simp
qed

abbreviation (input) "mark_space \<equiv> block (LTCKPT_BITMAP_START BITMAP_PLAIN_EPOCH) (unat (LTCKPT_BITMAP_SIZE BITMAP_PLAIN_EPOCH))"
abbreviation (input) "shadow_space \<equiv> block LTCKPT_SHADOW_SPACE_START (unat LTCKPT_SHADOW_SPACE_SIZE)"

lemma mark_space_iff: "x \<in> mark_space \<longleftrightarrow> 68719476736 \<le> unat x \<and> unat x < 69256347648"
proof -
  have "unat (LTCKPT_BITMAP_SIZE BITMAP_PLAIN_EPOCH) = 536870912" by simp
  then show ?thesis by (simp only:) (subst block_nowrap; simp)
qed

lemma shadow_space_iff: "x \<in> shadow_space \<longleftrightarrow> 137438953472 \<le> unat x \<and> unat x < 206158430208"
  by (subst block_nowrap) simp_all

lemma mark_in: "LTCKPT_ADDR_TO_BITMAP a \<in> mark_space"
  unfolding mark_space_iff unat_mark using low_less [of a] by (simp add: div_less_iff_less_mult)

lemma shadow_in: "ltckpt_primary_to_shadow a \<in> shadow_space"
  unfolding shadow_space_iff unat_shadow using low_less [of a] by simp

lemma spaces_disjoint: "x \<in> mark_space \<Longrightarrow> x \<notin> shadow_space"
  unfolding mark_space_iff shadow_space_iff by simp

lemma unat_region: "unat (align_down 7 a) = 128 * (unat a div 128)"
  using unat_align_down [of 7 a] by simp

lemma low_region: "low (align_down 7 a) = 128 * (low a div 128)"
proof -
  have "unat a mod (128 * 536870912) = 128 * (unat a div 128 mod 536870912) + unat a mod 128"
    by (rule mod_mult2_eq)
  then have "low a div 128 = unat a div 128 mod 536870912" by simp
  moreover have "128 * (unat a div 128) mod (128 * 536870912) = 128 * (unat a div 128 mod 536870912)"
    by (simp only: mult_mod_right)
  ultimately show ?thesis by (simp add: unat_region)
qed

lemma region_eq_iff: "align_down 7 x = align_down 7 a \<longleftrightarrow> unat x div 128 = unat a div 128"
  by (metis unat_region word_unat_eq_iff mult_cancel_left zero_neq_numeral)

text \<open>The copy of a click fills exactly the shadows of the addresses with the same mark.\<close>

lemma shadow_block_iff:
  "ltckpt_primary_to_shadow x \<in> block (ltckpt_primary_to_shadow (align_down 7 a)) 128
     \<longleftrightarrow> LTCKPT_ADDR_TO_BITMAP x = LTCKPT_ADDR_TO_BITMAP a"
proof -
  have "unat (ltckpt_primary_to_shadow (align_down 7 a)) = 137438953472 + 128 * (low a div 128)"
    by (simp only: unat_shadow low_region)
  moreover have "low a div 128 < 536870912" by (simp add: div_less_iff_less_mult)
  ultimately have "ltckpt_primary_to_shadow x \<in> block (ltckpt_primary_to_shadow (align_down 7 a)) 128
      \<longleftrightarrow> 128 * (low a div 128) \<le> low x \<and> low x < 128 * (low a div 128) + 128"
    by (subst block_nowrap) (simp_all add: unat_shadow add.commute)
  also have "\<dots> \<longleftrightarrow> low x div 128 = low a div 128"
    using div_nat_eqI [of 128 "low a div 128" "low x"] by auto
  also have "\<dots> \<longleftrightarrow> LTCKPT_ADDR_TO_BITMAP x = LTCKPT_ADDR_TO_BITMAP a"
    by (simp add: word_unat_eq_iff unat_mark)
  finally show ?thesis .
qed

lemma mark_region: "align_down 7 x = align_down 7 a \<Longrightarrow> LTCKPT_ADDR_TO_BITMAP x = LTCKPT_ADDR_TO_BITMAP a"
proof -
  assume "align_down 7 x = align_down 7 a"
  then have "low (align_down 7 x) = low (align_down 7 a)" by simp
  then have "low x div 128 = low a div 128" unfolding low_region by simp
  then show ?thesis by (simp add: word_unat_eq_iff unat_mark)
qed

lemma shadow_offset:
  assumes "align_down 7 x = align_down 7 a"
  shows "ltckpt_primary_to_shadow x - ltckpt_primary_to_shadow (align_down 7 a) = x - align_down 7 a"
proof -
  have e: "unat x div 128 = unat a div 128" using assms by (simp only: region_eq_iff)
  have "low x div 128 = low a div 128" using mark_region [OF assms] by (simp add: word_unat_eq_iff unat_mark)
  moreover have "low x = 128 * (low x div 128) + unat x mod 128"
    using mod_mod_cancel [of 128 68719476736 "unat x"] mult_div_mod_eq [of 128 "low x"] by simp
  ultimately have "low x = 128 * (low a div 128) + unat x mod 128" by simp
  then have "unat (ltckpt_primary_to_shadow x - ltckpt_primary_to_shadow (align_down 7 a)) = unat x mod 128"
    by (simp add: unat_sub_if' unat_shadow low_region)
  moreover have "unat (x - align_down 7 a) = unat x mod 128"
    using mult_div_mod_eq [of 128 "unat x"] by (simp add: unat_sub_if' unat_region e [symmetric] minus_mult_div_eq_mod)
  ultimately show ?thesis by (simp add: word_unat_eq_iff)
qed

section \<open>What is saved\<close>

text \<open>
  The memory of the application, as the layout at the top of \<open>bitmap.h\<close> intends it:
  whole clicks, outside the table and the shadow space, no two addresses with the same
  shadow.
\<close>

definition app_ok :: "(va \<Rightarrow> bool) \<Rightarrow> bool" where
  "app_ok A \<longleftrightarrow>
     (\<forall>a b. A a \<and> align_down 7 b = align_down 7 a \<longrightarrow> A b)
     \<and> (\<forall>a b. A a \<and> A b \<and> ltckpt_primary_to_shadow a = ltckpt_primary_to_shadow b \<longrightarrow> a = b)
     \<and> (\<forall>a. A a \<longrightarrow> a \<notin> mark_space \<and> a \<notin> shadow_space)"

text \<open>What a fixed anonymous mapping does to memory.\<close>

definition maps_fresh :: "'w bm_os \<Rightarrow> bool" where
  "maps_fresh os \<longleftrightarrow> (\<forall>addr sz prot flags m w r m' w'.
     bm_mmap os addr sz prot flags (m, w) = (r, m', w') \<and> r \<noteq> MAP_FAILED \<longrightarrow>
     (\<forall>x. m' x = (if x \<in> block addr (unat sz) then 0 else m x)))"

definition marked :: "'w bm_state \<Rightarrow> va \<Rightarrow> bool" where
  "marked s x \<longleftrightarrow> pmem s (LTCKPT_ADDR_TO_BITMAP x) = ltckpt_epoch s"

definition bm_visible :: "(va \<Rightarrow> bool) \<Rightarrow> 'w bm_state \<Rightarrow> mem" where
  "bm_visible A s = (\<lambda>x. if A x then pmem s x else 0)"

definition bm_saved :: "(va \<Rightarrow> bool) \<Rightarrow> 'w bm_state \<Rightarrow> mem" where
  "bm_saved A s = (\<lambda>x. if A x then pmem s (if marked s x then ltckpt_primary_to_shadow x else x) else 0)"

definition bm_inv :: "(va \<Rightarrow> bool) \<Rightarrow> bm_conf \<Rightarrow> 'w bm_os \<Rightarrow> 'w bm_state \<Rightarrow> bool" where
  "bm_inv A c os s \<longleftrightarrow> app_ok A \<and> maps_fresh os \<and> BITMAP_TYPE c = BITMAP_PLAIN_EPOCH
     \<and> LTCKPT_SCHEME c = LTCKPT_SYNC_SCHEME
     \<and> ltckpt_epoch s \<noteq> 0 \<and> (\<forall>p \<in> mark_space. pmem s p \<le> ltckpt_epoch s)"

lemma region_block: "x \<in> block (align_down 7 a) 128 \<longleftrightarrow> align_down 7 x = align_down 7 a"
  using block_align_iff [of 7 x a] by simp

lemma app_okD:
  assumes "app_ok A" "A a"
  shows "align_down 7 b = align_down 7 a \<Longrightarrow> A b" "a \<notin> mark_space" "a \<notin> shadow_space"
    "A b \<Longrightarrow> ltckpt_primary_to_shadow a = ltckpt_primary_to_shadow b \<Longrightarrow> a = b"
  using assms unfolding app_ok_def by blast+

lemma mark_inj:
  assumes "app_ok A" "A x" "A a" "LTCKPT_ADDR_TO_BITMAP x = LTCKPT_ADDR_TO_BITMAP a"
  shows "align_down 7 x = align_down 7 a"
proof -
  let ?s = "ltckpt_primary_to_shadow"
  let ?d = "?s x - ?s (align_down 7 a)"
  have "?s x \<in> block (?s (align_down 7 a)) 128" using assms(4) by (simp only: shadow_block_iff)
  then have "align_down 7 a + ?d \<in> block (align_down 7 a) 128" by (simp add: block_iff)
  then have y: "align_down 7 (align_down 7 a + ?d) = align_down 7 a" by (simp only: region_block)
  have "?s (align_down 7 a + ?d) = ?s x" using shadow_offset [OF y] by simp
  moreover have "A (align_down 7 a + ?d)" using y app_okD(1) [OF assms(1,3)] by blast
  ultimately have "align_down 7 a + ?d = x" using app_okD(4) [OF assms(1) _ assms(2)] by blast
  then show ?thesis using y by simp
qed

text \<open>Saving a click that is not marked yet, pointwise.\<close>

lemma save_sized:
  assumes "\<not> marked s a"
  defines "t \<equiv> ltckpt_save_sized_region a s"
  shows "ltckpt_epoch t = ltckpt_epoch s"
    "pmem t (LTCKPT_ADDR_TO_BITMAP a) = ltckpt_epoch s"
    "x \<noteq> LTCKPT_ADDR_TO_BITMAP a \<Longrightarrow> x \<notin> shadow_space \<Longrightarrow> pmem t x = pmem s x"
    "LTCKPT_ADDR_TO_BITMAP x \<noteq> LTCKPT_ADDR_TO_BITMAP a
       \<Longrightarrow> pmem t (ltckpt_primary_to_shadow x) = pmem s (ltckpt_primary_to_shadow x)"
    "align_down 7 x = align_down 7 a \<Longrightarrow> pmem t (ltckpt_primary_to_shadow x) = pmem s x"
proof -
  let ?d = "ltckpt_primary_to_shadow (align_down 7 a)"
  let ?m = "mem_write (pmem s) ?d (mem_read (pmem s) (align_down 7 a) 128)"
  have t: "t = s\<lparr>pmem := ?m(LTCKPT_ADDR_TO_BITMAP a := ltckpt_epoch s)\<rparr>"
    using assms(1) by (simp add: t_def ltckpt_save_sized_region_def marked_def Let_def)
  show "ltckpt_epoch t = ltckpt_epoch s" "pmem t (LTCKPT_ADDR_TO_BITMAP a) = ltckpt_epoch s" by (simp_all add: t)
  have ne: "ltckpt_primary_to_shadow x \<noteq> LTCKPT_ADDR_TO_BITMAP a" for x
    using mark_in [of a] shadow_in [of x] spaces_disjoint by metis
  show "pmem t x = pmem s x" if "x \<noteq> LTCKPT_ADDR_TO_BITMAP a" "x \<notin> shadow_space"
  proof -
    have "x \<notin> block ?d 128"
    proof
      assume x: "x \<in> block ?d 128"
      have "unat ?d + 128 \<le> 206158430208" unfolding unat_shadow low_region
        using low_less [of a] by simp
      moreover have "137438953472 \<le> unat ?d" unfolding unat_shadow by simp
      moreover have "unat ?d \<le> unat x \<and> unat x < unat ?d + 128"
        using x \<open>unat ?d + 128 \<le> 206158430208\<close> by (subst (asm) block_nowrap) simp_all
      ultimately have "x \<in> shadow_space" unfolding shadow_space_iff by simp
      with that(2) show False by blast
    qed
    then show ?thesis using that(1) by (simp add: t mem_write_out)
  qed
  show "pmem t (ltckpt_primary_to_shadow x) = pmem s (ltckpt_primary_to_shadow x)"
    if "LTCKPT_ADDR_TO_BITMAP x \<noteq> LTCKPT_ADDR_TO_BITMAP a"
    using that ne [of x] shadow_block_iff [of x a] by (simp add: t mem_write_out)
  show "pmem t (ltckpt_primary_to_shadow x) = pmem s x" if x: "align_down 7 x = align_down 7 a"
  proof -
    have "ltckpt_primary_to_shadow x \<in> block ?d 128" using mark_region [OF x] by (simp only: shadow_block_iff)
    moreover have "unat (x - align_down 7 a) < 128" using x by (simp only: region_block [symmetric] block_iff)
    ultimately show ?thesis using ne [of x] by (simp add: t mem_write_in shadow_offset [OF x])
  qed
qed

text \<open>What one call of the set-bit routine on a click of the application keeps.\<close>

definition bm_keeps :: "(va \<Rightarrow> bool) \<Rightarrow> bm_conf \<Rightarrow> 'w bm_os \<Rightarrow> 'w bm_state \<Rightarrow> 'w bm_state \<Rightarrow> bool" where
  "bm_keeps A c os s t \<longleftrightarrow> bm_inv A c os t \<and> bm_saved A t = bm_saved A s \<and> bm_visible A t = bm_visible A s
     \<and> (\<forall>x. marked s x \<longrightarrow> marked t x)"

lemma bm_keeps_trans: "bm_keeps A c os s t \<Longrightarrow> bm_keeps A c os t u \<Longrightarrow> bm_keeps A c os s u"
  by (simp add: bm_keeps_def)

lemma epoch_set_bit_keeps:
  assumes "bm_inv A c os s" "A a"
  shows "bm_keeps A c os s (snd (epoch_set_bit a s))" "marked (snd (epoch_set_bit a s)) a"
proof -
  let ?t = "ltckpt_save_sized_region a s"
  have ok: "app_ok A" using assms(1) by (simp add: bm_inv_def)
  have "bm_keeps A c os s (snd (epoch_set_bit a s)) \<and> marked (snd (epoch_set_bit a s)) a"
  proof (cases "marked s a")
    case True
    then show ?thesis using assms(1) by (simp add: epoch_set_bit_def marked_def bm_keeps_def Let_def)
  next
    case False
    note sv = save_sized [OF False]
    have e: "snd (epoch_set_bit a s) = ?t" using False by (simp add: epoch_set_bit_def marked_def Let_def)
    have mk: "marked ?t x \<longleftrightarrow> marked s x \<or> LTCKPT_ADDR_TO_BITMAP x = LTCKPT_ADDR_TO_BITMAP a" for x
      using sv(1,2) sv(3) [of "LTCKPT_ADDR_TO_BITMAP x"] mark_in [of x] spaces_disjoint [of "LTCKPT_ADDR_TO_BITMAP x"]
      by (cases "LTCKPT_ADDR_TO_BITMAP x = LTCKPT_ADDR_TO_BITMAP a") (auto simp: marked_def)
    have app: "pmem ?t x = pmem s x" if "A x" for x
      using sv(3) [of x] app_okD(2,3) [OF ok that] mark_in [of a] by metis
    have "bm_saved A ?t = bm_saved A s"
    proof
      fix x
      show "bm_saved A ?t x = bm_saved A s x"
      proof (cases "A x \<and> LTCKPT_ADDR_TO_BITMAP x = LTCKPT_ADDR_TO_BITMAP a")
        case True
        then have "align_down 7 x = align_down 7 a" using mark_inj [OF ok _ assms(2)] by blast
        moreover have "\<not> marked s x" using False True by (simp add: marked_def)
        ultimately show ?thesis using True mk [of x] sv(5) [of x] by (simp add: bm_saved_def)
      next
        case other: False
        then show ?thesis using mk [of x] sv(4) [of x] app [of x] by (auto simp: bm_saved_def)
      qed
    qed
    moreover have "bm_visible A ?t = bm_visible A s" using app by (auto simp: bm_visible_def)
    moreover have "bm_inv A c os ?t"
      using assms(1) sv(1,2) sv(3) spaces_disjoint unfolding bm_inv_def by (metis order_refl)
    ultimately show ?thesis unfolding e bm_keeps_def using mk by blast
  qed
  then show "bm_keeps A c os s (snd (epoch_set_bit a s))" "marked (snd (epoch_set_bit a s)) a" by blast+
qed

lemma stat_add_keeps: "bm_inv A c os s \<Longrightarrow> bm_keeps A c os s (ltckpt_stat_add c a s)"
  by (auto simp: bm_keeps_def bm_inv_def bm_saved_def bm_visible_def marked_def ltckpt_stat_add_def split: option.splits)

lemma bm_inv_conf:
  assumes "bm_inv A c os s"
  shows "ltckpt_set_bit c a t = epoch_set_bit a t"
    "bm_store_hook c a t = snd (epoch_set_bit a (ltckpt_stat_add c a t))"
    "bm_memcpy_body c a t = snd (epoch_set_bit a (ltckpt_stat_add c a t))"
    "2 ^ click_bits (BITMAP_TYPE c) = (128 :: va)" "ltckpt_addr_to_region (BITMAP_TYPE c) a = align_down 7 a"
  using assms by (simp_all add: bm_inv_def ltckpt_set_bit_def bm_store_hook_def bm_memcpy_body_def
      ltckpt_addr_to_region_def case_prod_beta Let_def)

lemma bm_hook_keeps:
  assumes "bm_inv A c os s" "A a"
  shows "bm_keeps A c os s (snd (epoch_set_bit a (ltckpt_stat_add c a s)))"
    "marked (snd (epoch_set_bit a (ltckpt_stat_add c a s))) a"
proof -
  have k: "bm_keeps A c os s (ltckpt_stat_add c a s)" using assms(1) by (rule stat_add_keeps)
  then have i: "bm_inv A c os (ltckpt_stat_add c a s)" by (simp add: bm_keeps_def)
  show "bm_keeps A c os s (snd (epoch_set_bit a (ltckpt_stat_add c a s)))"
    using k epoch_set_bit_keeps(1) [OF i assms(2)] by (rule bm_keeps_trans)
  show "marked (snd (epoch_set_bit a (ltckpt_stat_add c a s))) a"
    using i assms(2) by (rule epoch_set_bit_keeps(2))
qed

lemma marked_region: "align_down 7 x = align_down 7 a \<Longrightarrow> marked s x \<longleftrightarrow> marked s a"
  using mark_region [of x a] by (simp add: marked_def)

text \<open>The loop of the memcpy hook ends and marks every click up to the end.\<close>

lemma bm_memcpy_loop_marks:
  assumes "bm_inv A c os s" "align_down 7 reg = reg" "unat endp \<le> 18446744073709551488"
    and "\<And>x. unat reg \<le> unat x \<Longrightarrow> unat x < unat endp \<Longrightarrow> A x"
  shows "\<exists>t. bm_memcpy_loop c reg endp s = Some t \<and> bm_keeps A c os s t
     \<and> (\<forall>x. unat reg \<le> unat x \<and> unat x < unat endp \<longrightarrow> marked t x)"
  using assms
proof (induction "unat endp - unat reg" arbitrary: reg s rule: less_induct)
  case less
  note conf = bm_inv_conf [OF less.prems(1)]
  show ?case
  proof (cases "reg < endp")
    case False
    then have "bm_memcpy_loop c reg endp s = Some s" by (subst bm_memcpy_loop.simps) simp
    moreover have "\<not> (unat reg \<le> unat x \<and> unat x < unat endp)" for x
      using False by (simp add: word_less_nat_alt)
    ultimately show ?thesis using less.prems(1) by (auto simp: bm_keeps_def)
  next
    case True
    then have lt: "unat reg < unat endp" by (simp add: word_less_nat_alt)
    let ?s = "snd (epoch_set_bit reg (ltckpt_stat_add c reg s))"
    have r: "unat (reg + 128) = unat reg + 128" using lt less.prems(3) by (simp add: unat_plus_if')
    have eq: "bm_memcpy_loop c reg endp s = bm_memcpy_loop c (reg + 128) endp ?s"
      using True by (subst bm_memcpy_loop.simps) (simp only: conf if_True)
    have "A reg" using lt less.prems(4) by blast
    note k = bm_hook_keeps [OF less.prems(1) this]
    have d: "unat reg = 128 * (unat reg div 128)" using less.prems(2) unat_region [of reg] by simp
    have al: "align_down 7 (reg + 128) = reg + 128"
      using d by (simp add: word_unat_eq_iff unat_region r)
    have "\<exists>t. bm_memcpy_loop c (reg + 128) endp ?s = Some t \<and> bm_keeps A c os ?s t
        \<and> (\<forall>x. unat (reg + 128) \<le> unat x \<and> unat x < unat endp \<longrightarrow> marked t x)"
    proof (rule less.hyps)
      show "unat endp - unat (reg + 128) < unat endp - unat reg" using lt r by simp
      show "bm_inv A c os ?s" using k(1) by (simp add: bm_keeps_def)
      show "align_down 7 (reg + 128) = reg + 128" by (rule al)
      show "unat endp \<le> 18446744073709551488" by (rule less.prems(3))
      show "A x" if "unat (reg + 128) \<le> unat x" "unat x < unat endp" for x
        using that less.prems(4) [of x] by (simp add: r)
    qed
    then obtain t where t: "bm_memcpy_loop c (reg + 128) endp ?s = Some t" "bm_keeps A c os ?s t"
      "\<And>x. unat (reg + 128) \<le> unat x \<Longrightarrow> unat x < unat endp \<Longrightarrow> marked t x" by blast
    have "marked t x" if x: "unat reg \<le> unat x" "unat x < unat endp" for x
    proof (cases "unat x < unat reg + 128")
      case True
      then have "unat x div 128 = unat reg div 128" using x(1) d by (intro div_nat_eqI) (unfold mult_Suc_right, linarith+)
      then have "align_down 7 x = align_down 7 reg" by (simp only: region_eq_iff)
      then have "marked ?s x" using k(2) marked_region by blast
      then show ?thesis using t(2) by (simp add: bm_keeps_def)
    next
      case False
      then show ?thesis using t(3) [of x] x(2) r by simp
    qed
    then show ?thesis using eq t(1) bm_keeps_trans [OF k(1) t(2)] by auto
  qed
qed

section \<open>The contract\<close>

datatype bm_op = Bm_store va "u8 list" | Bm_memcpy va "u8 list"

fun bm_step :: "bm_conf \<Rightarrow> bm_op \<Rightarrow> 'w bm_state \<Rightarrow> 'w bm_state option" where
  "bm_step c (Bm_store a bs) s =
     (let s = bm_store_hook c a s in Some (s\<lparr>pmem := mem_write (pmem s) a bs\<rparr>))"
| "bm_step c (Bm_memcpy a bs) s =
     map_option (\<lambda>s. s\<lparr>pmem := mem_write (pmem s) a bs\<rparr>) (bm_memcpy_hook c a (word_of_nat (length bs)) s)"

text \<open>A store stays within its click, a copy does not reach the end of the address space; both
  stay in the memory of the application.\<close>

fun bm_op_ok :: "(va \<Rightarrow> bool) \<Rightarrow> bm_op \<Rightarrow> bool" where
  "bm_op_ok A (Bm_store a bs) \<longleftrightarrow> A a
     \<and> list_all (\<lambda>i. align_down 7 (a + word_of_nat i) = align_down 7 a) [0..<length bs]"
| "bm_op_ok A (Bm_memcpy a bs) \<longleftrightarrow> A a \<and> list_all (\<lambda>i. A (a + word_of_nat i)) [0..<length bs]
     \<and> unat a + length bs \<le> 18446744073709551488"

definition bm_ckpt :: "bm_conf \<Rightarrow> 'w bm_os \<Rightarrow> 'w bm_state \<Rightarrow> 'w bm_state" where
  "bm_ckpt c os s = (case bm_top_of_the_loop c os s of Some t \<Rightarrow> t | None \<Rightarrow> s)"

definition bm_takes :: "bm_conf \<Rightarrow> 'w bm_os \<Rightarrow> 'w bm_state \<Rightarrow> bool" where
  "bm_takes c os s \<longleftrightarrow> fst (ctx_new_tol_or_return (ctx s)) \<and> bm_top_of_the_loop c os s \<noteq> None"

lemma block_nth: "x \<in> block a n \<Longrightarrow> \<exists>i<n. x = a + word_of_nat i"
  by (rule exI [of _ "unat (x - a)"]) (simp add: block_iff)

lemma app_write:
  assumes "bm_inv A c os s" "\<And>x. x \<in> block a (length bs) \<Longrightarrow> A x \<and> marked s x"
  defines "t \<equiv> s\<lparr>pmem := mem_write (pmem s) a bs\<rparr>"
  shows "bm_inv A c os t" "bm_saved A t = bm_saved A s"
proof -
  have ok: "app_ok A" using assms(1) by (simp add: bm_inv_def)
  have same: "pmem t x = pmem s x" if "\<not> A x \<or> \<not> marked s x" for x
    using that assms(2) [of x] by (auto simp: t_def intro: mem_write_out)
  have na: "p \<in> mark_space \<Longrightarrow> \<not> A p" "p \<in> shadow_space \<Longrightarrow> \<not> A p" for p
    using app_okD(2,3) [OF ok, of p] by blast+
  have ep: "ltckpt_epoch t = ltckpt_epoch s" by (simp add: t_def)
  have mk: "marked t x \<longleftrightarrow> marked s x" for x
    using same [of "LTCKPT_ADDR_TO_BITMAP x"] na(1) [OF mark_in [of x]] ep by (simp only: marked_def) simp
  show "bm_saved A t = bm_saved A s"
  proof
    fix x
    show "bm_saved A t x = bm_saved A s x"
      using mk [of x] same [of x] same [of "ltckpt_primary_to_shadow x"] na(2) shadow_in [of x]
      by (auto simp: bm_saved_def)
  qed
  show "bm_inv A c os t"
    using assms(1) same na(1) by (auto simp: bm_inv_def t_def)
qed

lemma bm_step_law:
  assumes "bm_inv A c os s" "bm_op_ok A p"
  shows "\<exists>s'. bm_step c p s = Some s' \<and> bm_inv A c os s' \<and> bm_saved A s' = bm_saved A s"
proof (cases p)
  case (Bm_store a bs)
  note conf = bm_inv_conf [OF assms(1)]
  let ?t = "snd (epoch_set_bit a (ltckpt_stat_add c a s))"
  have a: "A a" and reg: "\<And>i. i < length bs \<Longrightarrow> align_down 7 (a + word_of_nat i) = align_down 7 a"
    using assms(2) Bm_store by (simp_all add: list_all_iff)
  note k = bm_hook_keeps [OF assms(1) a]
  have ok: "app_ok A" using assms(1) by (simp add: bm_inv_def)
  have "A x \<and> marked ?t x" if x: "x \<in> block a (length bs)" for x
  proof -
    obtain i where "i < length bs" "x = a + word_of_nat i" using block_nth [OF x] by blast
    then have "align_down 7 x = align_down 7 a" using reg by blast
    then show ?thesis using app_okD(1) [OF ok a] marked_region k(2) by blast
  qed
  moreover have "bm_inv A c os ?t" using k(1) by (simp add: bm_keeps_def)
  ultimately show ?thesis using app_write [of A c os ?t a bs] k(1) Bm_store by (simp add: conf bm_keeps_def Let_def)
next
  case (Bm_memcpy a bs)
  note conf = bm_inv_conf [OF assms(1)]
  let ?n = "length bs"
  have a: "A a" and inA: "\<And>i. i < ?n \<Longrightarrow> A (a + word_of_nat i)" and top: "unat a + ?n \<le> 18446744073709551488"
    using assms(2) Bm_memcpy by (simp_all add: list_all_iff)
  have ok: "app_ok A" using assms(1) by (simp add: bm_inv_def)
  have e: "unat (a + word_of_nat ?n) = unat a + ?n" using top by (simp add: unat_plus_if')
  have in_block: "x \<in> block a ?n \<longleftrightarrow> unat a \<le> unat x \<and> unat x < unat a + ?n" for x
    using top by (intro block_nowrap) simp
  have "A x" if x: "unat (align_down 7 a) \<le> unat x" "unat x < unat (a + word_of_nat ?n)" for x
  proof (cases "unat x < unat a")
    case True
    then have "unat x div 128 = unat a div 128" using x(1) by (intro div_nat_eqI) (simp_all add: unat_region)
    then show ?thesis using app_okD(1) [OF ok a, of x] by (simp only: region_eq_iff)
  next
    case False
    then have "x \<in> block a ?n" using x(2) e in_block by simp
    then show ?thesis using block_nth inA by blast
  qed
  then obtain t where t: "bm_memcpy_loop c (align_down 7 a) (a + word_of_nat ?n) s = Some t" "bm_keeps A c os s t"
    "\<And>x. unat (align_down 7 a) \<le> unat x \<Longrightarrow> unat x < unat a + ?n \<Longrightarrow> marked t x"
    using bm_memcpy_loop_marks [OF assms(1), of "align_down 7 a" "a + word_of_nat ?n"] top e by auto
  have "A x \<and> marked t x" if "x \<in> block a ?n" for x
    using that block_nth [OF that] inA t(3) [of x] in_block [of x] align_down_le [of 7 a] by auto
  moreover have "bm_inv A c os t" using t(2) by (simp add: bm_keeps_def)
  ultimately show ?thesis
    using app_write [of A c os t a bs] t(1,2) Bm_memcpy by (simp add: bm_memcpy_hook_def conf bm_keeps_def)
qed

text \<open>A fresh table marks nothing, and a new epoch is larger than every mark.\<close>

lemma map_space_eff:
  assumes "maps_fresh os" "map_space os start sz s = Some t"
  shows "pmem t x = (if x \<in> block start (unat sz) then 0 else pmem s x)" "ltckpt_epoch t = ltckpt_epoch s"
    "first_time t = first_time s" "ctx t = ctx s"
proof -
  obtain r m w where c: "bm_mmap os start sz (mmap_prot_of (PROT_WRITE OR PROT_READ))
      (mmap_flags_of (LTCKPT_MAP_FIXED OR LTCKPT_MAP_PRIVATE OR LTCKPT_MAP_NORESERVE)) (pmem s, bw s) = (r, m, w)"
    by (cases "bm_mmap os start sz (mmap_prot_of (PROT_WRITE OR PROT_READ))
      (mmap_flags_of (LTCKPT_MAP_FIXED OR LTCKPT_MAP_PRIVATE OR LTCKPT_MAP_NORESERVE)) (pmem s, bw s)")
  with assms(2) have r: "r \<noteq> MAP_FAILED" and t: "t = s\<lparr>pmem := m, bw := w\<rparr>"
    by (auto simp: map_space_def ltckpt_mmap_def Let_def split: if_splits)
  have "m x = (if x \<in> block start (unat sz) then 0 else pmem s x)"
    using assms(1) c r unfolding maps_fresh_def by blast
  then show "pmem t x = (if x \<in> block start (unat sz) then 0 else pmem s x)" "ltckpt_epoch t = ltckpt_epoch s"
    "first_time t = first_time s" "ctx t = ctx s"
    by (simp_all add: t)
qed

lemma new_epoch:
  assumes "app_ok A" "ltckpt_epoch t \<noteq> 0" "\<And>p. p \<in> mark_space \<Longrightarrow> pmem t p < ltckpt_epoch t"
    "\<And>x. A x \<Longrightarrow> pmem t x = pmem s x"
  shows "bm_saved A t = bm_visible A s" "\<forall>p \<in> mark_space. pmem t p \<le> ltckpt_epoch t"
proof -
  have "\<not> marked t x" for x using assms(3) [OF mark_in [of x]] by (auto simp: marked_def)
  then show "bm_saved A t = bm_visible A s" using assms(4) by (auto simp: bm_saved_def bm_visible_def)
  show "\<forall>p \<in> mark_space. pmem t p \<le> ltckpt_epoch t" using assms(3) by (auto intro: less_imp_le)
qed

lemma bm_new_marks_law:
  assumes "bm_inv A c os s" "bm_new_marks c os s = Some t"
  shows "bm_inv A c os t" "bm_saved A t = bm_visible A s"
proof -
  have ok: "app_ok A" "maps_fresh os" "BITMAP_TYPE c = BITMAP_PLAIN_EPOCH" "LTCKPT_SCHEME c = LTCKPT_SYNC_SCHEME"
    "ltckpt_epoch s \<noteq> 0" and le: "\<And>p. p \<in> mark_space \<Longrightarrow> pmem s p \<le> ltckpt_epoch s"
    using assms(1) by (auto simp: bm_inv_def)
  have "ltckpt_epoch t \<noteq> 0 \<and> (\<forall>p \<in> mark_space. pmem t p < ltckpt_epoch t) \<and> (\<forall>x. A x \<longrightarrow> pmem t x = pmem s x)"
  proof (cases "ltckpt_epoch s + 1 = 0")
    case True
    then obtain u where u: "map_space os (LTCKPT_BITMAP_START BITMAP_PLAIN_EPOCH) (LTCKPT_BITMAP_SIZE BITMAP_PLAIN_EPOCH)
        (s\<lparr>ltckpt_epoch := 0\<rparr>) = Some u" "t = u\<lparr>ltckpt_epoch := 1\<rparr>"
      using assms(2) ok(3,4) by (auto simp: bm_new_marks_def ltckpt_allocate_bitmap_def)
    have "pmem t x = (if x \<in> mark_space then 0 else pmem s x)" for x
      using map_space_eff(1) [OF ok(2) u(1), of x] u(2) by simp
    then show ?thesis using u(2) app_okD(2) [OF ok(1)] by auto
  next
    case False
    then have t: "t = s\<lparr>ltckpt_epoch := ltckpt_epoch s + 1\<rparr>"
      using assms(2) ok(3,4) by (simp add: bm_new_marks_def Let_def)
    have "ltckpt_epoch s < ltckpt_epoch s + 1" using False by (simp add: word_less_nat_alt unatSuc add.commute [of _ 1])
    then show ?thesis using t False le by (auto intro: le_less_trans)
  qed
  then have n: "ltckpt_epoch t \<noteq> 0" "\<And>p. p \<in> mark_space \<Longrightarrow> pmem t p < ltckpt_epoch t"
    "\<And>x. A x \<Longrightarrow> pmem t x = pmem s x" by blast+
  show "bm_saved A t = bm_visible A s" by (rule new_epoch(1) [OF ok(1) n])
  show "bm_inv A c os t" using ok n(1) new_epoch(2) [OF ok(1) n] by (simp add: bm_inv_def)
qed

lemma map_space_keeps:
  assumes "bm_inv A c os s" "map_space os start sz s = Some t"
    "start = LTCKPT_BITMAP_START BITMAP_PLAIN_EPOCH \<and> sz = LTCKPT_BITMAP_SIZE BITMAP_PLAIN_EPOCH
     \<or> start = LTCKPT_SHADOW_SPACE_START \<and> sz = LTCKPT_SHADOW_SPACE_SIZE"
  shows "bm_inv A c os t" "bm_visible A t = bm_visible A s"
proof -
  have ok: "app_ok A" "maps_fresh os" using assms(1) by (simp_all add: bm_inv_def)
  note eff = map_space_eff [OF ok(2) assms(2)]
  have "\<not> x \<in> block start (unat sz)" if "A x" for x
    using app_okD(2,3) [OF ok(1) that] assms(3) by metis
  then show "bm_visible A t = bm_visible A s" using eff(1) by (auto simp: bm_visible_def)
  have "pmem t p \<le> ltckpt_epoch t" if "p \<in> mark_space" for p
    using assms(1) that eff(1) [of p] eff(2) by (auto simp: bm_inv_def)
  then show "bm_inv A c os t" using assms(1) eff(2) by (simp add: bm_inv_def)
qed

lemma bm_top_law:
  assumes "bm_inv A c os s" "fst (ctx_new_tol_or_return (ctx s))" "bm_top_of_the_loop c os s = Some t"
  shows "bm_inv A c os t" "bm_saved A t = bm_visible A s"
proof -
  let ?s = "(ltckpt_stat_dump c s)\<lparr>ctx := snd (ctx_new_tol_or_return (ctx s))\<rparr>"
  have bt: "BITMAP_TYPE c = BITMAP_PLAIN_EPOCH" using assms(1) by (simp add: bm_inv_def)
  have 0: "bm_inv A c os ?s" "bm_visible A ?s = bm_visible A s"
    using assms(1) by (simp_all add: bm_inv_def bm_visible_def ltckpt_stat_dump_def cong: if_cong)
  have c: "ctx (ltckpt_stat_dump c s) = ctx s" by (simp add: ltckpt_stat_dump_def)
  from assms(2,3) obtain u v where u: "if first_time ?s
        then \<exists>u1 u2. ltckpt_allocate_bitmap c os ?s = Some u1 \<and> ltckpt_allocate_shadow_space os u1 = Some u2
               \<and> u = u2\<lparr>first_time := False\<rparr>
        else u = ?s"
    and v: "bm_new_marks c os u = Some v" "t = v\<lparr>ctx := ctx_new_checkpoint (ctx v)\<rparr>"
    by (auto simp: bm_top_of_the_loop_def c case_prod_beta Let_def split: option.splits if_splits)
  have "bm_inv A c os u \<and> bm_visible A u = bm_visible A s"
  proof (cases "first_time ?s")
    case True
    then obtain u1 u2 where m: "ltckpt_allocate_bitmap c os ?s = Some u1" "ltckpt_allocate_shadow_space os u1 = Some u2"
      "u = u2\<lparr>first_time := False\<rparr>" using u by auto
    have 1: "bm_inv A c os u1" "bm_visible A u1 = bm_visible A s"
      using map_space_keeps [OF 0(1) m(1) [unfolded ltckpt_allocate_bitmap_def bt]] 0(2) by auto
    have "bm_inv A c os u2" "bm_visible A u2 = bm_visible A s"
      using map_space_keeps [OF 1(1) m(2) [unfolded ltckpt_allocate_shadow_space_def]] 1(2) by auto
    then show ?thesis using m(3) by (simp add: bm_inv_def bm_visible_def cong: if_cong)
  next
    case False
    then show ?thesis using u 0 by simp
  qed
  then have "bm_inv A c os v" "bm_saved A v = bm_visible A s"
    using bm_new_marks_law [of A c os u v] v(1) by auto
  then show "bm_inv A c os t" "bm_saved A t = bm_visible A s"
    using v(2) by (simp_all add: bm_inv_def bm_saved_def marked_def cong: if_cong)
qed

interpretation bm: checkpoint_saver "bm_inv A c os" "bm_visible A" "bm_saved A" "bm_takes c os"
  "bm_ckpt c os" "bm_step c" "\<lambda>p s. bm_op_ok A p"
  for A c os
proof unfold_locales
  show "bm_inv A c os (bm_ckpt c os s) \<and> bm_saved A (bm_ckpt c os s) = bm_visible A s"
    if "bm_inv A c os s" "bm_takes c os s" for s
    using that bm_top_law [of A c os s] by (auto simp: bm_takes_def bm_ckpt_def)
qed (rule bm_step_law)

section \<open>Properties\<close>

text \<open>
  C6: with the epoch table, from a checkpoint on and through any sequence of
  instrumented stores and copies, the memory of the application at the checkpoint is
  preserved: for every address, if the mark of its click is the current epoch its byte
  is in the shadow space, and otherwise the byte itself has not changed.  The epoch
  wraps after 255 checkpoints; the table is cleared then, so no old mark is taken for
  a new one.
\<close>

theorem bitmap_preserves_checkpoint:
  assumes "bm_inv A c os s" "fst (ctx_new_tol_or_return (ctx s))" "bm_top_of_the_loop c os s = Some s1"
    "list_all (bm_op_ok A) ps"
  shows "\<exists>t. run_ops (bm_step c) ps s1 = Some t
     \<and> (\<forall>x. A x \<longrightarrow> pmem s x
          = pmem t (if pmem t (LTCKPT_ADDR_TO_BITMAP x) = ltckpt_epoch t then ltckpt_primary_to_shadow x else x))"
proof -
  have k: "bm_takes c os s" "bm_ckpt c os s = s1" using assms(2,3) by (simp_all add: bm_takes_def bm_ckpt_def)
  have "bm_inv A c os s1" by (rule bm_top_law(1) [OF assms(1-3)])
  then have "ops_ok (\<lambda>p s. bm_op_ok A p) (bm_step c) ps s1"
    using assms(4) by (rule_tac bm.always_ok) (auto simp: list_all_iff)
  then obtain t where t: "run_ops (bm_step c) ps s1 = Some t" "bm_saved A t = bm_visible A s"
    using bm.run_from_ckpt [OF assms(1) k(1), of ps] k(2) by auto
  have "pmem s x = pmem t (if pmem t (LTCKPT_ADDR_TO_BITMAP x) = ltckpt_epoch t then ltckpt_primary_to_shadow x else x)"
    if "A x" for x
    using fun_cong [OF t(2), of x] that by (simp add: bm_saved_def bm_visible_def marked_def)
  with t(1) show ?thesis by blast
qed

definition demo_app :: "va \<Rightarrow> bool" where
  "demo_app a \<longleftrightarrow> a < 0x1000000000"

definition demo_bm_conf :: bm_conf where
  "demo_bm_conf = \<lparr>BITMAP_TYPE = BITMAP_PLAIN_EPOCH, LTCKPT_SCHEME = LTCKPT_SYNC_SCHEME, LTCKPT_CFG_STATS_ENABLED = True\<rparr>"

definition demo_bm_os :: "unit bm_os" where
  "demo_bm_os = \<lparr>bm_mmap = (\<lambda>addr sz prot flags (m, w). (addr, (\<lambda>x. if x \<in> block addr (unat sz) then 0 else m x), w)),
     bm_munmap = (\<lambda>addr sz (m, w). (0, m, w)), bm_madvise = (\<lambda>addr sz (m, w). (0, m, w))\<rparr>"

definition demo_bm :: "unit bm_state" where
  "demo_bm = \<lparr>pmem = (\<lambda>_. 0),
     ctx = \<lparr>lazy_init = 1, skip_mmap = 1, initialized = 0, atexit_dump = 0, exited = 0, allow_prctl = 0,
       checkpoint_interval = 1, pgfault_nesting_level = 0, page_statistic_enabled = 0, approach = ''bitmap'',
       errors = 0, num_cows = 0, num_tols = 0, num_checkpoints = 0, max_log_size = 0, num_aop_funcs = 0,
       num_aop_tols = 0\<rparr>,
     windows = (\<lambda>_. undefined), current_window = 0, rcvry_current_site_id = 0, rcvry_libcall_gates = (\<lambda>_. 0),
     rcvry_infos = (\<lambda>_. undefined), rcvry_current_tx_type = 0,
     ltckpt_epoch = 255, first_time = True, stats = [], stat_iteration = 0, bw = ()\<rparr>"

lemma demo_app_ok: "app_ok demo_app"
proof -
  have d: "demo_app a \<longleftrightarrow> unat a < 68719476736" for a by (simp add: demo_app_def word_less_nat_alt)
  have "demo_app b" if "demo_app a" "align_down 7 b = align_down 7 a" for a b
  proof -
    have "unat b div 128 = unat a div 128" using that(2) by (simp only: region_eq_iff)
    moreover have "unat a div 128 < 536870912" using that(1) by (simp add: d div_less_iff_less_mult)
    ultimately have "unat b div 128 < 536870912" by (simp only:)
    then show ?thesis by (simp add: d div_less_iff_less_mult)
  qed
  moreover have "a = b" if "demo_app a" "demo_app b" "ltckpt_primary_to_shadow a = ltckpt_primary_to_shadow b" for a b
    using that by (simp add: d word_unat_eq_iff unat_shadow)
  moreover have "a \<notin> mark_space \<and> a \<notin> shadow_space" if "demo_app a" for a
    using that unfolding d mark_space_iff shadow_space_iff by simp
  ultimately show ?thesis unfolding app_ok_def by blast
qed

theorem bitmap_preserves_checkpoint_witness:
  "\<exists>s1 t. bm_top_of_the_loop demo_bm_conf demo_bm_os demo_bm = Some s1
     \<and> run_ops (bm_step demo_bm_conf) [Bm_store 0x104 [1, 2, 3, 4], Bm_memcpy 0x17E [5, 6, 7, 8]] s1 = Some t
     \<and> 0 = pmem t (if pmem t (LTCKPT_ADDR_TO_BITMAP 0x17F) = ltckpt_epoch t then ltckpt_primary_to_shadow 0x17F else 0x17F)"
proof -
  have "maps_fresh demo_bm_os" by (auto simp: maps_fresh_def demo_bm_os_def)
  then have i: "bm_inv demo_app demo_bm_conf demo_bm_os demo_bm"
    using demo_app_ok by (simp add: bm_inv_def demo_bm_conf_def demo_bm_def)
  have g: "fst (ctx_new_tol_or_return (ctx demo_bm))" by (simp add: demo_bm_def ctx_new_tol_or_return_def)
  obtain s1 where s1: "bm_top_of_the_loop demo_bm_conf demo_bm_os demo_bm = Some s1"
    by (simp add: bm_top_of_the_loop_def demo_bm_def demo_bm_conf_def demo_bm_os_def ctx_new_tol_or_return_def
        ltckpt_stat_dump_def ltckpt_allocate_bitmap_def ltckpt_allocate_shadow_space_def map_space_def
        ltckpt_mmap_def bm_new_marks_def Let_def)
  have ok: "list_all (bm_op_ok demo_app) [Bm_store 0x104 [1, 2, 3, 4], Bm_memcpy 0x17E [5, 6, 7, 8]]"
    by (simp add: demo_app_def upt_rec align_down_def mask_eq_exp_minus_1)
  have "demo_app 0x17F" "pmem demo_bm 0x17F = 0" by (simp_all add: demo_app_def demo_bm_def)
  then show ?thesis using bitmap_preserves_checkpoint [OF i g s1 ok] s1 by metis
qed

text \<open>
  in the other scheme with one bit per click, the memcpy hook saves a click only
  when its bit was set before: a copy into a click not yet touched since the
  checkpoint marks it and saves nothing, so its old contents are lost, while the store
  hook saves it.
\<close>

theorem bitmap_diff_memcpy_unsaved:
  assumes "BITMAP_TYPE c = BITMAP_PLAIN" "LTCKPT_SCHEME c = LTCKPT_DIFF_SCHEME" "\<not> fst (plain_set_bit reg s)"
  shows "pmem (bm_memcpy_body c reg s) = pmem (snd (plain_set_bit reg s))
     \<and> pmem (bm_store_hook c reg s) = mem_write (pmem (snd (plain_set_bit reg s)))
           (ltckpt_primary_to_shadow (align_down 3 reg)) (mem_read (pmem (snd (plain_set_bit reg s))) (align_down 3 reg) 8)"
proof -
  let ?s = "ltckpt_stat_add c reg s"
  have m: "pmem ?s = pmem s" by (simp add: ltckpt_stat_add_def split: option.split)
  have f: "fst (plain_set_bit reg ?s) = fst (plain_set_bit reg s)"
    "pmem (snd (plain_set_bit reg ?s)) = pmem (snd (plain_set_bit reg s))"
    by (simp_all add: plain_set_bit_def m Let_def)
  have "pmem (bm_memcpy_body c reg s) = pmem (snd (plain_set_bit reg s))"
    using assms f by (simp add: bm_memcpy_body_def ltckpt_set_bit_def case_prod_beta Let_def)
  moreover have "pmem (bm_store_hook c reg s) = mem_write (pmem (snd (plain_set_bit reg s)))
      (ltckpt_primary_to_shadow (align_down 3 reg)) (mem_read (pmem (snd (plain_set_bit reg s))) (align_down 3 reg) 8)"
    using assms f by (simp add: bm_store_hook_def ltckpt_set_bit_def ltckpt_save_region_for_address_def
        ltckpt_save_region_def ltckpt_addr_to_region_def case_prod_beta Let_def)
  ultimately show ?thesis ..
qed

definition demo_diff_conf :: bm_conf where
  "demo_diff_conf = \<lparr>BITMAP_TYPE = BITMAP_PLAIN, LTCKPT_SCHEME = LTCKPT_DIFF_SCHEME, LTCKPT_CFG_STATS_ENABLED = False\<rparr>"

theorem bitmap_diff_memcpy_unsaved_witness:
  "pmem (bm_memcpy_body demo_diff_conf 0x108 demo_bm) = pmem (snd (plain_set_bit 0x108 demo_bm))"
proof -
  have "\<not> fst (plain_set_bit 0x108 demo_bm)" by (simp add: plain_set_bit_def demo_bm_def Let_def)
  then show ?thesis using bitmap_diff_memcpy_unsaved [of demo_diff_conf "0x108" demo_bm] by (simp add: demo_diff_conf_def)
qed

end
