(* ===== verification/Proc_Maps.thy ===== *)
theory Proc_Maps
  imports Ckpt_Ctx
begin

text \<open>
  The memory map of a process (\<open>include/common/util/proc_maps.h\<close>) and the choice of
  the areas that are checkpointed (\<open>ltcpt_is_checkpointed_vma\<close> in
  \<open>static/ltckpt/ltckpt_common.c\<close>).

  \<open>/proc/<pid>/maps\<close> comes as the list of its lines, each already split into the fields
  \<open>sscanf\<close> assigns, or None when it assigns fewer than ten.  \<open>mincore\<close> is a parameter.
\<close>

section \<open>Entries\<close>

record util_proc_maps_entry =
  vm_start :: u64
  vm_end :: u64
  pm_r :: char
  pm_w :: char
  pm_x :: char
  pm_s :: char
  pgoff :: u64
  pm_major :: int
  pm_minor :: int
  ino :: u64
  pm_name :: string

definition ENTRY_CONTAINS_ADDR :: "util_proc_maps_entry \<Rightarrow> u64 \<Rightarrow> bool" where
  "ENTRY_CONTAINS_ADDR e a \<longleftrightarrow> a \<ge> vm_start e \<and> a < vm_end e"

definition ENTRY_OVERLAPS :: "util_proc_maps_entry \<Rightarrow> util_proc_maps_entry \<Rightarrow> bool" where
  "ENTRY_OVERLAPS e e2 \<longleftrightarrow>
     ENTRY_CONTAINS_ADDR e (vm_start e2) \<or> ENTRY_CONTAINS_ADDR e (vm_end e2 - 1)
     \<or> ENTRY_CONTAINS_ADDR e2 (vm_start e) \<or> ENTRY_CONTAINS_ADDR e2 (vm_end e - 1)"

definition ENTRY_RANGE_EQUALS :: "util_proc_maps_entry \<Rightarrow> util_proc_maps_entry \<Rightarrow> bool" where
  "ENTRY_RANGE_EQUALS e e2 \<longleftrightarrow> vm_start e = vm_start e2 \<and> vm_end e = vm_end e2"

definition ENTRY_PROT_EQUALS :: "util_proc_maps_entry \<Rightarrow> util_proc_maps_entry \<Rightarrow> bool" where
  "ENTRY_PROT_EQUALS e e2 \<longleftrightarrow> pm_r e = pm_r e2 \<and> pm_w e = pm_w e2 \<and> pm_x e = pm_x e2"

definition ENTRY_SHARED_EQUALS :: "util_proc_maps_entry \<Rightarrow> util_proc_maps_entry \<Rightarrow> bool" where
  "ENTRY_SHARED_EQUALS e e2 \<longleftrightarrow> pm_s e = pm_s e2"

definition ENTRY_NAME_EQUALS :: "util_proc_maps_entry \<Rightarrow> util_proc_maps_entry \<Rightarrow> bool" where
  "ENTRY_NAME_EQUALS e e2 \<longleftrightarrow> pm_name e = pm_name e2"

definition ENTRY_NAME_STARTS :: "util_proc_maps_entry \<Rightarrow> string \<Rightarrow> bool" where
  "ENTRY_NAME_STARTS e n \<longleftrightarrow> take (length n) (pm_name e) = n"

fun str_contains :: "string \<Rightarrow> string \<Rightarrow> bool" where
  "str_contains [] n \<longleftrightarrow> n = []"
| "str_contains (c # cs) n \<longleftrightarrow> take (length n) (c # cs) = n \<or> str_contains cs n"

definition ENTRY_NAME_CONTAINS :: "util_proc_maps_entry \<Rightarrow> string \<Rightarrow> bool" where
  "ENTRY_NAME_CONTAINS e n \<longleftrightarrow> str_contains (pm_name e) n"

section \<open>Reading the map\<close>

datatype util_proc_maps_parse_ret =
    UTIL_PROC_MAPS_RET_SAVE
  | UTIL_PROC_MAPS_RET_SAVE_AND_STOP
  | UTIL_PROC_MAPS_RET_CONTINUE
  | UTIL_PROC_MAPS_RET_STOP
  | UTIL_PROC_MAPS_RET_ERR

abbreviation (input) "EINVAL \<equiv> 22 :: int"

text \<open>The loop over the lines: what it returns and the entries it stored.\<close>

fun parse_lines ::
    "(util_proc_maps_entry \<Rightarrow> util_proc_maps_parse_ret) option \<Rightarrow> util_proc_maps_entry option list
     \<Rightarrow> util_proc_maps_entry list \<Rightarrow> int \<times> util_proc_maps_entry list" where
  "parse_lines cb [] entries = (0, entries)"
| "parse_lines cb (None # ls) entries = (- EINVAL, entries)"
| "parse_lines cb (Some e # ls) entries =
     (case (case cb of None \<Rightarrow> UTIL_PROC_MAPS_RET_SAVE | Some f \<Rightarrow> f e) of
        UTIL_PROC_MAPS_RET_SAVE \<Rightarrow> parse_lines cb ls (entries @ [e])
      | UTIL_PROC_MAPS_RET_SAVE_AND_STOP \<Rightarrow> (0, entries @ [e])
      | UTIL_PROC_MAPS_RET_CONTINUE \<Rightarrow> parse_lines cb ls entries
      | UTIL_PROC_MAPS_RET_STOP \<Rightarrow> (0, entries)
      | UTIL_PROC_MAPS_RET_ERR \<Rightarrow> (- ENOENT, entries))"

definition util_proc_maps_remove_unmapped ::
    "(u64 \<Rightarrow> bool) \<Rightarrow> util_proc_maps_entry list \<Rightarrow> util_proc_maps_entry list" where
  "util_proc_maps_remove_unmapped mapped entries = filter (\<lambda>e. mapped (vm_start e)) entries"

text \<open>The file is None when it cannot be opened.\<close>

definition util_proc_maps_parse_filter ::
    "(u64 \<Rightarrow> bool) \<Rightarrow> util_proc_maps_entry option list option
     \<Rightarrow> (util_proc_maps_entry \<Rightarrow> util_proc_maps_parse_ret) option \<Rightarrow> int \<times> util_proc_maps_entry list" where
  "util_proc_maps_parse_filter mapped file cb =
     (case file of
        None \<Rightarrow> (- ENOENT, [])
      | Some ls \<Rightarrow>
          (let (ret, entries) = parse_lines cb ls []
           in if ret \<noteq> 0 then (ret, []) else (ret, util_proc_maps_remove_unmapped mapped entries)))"

primrec util_proc_maps_lookup_by_name :: "util_proc_maps_entry list \<Rightarrow> string \<Rightarrow> util_proc_maps_entry option" where
  "util_proc_maps_lookup_by_name [] n = None"
| "util_proc_maps_lookup_by_name (e # es) n = (if pm_name e = n then Some e else util_proc_maps_lookup_by_name es n)"

primrec util_proc_maps_lookup_by_addr :: "util_proc_maps_entry list \<Rightarrow> u64 \<Rightarrow> util_proc_maps_entry option" where
  "util_proc_maps_lookup_by_addr [] a = None"
| "util_proc_maps_lookup_by_addr (e # es) a =
     (if ENTRY_CONTAINS_ADDR e a then Some e else util_proc_maps_lookup_by_addr es a)"

section \<open>Which areas are checkpointed\<close>

text \<open>Addresses of the process the macros compare with.\<close>

record proc_addrs =
  tls_addr :: u64
  heap_addr :: u64
  prog_data_addr :: u64

definition ltcpt_is_checkpointed_vma :: "proc_addrs \<Rightarrow> ltckpt_ctx \<Rightarrow> util_proc_maps_entry \<Rightarrow> bool" where
  "ltcpt_is_checkpointed_vma pa c e =
     (if ENTRY_NAME_STARTS e ''[stack'' \<or> ENTRY_CONTAINS_ADDR e (tls_addr pa) \<or> pm_w e \<noteq> CHR ''w'' then False
      else if ENTRY_NAME_CONTAINS e ''libltckpt'' then False
      else if skip_mmap c \<noteq> 0 \<and> \<not> ENTRY_CONTAINS_ADDR e (heap_addr pa) \<and> \<not> ENTRY_CONTAINS_ADDR e (prog_data_addr pa)
           then False
      else True)"

section \<open>Lemmas\<close>

lemma parse_lines_ok:
  assumes "\<forall>l \<in> set ls. l \<noteq> None"
    "\<forall>e. cb e \<in> {UTIL_PROC_MAPS_RET_SAVE, UTIL_PROC_MAPS_RET_CONTINUE}"
  shows "parse_lines (Some cb) ls entries = (0, entries @ filter (\<lambda>e. cb e = UTIL_PROC_MAPS_RET_SAVE) (map the ls))"
  using assms(1)
proof (induction ls arbitrary: entries)
  case (Cons l ls)
  then obtain e where "l = Some e" by auto
  moreover have "cb e = UTIL_PROC_MAPS_RET_SAVE \<or> cb e = UTIL_PROC_MAPS_RET_CONTINUE" using assms(2) by simp
  ultimately show ?case using Cons by auto
qed simp

lemma parse_filter_entries:
  assumes "util_proc_maps_parse_filter mapped maps_file cb = (ret, es)" "e \<in> set es"
  shows "\<exists>ls. maps_file = Some ls \<and> Some e \<in> set ls"
proof -
  obtain ls where ls: "maps_file = Some ls"
    using assms by (auto simp: util_proc_maps_parse_filter_def split: option.splits)
  have "set (snd (parse_lines cb ls a)) \<subseteq> set a \<union> {e. Some e \<in> set ls}" for cb a
    by (induction cb ls a rule: parse_lines.induct) (auto split: util_proc_maps_parse_ret.splits option.splits)
  from this [of _ "[]"] show ?thesis
    using assms ls by (force simp: util_proc_maps_parse_filter_def util_proc_maps_remove_unmapped_def
        case_prod_beta Let_def split: if_splits)
qed

end
