(* ===== verification/Pagemap.thy ===== *)
theory Pagemap
  imports Proc_Maps
begin

text \<open>
  The page map of a process (\<open>include/common/util/pagemap.h\<close>): opening it, reading and
  clearing the kernel's marks, and the walks over an area and over a memory map.  The
  lemmas show that a walk calls its callback on exactly the dirty pages, in order.

  The system calls are parameters, functions of a world.  None is a run that does not
  return: a failed assertion, or a loop that repeats its call for ever.
\<close>

section \<open>pagemap.h\<close>

abbreviation (input) "PME_SOFT_DIRTY \<equiv> 0x80000000000000 :: u64"
abbreviation (input) "UTIL_PAGEMMAP_DEFAULT_BUFF_SIZE \<equiv> 40960 :: u64"
abbreviation (input) "CR_SOFTDIRTY \<equiv> ''4''"
abbreviation (input) "EINTR \<equiv> 4 :: int"

record util_pagemap =
  pm_map :: va
  pm_buff_len :: u64
  pm_fd :: int
  pm_cr_fd :: int
  pm_pid :: int

datatype proc_file = PROC_PAGEMAP | PROC_CLEAR_REFS

text \<open>
  \<open>pm_open\<close> opens the file of the process, the page map for reading and \<open>clear_refs\<close> for
  writing.  \<open>pm_pread\<close> (descriptor, size, offset) returns the result, \<open>errno\<close> and the
  entries now in the buffer; \<open>pm_pwrite\<close> (descriptor, text, size) the result and \<open>errno\<close>.
\<close>

record 'w pm_os =
  pm_open :: "int \<Rightarrow> proc_file \<Rightarrow> 'w \<Rightarrow> int \<times> 'w"
  pm_close :: "int \<Rightarrow> 'w \<Rightarrow> 'w"
  pm_mmap :: "'w mmap_call"
  pm_munmap :: "'w munmap_call"
  pm_pread :: "int \<Rightarrow> u64 \<Rightarrow> u64 \<Rightarrow> 'w \<Rightarrow> (int \<times> int \<times> u64 list) \<times> 'w"
  pm_pwrite :: "int \<Rightarrow> string \<Rightarrow> u64 \<Rightarrow> 'w \<Rightarrow> (int \<times> int) \<times> 'w"

definition util_pagemap_init ::
    "'w pm_os \<Rightarrow> int \<Rightarrow> util_pagemap \<Rightarrow> va \<Rightarrow> u64 \<Rightarrow> 'w \<Rightarrow> (int \<times> util_pagemap \<times> 'w) option" where
  "util_pagemap_init os pid pm map_buff map_buff_len w =
     (let (fd, w) = pm_open os pid PROC_PAGEMAP w; pm = pm\<lparr>pm_fd := fd\<rparr>
      in if fd < 0 then Some (fd, pm, w)
      else let (cr, w) = pm_open os pid PROC_CLEAR_REFS w; pm = pm\<lparr>pm_cr_fd := cr\<rparr>
      in if cr < 0 then Some (cr, pm, pm_close os fd w)
      else let pm = pm\<lparr>pm_pid := pid\<rparr>
      in if map_buff = 0
         then let (a, w) = pm_mmap os 0 UTIL_PAGEMMAP_DEFAULT_BUFF_SIZE (PROT_READ OR PROT_WRITE)
                             (MAP_PRIVATE OR MAP_ANONYMOUS) w
              in if a = MAP_FAILED then None
                 else Some (0, pm\<lparr>pm_map := a, pm_buff_len := UTIL_PAGEMMAP_DEFAULT_BUFF_SIZE\<rparr>, w)
         else if map_buff_len = 0 then None
         else Some (0, pm\<lparr>pm_map := map_buff, pm_buff_len := map_buff_len\<rparr>, w))"

definition util_pagemap_close :: "'w pm_os \<Rightarrow> util_pagemap \<Rightarrow> 'w \<Rightarrow> util_pagemap \<times> 'w" where
  "util_pagemap_close os pm w =
     (let w = snd (pm_munmap os (pm_map pm) (pm_buff_len pm) w);
          w = pm_close os (pm_fd pm) w;
          w = pm_close os (pm_cr_fd pm) w
      in (\<lparr>pm_map = 0, pm_buff_len = 0, pm_fd = 0, pm_cr_fd = 0, pm_pid = 0\<rparr>, w))"

text \<open>The condition under which the loops repeat their call.\<close>

definition again :: "u64 \<Rightarrow> int \<Rightarrow> int \<Rightarrow> bool" where
  "again sz ret errno \<longleftrightarrow> ret \<ge> 0 \<and> ret \<noteq> uint sz \<or> ret < 0 \<and> errno = EINTR"

partial_function (option) pread_loop ::
    "'w pm_os \<Rightarrow> int \<Rightarrow> u64 \<Rightarrow> u64 \<Rightarrow> 'w \<Rightarrow> ((int \<times> u64 list) \<times> 'w) option" where
  "pread_loop os fd sz off w =
     (case pm_pread os fd sz off w of ((ret, errno, es), w) \<Rightarrow>
        if again sz ret errno then pread_loop os fd sz off w else Some ((ret, es), w))"

definition util_pagemap_get ::
    "'w pm_os \<Rightarrow> util_pagemap \<Rightarrow> va \<Rightarrow> u64 \<Rightarrow> 'w \<Rightarrow> ((int \<times> u64 list) \<times> 'w) option" where
  "util_pagemap_get os pm addr len w =
     (let sz = len div PAGE_SIZE * 8; off = addr div PAGE_SIZE * 8
      in if \<not> sz \<le> pm_buff_len pm then None else pread_loop os (pm_fd pm) sz off w)"

partial_function (option) pwrite_loop ::
    "'w pm_os \<Rightarrow> int \<Rightarrow> string \<Rightarrow> u64 \<Rightarrow> 'w \<Rightarrow> (int \<times> 'w) option" where
  "pwrite_loop os fd v sz w =
     (case pm_pwrite os fd v sz w of ((ret, errno), w) \<Rightarrow>
        if again sz ret errno then pwrite_loop os fd v sz w else Some (ret, w))"

definition util_pagemap_clear_refs :: "'w pm_os \<Rightarrow> util_pagemap \<Rightarrow> string \<Rightarrow> 'w \<Rightarrow> (int \<times> 'w) option" where
  "util_pagemap_clear_refs os pm v w = pwrite_loop os (pm_cr_fd pm) v 2 w"

type_synonym 's walk_cb = "u64 \<Rightarrow> va \<Rightarrow> 's \<Rightarrow> (int \<times> 's) option"

text \<open>The loop over the entries of one read; the Boolean is True when a callback stopped the walk.\<close>

fun walk_entries :: "u64 \<Rightarrow> 's walk_cb \<Rightarrow> u64 list \<Rightarrow> va \<Rightarrow> int \<Rightarrow> 's \<Rightarrow> (bool \<times> int \<times> 's) option" where
  "walk_entries flags cb [] addr ret s = Some (False, ret, s)"
| "walk_entries flags cb (entry # es) addr ret s =
     (if flags = 0 \<or> entry AND flags \<noteq> 0
      then (case cb entry addr s of
              None \<Rightarrow> None
            | Some (ret, s) \<Rightarrow>
                if ret < 0 then Some (True, ret, s) else walk_entries flags cb es (addr + PAGE_SIZE) ret s)
      else walk_entries flags cb es (addr + PAGE_SIZE) ret s)"

text \<open>The loop over the reads, each of at most ten pages.\<close>

function walk_chunks ::
    "'w pm_os \<Rightarrow> util_pagemap \<Rightarrow> u64 \<Rightarrow> 's walk_cb \<Rightarrow> va \<Rightarrow> u64 \<Rightarrow> int \<Rightarrow> 's \<Rightarrow> 'w \<Rightarrow> (int \<times> 's \<times> 'w) option" where
  "walk_chunks os pm flags cb addr len ret s w =
     (if len = 0 then Some (ret, s, w)
      else let sz = min UTIL_PAGEMMAP_DEFAULT_BUFF_SIZE len
           in case util_pagemap_get os pm addr sz w of
                None \<Rightarrow> None
              | Some ((ret, es), w) \<Rightarrow>
                  if ret < 0 then Some (ret, s, w)
                  else let n = sz div PAGE_SIZE
                       in case walk_entries flags cb (take (unat n) es) addr ret s of
                            None \<Rightarrow> None
                          | Some (stop, ret, s) \<Rightarrow>
                              if stop then Some (ret, s, w)
                              else walk_chunks os pm flags cb (addr + n * PAGE_SIZE) (len - sz) ret s w)"
  by pat_completeness auto
termination
  by (relation "measure (\<lambda>(os, pm, flags, cb, addr, len, ret, s, w). unat len)")
    (auto simp: min_def unat_sub word_le_nat_alt unat_gt_0 not_le word_less_nat_alt)

declare walk_chunks.simps [simp del]

definition util_pagemap_walk ::
    "'w pm_os \<Rightarrow> util_pagemap \<Rightarrow> va \<Rightarrow> u64 \<Rightarrow> u64 \<Rightarrow> 's walk_cb \<Rightarrow> 's \<Rightarrow> 'w \<Rightarrow> (int \<times> 's \<times> 'w) option" where
  "util_pagemap_walk os pm addr len flags cb s w =
     (if len mod PAGE_SIZE \<noteq> 0 then None else walk_chunks os pm flags cb addr len 0 s w)"

fun util_pagemap_proc_walk ::
    "'w pm_os \<Rightarrow> util_pagemap \<Rightarrow> util_proc_maps_entry list \<Rightarrow> u64 \<Rightarrow> 's walk_cb \<Rightarrow> 's \<Rightarrow> 'w
     \<Rightarrow> (int \<times> 's \<times> 'w) option" where
  "util_pagemap_proc_walk os pm [] flags cb s w = Some (0, s, w)"
| "util_pagemap_proc_walk os pm (e # es) flags cb s w =
     (case util_pagemap_walk os pm (vm_start e) (vm_end e - vm_start e) flags cb s w of
        None \<Rightarrow> None
      | Some (ret, s, w) \<Rightarrow>
          if ret < 0 then Some (ret, s, w) else util_pagemap_proc_walk os pm es flags cb s w)"

section \<open>The walk visits the dirty pages\<close>

text \<open>
  What the mechanism relies on of the kernel: \<open>dirty\<close> is its marks, by page address, and
  \<open>busy\<close> bounds how often a call is still interrupted or partial.  A completed read
  delivers the marks of the pages in bit 55, a completed write clears them all.
\<close>

definition soft_dirty_kernel :: "'w pm_os \<Rightarrow> ('w \<Rightarrow> va \<Rightarrow> bool) \<Rightarrow> ('w \<Rightarrow> nat) \<Rightarrow> util_pagemap \<Rightarrow> bool" where
  "soft_dirty_kernel os dirty busy pm \<longleftrightarrow>
     (\<forall>w sz off ret errno es w'. pm_pread os (pm_fd pm) sz off w = ((ret, errno, es), w') \<longrightarrow>
        dirty w' = dirty w \<and>
        (if again sz ret errno then busy w' < busy w
         else ret = uint sz \<and> length es = unat (sz div 8) \<and>
              (\<forall>i < length es. es ! i AND PME_SOFT_DIRTY \<noteq> 0 \<longleftrightarrow>
                               dirty w ((off div 8 + of_nat i) * PAGE_SIZE)))) \<and>
     (\<forall>w ret errno w'. pm_pwrite os (pm_cr_fd pm) CR_SOFTDIRTY 2 w = ((ret, errno), w') \<longrightarrow>
        (if again 2 ret errno then busy w' < busy w else ret = 2 \<and> dirty w' = (\<lambda>_. False)))"

primrec foldm :: "(va \<Rightarrow> 's \<Rightarrow> 's option) \<Rightarrow> va list \<Rightarrow> 's \<Rightarrow> 's option" where
  "foldm f [] s = Some s"
| "foldm f (a # as) s = (case f a s of None \<Rightarrow> None | Some s \<Rightarrow> foldm f as s)"

lemma foldm_append: "foldm f (xs @ ys) s = (case foldm f xs s of None \<Rightarrow> None | Some s \<Rightarrow> foldm f ys s)"
  by (induction xs arbitrary: s) (auto split: option.splits)

primrec area_pages :: "va \<Rightarrow> nat \<Rightarrow> va list" where
  "area_pages a 0 = []"
| "area_pages a (Suc n) = a # area_pages (a + PAGE_SIZE) n"

lemma area_pages_add: "area_pages a (m + n) = area_pages a m @ area_pages (a + of_nat m * PAGE_SIZE) n"
  by (induction m arbitrary: a) (auto simp: algebra_simps)

lemma pread_loop_returns:
  assumes "soft_dirty_kernel os dirty busy pm"
  shows "\<exists>es w'. pread_loop os (pm_fd pm) sz off w = Some ((uint sz, es), w') \<and> dirty w' = dirty w \<and>
           length es = unat (sz div 8) \<and>
           (\<forall>i < length es. es ! i AND PME_SOFT_DIRTY \<noteq> 0 \<longleftrightarrow> dirty w ((off div 8 + of_nat i) * PAGE_SIZE))"
proof (induction "busy w" arbitrary: w rule: less_induct)
  case less
  obtain ret errno es w' where r: "pm_pread os (pm_fd pm) sz off w = ((ret, errno, es), w')"
    by (metis prod.exhaust)
  note k = assms [unfolded soft_dirty_kernel_def, THEN conjunct1, rule_format, OF r]
  show ?case
  proof (cases "again sz ret errno")
    case True
    then have b: "busy w' < busy w" and d: "dirty w' = dirty w" using k by auto
    show ?thesis using less [OF b] True r d by (subst pread_loop.simps) auto
  next
    case False
    then show ?thesis using k r by (subst pread_loop.simps) auto
  qed
qed

lemma pwrite_loop_returns:
  assumes "soft_dirty_kernel os dirty busy pm"
  shows "\<exists>w'. util_pagemap_clear_refs os pm CR_SOFTDIRTY w = Some (2, w') \<and> dirty w' = (\<lambda>_. False)"
  unfolding util_pagemap_clear_refs_def
proof (induction "busy w" arbitrary: w rule: less_induct)
  case less
  obtain ret errno w' where r: "pm_pwrite os (pm_cr_fd pm) CR_SOFTDIRTY 2 w = ((ret, errno), w')"
    by (metis prod.exhaust)
  note k = assms [unfolded soft_dirty_kernel_def, THEN conjunct2, rule_format, OF r]
  show ?case
  proof (cases "again 2 ret errno")
    case True
    then have b: "busy w' < busy w" using k by auto
    show ?thesis using less [OF b] True r by (subst pwrite_loop.simps) auto
  next
    case False
    then show ?thesis using k r by (subst pwrite_loop.simps) auto
  qed
qed

text \<open>A callback that ignores the entry and never asks to stop.\<close>

definition plain_cb :: "'s walk_cb \<Rightarrow> (va \<Rightarrow> 's \<Rightarrow> 's option) \<Rightarrow> bool" where
  "plain_cb cb f \<longleftrightarrow> (\<forall>e a s. cb e a s = map_option (Pair 0) (f a s))"

lemma walk_entries_dirty:
  assumes "plain_cb cb f" "flags \<noteq> 0" "ret \<ge> 0"
    "\<forall>i < length es. es ! i AND flags \<noteq> 0 \<longleftrightarrow> d (addr + of_nat i * PAGE_SIZE)"
  shows "case foldm f (filter d (area_pages addr (length es))) s of
           None \<Rightarrow> walk_entries flags cb es addr ret s = None
         | Some s' \<Rightarrow> \<exists>r \<ge> 0. walk_entries flags cb es addr ret s = Some (False, r, s')"
  using assms(3,4)
proof (induction es arbitrary: addr ret s)
  case (Cons e es)
  have h: "e AND flags \<noteq> 0 \<longleftrightarrow> d addr" using Cons.prems(2) by force
  have t: "\<forall>i < length es. es ! i AND flags \<noteq> 0 \<longleftrightarrow> d (addr + PAGE_SIZE + of_nat i * PAGE_SIZE)"
    using Cons.prems(2) by (auto simp: algebra_simps dest: spec [of _ "Suc _"])
  have c: "cb e addr s = map_option (Pair 0) (f addr s)" using assms(1) by (simp add: plain_cb_def)
  show ?case
  proof (cases "d addr")
    case True
    then show ?thesis
    proof (cases "f addr s")
      case (Some s')
      then have "walk_entries flags cb (e # es) addr ret s = walk_entries flags cb es (addr + PAGE_SIZE) 0 s'"
        using True c h by simp
      then show ?thesis using True Some Cons.IH [OF order_refl t, of s']
        by (simp del: walk_entries.simps split: option.splits)
    qed (use True c h assms(2) in simp)
  next
    case False
    then show ?thesis using h assms(2) Cons.IH [OF Cons.prems(1) t, of s] by (simp split: option.splits)
  qed
qed auto

lemma page_aligned_add:
  fixes a :: va
  assumes "a mod PAGE_SIZE = 0"
  shows "(a + n * PAGE_SIZE) mod PAGE_SIZE = 0"
proof -
  have "unat a mod 4096 = 0" using assms by (simp add: word_unat_eq_iff unat_mod)
  then have "(unat a + unat n * 4096) mod 2 ^ 64 mod 4096 = 0" by (simp add: mod_mod_cancel)
  then show ?thesis by (simp add: word_unat_eq_iff unat_mod unat_word_ariths mod_simps)
qed

lemma mod_diff_nat_0: "(m::nat) mod k = 0 \<Longrightarrow> n mod k = 0 \<Longrightarrow> (m - n) mod k = 0"
  by (simp add: mod_0_imp_dvd)

lemma page_entry_addr:
  fixes addr :: va
  assumes "addr mod PAGE_SIZE = 0"
  shows "(addr div PAGE_SIZE * 8 div 8 + i) * PAGE_SIZE = addr + i * PAGE_SIZE"
proof -
  have "unat addr < 2 ^ 64" using unsigned_less [of addr, where ?'a = nat] by simp
  then have "unat addr div 4096 * 8 < 2 ^ 64" by simp
  then have "addr div PAGE_SIZE * 8 div 8 = addr div PAGE_SIZE"
    by (simp add: word_unat_eq_iff unat_div unat_mult_lem [THEN iffD1] unat_word_ariths)
  moreover have "addr div PAGE_SIZE * PAGE_SIZE = addr"
    using assms word_mod_div_equality [of addr PAGE_SIZE] by simp
  ultimately show ?thesis by (simp add: distrib_right)
qed

lemma util_pagemap_get_returns:
  assumes "soft_dirty_kernel os dirty busy pm" "pm_buff_len pm = UTIL_PAGEMMAP_DEFAULT_BUFF_SIZE"
    "addr mod PAGE_SIZE = 0" "sz \<le> UTIL_PAGEMMAP_DEFAULT_BUFF_SIZE"
  shows "\<exists>ret es w'. util_pagemap_get os pm addr sz w = Some ((ret, es), w') \<and> ret \<ge> 0 \<and> dirty w' = dirty w \<and>
           length es = unat (sz div PAGE_SIZE) \<and>
           (\<forall>i < length es. es ! i AND PME_SOFT_DIRTY \<noteq> 0 \<longleftrightarrow> dirty w (addr + of_nat i * PAGE_SIZE))"
proof -
  have u: "unat sz \<le> 40960" using assms(4) by (simp add: word_le_nat_alt)
  then have n: "unat (sz div PAGE_SIZE * 8) = unat sz div 4096 * 8"
    by (simp add: unat_word_ariths unat_div)
  have b: "sz div PAGE_SIZE * 8 \<le> pm_buff_len pm"
    unfolding word_le_nat_alt n using u assms(2) by simp
  have l: "unat (sz div PAGE_SIZE * 8 div 8) = unat (sz div PAGE_SIZE)"
    unfolding unat_div n by (simp add: unat_div)
  obtain es w' where g: "pread_loop os (pm_fd pm) (sz div PAGE_SIZE * 8) (addr div PAGE_SIZE * 8) w
      = Some ((uint (sz div PAGE_SIZE * 8), es), w')" "dirty w' = dirty w"
    "length es = unat (sz div PAGE_SIZE * 8 div 8)"
    "\<forall>i < length es. es ! i AND PME_SOFT_DIRTY \<noteq> 0 \<longleftrightarrow>
       dirty w ((addr div PAGE_SIZE * 8 div 8 + of_nat i) * PAGE_SIZE)"
    using pread_loop_returns [OF assms(1)] by blast
  show ?thesis
    unfolding util_pagemap_get_def Let_def
    using b g(1,2) g(3) [unfolded l] g(4) [unfolded page_entry_addr [OF assms(3)]] by simp
qed

lemma walk_chunks_dirty:
  assumes k: "soft_dirty_kernel os dirty busy pm" "pm_buff_len pm = UTIL_PAGEMMAP_DEFAULT_BUFF_SIZE"
    and cb: "plain_cb cb f"
    and "addr mod PAGE_SIZE = 0" "len mod PAGE_SIZE = 0" "ret \<ge> 0"
  shows "case foldm f (filter (dirty w) (area_pages addr (unat (len div PAGE_SIZE)))) s of
           None \<Rightarrow> walk_chunks os pm PME_SOFT_DIRTY cb addr len ret s w = None
         | Some s' \<Rightarrow> \<exists>r w'. r \<ge> 0 \<and> walk_chunks os pm PME_SOFT_DIRTY cb addr len ret s w = Some (r, s', w') \<and>
                              dirty w' = dirty w"
  using assms(4-6)
proof (induction "unat len" arbitrary: addr len ret s w rule: less_induct)
  case less
  show ?case
  proof (cases "len = 0")
    case True
    then show ?thesis using less.prems by (simp add: walk_chunks.simps)
  next
    case False
    define sz where "sz = min UTIL_PAGEMMAP_DEFAULT_BUFF_SIZE len"
    let ?n = "sz div PAGE_SIZE"
    have le: "sz \<le> len" "sz \<le> UTIL_PAGEMMAP_DEFAULT_BUFF_SIZE" by (auto simp: sz_def)
    have l0: "unat len mod 4096 = 0" using less.prems(2) by (simp add: word_unat_eq_iff unat_mod)
    have us: "unat sz = min 40960 (unat len)" by (simp add: sz_def min_def word_le_nat_alt)
    then have s0: "unat sz mod 4096 = 0" "0 < unat sz" using l0 False by (auto simp: min_def unat_gt_0)
    have ul: "unat (len - sz) = unat len - unat sz" using le(1) by (rule unat_sub)
    have n: "unat (len div PAGE_SIZE) = unat ?n + unat ((len - sz) div PAGE_SIZE)"
      using l0 s0 le(1) by (auto simp: unat_div ul word_le_nat_alt elim!: dvdE simp flip: dvd_eq_mod_eq_0)
    have a': "(addr + ?n * PAGE_SIZE) mod PAGE_SIZE = 0" using less.prems(1) by (simp add: page_aligned_add)
    have l': "(len - sz) mod PAGE_SIZE = 0"
      using l0 s0 ul by (simp add: word_unat_eq_iff unat_mod mod_diff_nat_0)
    obtain rt es w' where g: "util_pagemap_get os pm addr sz w = Some ((rt, es), w')" "rt \<ge> 0" "dirty w' = dirty w"
      "length es = unat ?n"
      "\<forall>i < length es. es ! i AND PME_SOFT_DIRTY \<noteq> 0 \<longleftrightarrow> dirty w (addr + of_nat i * PAGE_SIZE)"
      using util_pagemap_get_returns [OF k less.prems(1) le(2)] by blast
    have e: "case foldm f (filter (dirty w) (area_pages addr (unat ?n))) s of
           None \<Rightarrow> walk_entries PME_SOFT_DIRTY cb es addr rt s = None
         | Some s' \<Rightarrow> \<exists>r \<ge> 0. walk_entries PME_SOFT_DIRTY cb es addr rt s = Some (False, r, s')"
      using walk_entries_dirty [OF cb _ g(2,5)] g(4) by simp
    have lt: "unat (len - sz) < unat len" using ul s0(2) us by simp
    note IH = less.hyps [OF lt a' l', of _ _ w', unfolded g(3)]
    have w: "walk_chunks os pm PME_SOFT_DIRTY cb addr len ret s w =
        (case walk_entries PME_SOFT_DIRTY cb es addr rt s of
           None \<Rightarrow> None
         | Some (stop, ret, s) \<Rightarrow>
             if stop then Some (ret, s, w')
             else walk_chunks os pm PME_SOFT_DIRTY cb (addr + ?n * PAGE_SIZE) (len - sz) ret s w')"
      using False g(1,2,4) by (subst walk_chunks.simps) (simp add: Let_def sz_def [symmetric])
    have a: "of_nat (unat ?n) * PAGE_SIZE = ?n * PAGE_SIZE" by simp
    show ?thesis
    proof (cases "foldm f (filter (dirty w) (area_pages addr (unat ?n))) s")
      case None
      then show ?thesis unfolding n area_pages_add filter_append foldm_append w using e by simp
    next
      case (Some s')
      then obtain r where r: "r \<ge> 0" "walk_entries PME_SOFT_DIRTY cb es addr rt s = Some (False, r, s')"
        using e by auto
      then have "walk_chunks os pm PME_SOFT_DIRTY cb addr len ret s w =
          walk_chunks os pm PME_SOFT_DIRTY cb (addr + ?n * PAGE_SIZE) (len - sz) r s' w'"
        unfolding w by simp
      then show ?thesis
        unfolding n area_pages_add filter_append foldm_append a using IH [OF r(1), of s'] Some
        by (simp split: option.splits)
    qed
  qed
qed

definition maps_pages :: "util_proc_maps_entry list \<Rightarrow> va list" where
  "maps_pages es = concat (map (\<lambda>e. area_pages (vm_start e) (unat ((vm_end e - vm_start e) div PAGE_SIZE))) es)"

definition areas_aligned :: "util_proc_maps_entry list \<Rightarrow> bool" where
  "areas_aligned es \<longleftrightarrow>
     list_all (\<lambda>e. vm_start e mod PAGE_SIZE = 0 \<and> (vm_end e - vm_start e) mod PAGE_SIZE = 0) es"

lemma proc_walk_dirty:
  assumes k: "soft_dirty_kernel os dirty busy pm" "pm_buff_len pm = UTIL_PAGEMMAP_DEFAULT_BUFF_SIZE"
    and cb: "plain_cb cb f" and "areas_aligned es"
  shows "case foldm f (filter (dirty w) (maps_pages es)) s of
           None \<Rightarrow> util_pagemap_proc_walk os pm es PME_SOFT_DIRTY cb s w = None
         | Some s' \<Rightarrow> \<exists>w'. util_pagemap_proc_walk os pm es PME_SOFT_DIRTY cb s w = Some (0, s', w') \<and>
                            dirty w' = dirty w"
  using assms(4)
proof (induction es arbitrary: s w)
  case Nil
  then show ?case by (simp add: maps_pages_def)
next
  case (Cons e es)
  let ?ps = "area_pages (vm_start e) (unat ((vm_end e - vm_start e) div PAGE_SIZE))"
  have al: "vm_start e mod PAGE_SIZE = 0" "(vm_end e - vm_start e) mod PAGE_SIZE = 0" "areas_aligned es"
    using Cons.prems by (auto simp: areas_aligned_def)
  have m: "maps_pages (e # es) = ?ps @ maps_pages es" by (simp add: maps_pages_def)
  note walk = walk_chunks_dirty [OF k cb al(1,2) order_refl, where w = w and s = s]
  show ?case
  proof (cases "foldm f (filter (dirty w) ?ps) s")
    case None
    then show ?thesis using walk al(2) by (simp add: m foldm_append util_pagemap_walk_def)
  next
    case (Some s')
    then obtain r w' where r: "r \<ge> 0" "dirty w' = dirty w"
      "walk_chunks os pm PME_SOFT_DIRTY cb (vm_start e) (vm_end e - vm_start e) 0 s w = Some (r, s', w')"
      using walk by auto
    then have "util_pagemap_proc_walk os pm (e # es) PME_SOFT_DIRTY cb s w =
        util_pagemap_proc_walk os pm es PME_SOFT_DIRTY cb s' w'"
      using al(2) by (simp add: util_pagemap_walk_def)
    then show ?thesis
      using Cons.IH [OF al(3), where w = w' and s = s'] Some r(2)
      by (simp add: m foldm_append del: util_pagemap_proc_walk.simps split: option.splits)
  qed
qed

end
