(* ===== verification/Mprotect.thy ===== *)
theory Mprotect
  imports Runtime Checkpoint Proc_Maps
begin

text \<open>
  The page-protection mechanism (\<open>static/ltckpt/mechanisms/mprotect/ltckpt_mprotect.c\<close>):
  after a checkpoint the areas of the application are read-only; the first write to a
  page faults, the handler copies the page and makes it writable, and the write is
  repeated.

  The protection of the pages is a part of the state that only the \<open>mprotect\<close> system
  call changes; the call, \<open>mmap\<close> and the calls that install the handler are parameters.
  A page slot of the array \<open>mem\<close> is addressed by its number.  None is a failed assertion
  or \<open>ltckpt_panic\<close>; printing is left out.
\<close>

section \<open>State\<close>

abbreviation (input) "MPROTECT_MAX_PAGES \<equiv> 1000 :: nat"

type_synonym mpr_page = "va \<times> nat"

record 'w mpr_state = runtime +
  pages :: "mpr_page list"
  iter_pages :: "mpr_page list"
  mpr_mem :: "nat \<Rightarrow> u8 list"
  num_mem_pages :: nat
  proc_maps :: "util_proc_maps_entry list"
  writable :: "va \<Rightarrow> bool"
  mw :: 'w

record 'w mpr_os =
  sys_mprotect :: "va \<Rightarrow> u64 \<Rightarrow> u32 \<Rightarrow> (va \<Rightarrow> bool) \<times> 'w \<Rightarrow> int \<times> (va \<Rightarrow> bool) \<times> 'w"
  mpr_mmap :: "'w mmap_call"
  mpr_maps :: "'w \<Rightarrow> util_proc_maps_entry option list option"
  mpr_mapped :: "u64 \<Rightarrow> bool"
  install_handler :: "'w \<Rightarrow> int \<times> 'w"

section \<open>The list of saved pages\<close>

definition ltckpt_mem_flush :: "'w mpr_state \<Rightarrow> 'w mpr_state" where
  "ltckpt_mem_flush s = s\<lparr>num_mem_pages := 0\<rparr>"

definition ltckpt_page_list_add :: "va \<Rightarrow> 'w mpr_state \<Rightarrow> 'w mpr_state option" where
  "ltckpt_page_list_add addr s =
     (if \<not> length (pages s) < MPROTECT_MAX_PAGES then None
      else if \<not> num_mem_pages s < MPROTECT_MAX_PAGES then None
      else Some (s\<lparr>pages := pages s @ [(addr, num_mem_pages s)],
                   mpr_mem := (mpr_mem s)(num_mem_pages s := mem_read (pmem s) addr (unat PAGE_SIZE)),
                   num_mem_pages := num_mem_pages s + 1\<rparr>))"

definition ltckpt_page_list_clear_and_iter :: "'w mpr_state \<Rightarrow> 'w mpr_state" where
  "ltckpt_page_list_clear_and_iter s = s\<lparr>iter_pages := pages s, pages := []\<rparr>"

section \<open>Protecting memory\<close>

definition ltckpt_mprotect_mem :: "'w mpr_os \<Rightarrow> va \<Rightarrow> u64 \<Rightarrow> bool \<Rightarrow> 'w mpr_state \<Rightarrow> 'w mpr_state option" where
  "ltckpt_mprotect_mem os addr len wr s =
     (let prot = (if wr then PROT_READ OR PROT_WRITE else PROT_READ);
          (ret, p, w) = sys_mprotect os addr len prot (writable s, mw s)
      in if ret \<noteq> 0 then None else Some (s\<lparr>writable := p, mw := w\<rparr>))"

text \<open>\<open>ltckpt_mprotect_mem\<close> panics instead of returning an error, so the error branch is never taken.\<close>

definition ltckpt_mprotect_vma :: "'w mpr_os \<Rightarrow> bool \<Rightarrow> util_proc_maps_entry \<Rightarrow> 'w mpr_state \<Rightarrow> 'w mpr_state option" where
  "ltckpt_mprotect_vma os wr e s =
     (if pm_s e = CHR 0x00 then Some s
      else ltckpt_mprotect_mem os (vm_start e) (vm_end e - vm_start e) wr s)"

fun protect_all :: "'w mpr_os \<Rightarrow> bool \<Rightarrow> util_proc_maps_entry list \<Rightarrow> 'w mpr_state \<Rightarrow> 'w mpr_state option" where
  "protect_all os wr [] s = Some s"
| "protect_all os wr (e # es) s =
     (case ltckpt_mprotect_vma os wr e s of None \<Rightarrow> None | Some s \<Rightarrow> protect_all os wr es s)"

definition ltckpt_mprotect_vmas :: "'w mpr_os \<Rightarrow> bool \<Rightarrow> 'w mpr_state \<Rightarrow> 'w mpr_state option" where
  "ltckpt_mprotect_vmas os wr s = protect_all os wr (proc_maps s) s"

section \<open>The fault handler and the checkpoint\<close>

definition upd_ctx :: "(ltckpt_ctx \<Rightarrow> ltckpt_ctx) \<Rightarrow> 'a runtime_scheme \<Rightarrow> 'a runtime_scheme" where
  "upd_ctx f s = s\<lparr>ctx := f (ctx s)\<rparr>"

definition ltckpt_sighandler :: "'w mpr_os \<Rightarrow> va \<Rightarrow> 'w mpr_state \<Rightarrow> 'w mpr_state option" where
  "ltckpt_sighandler os si_addr s =
     (let s = upd_ctx (\<lambda>c. c\<lparr>pgfault_nesting_level := pgfault_nesting_level c + 1\<rparr>) s;
          addr = si_addr - si_addr mod PAGE_SIZE
      in case ltckpt_page_list_add addr s of
           None \<Rightarrow> None
         | Some s \<Rightarrow>
             (case ltckpt_mprotect_mem os addr PAGE_SIZE True (upd_ctx (\<lambda>c. c\<lparr>num_cows := num_cows c + 1\<rparr>) s) of
                None \<Rightarrow> None
              | Some s \<Rightarrow> Some (upd_ctx (\<lambda>c. c\<lparr>pgfault_nesting_level := pgfault_nesting_level c - 1\<rparr>) s)))"

text \<open>The iteration over the pages, from the list the iterator still has in front of it.\<close>

fun protect_pages :: "'w mpr_os \<Rightarrow> mpr_page list \<Rightarrow> 'w mpr_state \<Rightarrow> 'w mpr_state option" where
  "protect_pages os [] s = Some s"
| "protect_pages os (p # ps) s =
     (case ltckpt_mprotect_mem os (fst p) PAGE_SIZE False s of None \<Rightarrow> None | Some s \<Rightarrow> protect_pages os ps s)"

definition ltckpt_checkpoint :: "'w mpr_os \<Rightarrow> 'w mpr_state \<Rightarrow> 'w mpr_state option" where
  "ltckpt_checkpoint os s =
     (let s = ltckpt_page_list_clear_and_iter s
      in map_option ltckpt_mem_flush (protect_pages os (iter_pages s) s))"

definition ltckpt_init_mpr_cb :: "proc_addrs \<Rightarrow> ltckpt_ctx \<Rightarrow> va \<Rightarrow> util_proc_maps_entry \<Rightarrow> util_proc_maps_parse_ret" where
  "ltckpt_init_mpr_cb pa c mpr e =
     (if vm_start e = mpr then UTIL_PROC_MAPS_RET_CONTINUE
      else if \<not> ltcpt_is_checkpointed_vma pa c e then UTIL_PROC_MAPS_RET_CONTINUE
      else UTIL_PROC_MAPS_RET_SAVE)"

text \<open>
  The chunk for the state is fresh memory, hence an empty list; without one the first
  write through the NULL pointer faults, None.  \<open>ltckpt_ctx_set\<close> copies the context
  into the chunk and goes on with the copy.
\<close>

definition ltckpt_init_mpr :: "'w mpr_os \<Rightarrow> proc_addrs \<Rightarrow> va \<Rightarrow> u64 \<Rightarrow> 'w mpr_state \<Rightarrow> 'w mpr_state option" where
  "ltckpt_init_mpr os pa min_mmap_addr buff_len s =
     (let (buff, w) = ltkcpt_ctx_get_buff (mpr_mmap os) min_mmap_addr buff_len (mw s); s = s\<lparr>mw := w\<rparr>
      in case buff of
           None \<Rightarrow> None
         | Some mpr \<Rightarrow>
             (let s = upd_ctx (\<lambda>c. c\<lparr>initialized := 1\<rparr>) (s\<lparr>pages := [], iter_pages := [], num_mem_pages := 0\<rparr>);
                  (ret, es) = util_proc_maps_parse_filter (mpr_mapped os) (mpr_maps os (mw s))
                                (Some (ltckpt_init_mpr_cb pa (ctx s) mpr))
              in if ret \<noteq> 0 then None
                 else let (ret, w) = install_handler os (mw s)
                      in if ret \<noteq> 0 then None
                         else ltckpt_mprotect_vmas os False (s\<lparr>proc_maps := es, mw := w\<rparr>)))"

definition mpr_top_of_the_loop ::
    "'w mpr_os \<Rightarrow> proc_addrs \<Rightarrow> va \<Rightarrow> u64 \<Rightarrow> 'w mpr_state \<Rightarrow> 'w mpr_state option" where
  "mpr_top_of_the_loop os pa min_mmap_addr buff_len s =
     (let (go, c) = ctx_new_tol_or_return (ctx s); s = s\<lparr>ctx := c\<rparr>
      in if \<not> go then Some s
      else case (if initialized (ctx s) = 0 then ltckpt_init_mpr os pa min_mmap_addr buff_len s else Some s) of
             None \<Rightarrow> None
           | Some s \<Rightarrow> map_option (upd_ctx ctx_new_checkpoint) (ltckpt_checkpoint os s))"

definition mpr_late_init_hook ::
    "'w mpr_os \<Rightarrow> proc_addrs \<Rightarrow> va \<Rightarrow> u64 \<Rightarrow> 'w mpr_state \<Rightarrow> 'w mpr_state option" where
  "mpr_late_init_hook os pa min_mmap_addr buff_len s =
     (if lazy_init (ctx s) = 0 \<and> checkpoint_interval (ctx s) \<noteq> 0
      then ltckpt_init_mpr os pa min_mmap_addr buff_len s else Some s)"

text \<open>
  A write of the application within one page, as the processor and the kernel carry it
  out: on a read-only page the handler runs first and the write is repeated once.
\<close>

definition page_of :: "va \<Rightarrow> va" where
  "page_of a = a - a mod PAGE_SIZE"

definition mpr_write :: "'w mpr_os \<Rightarrow> va \<times> u8 list \<Rightarrow> 'w mpr_state \<Rightarrow> 'w mpr_state option" where
  "mpr_write os p s =
     (let store = (\<lambda>s. s\<lparr>pmem := mem_write (pmem s) (fst p) (snd p)\<rparr>)
      in if writable s (page_of (fst p)) then Some (store s)
         else case ltckpt_sighandler os (fst p) s of
                None \<Rightarrow> None
              | Some s \<Rightarrow> if writable s (page_of (fst p)) then Some (store s) else None)"

section \<open>Pages\<close>

lemma unat_page_of: "unat (page_of a) = 4096 * (unat a div 4096)"
proof -
  have m: "unat (a mod 4096) = unat a mod 4096" by (simp add: unat_mod_distrib)
  then have "unat (page_of a) = unat a - unat a mod 4096"
    by (simp add: page_of_def unat_sub_if' m)
  then show ?thesis by (simp add: minus_mod_eq_mult_div)
qed

lemma page_of_align: "page_of a = align_down 12 a"
  using unat_align_down [of 12 a] by (simp add: word_unat_eq_iff unat_page_of)

lemma page_of_idem [simp]: "page_of (page_of a) = page_of a"
  by (simp add: page_of_align)

lemma page_block: "x \<in> block (page_of a) 4096 \<longleftrightarrow> page_of x = page_of a"
  using block_align_iff [of 12 x a] by (simp add: page_of_align)

lemma page_offset: "page_of x = page_of a \<Longrightarrow> unat (x - page_of a) = unat (x mod 4096)"
proof -
  assume "page_of x = page_of a"
  then have "x - page_of a = x mod 4096" unfolding page_of_def by (metis diff_diff_eq2 add_diff_cancel_left')
  then show ?thesis by simp
qed

section \<open>What is saved\<close>

definition in_maps :: "'w mpr_state \<Rightarrow> va \<Rightarrow> bool" where
  "in_maps s x \<longleftrightarrow> list_ex (\<lambda>e. pm_s e \<noteq> CHR 0x00 \<and> ENTRY_CONTAINS_ADDR e x) (proc_maps s)"

text \<open>The system call succeeds and sets the protection of exactly the pages in its range.\<close>

definition protects :: "'w mpr_os \<Rightarrow> bool" where
  "protects os \<longleftrightarrow> (\<forall>addr len prot p w. \<exists>p' w'. sys_mprotect os addr len prot (p, w) = (0, p', w')
     \<and> (\<forall>x. page_of x = x \<longrightarrow> p' x = (if x \<in> block addr (unat len) then prot AND PROT_WRITE \<noteq> 0 else p x)))"

definition mpr_visible :: "'w mpr_state \<Rightarrow> util_proc_maps_entry list \<times> mem" where
  "mpr_visible s = (proc_maps s, \<lambda>x. if in_maps s x then pmem s x else 0)"

definition mpr_saved_byte :: "'w mpr_state \<Rightarrow> va \<Rightarrow> u8" where
  "mpr_saved_byte s x =
     (case map_of (pages s) (page_of x) of None \<Rightarrow> pmem s x | Some i \<Rightarrow> mpr_mem s i ! unat (x mod 4096))"

definition mpr_saved :: "'w mpr_state \<Rightarrow> util_proc_maps_entry list \<times> mem" where
  "mpr_saved s = (proc_maps s, \<lambda>x. if in_maps s x then mpr_saved_byte s x else 0)"

definition maps_aligned :: "'w mpr_state \<Rightarrow> bool" where
  "maps_aligned s \<longleftrightarrow> list_all (\<lambda>e. page_of (vm_start e) = vm_start e \<and> page_of (vm_end e) = vm_end e) (proc_maps s)"

definition mpr_inv :: "'w mpr_os \<Rightarrow> 'w mpr_state \<Rightarrow> bool" where
  "mpr_inv os s \<longleftrightarrow> protects os \<and> maps_aligned s \<and> initialized (ctx s) \<noteq> 0
     \<and> distinct (map fst (pages s)) \<and> map snd (pages s) = [0..<length (pages s)] \<and> num_mem_pages s = length (pages s)
     \<and> (\<forall>x. page_of x = x \<and> in_maps s x \<longrightarrow> writable s x = (x \<in> fst ` set (pages s)))"

lemma div_page_le: "4096 * q \<le> (n :: nat) \<longleftrightarrow> q \<le> n div 4096"
  by (simp add: less_eq_div_iff_mult_less_eq mult.commute)

text \<open>Areas consist of whole pages.\<close>

lemma in_maps_page:
  assumes "maps_aligned s"
  shows "in_maps s (page_of x) = in_maps s x"
proof -
  have "ENTRY_CONTAINS_ADDR e (page_of x) = ENTRY_CONTAINS_ADDR e x" if e: "e \<in> set (proc_maps s)" for e
  proof -
    obtain a b where ab: "unat (vm_start e) = 4096 * a" "unat (vm_end e) = 4096 * b"
      using assms e unat_page_of [of "vm_start e"] unat_page_of [of "vm_end e"]
      by (fastforce simp: maps_aligned_def list_all_iff)
    have "4096 * a \<le> 4096 * (unat x div 4096) \<longleftrightarrow> 4096 * a \<le> unat x"
      using div_page_le [of a "unat x"] by simp
    moreover have "4096 * (unat x div 4096) < 4096 * b \<longleftrightarrow> unat x < 4096 * b"
      using div_page_le [of b "unat x"] by (simp add: not_le [symmetric])
    ultimately show ?thesis
      by (simp add: ENTRY_CONTAINS_ADDR_def word_le_nat_alt word_less_nat_alt ab unat_page_of)
  qed
  then show ?thesis by (auto simp: in_maps_def list_ex_iff)
qed

lemma pages_map_of:
  assumes "mpr_inv os s"
  shows "map_of (pages s) p = Some i \<longleftrightarrow> (p, i) \<in> set (pages s)"
    "map_of (pages s) p = None \<longleftrightarrow> p \<notin> fst ` set (pages s)"
  using assms by (auto simp: mpr_inv_def map_of_eq_Some_iff map_of_eq_None_iff)

lemma pages_index:
  assumes "mpr_inv os s" "map_of (pages s) p = Some i"
  shows "i < length (pages s)"
proof -
  have "i \<in> set (map snd (pages s))" using assms(2) by (auto dest!: map_of_SomeD intro!: image_eqI)
  moreover have "map snd (pages s) = [0..<length (pages s)]" using assms(1) by (simp add: mpr_inv_def)
  ultimately show ?thesis by simp
qed

lemma mprotect_mem_law:
  assumes "protects os"
  shows "\<exists>p w. ltckpt_mprotect_mem os addr len wr s = Some (s\<lparr>writable := p, mw := w\<rparr>)
     \<and> (\<forall>x. page_of x = x \<longrightarrow> p x = (if x \<in> block addr (unat len) then wr else writable s x))"
proof -
  let ?prot = "if wr then PROT_READ OR PROT_WRITE else PROT_READ"
  obtain p w where c: "sys_mprotect os addr len ?prot (writable s, mw s) = (0, p, w)"
    and e: "\<And>x. page_of x = x \<Longrightarrow> p x = (if x \<in> block addr (unat len) then ?prot AND PROT_WRITE \<noteq> 0 else writable s x)"
    using assms [unfolded protects_def, rule_format, of addr len ?prot "writable s" "mw s"] by blast
  have "(?prot AND PROT_WRITE \<noteq> 0) = wr" by simp
  with e have "\<forall>x. page_of x = x \<longrightarrow> p x = (if x \<in> block addr (unat len) then wr else writable s x)" by simp
  moreover have "ltckpt_mprotect_mem os addr len wr s = Some (s\<lparr>writable := p, mw := w\<rparr>)"
    using c by (simp add: ltckpt_mprotect_mem_def Let_def)
  ultimately show ?thesis by blast
qed

lemma handler_law:
  assumes "mpr_inv os s" "in_maps s a" "page_of a \<notin> fst ` set (pages s)" "length (pages s) < MPROTECT_MAX_PAGES"
  obtains t where "ltckpt_sighandler os a s = Some t" "mpr_inv os t" "mpr_saved t = mpr_saved s"
    "pages t = pages s @ [(page_of a, length (pages s))]" "pmem t = pmem s" "proc_maps t = proc_maps s"
    "writable t (page_of a)"
proof -
  let ?n = "length (pages s)" and ?pg = "page_of a"
  have i: "protects os" "maps_aligned s" "num_mem_pages s = ?n" using assms(1) by (simp_all add: mpr_inv_def)
  define u where "u = upd_ctx (\<lambda>c. c\<lparr>num_cows := num_cows c + 1\<rparr>)
      ((upd_ctx (\<lambda>c. c\<lparr>pgfault_nesting_level := pgfault_nesting_level c + 1\<rparr>) s)
        \<lparr>pages := pages s @ [(?pg, ?n)], mpr_mem := (mpr_mem s)(?n := mem_read (pmem s) ?pg 4096), num_mem_pages := ?n + 1\<rparr>)"
  obtain p w where m: "ltckpt_mprotect_mem os ?pg PAGE_SIZE True u = Some (u\<lparr>writable := p, mw := w\<rparr>)"
    and pw: "\<And>x. page_of x = x \<Longrightarrow> p x = (if x \<in> block ?pg (unat PAGE_SIZE) then True else writable u x)"
    using mprotect_mem_law [OF i(1), of ?pg PAGE_SIZE True u] by blast
  define t where "t = upd_ctx (\<lambda>c. c\<lparr>pgfault_nesting_level := pgfault_nesting_level c - 1\<rparr>) (u\<lparr>writable := p, mw := w\<rparr>)"
  have t: "pages t = pages s @ [(?pg, ?n)]" "pmem t = pmem s" "proc_maps t = proc_maps s" "writable t = p"
    "mpr_mem t = (mpr_mem s)(?n := mem_read (pmem s) ?pg 4096)" "num_mem_pages t = ?n + 1"
    "initialized (ctx t) = initialized (ctx s)"
    by (simp_all add: t_def u_def upd_ctx_def)
  have im: "in_maps t x = in_maps s x" for x by (simp add: in_maps_def t)
  have h: "ltckpt_sighandler os a s = Some t"
    using m assms(4) i(3)
    by (simp add: ltckpt_sighandler_def ltckpt_page_list_add_def t_def u_def upd_ctx_def page_of_def Let_def)
  have wr: "p x = (x \<in> fst ` set (pages t))" if "page_of x = x" "in_maps s x" for x
  proof -
    have "writable u x = (x \<in> fst ` set (pages s))"
      using assms(1) that by (simp add: mpr_inv_def u_def upd_ctx_def)
    moreover have "x \<in> block ?pg 4096 \<longleftrightarrow> x = ?pg" using page_block [of x a] that(1) by metis
    ultimately show ?thesis using pw [OF that(1)] by (simp add: t)
  qed
  have inv: "mpr_inv os t"
    using assms(1,3) wr by (auto simp: mpr_inv_def t im maps_aligned_def)
  have "mpr_saved_byte t x = mpr_saved_byte s x" for x
  proof (cases "page_of x = ?pg")
    case True
    then have none: "map_of (pages s) (page_of x) = None" using assms(3) by (simp add: map_of_eq_None_iff)
    moreover have "map_of (pages t) (page_of x) = Some ?n"
      using True none by (simp add: t map_add_def)
    moreover have "mem_read (pmem s) ?pg 4096 ! unat (x mod 4096) = pmem s x"
    proof -
      have "x \<in> block ?pg 4096" using True by (simp only: page_block)
      then have "unat (x mod 4096) < 4096" using page_offset [OF True] by (simp add: block_iff)
      then have "mem_read (pmem s) (page_of x) 4096 ! unat (x mod 4096) = pmem s (page_of x + x mod 4096)"
        by (simp del: unat_mod_distrib)
      then show ?thesis unfolding True [symmetric] by (simp add: page_of_def)
    qed
    ultimately show ?thesis by (simp add: mpr_saved_byte_def t)
  next
    case False
    then have "map_of (pages t) (page_of x) = map_of (pages s) (page_of x)"
      by (simp add: t map_add_def split: option.split)
    then show ?thesis
      using pages_index [OF assms(1), of "page_of x"] by (auto simp: mpr_saved_byte_def t split: option.split)
  qed
  then have "mpr_saved t = mpr_saved s" by (simp add: mpr_saved_def im t(3) cong: if_cong)
  moreover have "writable t ?pg"
    using wr [of ?pg] in_maps_page [OF i(2), of a] assms(2) by (simp add: t)
  ultimately show thesis using that [OF h inv] t(1-3) by blast
qed

lemma write_law:
  assumes "mpr_inv os s" "page_of a \<in> fst ` set (pages s)" "\<And>x. x \<in> block a (length bs) \<Longrightarrow> page_of x = page_of a"
  defines "t \<equiv> s\<lparr>pmem := mem_write (pmem s) a bs\<rparr>"
  shows "mpr_inv os t" "mpr_saved t = mpr_saved s"
proof -
  show "mpr_inv os t" using assms(1) by (simp add: mpr_inv_def t_def in_maps_def maps_aligned_def)
  have "mpr_saved_byte t x = mpr_saved_byte s x" for x
  proof (cases "x \<in> block a (length bs)")
    case True
    then have "map_of (pages s) (page_of x) \<noteq> None" using assms(2) assms(3) [OF True] by (simp add: map_of_eq_None_iff)
    then show ?thesis by (auto simp: mpr_saved_byte_def t_def)
  next
    case False
    then show ?thesis by (simp add: mpr_saved_byte_def t_def mem_write_out split: option.split)
  qed
  moreover have "in_maps t x = in_maps s x" for x by (simp add: in_maps_def t_def)
  ultimately show "mpr_saved t = mpr_saved s" by (simp add: mpr_saved_def cong: if_cong) (simp add: t_def)
qed

text \<open>A write within one page of a checkpointed area, with a slot left when the page is new.\<close>

definition mpr_ok :: "va \<times> u8 list \<Rightarrow> 'w mpr_state \<Rightarrow> bool" where
  "mpr_ok p s \<longleftrightarrow> in_maps s (fst p)
     \<and> list_all (\<lambda>i. page_of (fst p + word_of_nat i) = page_of (fst p)) [0..<length (snd p)]
     \<and> (page_of (fst p) \<in> fst ` set (pages s) \<or> length (pages s) < MPROTECT_MAX_PAGES)"

lemma mpr_step:
  assumes "mpr_inv os s" "mpr_ok p s"
  shows "\<exists>t. mpr_write os p s = Some t \<and> mpr_inv os t \<and> mpr_saved t = mpr_saved s \<and> proc_maps t = proc_maps s
     \<and> fst ` set (pages t) = insert (page_of (fst p)) (fst ` set (pages s))"
proof -
  obtain a bs where p: "p = (a, bs)" by (cases p)
  have im: "in_maps s a" and room: "page_of a \<in> fst ` set (pages s) \<or> length (pages s) < MPROTECT_MAX_PAGES"
    using assms(2) by (simp_all add: mpr_ok_def p)
  have one: "\<forall>i < length bs. page_of (a + word_of_nat i) = page_of a"
    using assms(2) by (simp add: mpr_ok_def p list_all_iff)
  have blk: "page_of x = page_of a" if x: "x \<in> block a (length bs)" for x
    using one [rule_format, of "unat (x - a)"] x by (simp add: block_iff)
  have wr: "writable s (page_of a) = (page_of a \<in> fst ` set (pages s))"
    using assms(1) im in_maps_page [of s a] by (simp add: mpr_inv_def)
  show ?thesis
  proof (cases "page_of a \<in> fst ` set (pages s)")
    case True
    then have "mpr_write os p s = Some (s\<lparr>pmem := mem_write (pmem s) a bs\<rparr>)" using wr by (simp add: mpr_write_def p)
    moreover note write_law [OF assms(1) True blk]
    ultimately show ?thesis using True by (auto simp: p insert_absorb)
  next
    case False
    then obtain t where t: "ltckpt_sighandler os a s = Some t" "mpr_inv os t" "mpr_saved t = mpr_saved s"
      "pages t = pages s @ [(page_of a, length (pages s))]" "proc_maps t = proc_maps s" "writable t (page_of a)"
      using handler_law [OF assms(1) im False] room by blast
    have "page_of a \<in> fst ` set (pages t)" using t(4) by simp
    note w = write_law [OF t(2) this blk]
    have "mpr_write os p s = Some (t\<lparr>pmem := mem_write (pmem t) a bs\<rparr>)"
      using False wr t(1,6) by (simp add: mpr_write_def p)
    then show ?thesis using w t(3-5) by (simp add: p)
  qed
qed

text \<open>A checkpoint protects the pages again and forgets the copies.\<close>

lemma protect_pages_law:
  assumes "protects os"
  shows "\<exists>q w. protect_pages os ps s = Some (s\<lparr>writable := q, mw := w\<rparr>)
     \<and> (\<forall>x. page_of x = x \<longrightarrow> q x = (writable s x \<and> (\<forall>p \<in> set ps. x \<notin> block (fst p) 4096)))"
proof (induction ps arbitrary: s)
  case Nil
  show ?case by (rule exI [of _ "writable s"], rule exI [of _ "mw s"]) simp
next
  case (Cons p ps)
  obtain q w where 1: "ltckpt_mprotect_mem os (fst p) PAGE_SIZE False s = Some (s\<lparr>writable := q, mw := w\<rparr>)"
    "\<And>x. page_of x = x \<Longrightarrow> q x = (if x \<in> block (fst p) (unat PAGE_SIZE) then False else writable s x)"
    using mprotect_mem_law [OF assms, of "fst p" PAGE_SIZE False s] by blast
  obtain q' w' where 2: "protect_pages os ps (s\<lparr>writable := q, mw := w\<rparr>) = Some (s\<lparr>writable := q', mw := w'\<rparr>)"
    "\<And>x. page_of x = x \<Longrightarrow> q' x = (q x \<and> (\<forall>p \<in> set ps. x \<notin> block (fst p) 4096))"
    using Cons.IH [of "s\<lparr>writable := q, mw := w\<rparr>"] by auto
  have "q' x = (writable s x \<and> (\<forall>p \<in> set (p # ps). x \<notin> block (fst p) 4096))" if "page_of x = x" for x
    using 1(2) [OF that] 2(2) [OF that] by auto
  with 1(1) 2(1) show ?case by auto
qed

lemma ltckpt_checkpoint_law:
  assumes "mpr_inv os s"
  shows "\<exists>t. ltckpt_checkpoint os s = Some t \<and> mpr_inv os t \<and> mpr_saved t = mpr_visible s
     \<and> pages t = [] \<and> proc_maps t = proc_maps s"
proof -
  let ?c = "ltckpt_page_list_clear_and_iter s"
  have pr: "protects os" using assms by (simp add: mpr_inv_def)
  obtain q w where q: "protect_pages os (pages s) ?c = Some (?c\<lparr>writable := q, mw := w\<rparr>)"
    "\<And>x. page_of x = x \<Longrightarrow> q x = (writable s x \<and> (\<forall>p \<in> set (pages s). x \<notin> block (fst p) 4096))"
    using protect_pages_law [OF pr, of "pages s" ?c] by (auto simp: ltckpt_page_list_clear_and_iter_def)
  define t where "t = ltckpt_mem_flush (?c\<lparr>writable := q, mw := w\<rparr>)"
  have t: "pages t = []" "proc_maps t = proc_maps s" "pmem t = pmem s" "num_mem_pages t = 0" "writable t = q" "ctx t = ctx s"
    by (simp_all add: t_def ltckpt_mem_flush_def ltckpt_page_list_clear_and_iter_def)
  have im: "in_maps t x = in_maps s x" for x by (simp add: in_maps_def t)
  have "iter_pages ?c = pages s" by (simp add: ltckpt_page_list_clear_and_iter_def)
  then have top: "ltckpt_checkpoint os s = Some t" using q(1) by (simp add: ltckpt_checkpoint_def t_def Let_def)
  have "\<not> q x" if x: "page_of x = x" "in_maps s x" for x
  proof
    assume "q x"
    then have w: "writable s x" and n: "\<And>p. p \<in> set (pages s) \<Longrightarrow> x \<notin> block (fst p) 4096" using q(2) [OF x(1)] by blast+
    have "x \<in> fst ` set (pages s)" using w x assms by (simp add: mpr_inv_def)
    then show False using n block_self [of 4096 x] by fastforce
  qed
  then have "mpr_inv os t" using assms by (simp add: mpr_inv_def t im maps_aligned_def)
  moreover have "mpr_saved t = mpr_visible s"
    by (simp add: mpr_saved_def mpr_visible_def mpr_saved_byte_def t im cong: if_cong)
  ultimately show ?thesis using top t(1,2) by blast
qed

text \<open>The context is the only thing the counters of the hook change.\<close>

lemma mpr_ctx_only:
  assumes "initialized c = initialized (ctx s)"
  shows "mpr_inv os (s\<lparr>ctx := c\<rparr>) = mpr_inv os s" "mpr_saved (s\<lparr>ctx := c\<rparr>) = mpr_saved s"
    "mpr_visible (s\<lparr>ctx := c\<rparr>) = mpr_visible s"
  using assms by (simp_all add: mpr_inv_def mpr_saved_def mpr_visible_def mpr_saved_byte_def in_maps_def maps_aligned_def
      cong: if_cong option.case_cong)

lemma mpr_top_law:
  assumes "mpr_inv os s" "fst (ctx_new_tol_or_return (ctx s))"
  shows "\<exists>t. mpr_top_of_the_loop os pa mm len s = Some t \<and> mpr_inv os t \<and> mpr_saved t = mpr_visible s
     \<and> pages t = [] \<and> proc_maps t = proc_maps s"
proof -
  let ?c = "snd (ctx_new_tol_or_return (ctx s))"
  have c: "initialized ?c = initialized (ctx s)" by (simp add: ctx_new_tol_or_return_def)
  have i: "initialized ?c \<noteq> 0" using assms(1) c by (simp add: mpr_inv_def)
  have "mpr_inv os (s\<lparr>ctx := ?c\<rparr>)" using assms(1) mpr_ctx_only(1) [OF c] by simp
  from ltckpt_checkpoint_law [OF this] obtain t where t: "ltckpt_checkpoint os (s\<lparr>ctx := ?c\<rparr>) = Some t" "mpr_inv os t"
    "mpr_saved t = mpr_visible s" "pages t = []" "proc_maps t = proc_maps s"
    using mpr_ctx_only(3) [OF c] by auto
  have "mpr_top_of_the_loop os pa mm len s = Some (upd_ctx ctx_new_checkpoint t)"
    using assms(2) i t(1) by (simp add: mpr_top_of_the_loop_def case_prod_beta Let_def)
  moreover have "mpr_inv os (upd_ctx ctx_new_checkpoint t) \<and> mpr_saved (upd_ctx ctx_new_checkpoint t) = mpr_saved t"
    using mpr_ctx_only [of "ctx_new_checkpoint (ctx t)" t] t(2) by (simp add: upd_ctx_def ctx_new_checkpoint_def)
  ultimately show ?thesis using t(3-5) by (simp add: upd_ctx_def)
qed

definition mpr_ckpt :: "'w mpr_os \<Rightarrow> proc_addrs \<Rightarrow> va \<Rightarrow> u64 \<Rightarrow> 'w mpr_state \<Rightarrow> 'w mpr_state" where
  "mpr_ckpt os pa mm len s = (case mpr_top_of_the_loop os pa mm len s of Some t \<Rightarrow> t | None \<Rightarrow> s)"

interpretation mpr: checkpoint_saver "mpr_inv os" mpr_visible mpr_saved
  "\<lambda>s. fst (ctx_new_tol_or_return (ctx s))" "mpr_ckpt os pa mm len" "mpr_write os" mpr_ok
  for os pa mm len
proof unfold_locales
  show "mpr_inv os (mpr_ckpt os pa mm len s) \<and> mpr_saved (mpr_ckpt os pa mm len s) = mpr_visible s"
    if "mpr_inv os s" "fst (ctx_new_tol_or_return (ctx s))" for s
    using mpr_top_law [OF that, of pa mm len] by (auto simp: mpr_ckpt_def)
  show "\<exists>s'. mpr_write os p s = Some s' \<and> mpr_inv os s' \<and> mpr_saved s' = mpr_saved s"
    if "mpr_inv os s" "mpr_ok p s" for s p
    using mpr_step [OF that] by blast
qed

text \<open>Initialisation establishes the invariant when the kernel reports areas of whole pages.\<close>

lemma protect_all_law:
  assumes "protects os"
  shows "\<exists>q w. protect_all os False es s = Some (s\<lparr>writable := q, mw := w\<rparr>)
     \<and> (\<forall>x. page_of x = x \<longrightarrow> q x = (writable s x
          \<and> (\<forall>e \<in> set es. pm_s e \<noteq> CHR 0x00 \<longrightarrow> x \<notin> block (vm_start e) (unat (vm_end e - vm_start e)))))"
proof (induction es arbitrary: s)
  case Nil
  show ?case by (rule exI [of _ "writable s"], rule exI [of _ "mw s"]) simp
next
  case (Cons e es)
  have "\<exists>q w. ltckpt_mprotect_vma os False e s = Some (s\<lparr>writable := q, mw := w\<rparr>)
      \<and> (\<forall>x. page_of x = x \<longrightarrow> q x = (writable s x
          \<and> (pm_s e \<noteq> CHR 0x00 \<longrightarrow> x \<notin> block (vm_start e) (unat (vm_end e - vm_start e)))))"
  proof (cases "pm_s e = CHR 0x00")
    case True
    then show ?thesis
      by (intro exI [of _ "writable s"] exI [of _ "mw s"]) (simp add: ltckpt_mprotect_vma_def)
  next
    case False
    obtain q w where "ltckpt_mprotect_mem os (vm_start e) (vm_end e - vm_start e) False s = Some (s\<lparr>writable := q, mw := w\<rparr>)"
      "\<forall>x. page_of x = x \<longrightarrow> q x = (if x \<in> block (vm_start e) (unat (vm_end e - vm_start e)) then False else writable s x)"
      using mprotect_mem_law [OF assms, of "vm_start e" "vm_end e - vm_start e" False s] by blast
    then show ?thesis using False
      by (intro exI [of _ q] exI [of _ w]) (auto simp: ltckpt_mprotect_vma_def)
  qed
  then obtain q w where 1: "ltckpt_mprotect_vma os False e s = Some (s\<lparr>writable := q, mw := w\<rparr>)"
    "\<And>x. page_of x = x \<Longrightarrow> q x = (writable s x
       \<and> (pm_s e \<noteq> CHR 0x00 \<longrightarrow> x \<notin> block (vm_start e) (unat (vm_end e - vm_start e))))"
    by blast
  obtain q' w' where 2: "protect_all os False es (s\<lparr>writable := q, mw := w\<rparr>) = Some (s\<lparr>writable := q', mw := w'\<rparr>)"
    "\<And>x. page_of x = x \<Longrightarrow> q' x = (q x
       \<and> (\<forall>e \<in> set es. pm_s e \<noteq> CHR 0x00 \<longrightarrow> x \<notin> block (vm_start e) (unat (vm_end e - vm_start e))))"
    using Cons.IH [of "s\<lparr>writable := q, mw := w\<rparr>"] by auto
  then show ?case using 1 by (intro exI [of _ q'] exI [of _ w']) auto
qed

lemma contains_block: "ENTRY_CONTAINS_ADDR e x \<Longrightarrow> x \<in> block (vm_start e) (unat (vm_end e - vm_start e))"
  by (auto simp: ENTRY_CONTAINS_ADDR_def block_iff word_le_nat_alt word_less_nat_alt unat_sub_if')

lemma ltckpt_init_mpr_inv:
  assumes "protects os" "ltckpt_init_mpr os pa mm len s = Some t"
    "\<And>w ls e. mpr_maps os w = Some ls \<Longrightarrow> Some e \<in> set ls \<Longrightarrow> page_of (vm_start e) = vm_start e \<and> page_of (vm_end e) = vm_end e"
  shows "mpr_inv os t" "pages t = []" "pmem t = pmem s"
proof -
  obtain mpr w1 es w2 where b: "ltkcpt_ctx_get_buff (mpr_mmap os) mm len (mw s) = (Some mpr, w1)"
    and p: "util_proc_maps_parse_filter (mpr_mapped os) (mpr_maps os w1)
      (Some (ltckpt_init_mpr_cb pa (ctx s\<lparr>initialized := 1\<rparr>) mpr)) = (0, es)"
    and r: "ltckpt_mprotect_vmas os False ((upd_ctx (\<lambda>c. c\<lparr>initialized := 1\<rparr>)
      (s\<lparr>mw := w1, pages := [], iter_pages := [], num_mem_pages := 0\<rparr>))\<lparr>proc_maps := es, mw := w2\<rparr>) = Some t"
    using assms(2)
    by (auto simp: ltckpt_init_mpr_def upd_ctx_def Let_def split: prod.splits option.splits if_splits)
  let ?u = "(upd_ctx (\<lambda>c. c\<lparr>initialized := 1\<rparr>)
      (s\<lparr>mw := w1, pages := [], iter_pages := [], num_mem_pages := 0\<rparr>))\<lparr>proc_maps := es, mw := w2\<rparr>"
  obtain q w where q: "protect_all os False es ?u = Some (?u\<lparr>writable := q, mw := w\<rparr>)"
    "\<And>x. page_of x = x \<Longrightarrow> q x = (writable ?u x
       \<and> (\<forall>e \<in> set es. pm_s e \<noteq> CHR 0x00 \<longrightarrow> x \<notin> block (vm_start e) (unat (vm_end e - vm_start e))))"
    using protect_all_law [OF assms(1), of es ?u] by blast
  have t: "t = ?u\<lparr>writable := q, mw := w\<rparr>" using r q(1) by (simp add: ltckpt_mprotect_vmas_def)
  have es: "page_of (vm_start e) = vm_start e \<and> page_of (vm_end e) = vm_end e" if "e \<in> set es" for e
    using parse_filter_entries [OF p that] assms(3) by blast
  have "\<not> q x" if x: "page_of x = x" "in_maps t x" for x
  proof -
    obtain e where "e \<in> set es" "pm_s e \<noteq> CHR 0x00" "ENTRY_CONTAINS_ADDR e x"
      using x(2) by (auto simp: in_maps_def list_ex_iff t)
    then show ?thesis using q(2) [OF x(1)] contains_block by blast
  qed
  then show "mpr_inv os t" using assms(1) es by (simp add: mpr_inv_def t upd_ctx_def maps_aligned_def list_all_iff)
  show "pages t = []" "pmem t = pmem s" by (simp_all add: t upd_ctx_def)
qed

text \<open>A process before or after the initialisation of the mechanism.\<close>

definition mpr_ready :: "'w mpr_os \<Rightarrow> 'w mpr_state \<Rightarrow> bool" where
  "mpr_ready os s \<longleftrightarrow> mpr_inv os s \<or> initialized (ctx s) = 0 \<and> protects os
     \<and> (\<forall>w ls e. mpr_maps os w = Some ls \<and> Some e \<in> set ls \<longrightarrow>
          page_of (vm_start e) = vm_start e \<and> page_of (vm_end e) = vm_end e)"

lemma mpr_top_ready:
  assumes "mpr_ready os s" "fst (ctx_new_tol_or_return (ctx s))" "mpr_top_of_the_loop os pa mm len s = Some t"
  shows "mpr_inv os t" "pages t = []" "in_maps t x \<Longrightarrow> snd (mpr_saved t) x = pmem s x"
proof -
  have "mpr_inv os t \<and> pages t = [] \<and> (\<forall>x. in_maps t x \<longrightarrow> snd (mpr_saved t) x = pmem s x)"
  proof (cases "mpr_inv os s")
    case True
    have "proc_maps t = proc_maps s" and r: "mpr_inv os t" "mpr_saved t = mpr_visible s" "pages t = []"
      using mpr_top_law [OF True assms(2), of pa mm len] assms(3) by auto
    then have "in_maps t x = in_maps s x" for x by (simp add: in_maps_def)
    then show ?thesis using r by (simp add: mpr_visible_def)
  next
    case False
    let ?s = "s\<lparr>ctx := snd (ctx_new_tol_or_return (ctx s))\<rparr>"
    have i0: "initialized (ctx ?s) = 0" and pr: "protects os"
      and al: "\<And>w ls e. mpr_maps os w = Some ls \<Longrightarrow> Some e \<in> set ls \<Longrightarrow>
        page_of (vm_start e) = vm_start e \<and> page_of (vm_end e) = vm_end e"
      using assms(1) False by (auto simp: mpr_ready_def ctx_new_tol_or_return_def)
    obtain u v where u: "ltckpt_init_mpr os pa mm len ?s = Some u" and v: "ltckpt_checkpoint os u = Some v"
      and t: "t = upd_ctx ctx_new_checkpoint v"
      using assms(2,3) i0 by (auto simp: mpr_top_of_the_loop_def case_prod_beta Let_def split: option.splits)
    note iu = ltckpt_init_mpr_inv [OF pr u al]
    have v': "mpr_inv os v" "mpr_saved v = mpr_visible u" "pages v = []" "proc_maps v = proc_maps u"
      using ltckpt_checkpoint_law [OF iu(1)] v by auto
    have "mpr_inv os t \<and> mpr_saved t = mpr_saved v" "pages t = []" "in_maps t x = in_maps u x" for x
      using mpr_ctx_only [of "ctx_new_checkpoint (ctx v)" v] v'
      by (simp_all add: t upd_ctx_def ctx_new_checkpoint_def in_maps_def)
    then show ?thesis using v'(2) iu(3) by (simp add: mpr_visible_def)
  qed
  then show "mpr_inv os t" "pages t = []" "in_maps t x \<Longrightarrow> snd (mpr_saved t) x = pmem s x" by blast+
qed

text \<open>Which writes a run may contain: within a page of a checkpointed area.\<close>

definition mpr_op_ok :: "'w mpr_state \<Rightarrow> va \<times> u8 list \<Rightarrow> bool" where
  "mpr_op_ok s p \<longleftrightarrow> in_maps s (fst p)
     \<and> list_all (\<lambda>i. page_of (fst p + word_of_nat i) = page_of (fst p)) [0..<length (snd p)]"

lemma mpr_ops_bound:
  assumes "mpr_inv os s" "list_all (mpr_op_ok s) ps"
    "card (fst ` set (pages s) \<union> (page_of \<circ> fst) ` set ps) \<le> MPROTECT_MAX_PAGES"
  shows "ops_ok mpr_ok (mpr_write os) ps s"
  using assms
proof (induction ps arbitrary: s)
  case (Cons p ps)
  have "length (pages s) < MPROTECT_MAX_PAGES" if "page_of (fst p) \<notin> fst ` set (pages s)"
  proof -
    have "length (pages s) = card (fst ` set (pages s))"
      using Cons.prems(1) distinct_card [of "map fst (pages s)"] by (simp add: mpr_inv_def)
    also have "\<dots> < card (insert (page_of (fst p)) (fst ` set (pages s)))" using that by simp
    also have "\<dots> \<le> card (fst ` set (pages s) \<union> (page_of \<circ> fst) ` set (p # ps))" by (rule card_mono) auto
    finally show ?thesis using Cons.prems(3) by linarith
  qed
  then have ok: "mpr_ok p s" using Cons.prems(2) by (auto simp: mpr_ok_def mpr_op_ok_def)
  from mpr_step [OF Cons.prems(1) ok] obtain t where t: "mpr_write os p s = Some t" "mpr_inv os t"
    "proc_maps t = proc_maps s" "fst ` set (pages t) = insert (page_of (fst p)) (fst ` set (pages s))" by blast
  have "mpr_op_ok t = mpr_op_ok s" using t(3) by (simp add: mpr_op_ok_def in_maps_def fun_eq_iff)
  then have "ops_ok mpr_ok (mpr_write os) ps t"
    using Cons.prems(2,3) t(4) by (intro Cons.IH [OF t(2)]) simp_all
  then show ?case using ok t(1) by simp
qed simp

section \<open>Properties\<close>

text \<open>
  C5: from a checkpoint on, whether or not it is the one that initialises the
  mechanism, every sequence of writes into the checkpointed areas that touches at most
  1000 pages is carried out, each write either directly or after the fault handler has
  run, and every byte the areas held at the checkpoint is preserved: in the copy of its
  page when the page was written to, in place otherwise.
\<close>

theorem mprotect_preserves_checkpoint:
  assumes "mpr_ready os s" "fst (ctx_new_tol_or_return (ctx s))" "mpr_top_of_the_loop os pa mm len s = Some s1"
    "list_all (mpr_op_ok s1) ps" "length (remdups (map (page_of \<circ> fst) ps)) \<le> MPROTECT_MAX_PAGES"
  shows "\<exists>t. run_ops (mpr_write os) ps s1 = Some t
     \<and> (\<forall>x. in_maps s1 x \<longrightarrow> pmem s x =
          (case map_of (pages t) (page_of x) of None \<Rightarrow> pmem t x | Some i \<Rightarrow> mpr_mem t i ! unat (x mod 4096)))"
proof -
  note r = mpr_top_ready [OF assms(1-3)]
  have "card ((page_of \<circ> fst) ` set ps) \<le> MPROTECT_MAX_PAGES"
    using assms(5) by (simp add: length_remdups_card_conv image_comp)
  then have ok: "ops_ok mpr_ok (mpr_write os) ps s1" using r(1,2) assms(4) by (intro mpr_ops_bound) simp_all
  obtain t where t: "run_ops (mpr_write os) ps s1 = Some t" "mpr_saved t = mpr_saved s1"
    using mpr.run_saved [OF r(1) ok] by blast
  have "in_maps t x = in_maps s1 x" for x using t(2) by (simp add: mpr_saved_def in_maps_def)
  then have "pmem s x = mpr_saved_byte t x" if "in_maps s1 x" for x
    using r(3) [OF that] that arg_cong [OF t(2), of "\<lambda>v. snd v x"] by (simp add: mpr_saved_def)
  then show ?thesis using t(1) by (auto simp: mpr_saved_byte_def)
qed

definition demo_vma :: util_proc_maps_entry where
  "demo_vma = \<lparr>vm_start = 0x1000, vm_end = 0x3000, pm_r = CHR ''r'', pm_w = CHR ''w'', pm_x = CHR ''-'', pm_s = CHR ''p'',
     pgoff = 0, pm_major = 0, pm_minor = 0, ino = 0, pm_name = ''[heap]''\<rparr>"

definition demo_addrs :: proc_addrs where
  "demo_addrs = \<lparr>tls_addr = 0x9000, heap_addr = 0x1000, prog_data_addr = 0x8000\<rparr>"

definition demo_mpr_os :: "unit mpr_os" where
  "demo_mpr_os = \<lparr>sys_mprotect = (\<lambda>addr len prot (p, w).
       (0, (\<lambda>x. if x \<in> block addr (unat len) then prot AND PROT_WRITE \<noteq> 0 else p x), w)),
     mpr_mmap = (\<lambda>addr len prot flags w. (addr, w)), mpr_maps = (\<lambda>w. Some [Some demo_vma]),
     mpr_mapped = (\<lambda>_. True), install_handler = (\<lambda>w. (0, w))\<rparr>"

definition demo_mpr :: "unit mpr_state" where
  "demo_mpr = \<lparr>pmem = (\<lambda>x. ucast x),
     ctx = \<lparr>lazy_init = 1, skip_mmap = 1, initialized = 0, atexit_dump = 0, exited = 0, allow_prctl = 0,
       checkpoint_interval = 1, pgfault_nesting_level = 0, page_statistic_enabled = 0, approach = ''mprotect'',
       errors = 0, num_cows = 0, num_tols = 0, num_checkpoints = 0, max_log_size = 0, num_aop_funcs = 0,
       num_aop_tols = 0\<rparr>,
     windows = (\<lambda>_. undefined), current_window = 0, rcvry_current_site_id = 0, rcvry_libcall_gates = (\<lambda>_. 0),
     rcvry_infos = (\<lambda>_. undefined), rcvry_current_tx_type = 0,
     pages = [], iter_pages = [], mpr_mem = (\<lambda>_. []), num_mem_pages = 0, proc_maps = [], writable = (\<lambda>_. True), mw = ()\<rparr>"

lemma demo_mpr_top:
  "\<exists>s1. mpr_top_of_the_loop demo_mpr_os demo_addrs 0x400000 0x2000 demo_mpr = Some s1 \<and> proc_maps s1 = [demo_vma]"
  by (simp add: mpr_top_of_the_loop_def demo_mpr_def demo_mpr_os_def demo_addrs_def demo_vma_def ctx_new_tol_or_return_def
      ltckpt_init_mpr_def ltkcpt_ctx_get_buff_def util_proc_maps_parse_filter_def ltckpt_init_mpr_cb_def
      ltcpt_is_checkpointed_vma_def ENTRY_NAME_STARTS_def ENTRY_NAME_CONTAINS_def ENTRY_CONTAINS_ADDR_def
      util_proc_maps_remove_unmapped_def ltckpt_mprotect_vmas_def ltckpt_mprotect_vma_def ltckpt_mprotect_mem_def
      ltckpt_checkpoint_def ltckpt_page_list_clear_and_iter_def ltckpt_mem_flush_def upd_ctx_def Let_def)

theorem mprotect_preserves_checkpoint_witness:
  "\<exists>s1 t. mpr_top_of_the_loop demo_mpr_os demo_addrs 0x400000 0x2000 demo_mpr = Some s1
     \<and> run_ops (mpr_write demo_mpr_os) [(0x1010, [1, 2]), (0x1800, [3]), (0x2FFF, [4])] s1 = Some t
     \<and> 0x11 = (case map_of (pages t) (page_of 0x1011) of None \<Rightarrow> pmem t 0x1011 | Some i \<Rightarrow> mpr_mem t i ! unat (0x1011 mod 4096 :: va))"
proof -
  have "protects demo_mpr_os" by (auto simp: protects_def demo_mpr_os_def)
  then have r: "mpr_ready demo_mpr_os demo_mpr"
    by (simp add: mpr_ready_def demo_mpr_def) (simp add: demo_mpr_os_def demo_vma_def page_of_def)
  have g: "fst (ctx_new_tol_or_return (ctx demo_mpr))" by (simp add: demo_mpr_def ctx_new_tol_or_return_def)
  obtain s1 where s1: "mpr_top_of_the_loop demo_mpr_os demo_addrs 0x400000 0x2000 demo_mpr = Some s1"
    "proc_maps s1 = [demo_vma]" using demo_mpr_top by blast
  have im: "in_maps s1 x \<longleftrightarrow> 0x1000 \<le> x \<and> x < 0x3000" for x
    by (simp add: in_maps_def s1(2) demo_vma_def ENTRY_CONTAINS_ADDR_def)
  have ok: "list_all (mpr_op_ok s1) [(0x1010, [1, 2]), (0x1800, [3]), (0x2FFF, [4])]"
    by (simp add: mpr_op_ok_def im page_of_def upt_rec)
  have n: "length (remdups (map (page_of \<circ> fst) [(0x1010, [1, 2]), (0x1800, [3]), (0x2FFF, [4])])) \<le> 1000"
    by (rule order_trans [OF length_remdups_leq]) simp
  have "in_maps s1 0x1011" "pmem demo_mpr 0x1011 = 0x11" by (simp_all add: im demo_mpr_def)
  then show ?thesis using mprotect_preserves_checkpoint [OF r g s1(1) ok n] s1(1) by metis
qed

end
