(* ===== verification/Softdirty.thy ===== *)
theory Softdirty
  imports Pagemap Mprotect
begin

text \<open>
  The soft-dirty mechanism (\<open>static/ltckpt/mechanisms/ltckpt_softdirty.c\<close>): at a checkpoint
  the pages the kernel reports as written since the last one are copied, and the kernel's
  marks are cleared.

  None is a run that does not return (see Pagemap) or \<open>ltckpt_panic\<close>.  The state of the
  mechanism lies in a chunk of its own, outside the memory it saves; printing is left out.
\<close>

section \<open>ltckpt_softdirty.c\<close>

abbreviation (input) "SOFTDIRTY_MAX_PAGES \<equiv> 1000 :: nat"
abbreviation (input) "PAGE_STAT_SIZE \<equiv> 50000 :: nat"
abbreviation (input) "PAGE_NUM_HIST_SIZE \<equiv> 200000 :: nat"

text \<open>
  The statistics of pages are the used part of \<open>page_statistics_mem\<close>; the hash table over
  it finds the element with a given address.
\<close>

record 'w sd_state = runtime +
  sd_mem :: "nat \<Rightarrow> u8 list"
  sd_num_mem_pages :: nat
  sd_maps :: "util_proc_maps_entry list"
  page_statistics :: "(va \<times> u32) list"
  page_num_hist :: "nat \<Rightarrow> nat"
  page_num_hist_len :: nat
  stats_enabled :: int
  pagemap :: util_pagemap
  sdw :: 'w

record 'w sd_os =
  sd_pm :: "'w pm_os"
  sd_getpid :: int
  sd_mmap :: "'w mmap_call"
  sd_proc_maps :: "'w \<Rightarrow> util_proc_maps_entry option list option"
  sd_mapped :: "u64 \<Rightarrow> bool"

definition sd_top_of_the_loop_cb :: "'w sd_state walk_cb" where
  "sd_top_of_the_loop_cb entry addr s =
     (if \<not> sd_num_mem_pages s < SOFTDIRTY_MAX_PAGES then None
      else Some (0, s\<lparr>sd_mem := (sd_mem s)(sd_num_mem_pages s := mem_read (pmem s) addr (unat PAGE_SIZE)),
                      sd_num_mem_pages := sd_num_mem_pages s + 1,
                      ctx := (ctx s)\<lparr>num_cows := num_cows (ctx s) + 1\<rparr>\<rparr>))"

primrec count_page :: "va \<Rightarrow> (va \<times> u32) list \<Rightarrow> (va \<times> u32) list" where
  "count_page addr [] = []"
| "count_page addr (p # ps) = (if fst p = addr then (addr, snd p + 1) # ps else p # count_page addr ps)"

definition sd_top_of_the_loop_stat_cb :: "'w sd_state walk_cb" where
  "sd_top_of_the_loop_stat_cb entry addr s =
     (let found = (map_of (page_statistics s) addr \<noteq> None)
      in if \<not> found \<and> length (page_statistics s) \<ge> PAGE_STAT_SIZE then None
         else let st = (if found then page_statistics s else page_statistics s @ [(addr, 0)])
              in sd_top_of_the_loop_cb entry addr (s\<lparr>page_statistics := count_page addr st\<rparr>))"

definition ltckpt_init_softdirty_cb :: "proc_addrs \<Rightarrow> ltckpt_ctx \<Rightarrow> va \<Rightarrow> util_proc_maps_entry \<Rightarrow> util_proc_maps_parse_ret" where
  "ltckpt_init_softdirty_cb pa c softdirty e =
     (if vm_start e = softdirty then UTIL_PROC_MAPS_RET_CONTINUE
      else if \<not> ltcpt_is_checkpointed_vma pa c e then UTIL_PROC_MAPS_RET_CONTINUE
      else UTIL_PROC_MAPS_RET_SAVE)"

text \<open>
  The chunk for the state is fresh memory, hence zeros; without one the first write
  through the NULL pointer faults, None.  \<open>ltckpt_ctx_set\<close> copies the context into the
  chunk and goes on with the copy.  \<open>sz\<close> is the size of the state, which the buffer of
  the page map follows.
\<close>

definition ltckpt_init_softdirty :: "'w sd_os \<Rightarrow> proc_addrs \<Rightarrow> va \<Rightarrow> u64 \<Rightarrow> 'w sd_state \<Rightarrow> 'w sd_state option" where
  "ltckpt_init_softdirty os pa min_mmap_addr sz s =
     (let (buff, w) = ltkcpt_ctx_get_buff (sd_mmap os) min_mmap_addr (sz + UTIL_PAGEMMAP_DEFAULT_BUFF_SIZE) (sdw s)
      in case buff of
           None \<Rightarrow> None
         | Some softdirty \<Rightarrow>
             (let s = s\<lparr>ctx := (ctx s)\<lparr>initialized := 1\<rparr>, sd_mem := (\<lambda>_. replicate 4096 0), sd_num_mem_pages := 0,
                        page_num_hist := (\<lambda>_. 0), stats_enabled := page_statistic_enabled (ctx s),
                        page_statistics := [], page_num_hist_len := 0\<rparr>;
                  (ret, es) = util_proc_maps_parse_filter (sd_mapped os) (sd_proc_maps os w)
                                (Some (ltckpt_init_softdirty_cb pa (ctx s) softdirty))
              in if ret \<noteq> 0 then None
                 else case util_pagemap_init (sd_pm os) (sd_getpid os)
                             \<lparr>pm_map = 0, pm_buff_len = 0, pm_fd = 0, pm_cr_fd = 0, pm_pid = 0\<rparr>
                             (softdirty + sz) UTIL_PAGEMMAP_DEFAULT_BUFF_SIZE w of
                        None \<Rightarrow> None
                      | Some (ret, pm, w) \<Rightarrow>
                          if ret \<noteq> 0 then None
                          else case util_pagemap_clear_refs (sd_pm os) pm CR_SOFTDIRTY w of
                                 None \<Rightarrow> None
                               | Some (ret, w) \<Rightarrow>
                                   if ret < 0 then None else Some (s\<lparr>sd_maps := es, pagemap := pm, sdw := w\<rparr>)))"

definition record_hist :: "'w sd_state \<Rightarrow> 'w sd_state" where
  "record_hist s =
     (if stats_enabled s \<noteq> 0
      then let s = s\<lparr>page_num_hist := (page_num_hist s)(page_num_hist_len s := sd_num_mem_pages s),
                     page_num_hist_len := page_num_hist_len s + 1\<rparr>
           in if page_num_hist_len s \<ge> PAGE_NUM_HIST_SIZE then s\<lparr>page_num_hist_len := 0\<rparr> else s
      else s)"

definition sd_top_of_the_loop :: "'w sd_os \<Rightarrow> proc_addrs \<Rightarrow> va \<Rightarrow> u64 \<Rightarrow> 'w sd_state \<Rightarrow> 'w sd_state option" where
  "sd_top_of_the_loop os pa min_mmap_addr sz s =
     (let (go, c) = ctx_new_tol_or_return (ctx s); s = s\<lparr>ctx := c\<rparr>
      in if \<not> go then Some s
      else case (if initialized (ctx s) = 0 then ltckpt_init_softdirty os pa min_mmap_addr sz s else Some s) of
             None \<Rightarrow> None
           | Some s \<Rightarrow>
               (let s = (record_hist s)\<lparr>sd_num_mem_pages := 0\<rparr>
                in case util_pagemap_proc_walk (sd_pm os) (pagemap s) (sd_maps s) PME_SOFT_DIRTY
                          (if stats_enabled s \<noteq> 0 then sd_top_of_the_loop_stat_cb else sd_top_of_the_loop_cb)
                          s (sdw s) of
                     None \<Rightarrow> None
                   | Some (ret, s, w) \<Rightarrow>
                       if ret < 0 then None
                       else case util_pagemap_clear_refs (sd_pm os) (pagemap s) CR_SOFTDIRTY w of
                              None \<Rightarrow> None
                            | Some (ret, w) \<Rightarrow>
                                if ret < 0 then None
                                else Some (s\<lparr>sdw := w, ctx := ctx_new_checkpoint (ctx s)\<rparr>)))"

definition sd_late_init_hook :: "'w sd_os \<Rightarrow> proc_addrs \<Rightarrow> va \<Rightarrow> u64 \<Rightarrow> 'w sd_state \<Rightarrow> 'w sd_state option" where
  "sd_late_init_hook os pa min_mmap_addr sz s =
     (if lazy_init (ctx s) = 0 \<and> checkpoint_interval (ctx s) \<noteq> 0
      then ltckpt_init_softdirty os pa min_mmap_addr sz s else Some s)"

section \<open>A checkpoint saves the dirty pages\<close>

text \<open>The effect of both callbacks on the state.\<close>

definition save_page :: "va \<Rightarrow> 'w sd_state \<Rightarrow> 'w sd_state option" where
  "save_page a s = map_option snd (sd_top_of_the_loop_cb 0 a s)"

definition count_save_page :: "va \<Rightarrow> 'w sd_state \<Rightarrow> 'w sd_state option" where
  "count_save_page a s = map_option snd (sd_top_of_the_loop_stat_cb 0 a s)"

lemma plain_callbacks:
  "plain_cb sd_top_of_the_loop_cb save_page" "plain_cb sd_top_of_the_loop_stat_cb count_save_page"
  by (simp_all add: plain_cb_def save_page_def count_save_page_def sd_top_of_the_loop_cb_def
      sd_top_of_the_loop_stat_cb_def Let_def)

definition page_count :: "'w sd_state \<Rightarrow> va \<Rightarrow> u32" where
  "page_count s a = (case map_of (page_statistics s) a of None \<Rightarrow> 0 | Some n \<Rightarrow> n)"

lemma map_of_count_page:
  "map_of (count_page a ps) b = (if b = a then map_option (\<lambda>n. n + 1) (map_of ps a) else map_of ps b)"
  by (induction ps) auto

lemma length_count_page [simp]: "length (count_page a ps) = length ps"
  by (induction ps) auto

text \<open>
  What saving the pages \<open>ps\<close> makes of a state: the copies follow those already there, and
  only the counters of the context and, with statistics, of the pages move on.
\<close>

definition saves :: "bool \<Rightarrow> va list \<Rightarrow> 'w sd_state \<Rightarrow> 'w sd_state \<Rightarrow> bool" where
  "saves st ps s t \<longleftrightarrow>
     map (sd_mem t) [0..<sd_num_mem_pages t] =
       map (sd_mem s) [0..<sd_num_mem_pages s] @ map (\<lambda>p. mem_read (pmem s) p 4096) ps \<and>
     ctx t = (ctx s)\<lparr>num_cows := num_cows (ctx s) + of_nat (length ps)\<rparr> \<and>
     pmem t = pmem s \<and> pagemap t = pagemap s \<and> sd_maps t = sd_maps s \<and> sdw t = sdw s \<and>
     (\<forall>a. page_count t a = page_count s a + (if st then of_nat (count_list ps a) else 0)) \<and>
     length (page_statistics t) \<le> length (page_statistics s) + (if st then length ps else 0)"

lemma saves_length: "saves st ps s t \<Longrightarrow> sd_num_mem_pages t = sd_num_mem_pages s + length ps"
  unfolding saves_def by (drule conjunct1, drule arg_cong [where f = length]) simp

lemma saves_Nil: "saves st [] s s"
  by (simp add: saves_def)

lemma saves_Cons: "saves st [p] s t \<Longrightarrow> saves st ps t u \<Longrightarrow> saves st (p # ps) s u"
  unfolding saves_def by (auto simp: algebra_simps)

lemma save_page_cases:
  "if sd_num_mem_pages s < SOFTDIRTY_MAX_PAGES then \<exists>t. save_page a s = Some t \<and> saves False [a] s t
   else save_page a s = None"
  by (simp add: save_page_def sd_top_of_the_loop_cb_def saves_def page_count_def)

lemma count_save_page_cases:
  assumes "length (page_statistics s) < PAGE_STAT_SIZE"
  shows "if sd_num_mem_pages s < SOFTDIRTY_MAX_PAGES then \<exists>t. count_save_page a s = Some t \<and> saves True [a] s t
         else count_save_page a s = None"
  using assms
  by (auto simp: count_save_page_def sd_top_of_the_loop_stat_cb_def sd_top_of_the_loop_cb_def saves_def
      page_count_def map_of_count_page Let_def map_add_def split: option.splits)

lemma foldm_saves:
  assumes step: "\<And>a s. (st \<longrightarrow> length (page_statistics s) < PAGE_STAT_SIZE) \<Longrightarrow>
      if sd_num_mem_pages s < SOFTDIRTY_MAX_PAGES then \<exists>t. f a s = Some t \<and> saves st [a] s t else f a s = None"
    and "st \<longrightarrow> length (page_statistics s) + length ps \<le> PAGE_STAT_SIZE"
    and "sd_num_mem_pages s \<le> SOFTDIRTY_MAX_PAGES"
  shows "if sd_num_mem_pages s + length ps \<le> SOFTDIRTY_MAX_PAGES
         then \<exists>t. foldm f ps s = Some t \<and> saves st ps s t else foldm f ps s = None"
  using assms(2,3)
proof (induction ps arbitrary: s)
  case Nil
  then show ?case by (simp add: saves_Nil)
next
  case (Cons p ps)
  have s: "st \<longrightarrow> length (page_statistics s) < PAGE_STAT_SIZE" using Cons.prems(1) by auto
  show ?case
  proof (cases "sd_num_mem_pages s < SOFTDIRTY_MAX_PAGES")
    case True
    then obtain t where t: "f p s = Some t" "saves st [p] s t" using step [OF s, of p] by auto
    have "st \<longrightarrow> length (page_statistics t) + length ps \<le> PAGE_STAT_SIZE"
      using t(2) Cons.prems(1) by (auto simp: saves_def)
    moreover have n: "sd_num_mem_pages t = Suc (sd_num_mem_pages s)" using saves_length [OF t(2)] by simp
    ultimately have "if sd_num_mem_pages t + length ps \<le> SOFTDIRTY_MAX_PAGES
         then \<exists>u. foldm f ps t = Some u \<and> saves st ps t u else foldm f ps t = None"
      using True by (intro Cons.IH) auto
    then show ?thesis using t(1) n saves_Cons [OF t(2)] by (auto split: if_splits)
  next
    case False
    then show ?thesis using step [OF s, of p] by simp
  qed
qed

lemma walk_saves:
  assumes k: "soft_dirty_kernel os dirty busy (pagemap s)"
    and len: "pm_buff_len (pagemap s) = UTIL_PAGEMMAP_DEFAULT_BUFF_SIZE"
    and al: "areas_aligned es"
    and ps: "ps = filter (dirty w) (maps_pages es)"
    and room: "st \<longrightarrow> length (page_statistics s) + length ps \<le> PAGE_STAT_SIZE"
    and n: "sd_num_mem_pages s = 0"
  shows "let r = util_pagemap_proc_walk os (pagemap s) es PME_SOFT_DIRTY
                   (if st then sd_top_of_the_loop_stat_cb else sd_top_of_the_loop_cb) s w
         in if length ps \<le> SOFTDIRTY_MAX_PAGES then \<exists>t w'. r = Some (0, t, w') \<and> dirty w' = dirty w \<and> saves st ps s t
            else r = None"
proof -
  let ?f = "if st then count_save_page else save_page"
  let ?cb = "if st then sd_top_of_the_loop_stat_cb else sd_top_of_the_loop_cb"
  have "if sd_num_mem_pages s + length ps \<le> SOFTDIRTY_MAX_PAGES
        then \<exists>t. foldm ?f ps s = Some t \<and> saves st ps s t else foldm ?f ps s = None"
  proof (rule foldm_saves)
    show "if sd_num_mem_pages s < SOFTDIRTY_MAX_PAGES then \<exists>t. ?f a s = Some t \<and> saves st [a] s t else ?f a s = None"
      if "st \<longrightarrow> length (page_statistics s) < PAGE_STAT_SIZE" for a and s :: "'b sd_state"
      using that save_page_cases [of s a] count_save_page_cases [of s a] by (cases st) simp_all
  qed (use room n in simp_all)
  moreover have "plain_cb ?cb ?f" by (simp add: plain_callbacks)
  note proc_walk_dirty [OF k len this al, where w = w and s = s, folded ps]
  ultimately show ?thesis using n by (auto simp: Let_def split: if_splits option.splits)
qed

text \<open>The same without the bounds, for a walk that is known to return.\<close>

lemma callbacks_save:
  "save_page a s = Some t \<Longrightarrow> saves False [a] s t" "count_save_page a s = Some t \<Longrightarrow> saves True [a] s t"
  by (auto simp: save_page_def count_save_page_def sd_top_of_the_loop_stat_cb_def sd_top_of_the_loop_cb_def saves_def
      page_count_def map_of_count_page Let_def map_add_def split: option.splits if_splits)

lemma foldm_saves_if:
  assumes "\<And>a s t. f a s = Some t \<Longrightarrow> saves st [a] s t" "foldm f ps s = Some t"
  shows "saves st ps s t"
  using assms(2) by (induction ps arbitrary: s) (auto simp: saves_Nil split: option.splits intro: saves_Cons [OF assms(1)])

text \<open>What initialisation and every checkpoint leave behind.\<close>

definition sd_ready :: "'w sd_os \<Rightarrow> ('w \<Rightarrow> va \<Rightarrow> bool) \<Rightarrow> ('w \<Rightarrow> nat) \<Rightarrow> 'w sd_state \<Rightarrow> bool" where
  "sd_ready os dirty busy s \<longleftrightarrow>
     soft_dirty_kernel (sd_pm os) dirty busy (pagemap s) \<and>
     pm_buff_len (pagemap s) = UTIL_PAGEMMAP_DEFAULT_BUFF_SIZE \<and>
     areas_aligned (sd_maps s) \<and> initialized (ctx s) \<noteq> 0"

definition dirty_pages :: "('w \<Rightarrow> va \<Rightarrow> bool) \<Rightarrow> 'w sd_state \<Rightarrow> va list" where
  "dirty_pages dirty s = filter (dirty (sdw s)) (maps_pages (sd_maps s))"

text \<open>The state the walk of a checkpoint starts with.\<close>

definition sd_begin :: "'w sd_state \<Rightarrow> 'w sd_state" where
  "sd_begin s = (record_hist (s\<lparr>ctx := snd (ctx_new_tol_or_return (ctx s))\<rparr>))\<lparr>sd_num_mem_pages := 0\<rparr>"

lemma record_hist_simps [simp]:
  "pagemap (record_hist s) = pagemap s" "sd_maps (record_hist s) = sd_maps s" "sdw (record_hist s) = sdw s"
  "stats_enabled (record_hist s) = stats_enabled s" "pmem (record_hist s) = pmem s"
  "page_statistics (record_hist s) = page_statistics s" "ctx (record_hist s) = ctx s"
  by (simp_all add: record_hist_def Let_def)

lemma sd_begin_simps [simp]:
  "pagemap (sd_begin s) = pagemap s" "sd_maps (sd_begin s) = sd_maps s" "sdw (sd_begin s) = sdw s"
  "stats_enabled (sd_begin s) = stats_enabled s" "pmem (sd_begin s) = pmem s"
  "page_statistics (sd_begin s) = page_statistics s" "sd_num_mem_pages (sd_begin s) = 0"
  "ctx (sd_begin s) = (ctx s)\<lparr>num_tols := num_tols (ctx s) + 1\<rparr>"
  by (simp_all add: sd_begin_def ctx_new_tol_or_return_def)

abbreviation (input) "sd_walk os s \<equiv>
  util_pagemap_proc_walk (sd_pm os) (pagemap s) (sd_maps s) PME_SOFT_DIRTY
    (if stats_enabled s \<noteq> 0 then sd_top_of_the_loop_stat_cb else sd_top_of_the_loop_cb) (sd_begin s) (sdw s)"

lemma sd_top_of_the_loop_walk:
  assumes "sd_ready os dirty busy s" "fst (ctx_new_tol_or_return (ctx s))"
  shows "sd_top_of_the_loop os pa mm sz s =
      (case sd_walk os s of None \<Rightarrow> None
       | Some (ret, t, w) \<Rightarrow>
           if ret < 0 then None
           else case util_pagemap_clear_refs (sd_pm os) (pagemap t) CR_SOFTDIRTY w of
                  None \<Rightarrow> None
                | Some (ret, w) \<Rightarrow>
                    if ret < 0 then None else Some (t\<lparr>sdw := w, ctx := ctx_new_checkpoint (ctx t)\<rparr>))"
proof -
  have "initialized (snd (ctx_new_tol_or_return (ctx s))) \<noteq> 0"
    using assms(1) by (simp add: sd_ready_def ctx_new_tol_or_return_def)
  then show ?thesis
    using assms(2) by (simp add: sd_top_of_the_loop_def case_prod_beta Let_def sd_begin_def)
qed

lemma sd_top_saves:
  assumes "sd_ready os dirty busy s" "sd_walk os s = Some (0, t, w)" "saves st ps (sd_begin s) t"
    and "fst (ctx_new_tol_or_return (ctx s))"
  shows "\<exists>w'. sd_top_of_the_loop os pa mm sz s = Some (t\<lparr>sdw := w', ctx := ctx_new_checkpoint (ctx t)\<rparr>) \<and>
              dirty w' = (\<lambda>_. False)"
proof -
  have "pagemap t = pagemap s" using assms(3) by (simp add: saves_def)
  then obtain w' where "util_pagemap_clear_refs (sd_pm os) (pagemap t) CR_SOFTDIRTY w = Some (2, w')"
    "dirty w' = (\<lambda>_. False)"
    using pwrite_loop_returns [of "sd_pm os" dirty busy "pagemap s" w] assms(1) by (auto simp: sd_ready_def)
  then show ?thesis unfolding sd_top_of_the_loop_walk [OF assms(1,4)] using assms(2) by auto
qed

lemma sd_checkpoint:
  assumes "sd_ready os dirty busy s" "fst (ctx_new_tol_or_return (ctx s))"
    and "stats_enabled s \<noteq> 0 \<Longrightarrow> length (page_statistics s) + length (dirty_pages dirty s) \<le> PAGE_STAT_SIZE"
  shows "if length (dirty_pages dirty s) \<le> SOFTDIRTY_MAX_PAGES
         then \<exists>t w. sd_top_of_the_loop os pa mm sz s = Some (t\<lparr>sdw := w, ctx := ctx_new_checkpoint (ctx t)\<rparr>) \<and>
                dirty w = (\<lambda>_. False) \<and> saves (stats_enabled s \<noteq> 0) (dirty_pages dirty s) (sd_begin s) t
         else sd_top_of_the_loop os pa mm sz s = None"
proof -
  have w: "if length (dirty_pages dirty s) \<le> SOFTDIRTY_MAX_PAGES
       then \<exists>t w. sd_walk os s = Some (0, t, w) \<and> saves (stats_enabled s \<noteq> 0) (dirty_pages dirty s) (sd_begin s) t
       else sd_walk os s = None"
    using walk_saves [of "sd_pm os" dirty busy "sd_begin s" "sd_maps s" "dirty_pages dirty s" "sdw s"
        "stats_enabled s \<noteq> 0"] assms(1,3)
    by (auto simp: sd_ready_def dirty_pages_def Let_def split: if_splits)
  show ?thesis
  proof (cases "length (dirty_pages dirty s) \<le> SOFTDIRTY_MAX_PAGES")
    case True
    then obtain t w where t: "sd_walk os s = Some (0, t, w)"
      "saves (stats_enabled s \<noteq> 0) (dirty_pages dirty s) (sd_begin s) t" using w by auto
    then show ?thesis using True sd_top_saves [OF assms(1) t assms(2), of pa mm sz] by auto
  next
    case False
    then show ?thesis using w by (simp add: sd_top_of_the_loop_walk [OF assms(1,2)])
  qed
qed

text \<open>The application writes a byte, and the kernel marks its page.\<close>

definition sd_write :: "(va \<Rightarrow> 'w \<Rightarrow> 'w) \<Rightarrow> va \<times> u8 \<Rightarrow> 'w sd_state \<Rightarrow> 'w sd_state" where
  "sd_write touch p s = s\<lparr>pmem := (pmem s)(fst p := snd p), sdw := touch (fst p) (sdw s)\<rparr>"

definition marks_writes :: "('w \<Rightarrow> va \<Rightarrow> bool) \<Rightarrow> (va \<Rightarrow> 'w \<Rightarrow> 'w) \<Rightarrow> bool" where
  "marks_writes dirty touch \<longleftrightarrow> (\<forall>a w p. dirty w p \<or> p = page_of a \<longrightarrow> dirty (touch a w) p)"

lemma area_pages_aligned: "a mod PAGE_SIZE = 0 \<Longrightarrow> p \<in> set (area_pages a n) \<Longrightarrow> p mod PAGE_SIZE = 0"
proof (induction n arbitrary: a)
  case (Suc n)
  from Suc.prems(2) have "p = a \<or> p \<in> set (area_pages (a + PAGE_SIZE) n)" by simp
  moreover have "(a + PAGE_SIZE) mod PAGE_SIZE = 0"
    using page_aligned_add [OF Suc.prems(1), of 1] unfolding mult_1 .
  ultimately show ?case using Suc.IH [of "a + PAGE_SIZE"] Suc.prems(1) by (elim disjE) simp_all
qed simp

lemma page_of_area:
  assumes "p \<in> set (maps_pages es)" "areas_aligned es"
  shows "page_of p = p"
proof -
  obtain e where e: "e \<in> set es" "p \<in> set (area_pages (vm_start e) (unat ((vm_end e - vm_start e) div PAGE_SIZE)))"
    using assms(1) by (auto simp: maps_pages_def)
  have "vm_start e mod PAGE_SIZE = 0" using assms(2) e(1) unfolding areas_aligned_def list_all_iff by blast
  from area_pages_aligned [OF this e(2)] show ?thesis unfolding page_of_def by (metis diff_zero)
qed

text \<open>The application between two checkpoints: writes, and iterations of the main loop that take none.\<close>

inductive sd_app :: "'w sd_os \<Rightarrow> (va \<Rightarrow> 'w \<Rightarrow> 'w) \<Rightarrow> proc_addrs \<Rightarrow> va \<Rightarrow> u64 \<Rightarrow> 'w sd_state \<Rightarrow> 'w sd_state \<Rightarrow> bool"
  for os touch pa mm sz s where
  sd_app_refl: "sd_app os touch pa mm sz s s"
| sd_app_write: "sd_app os touch pa mm sz s t \<Longrightarrow> sd_app os touch pa mm sz s (sd_write touch p t)"
| sd_app_skip: "sd_app os touch pa mm sz s t \<Longrightarrow> \<not> fst (ctx_new_tol_or_return (ctx t)) \<Longrightarrow>
    sd_top_of_the_loop os pa mm sz t = Some u \<Longrightarrow> sd_app os touch pa mm sz s u"

text \<open>The states right after the initialisation or a checkpoint.\<close>

inductive sd_fresh :: "'w sd_os \<Rightarrow> (va \<Rightarrow> 'w \<Rightarrow> 'w) \<Rightarrow> proc_addrs \<Rightarrow> va \<Rightarrow> u64 \<Rightarrow> 'w sd_state \<Rightarrow> bool"
  for os touch pa mm sz where
  sd_fresh_init: "ltckpt_init_softdirty os pa mm sz s = Some t \<Longrightarrow> sd_fresh os touch pa mm sz t"
| sd_fresh_ckpt: "sd_fresh os touch pa mm sz s \<Longrightarrow> sd_app os touch pa mm sz s t \<Longrightarrow>
    fst (ctx_new_tol_or_return (ctx t)) \<Longrightarrow> sd_top_of_the_loop os pa mm sz t = Some u \<Longrightarrow>
    sd_fresh os touch pa mm sz u"

definition sd_kernel :: "'w sd_os \<Rightarrow> ('w \<Rightarrow> va \<Rightarrow> bool) \<Rightarrow> ('w \<Rightarrow> nat) \<Rightarrow> bool" where
  "sd_kernel os dirty busy \<longleftrightarrow>
     (\<forall>pm. soft_dirty_kernel (sd_pm os) dirty busy pm) \<and>
     (\<forall>w ls e. sd_proc_maps os w = Some ls \<longrightarrow> Some e \<in> set ls \<longrightarrow>
        vm_start e mod PAGE_SIZE = 0 \<and> (vm_end e - vm_start e) mod PAGE_SIZE = 0)"

lemma skipped:
  "\<not> fst (ctx_new_tol_or_return (ctx t)) \<Longrightarrow>
   sd_top_of_the_loop os pa mm sz t = Some (t\<lparr>ctx := snd (ctx_new_tol_or_return (ctx t))\<rparr>)"
  by (simp add: sd_top_of_the_loop_def case_prod_beta Let_def)

lemma sd_app_frame:
  assumes "sd_app os touch pa mm sz s t"
  shows "pagemap t = pagemap s \<and> sd_maps t = sd_maps s \<and> initialized (ctx t) = initialized (ctx s)"
  using assms by induction (auto simp: sd_write_def skipped ctx_new_tol_or_return_def)

lemma sd_ready_app:
  "sd_ready os dirty busy s \<Longrightarrow> sd_app os touch pa mm sz s t \<Longrightarrow> sd_ready os dirty busy t"
  using sd_app_frame by (fastforce simp: sd_ready_def)

lemma write_other_page:
  assumes "page_of p = p" "p \<noteq> page_of a"
  shows "mem_read (m(a := b)) p 4096 = mem_read m p 4096"
proof (rule mem_read_cong_block)
  show "(m(a := b)) x = m x" if "x \<in> block p 4096" for x
    using that assms page_block [of x p] by auto
qed simp

lemma unmarked_unchanged:
  assumes "sd_app os touch pa mm sz s t" "marks_writes dirty touch" "page_of p = p" "\<not> dirty (sdw t) p"
  shows "mem_read (pmem t) p 4096 = mem_read (pmem s) p 4096"
  using assms(1,4)
proof induction
  case (sd_app_write t q)
  then have "\<not> dirty (sdw t) p" "p \<noteq> page_of (fst q)" using assms(2) by (auto simp: marks_writes_def sd_write_def)
  then show ?case using sd_app_write.IH write_other_page [OF assms(3), of "fst q" "pmem t" "snd q"]
    by (simp add: sd_write_def fun_upd_def)
qed (auto simp: skipped)


lemma util_pagemap_init_len:
  "util_pagemap_init os pid pm a UTIL_PAGEMMAP_DEFAULT_BUFF_SIZE w = Some (0, pm', w') \<Longrightarrow>
   pm_buff_len pm' = UTIL_PAGEMMAP_DEFAULT_BUFF_SIZE"
  by (auto simp: util_pagemap_init_def Let_def split: prod.splits if_splits)

lemma sd_init_ready:
  assumes k: "sd_kernel os dirty busy" and i: "ltckpt_init_softdirty os pa mm sz s = Some t"
  shows "sd_ready os dirty busy t \<and> (\<forall>p. \<not> dirty (sdw t) p)"
proof -
  obtain w0 cb es a w1 pm w2 r w3 where p: "util_proc_maps_parse_filter (sd_mapped os) (sd_proc_maps os w0) cb = (0, es)"
    and pm: "util_pagemap_init (sd_pm os) (sd_getpid os) \<lparr>pm_map = 0, pm_buff_len = 0, pm_fd = 0, pm_cr_fd = 0, pm_pid = 0\<rparr>
      a UTIL_PAGEMMAP_DEFAULT_BUFF_SIZE w1 = Some (0, pm, w2)"
    and c: "util_pagemap_clear_refs (sd_pm os) pm CR_SOFTDIRTY w2 = Some (r, w3)"
    and t: "sd_maps t = es" "pagemap t = pm" "sdw t = w3" "initialized (ctx t) = 1"
    using i by (auto simp: ltckpt_init_softdirty_def Let_def split: prod.splits option.splits if_splits)
  have "areas_aligned es"
    using parse_filter_entries [OF p] k unfolding sd_kernel_def areas_aligned_def list_all_iff by blast
  moreover have kp: "soft_dirty_kernel (sd_pm os) dirty busy pm" using k by (simp add: sd_kernel_def)
  moreover have "\<not> dirty w3 p" for p using pwrite_loop_returns [OF kp, of w2] c by auto
  ultimately show ?thesis using util_pagemap_init_len [OF pm] by (simp add: sd_ready_def t)
qed

lemma sd_walk_saves_if:
  assumes "sd_ready os dirty busy s" "sd_walk os s = Some (ret, t, w)"
  shows "ret = 0 \<and> saves (stats_enabled s \<noteq> 0) (dirty_pages dirty s) (sd_begin s) t"
proof -
  let ?f = "if stats_enabled s \<noteq> 0 then count_save_page else save_page"
  let ?cb = "if stats_enabled s \<noteq> 0 then sd_top_of_the_loop_stat_cb else sd_top_of_the_loop_cb"
  have "plain_cb ?cb ?f" by (simp add: plain_callbacks)
  from proc_walk_dirty [OF _ _ this, where w = "sdw s" and s = "sd_begin s" and es = "sd_maps s"] assms
  have f: "ret = 0" "foldm ?f (dirty_pages dirty s) (sd_begin s) = Some t"
    by (fastforce simp: sd_ready_def dirty_pages_def split: option.splits)+
  moreover have "saves (stats_enabled s \<noteq> 0) (dirty_pages dirty s) (sd_begin s) t"
    by (rule foldm_saves_if [OF _ f(2)]) (simp split: if_splits add: callbacks_save)
  ultimately show ?thesis by simp
qed

lemma sd_fresh_ready:
  assumes "sd_fresh os touch pa mm sz s" "sd_kernel os dirty busy"
  shows "sd_ready os dirty busy s \<and> (\<forall>p. \<not> dirty (sdw s) p)"
  using assms(1)
proof induction
  case (sd_fresh_init s t)
  then show ?case by (rule sd_init_ready [OF assms(2)])
next
  case (sd_fresh_ckpt s t u)
  then have r: "sd_ready os dirty busy t" using sd_ready_app by blast
  obtain ret v w where v: "sd_walk os t = Some (ret, v, w)"
    using sd_fresh_ckpt.hyps(4) unfolding sd_top_of_the_loop_walk [OF r sd_fresh_ckpt.hyps(3)]
    by (auto split: option.splits)
  note sv = sd_walk_saves_if [OF r v]
  obtain w' where "u = v\<lparr>sdw := w', ctx := ctx_new_checkpoint (ctx v)\<rparr>" "dirty w' = (\<lambda>_. False)"
    using sd_top_saves [OF r v [unfolded sv [THEN conjunct1]] sv [THEN conjunct2] sd_fresh_ckpt.hyps(3), of pa mm sz]
      sd_fresh_ckpt.hyps(4) by auto
  then show ?case using r sv by (simp add: sd_ready_def saves_def ctx_new_checkpoint_def)
qed

text \<open>A kernel that interrupts as many calls as the second component of its world says.\<close>

definition demo_pm_os :: "((va \<Rightarrow> bool) \<times> nat) pm_os" where
  "demo_pm_os = \<lparr>pm_open = (\<lambda>pid f w. (3, w)), pm_close = (\<lambda>fd w. w), pm_mmap = (\<lambda>a l p f w. (a, w)),
     pm_munmap = (\<lambda>a l w. (0, w)),
     pm_pread = (\<lambda>fd sz off (d, n).
        if n > 0 then ((- 1, EINTR, []), (d, n - 1))
        else ((uint sz, 0, map (\<lambda>i. if d ((off div 8 + of_nat i) * PAGE_SIZE) then PME_SOFT_DIRTY else 0)
                             [0..<unat (sz div 8)]), (d, n))),
     pm_pwrite = (\<lambda>fd v sz (d, n).
        if n > 0 then ((- 1, EINTR), (d, n - 1)) else ((2, 0), ((\<lambda>_. False), n)))\<rparr>"

lemma demo_kernel: "soft_dirty_kernel demo_pm_os fst snd pm"
  by (auto simp: soft_dirty_kernel_def demo_pm_os_def again_def split: if_splits)

definition demo_touch :: "va \<Rightarrow> (va \<Rightarrow> bool) \<times> nat \<Rightarrow> (va \<Rightarrow> bool) \<times> nat" where
  "demo_touch a w = ((fst w)(page_of a := True), 2)"

definition demo_sd_os :: "((va \<Rightarrow> bool) \<times> nat) sd_os" where
  "demo_sd_os = \<lparr>sd_pm = demo_pm_os, sd_getpid = 1, sd_mmap = (\<lambda>a l p f w. (a, w)),
     sd_proc_maps = (\<lambda>w. Some [Some demo_vma]), sd_mapped = (\<lambda>a. True)\<rparr>"

definition demo_sd :: "((va \<Rightarrow> bool) \<times> nat) sd_state" where
  "demo_sd = \<lparr>pmem = (\<lambda>x. ucast x), ctx = (ctx demo_mpr)\<lparr>initialized := 1\<rparr>,
     windows = (\<lambda>_. undefined), current_window = 0, rcvry_current_site_id = 0, rcvry_libcall_gates = (\<lambda>_. 0),
     rcvry_infos = (\<lambda>_. undefined), rcvry_current_tx_type = 0,
     sd_mem = (\<lambda>_. []), sd_num_mem_pages = 0, sd_maps = [demo_vma], page_statistics = [(0x2000, 4)],
     page_num_hist = (\<lambda>_. 0), page_num_hist_len = 0, stats_enabled = 1,
     pagemap = \<lparr>pm_map = 0x500000, pm_buff_len = UTIL_PAGEMMAP_DEFAULT_BUFF_SIZE, pm_fd = 3, pm_cr_fd = 3, pm_pid = 1\<rparr>,
     sdw = ((\<lambda>p. p = 0x2000), 2)\<rparr>"

lemma demo_sd_pages: "maps_pages [demo_vma] = [0x1000, 0x2000]"
proof -
  have "unat ((vm_end demo_vma - vm_start demo_vma) div PAGE_SIZE) = Suc (Suc 0)" by (simp add: demo_vma_def)
  then show ?thesis by (simp add: maps_pages_def) (simp add: demo_vma_def)
qed

lemma demo_sd_kernel: "sd_kernel demo_sd_os fst snd"
  by (simp add: sd_kernel_def demo_sd_os_def demo_kernel demo_vma_def)

text \<open>
  C8: The soft-dirty mechanism saves exactly what changed.  When an initialised
  mechanism takes a checkpoint and at most 1000 pages of its areas are dirty, the hook
  returns (however often the kernel interrupts its reads), the saved pages are the
  contents of the dirty pages in the order of the areas, every mark of the kernel is
  cleared, the counters of copies and checkpoints and, with statistics, those of the
  pages move on by exactly these pages, and memory is unchanged.  With more dirty pages
  the hook does not return: its assertion fails.
\<close>

theorem softdirty_saves_dirty_pages:
  assumes "sd_ready os dirty busy s" "fst (ctx_new_tol_or_return (ctx s))"
    and ps: "ps = dirty_pages dirty s"
    and "stats_enabled s \<noteq> 0 \<Longrightarrow> length (page_statistics s) + length ps \<le> PAGE_STAT_SIZE"
  shows "if length ps \<le> SOFTDIRTY_MAX_PAGES
         then \<exists>t. sd_top_of_the_loop os pa mm sz s = Some t \<and>
                map (sd_mem t) [0..<sd_num_mem_pages t] = map (\<lambda>p. mem_read (pmem s) p 4096) ps \<and>
                (\<forall>p. \<not> dirty (sdw t) p) \<and>
                num_cows (ctx t) = num_cows (ctx s) + of_nat (length ps) \<and>
                num_checkpoints (ctx t) = num_checkpoints (ctx s) + 1 \<and>
                (\<forall>a. page_count t a = page_count s a + (if stats_enabled s \<noteq> 0 then of_nat (count_list ps a) else 0)) \<and>
                pmem t = pmem s
         else sd_top_of_the_loop os pa mm sz s = None"
proof (cases "length ps \<le> SOFTDIRTY_MAX_PAGES")
  case True
  then obtain t w where "sd_top_of_the_loop os pa mm sz s = Some (t\<lparr>sdw := w, ctx := ctx_new_checkpoint (ctx t)\<rparr>)"
    "dirty w = (\<lambda>_. False)" "saves (stats_enabled s \<noteq> 0) ps (sd_begin s) t"
    using sd_checkpoint [OF assms(1,2), of pa mm sz] assms(4) unfolding ps by auto
  then show ?thesis using True by (simp add: saves_def page_count_def ctx_new_checkpoint_def)
next
  case False
  then show ?thesis using sd_checkpoint [OF assms(1,2), of pa mm sz] assms(4) unfolding ps by auto
qed

theorem softdirty_saves_dirty_pages_witness:
  "\<exists>t. sd_top_of_the_loop demo_sd_os demo_addrs 0x400000 0x2000 demo_sd = Some t \<and>
       map (sd_mem t) [0..<sd_num_mem_pages t] = [mem_read (pmem demo_sd) 0x2000 4096] \<and> page_count t 0x2000 = 5"
proof -
  have r: "sd_ready demo_sd_os fst snd demo_sd"
    by (simp add: sd_ready_def demo_sd_def demo_sd_os_def demo_kernel areas_aligned_def) (simp add: demo_vma_def)
  have g: "fst (ctx_new_tol_or_return (ctx demo_sd))"
    by (simp add: demo_sd_def demo_mpr_def ctx_new_tol_or_return_def)
  have p: "[0x2000] = dirty_pages fst demo_sd" by (simp add: dirty_pages_def demo_sd_def demo_sd_pages)
  have "page_count demo_sd 0x2000 = 4" "stats_enabled demo_sd = 1" "length (page_statistics demo_sd) = 1"
    by (simp_all add: page_count_def demo_sd_def)
  then show ?thesis
    using softdirty_saves_dirty_pages [OF r g p, of demo_addrs "0x400000" "0x2000"] by auto
qed

text \<open>
  C7: No change is missed.  In any run of the soft-dirty mechanism from its
  initialisation on, with writes of the application and iterations without a checkpoint
  in between, the next checkpoint of at most 1000 dirty pages is taken, and every page
  of the checkpointed areas that differs from the last checkpoint is among the saved
  pages, with its contents.
\<close>

theorem softdirty_misses_no_change:
  assumes "sd_kernel os dirty busy" "marks_writes dirty touch"
    and "sd_fresh os touch pa mm sz s" "sd_app os touch pa mm sz s t"
    and "fst (ctx_new_tol_or_return (ctx t))" "length (dirty_pages dirty t) \<le> SOFTDIRTY_MAX_PAGES"
    and "stats_enabled t = 0 \<or> length (page_statistics t) + length (dirty_pages dirty t) \<le> PAGE_STAT_SIZE"
  shows "\<exists>u. sd_top_of_the_loop os pa mm sz t = Some u \<and> sd_fresh os touch pa mm sz u \<and>
           (\<forall>p \<in> set (maps_pages (sd_maps s)). mem_read (pmem t) p 4096 \<noteq> mem_read (pmem s) p 4096 \<longrightarrow>
              (\<exists>i < sd_num_mem_pages u. sd_mem u i = mem_read (pmem t) p 4096))"
proof -
  have r: "sd_ready os dirty busy t" and m: "sd_maps t = sd_maps s"
    using sd_fresh_ready [OF assms(3,1)] sd_ready_app [OF _ assms(4)] sd_app_frame [OF assms(4)] by auto
  obtain v w where u: "sd_top_of_the_loop os pa mm sz t = Some (v\<lparr>sdw := w, ctx := ctx_new_checkpoint (ctx v)\<rparr>)"
    and v: "saves (stats_enabled t \<noteq> 0) (dirty_pages dirty t) (sd_begin t) v"
    using sd_checkpoint [OF r assms(5), of pa mm sz] assms(6,7) by auto
  have "\<exists>i < sd_num_mem_pages v. sd_mem v i = mem_read (pmem t) p 4096"
    if p: "p \<in> set (maps_pages (sd_maps s))" "mem_read (pmem t) p 4096 \<noteq> mem_read (pmem s) p 4096" for p
  proof -
    have "page_of p = p" using page_of_area [OF p(1)] r m by (simp add: sd_ready_def)
    then have "dirty (sdw t) p" using unmarked_unchanged [OF assms(4,2)] p(2) by blast
    then have "mem_read (pmem t) p 4096 \<in> set (map (sd_mem v) [0..<sd_num_mem_pages v])"
      using v p(1) m by (auto simp: saves_def dirty_pages_def)
    then show ?thesis by force
  qed
  then show ?thesis using u sd_fresh_ckpt [OF assms(3-5) u] by auto
qed

lemma demo_sd_init:
  "\<exists>s. ltckpt_init_softdirty demo_sd_os demo_addrs 0x400000 0x2000 (demo_sd\<lparr>sdw := ((\<lambda>_. True), 0)\<rparr>) = Some s \<and>
       sd_maps s = [demo_vma] \<and> pmem s = pmem demo_sd \<and> sdw s = ((\<lambda>_. False), 0) \<and> stats_enabled s = 0 \<and>
       fst (ctx_new_tol_or_return (ctx s))"
proof -
  have "pwrite_loop demo_pm_os 3 CR_SOFTDIRTY 2 (d, 0) = Some (2, ((\<lambda>_. False), 0))" for d
    by (subst pwrite_loop.simps) (simp add: demo_pm_os_def again_def)
  moreover have "pm_open demo_pm_os = (\<lambda>pid f w. (3, w))" by (simp add: demo_pm_os_def)
  ultimately show ?thesis
    by (simp add: ltckpt_init_softdirty_def ltkcpt_ctx_get_buff_def demo_sd_def demo_sd_os_def demo_mpr_def
        util_proc_maps_parse_filter_def util_proc_maps_remove_unmapped_def ltckpt_init_softdirty_cb_def
        ltcpt_is_checkpointed_vma_def demo_vma_def demo_addrs_def ENTRY_NAME_STARTS_def ENTRY_NAME_CONTAINS_def
        ENTRY_CONTAINS_ADDR_def util_pagemap_clear_refs_def ctx_new_tol_or_return_def Let_def util_pagemap_init_def)
qed

theorem softdirty_misses_no_change_witness:
  "\<exists>s u. pmem s = pmem demo_sd \<and>
     sd_top_of_the_loop demo_sd_os demo_addrs 0x400000 0x2000 (sd_write demo_touch (0x2010, 7) s) = Some u \<and>
     (\<exists>i < sd_num_mem_pages u. sd_mem u i = mem_read ((pmem demo_sd)(0x2010 := 7)) 0x2000 4096)"
proof -
  obtain s where s: "ltckpt_init_softdirty demo_sd_os demo_addrs 0x400000 0x2000 (demo_sd\<lparr>sdw := ((\<lambda>_. True), 0)\<rparr>) = Some s"
    "sd_maps s = [demo_vma]" "pmem s = pmem demo_sd" "sdw s = ((\<lambda>_. False), 0)" "stats_enabled s = 0"
    "fst (ctx_new_tol_or_return (ctx s))" using demo_sd_init by blast
  let ?t = "sd_write demo_touch (0x2010, 7) s"
  have f: "sd_fresh demo_sd_os demo_touch demo_addrs 0x400000 0x2000 s" using s(1) by (rule sd_fresh_init)
  have a: "sd_app demo_sd_os demo_touch demo_addrs 0x400000 0x2000 s ?t" by (intro sd_app_write sd_app_refl)
  have k: "marks_writes fst demo_touch" by (simp add: marks_writes_def demo_touch_def)
  have g: "fst (ctx_new_tol_or_return (ctx ?t))" "stats_enabled ?t = 0" using s(5,6) by (simp_all add: sd_write_def)
  have l: "length (dirty_pages fst ?t) \<le> SOFTDIRTY_MAX_PAGES"
    using s(2) length_filter_le [of _ "[0x1000, 0x2000 :: va]"]
    by (simp add: dirty_pages_def sd_write_def demo_sd_pages)
  have ne: "mem_read (pmem ?t) 0x2000 4096 \<noteq> mem_read (pmem s) 0x2000 4096"
  proof
    assume "mem_read (pmem ?t) 0x2000 4096 = mem_read (pmem s) 0x2000 4096"
    from arg_cong [OF this, of "\<lambda>l. l ! 16"] show False by (simp add: sd_write_def s(3) demo_sd_def)
  qed
  have p: "0x2000 \<in> set (maps_pages (sd_maps s))" by (simp add: s(2) demo_sd_pages)
  show ?thesis
    using softdirty_misses_no_change [OF demo_sd_kernel k f a g(1) l disjI1 [OF g(2)]] ne p s(3)
    by (auto simp: sd_write_def)
qed

end
