(* ===== verification/Bbtrace.thy ===== *)
theory Bbtrace
  imports Env
begin

text \<open>
  Tracing of basic blocks per recovery window (\<open>edfi_trace_init\<close> and \<open>edfi_trace_bb\<close> in
  \<open>static/edfi/df/edfi_df.c\<close>, \<open>_merge\<close> and \<open>rcvry_prof_bbtrace_flush\<close> in
  \<open>static/rcvry/rcvry_util.c\<close>): a table keeps a block from being recorded twice, and at
  the end of a window the recorded blocks are merged into the list of its site.

  An array with a length is the list of its first elements.  None is a failed
  assertion.
\<close>

section \<open>State\<close>

abbreviation (input) "EDFI_BB_TRACING_HASHLIST_SIZE \<equiv> 409600 :: u32"
abbreviation (input) "EDFI_BB_TRACING_HISTORY_SIZE \<equiv> 16384 :: nat"
abbreviation (input) "RCVRY_BBTRACING_MAXSIZE \<equiv> 16384 :: u32"

record bb_state =
  edfi_bbtrace_hashlist :: "u32 \<Rightarrow> u32"
  edfi_bbtrace_history :: "u32 list"
  edfi_bbtrace_startuplist :: "u32 \<Rightarrow> u32"
  edfi_bbtrace_num_bbs :: u32
  edfi_bbtrace_is_startup :: bool
  edfi_disable_tracing :: bool
  bb_site :: u32
  site_bbs :: "u32 \<Rightarrow> u32 list"

definition clear_hashlist :: "bb_state \<Rightarrow> bb_state" where
  "clear_hashlist s = s\<lparr>edfi_bbtrace_hashlist :=
     (\<lambda>i. if i < edfi_bbtrace_num_bbs s then 0 else edfi_bbtrace_hashlist s i)\<rparr>"

text \<open>\<open>disabled\<close> is what the constructor reads from \<open>DISABLE_BBTRACE_DUMP\<close>: None when it is not set.\<close>

definition edfi_trace_init :: "u32 \<Rightarrow> u64 option \<Rightarrow> bb_state \<Rightarrow> bb_state option" where
  "edfi_trace_init context_num_bbs disabled s =
     (if \<not> context_num_bbs < EDFI_BB_TRACING_HASHLIST_SIZE then None
      else let s = clear_hashlist (s\<lparr>edfi_bbtrace_num_bbs := context_num_bbs\<rparr>);
               s = s\<lparr>edfi_bbtrace_history := [], edfi_bbtrace_is_startup := True,
                     edfi_bbtrace_startuplist := (\<lambda>i. if i < EDFI_BB_TRACING_HASHLIST_SIZE then 0 else edfi_bbtrace_startuplist s i)\<rparr>
           in Some (case disabled of None \<Rightarrow> s | Some v \<Rightarrow> s\<lparr>edfi_disable_tracing := (v = 1)\<rparr>))"

definition edfi_trace_bb :: "u32 \<Rightarrow> bb_state \<Rightarrow> bb_state option" where
  "edfi_trace_bb bb_id s =
     (if edfi_disable_tracing s then Some s
      else if \<not> bb_id < edfi_bbtrace_num_bbs s then None
      else let new = (edfi_bbtrace_hashlist s bb_id = 0);
               s = (if new then s\<lparr>edfi_bbtrace_hashlist := (edfi_bbtrace_hashlist s)(bb_id := bb_id),
                                  edfi_bbtrace_history := edfi_bbtrace_history s @ [bb_id]\<rparr> else s)
      in if new \<and> \<not> length (edfi_bbtrace_history s) < EDFI_BB_TRACING_HISTORY_SIZE then None
         else Some (if edfi_bbtrace_is_startup s
                    then s\<lparr>edfi_bbtrace_startuplist := (edfi_bbtrace_startuplist s)(bb_id := bb_id)\<rparr> else s))"

section \<open>Merging\<close>

text \<open>The difference of two unsigned numbers, returned as a signed one.\<close>

definition qcmp :: "u32 \<Rightarrow> u32 \<Rightarrow> int" where
  "qcmp a b = sint (a - b)"

text \<open>\<open>qsort\<close> of the C library, for a comparison that is a total order on the elements.\<close>

fun qsort_insert :: "('a \<Rightarrow> 'a \<Rightarrow> int) \<Rightarrow> 'a \<Rightarrow> 'a list \<Rightarrow> 'a list" where
  "qsort_insert cmp x [] = [x]"
| "qsort_insert cmp x (y # ys) = (if cmp x y \<le> 0 then x # y # ys else y # qsort_insert cmp x ys)"

definition qsort :: "('a \<Rightarrow> 'a \<Rightarrow> int) \<Rightarrow> 'a list \<Rightarrow> 'a list" where
  "qsort cmp xs = foldr (qsort_insert cmp) xs []"

text \<open>The inner loop of the search for duplicates: the marked list and how many were marked.\<close>

definition mark_duplicates :: "u32 \<Rightarrow> u32 list \<times> u32 \<Rightarrow> u32 list \<times> u32" where
  "mark_duplicates x ld =
     (map (\<lambda>y. if y = x then 0 else y) (fst ld), snd ld + word_of_nat (length (filter ((=) x) (fst ld))))"

definition bb_merge :: "u32 list \<Rightarrow> u32 list \<Rightarrow> u32 \<Rightarrow> u32 list option" where
  "bb_merge list1 list2 maxsize =
     (let (list2, duplicates_found) = fold mark_duplicates list1 (qsort qcmp list2, 0)
      in if \<not> word_of_nat (length list1) + word_of_nat (length list2) - duplicates_found \<le> maxsize then None
         else Some (qsort qcmp (list1 @ filter (\<lambda>y. 0 \<noteq> y) list2)))"

definition rcvry_prof_bbtrace_flush :: "bb_state \<Rightarrow> bb_state option" where
  "rcvry_prof_bbtrace_flush s =
     (if edfi_disable_tracing s then Some s
      else case (if 0 \<noteq> bb_site s
                 then (case bb_merge (site_bbs s (bb_site s)) (edfi_bbtrace_history s) RCVRY_BBTRACING_MAXSIZE of
                         None \<Rightarrow> None
                       | Some l \<Rightarrow> Some (s\<lparr>site_bbs := (site_bbs s)(bb_site s := l)\<rparr>))
                 else Some s) of
             None \<Rightarrow> None
           | Some s \<Rightarrow> Some (clear_hashlist (s\<lparr>edfi_bbtrace_history := []\<rparr>)))"

section \<open>Lemmas\<close>

text \<open>Below \<open>2 ^ 31\<close> the comparison is the order of the numbers.\<close>

lemma sint_small:
  assumes "x < 0x80000000"
  shows "sint (x :: u32) = uint x"
proof -
  have "uint x < 2147483648" using assms by (simp add: word_less_def)
  moreover have "- 2147483648 \<le> uint x" using uint_ge_0 [of x] by linarith
  ultimately show ?thesis unfolding sint_uint by (intro signed_take_bit_int_eq_self) simp_all
qed

lemma qcmp_le:
  assumes "a < 0x80000000" "b < 0x80000000"
  shows "qcmp a b \<le> 0 \<longleftrightarrow> a \<le> b"
proof -
  have "uint a < 2147483648" "uint b < 2147483648" using assms by (simp_all add: word_less_def)
  moreover have "0 \<le> uint a" "0 \<le> uint b" by (rule uint_ge_0)+
  ultimately have r: "- 2147483648 \<le> uint a - uint b" "uint a - uint b < 2147483648" by linarith+
  have "sint (a - b) = signed_take_bit 31 (sint a - sint b)" by (simp add: sint_word_ariths(2))
  also have "\<dots> = uint a - uint b"
    using r unfolding sint_small [OF assms(1)] sint_small [OF assms(2)]
    by (intro signed_take_bit_int_eq_self) simp_all
  finally show ?thesis by (simp add: qcmp_def word_le_def)
qed

lemma qsort_insert_insort:
  "\<forall>y \<in> set (x # ys). y < 0x80000000 \<Longrightarrow> qsort_insert qcmp x ys = insort x ys"
  by (induction ys) (auto simp: qcmp_le)

lemma qsort_sort: "\<forall>y \<in> set xs. y < 0x80000000 \<Longrightarrow> qsort qcmp xs = sort xs"
proof (induction xs)
  case (Cons x xs)
  then have "qsort qcmp (x # xs) = qsort_insert qcmp x (sort xs)" by (simp add: qsort_def)
  also have "\<dots> = insort x (sort xs)" using Cons.prems by (intro qsort_insert_insort) simp
  finally show ?case by simp
qed (simp add: qsort_def)

lemma mark_other:
  assumes "0 \<notin> set xs" "x \<notin> set xs"
  shows "filter (\<lambda>y. y \<in> set xs) (map (\<lambda>y. if y = x then 0 else y) ys) = filter (\<lambda>y. y \<in> set xs) ys"
  using assms by (induction ys) auto

lemma filter_or_length:
  "x \<notin> set xs \<Longrightarrow> length (filter (\<lambda>y. y = x \<or> y \<in> set xs) ys) = length (filter ((=) x) ys) + length (filter (\<lambda>y. y \<in> set xs) ys)"
  by (induction ys) auto

lemma fold_mark:
  assumes "0 \<notin> set xs" "distinct xs"
  shows "fold mark_duplicates xs (ys, d)
     = (map (\<lambda>y. if y \<in> set xs then 0 else y) ys, d + word_of_nat (length (filter (\<lambda>y. y \<in> set xs) ys)))"
  using assms
proof (induction xs arbitrary: ys d)
  case (Cons x xs)
  then show ?case by (auto simp: mark_duplicates_def mark_other filter_or_length add.assoc)
qed simp

text \<open>Merging two lists of distinct blocks without 0 gives the sorted list of their union.\<close>

lemma bb_merge_union:
  assumes "distinct xs" "distinct ys" "0 \<notin> set xs" "0 \<notin> set ys" "\<forall>y \<in> set xs \<union> set ys. y < 0x80000000"
    "card (set xs \<union> set ys) \<le> unat maxsize" "length xs + length ys < 4294967296"
  shows "bb_merge xs ys maxsize = Some (sorted_list_of_set (set xs \<union> set ys))"
proof -
  let ?s = "sort ys" and ?d = "length (filter (\<lambda>y. y \<in> set xs) (sort ys))"
  let ?l = "xs @ filter (\<lambda>y. 0 \<noteq> y) (map (\<lambda>y. if y \<in> set xs then 0 else y) ?s)"
  have f: "filter (\<lambda>y. 0 \<noteq> y) (map (\<lambda>y. if y \<in> set xs then 0 else y) zs) = filter (\<lambda>y. y \<notin> set xs) zs"
    if "0 \<notin> set zs" for zs using that by (induction zs) auto
  have l: "?l = xs @ filter (\<lambda>y. y \<notin> set xs) ?s" using f [of ?s] assms(4) by simp
  have set_l: "set ?l = set xs \<union> set ys" "distinct ?l" unfolding l using assms(1,2) by auto
  have "length (filter (\<lambda>y. y \<notin> set xs) ?s) + ?d = length ys"
    using sum_length_filter_compl [of "\<lambda>y. y \<in> set xs" ?s] by simp
  moreover have "length ?l = card (set xs \<union> set ys)" using distinct_card [OF set_l(2)] set_l(1) by simp
  ultimately have n: "length xs + length ys = card (set xs \<union> set ys) + ?d" unfolding l by simp
  have "(word_of_nat (length xs) + word_of_nat (length ys) - word_of_nat ?d :: u32)
      = word_of_nat (length xs + length ys) - word_of_nat ?d" by simp
  also have "\<dots> = word_of_nat (card (set xs \<union> set ys))" unfolding n by simp
  finally have c: "word_of_nat (length xs) + word_of_nat (length ys) - word_of_nat ?d = (word_of_nat (card (set xs \<union> set ys)) :: u32)" .
  have "card (set xs \<union> set ys) < 4294967296" using n assms(7) by linarith
  then have "unat (word_of_nat (card (set xs \<union> set ys)) :: u32) = card (set xs \<union> set ys)"
    by (simp add: unat_of_nat take_bit_nat_eq_self)
  then have fit: "(word_of_nat (card (set xs \<union> set ys)) :: u32) \<le> maxsize" using assms(6) by (simp add: word_le_nat_alt)
  have "qsort qcmp ys = ?s" using assms(5) by (intro qsort_sort) simp
  then have "bb_merge xs ys maxsize = Some (qsort qcmp ?l)"
    using c fit by (simp add: bb_merge_def fold_mark [OF assms(3,1)] Let_def)
  also have "qsort qcmp ?l = sort ?l" using assms(5) set_l(1) by (intro qsort_sort) blast
  also have "\<dots> = sorted_list_of_set (set xs \<union> set ys)"
    using set_l by (intro sorted_distinct_set_unique) simp_all
  finally show ?thesis .
qed

text \<open>What the table and the history hold between two ends of windows.\<close>

definition bb_inv :: "bb_state \<Rightarrow> bool" where
  "bb_inv s \<longleftrightarrow> \<not> edfi_disable_tracing s \<and> distinct (edfi_bbtrace_history s) \<and> 0 \<notin> set (edfi_bbtrace_history s)
     \<and> edfi_bbtrace_num_bbs s < EDFI_BB_TRACING_HASHLIST_SIZE
     \<and> (\<forall>b \<in> set (edfi_bbtrace_history s). b < edfi_bbtrace_num_bbs s)
     \<and> (\<forall>b < edfi_bbtrace_num_bbs s. edfi_bbtrace_hashlist s b \<noteq> 0 \<longleftrightarrow> b \<in> set (edfi_bbtrace_history s))"

fun trace_run :: "u32 list \<Rightarrow> bb_state \<Rightarrow> bb_state option" where
  "trace_run [] s = Some s"
| "trace_run (b # bs) s = (case edfi_trace_bb b s of None \<Rightarrow> None | Some s \<Rightarrow> trace_run bs s)"

lemma trace_run_history:
  assumes "bb_inv s" "\<forall>b \<in> set bs. b \<noteq> 0 \<and> b < edfi_bbtrace_num_bbs s"
    "card (set (edfi_bbtrace_history s) \<union> set bs) < EDFI_BB_TRACING_HISTORY_SIZE"
  shows "\<exists>t. trace_run bs s = Some t \<and> bb_inv t \<and> set (edfi_bbtrace_history t) = set (edfi_bbtrace_history s) \<union> set bs
     \<and> site_bbs t = site_bbs s \<and> bb_site t = bb_site s \<and> edfi_bbtrace_num_bbs t = edfi_bbtrace_num_bbs s"
  using assms
proof (induction bs arbitrary: s)
  case (Cons b bs)
  let ?h = "edfi_bbtrace_history s"
  have b: "b \<noteq> 0" "b < edfi_bbtrace_num_bbs s" using Cons.prems(2) by simp_all
  have "\<exists>u. edfi_trace_bb b s = Some u \<and> bb_inv u \<and> set (edfi_bbtrace_history u) = insert b (set ?h)
      \<and> site_bbs u = site_bbs s \<and> bb_site u = bb_site s \<and> edfi_bbtrace_num_bbs u = edfi_bbtrace_num_bbs s"
  proof (cases "b \<in> set ?h")
    case True
    then have "edfi_bbtrace_hashlist s b \<noteq> 0" using Cons.prems(1) b by (simp add: bb_inv_def)
    then show ?thesis using Cons.prems(1) b True by (auto simp: edfi_trace_bb_def bb_inv_def Let_def)
  next
    case False
    then have new: "edfi_bbtrace_hashlist s b = 0" using Cons.prems(1) b unfolding bb_inv_def by blast
    have "length ?h = card (set ?h)" using Cons.prems(1) distinct_card [of ?h] by (simp add: bb_inv_def)
    also have "Suc \<dots> = card (insert b (set ?h))" using False by simp
    also have "\<dots> \<le> card (set ?h \<union> set (b # bs))" by (rule card_mono) auto
    finally have "Suc (length ?h) < EDFI_BB_TRACING_HISTORY_SIZE" using Cons.prems(3) by linarith
    then show ?thesis using Cons.prems(1) b False new by (auto simp: edfi_trace_bb_def bb_inv_def Let_def)
  qed
  then obtain u where u: "edfi_trace_bb b s = Some u" "bb_inv u" "set (edfi_bbtrace_history u) = insert b (set ?h)"
    "site_bbs u = site_bbs s" "bb_site u = bb_site s" "edfi_bbtrace_num_bbs u = edfi_bbtrace_num_bbs s" by blast
  have "\<exists>t. trace_run bs u = Some t \<and> bb_inv t \<and> set (edfi_bbtrace_history t) = set (edfi_bbtrace_history u) \<union> set bs
      \<and> site_bbs t = site_bbs u \<and> bb_site t = bb_site u \<and> edfi_bbtrace_num_bbs t = edfi_bbtrace_num_bbs u"
    using Cons.prems(2,3) u(3,6) by (intro Cons.IH [OF u(2)]) simp_all
  then show ?case using u by auto
qed simp

section \<open>Properties\<close>

text \<open>
  C14: after a window in which the blocks of any sequence were executed, in any order and
  any number of times, the list of its site is the sorted list of the blocks it had and
  the blocks executed, each once; the lists of other sites are unchanged and tracing
  starts afresh.  The blocks are numbered from 1 and the recorded ones fit the arrays.
\<close>

theorem bbtrace_window_collects:
  assumes "bb_inv s" "edfi_bbtrace_history s = []" "bb_site s \<noteq> 0"
    "list_all (\<lambda>b. b \<noteq> 0 \<and> b < edfi_bbtrace_num_bbs s) (bs @ site_bbs s (bb_site s))" "distinct (site_bbs s (bb_site s))"
    "card (set bs) < EDFI_BB_TRACING_HISTORY_SIZE" "card (set (site_bbs s (bb_site s)) \<union> set bs) \<le> unat RCVRY_BBTRACING_MAXSIZE"
  shows "\<exists>t u. trace_run bs s = Some t \<and> rcvry_prof_bbtrace_flush t = Some u
     \<and> site_bbs u = (site_bbs s)(bb_site s := sorted_list_of_set (set (site_bbs s (bb_site s)) \<union> set bs))
     \<and> bb_inv u \<and> edfi_bbtrace_history u = []"
proof -
  let ?l = "site_bbs s (bb_site s)"
  have ids: "\<forall>b \<in> set bs. b \<noteq> 0 \<and> b < edfi_bbtrace_num_bbs s" "\<forall>b \<in> set ?l. b \<noteq> 0 \<and> b < edfi_bbtrace_num_bbs s"
    using assms(4) by (simp_all add: list_all_iff)
  have "card (set (edfi_bbtrace_history s) \<union> set bs) < EDFI_BB_TRACING_HISTORY_SIZE" using assms(2,6) by simp
  from trace_run_history [OF assms(1) ids(1) this] obtain t where t: "trace_run bs s = Some t" "bb_inv t"
    "set (edfi_bbtrace_history t) = set bs" "site_bbs t = site_bbs s" "bb_site t = bb_site s"
    "edfi_bbtrace_num_bbs t = edfi_bbtrace_num_bbs s" using assms(2) by auto
  let ?h = "edfi_bbtrace_history t"
  have small: "x < 0x80000000" if "x < edfi_bbtrace_num_bbs s" for x
  proof -
    have "edfi_bbtrace_num_bbs s < 409600" using assms(1) by (simp add: bb_inv_def)
    then have "x < 409600" using that by (rule less_trans [rotated])
    then show ?thesis by (rule less_trans) simp
  qed
  have dh: "distinct ?h" "0 \<notin> set ?h" using t(2) by (simp_all add: bb_inv_def)
  have "length ?h = card (set bs)" using distinct_card [OF dh(1)] t(3) by simp
  moreover have "length ?l \<le> 16384"
  proof -
    have "length ?l = card (set ?l)" using distinct_card [OF assms(5)] by simp
    also have "\<dots> \<le> card (set ?l \<union> set bs)" by (rule card_mono) auto
    finally show ?thesis using assms(7) by simp
  qed
  ultimately have len: "length ?l + length ?h < 4294967296" using assms(6) by simp
  have "bb_merge ?l ?h RCVRY_BBTRACING_MAXSIZE = Some (sorted_list_of_set (set ?l \<union> set ?h))"
    using ids small t(3) assms(7) by (intro bb_merge_union [OF assms(5) dh(1) _ dh(2) _ _ len]) auto
  then have "rcvry_prof_bbtrace_flush t = Some (clear_hashlist (t\<lparr>site_bbs := (site_bbs s)(bb_site s :=
      sorted_list_of_set (set ?l \<union> set bs)), edfi_bbtrace_history := []\<rparr>))"
    using t(2-5) assms(3) by (simp add: rcvry_prof_bbtrace_flush_def bb_inv_def)
  moreover have "bb_inv (clear_hashlist (t\<lparr>site_bbs := x, edfi_bbtrace_history := []\<rparr>))" for x
    using t(2) by (simp add: bb_inv_def clear_hashlist_def)
  ultimately show ?thesis using t(1) by (simp add: clear_hashlist_def)
qed

definition demo_bb :: bb_state where
  "demo_bb = \<lparr>edfi_bbtrace_hashlist = (\<lambda>_. 0), edfi_bbtrace_history = [], edfi_bbtrace_startuplist = (\<lambda>_. 0),
     edfi_bbtrace_num_bbs = 100, edfi_bbtrace_is_startup = True, edfi_disable_tracing = False, bb_site = 3,
     site_bbs = (\<lambda>_. [4, 9])\<rparr>"

theorem bbtrace_window_collects_witness:
  "\<exists>t u. trace_run [7, 4, 7, 2] demo_bb = Some t \<and> rcvry_prof_bbtrace_flush t = Some u \<and> site_bbs u 3 = [2, 4, 7, 9]"
proof -
  have c: "bb_inv demo_bb" "edfi_bbtrace_history demo_bb = []" "bb_site demo_bb \<noteq> 0"
    "list_all (\<lambda>b. b \<noteq> 0 \<and> b < edfi_bbtrace_num_bbs demo_bb) ([7, 4, 7, 2] @ site_bbs demo_bb (bb_site demo_bb))"
    "distinct (site_bbs demo_bb (bb_site demo_bb))" "card (set [7, 4, 7, 2 :: u32]) < 16384"
    "card (set (site_bbs demo_bb (bb_site demo_bb)) \<union> set [7, 4, 7, 2]) \<le> unat (16384 :: u32)"
    by (simp_all add: demo_bb_def bb_inv_def card_insert_if)
  have "set (site_bbs demo_bb (bb_site demo_bb)) \<union> set [7, 4, 7, 2] = set [2, 4, 7, 9 :: u32]" by (auto simp: demo_bb_def)
  then have "sorted_list_of_set (set (site_bbs demo_bb (bb_site demo_bb)) \<union> set [7, 4, 7, 2]) = sort (remdups [2, 4, 7, 9])"
    by (simp only: sorted_list_of_set_sort_remdups)
  then have "sorted_list_of_set (set (site_bbs demo_bb (bb_site demo_bb)) \<union> set [7, 4, 7, 2]) = [2, 4, 7, 9]" by simp
  then show ?thesis using bbtrace_window_collects [OF c] by (auto simp: demo_bb_def)
qed

end
