(* ===== verification/Overrides.thy ===== *)
theory Overrides
  imports Mprotect
begin

text \<open>
  The wrappers of system calls of the page-protection mechanism
  (\<open>static/ltckpt/mechanisms/mprotect/mprotect_overrides.c\<close>).  The kernel does not run the
  fault handler when it writes to a protected page, it fails with \<open>EFAULT\<close>; so a wrapper
  writes to the buffers first, and then makes the call.

  The body of a wrapper is a function of the state, the call itself the parameter \<open>orig\<close>.
  The byte the checks pass through, \<open>ltckpt_check_write_sink\<close>, lies in the library and is
  not modelled.  None is a failed handler or an overflow of the loop's \<open>int\<close>.
\<close>

section \<open>The code\<close>

definition LTCKPT_CHECK_WRITE :: "'w mpr_os \<Rightarrow> va \<Rightarrow> 'w mpr_state \<Rightarrow> 'w mpr_state option" where
  "LTCKPT_CHECK_WRITE os b s = (if b \<noteq> 0 then mpr_write os (b, [pmem s b]) s else Some s)"

function check_pages :: "'w mpr_os \<Rightarrow> va \<Rightarrow> nat \<Rightarrow> nat \<Rightarrow> 'w mpr_state \<Rightarrow> 'w mpr_state option" where
  "check_pages os b n i s =
     (if i < n
      then if i \<ge> 2 ^ 31 then None
           else Option.bind (LTCKPT_CHECK_WRITE os (b + word_of_nat i) s) (check_pages os b n (i + 4096))
      else Some s)"
  by pat_completeness auto
termination
  by (relation "measure (\<lambda>(os, b, n, i, s). n - i)") auto

declare check_pages.simps [simp del]

definition LTCKPT_CHECK_BUFF :: "'w mpr_os \<Rightarrow> va \<Rightarrow> u64 \<Rightarrow> 'w mpr_state \<Rightarrow> 'w mpr_state option" where
  "LTCKPT_CHECK_BUFF os b n s =
     (if b \<noteq> 0 \<and> n > 0
      then Option.bind (check_pages os b (unat n) 0 s) (LTCKPT_CHECK_WRITE os (b + (n - 1)))
      else Some s)"

text \<open>The bodies of the wrappers.\<close>

type_synonym 'w body = "'w mpr_state \<Rightarrow> 'w mpr_state option"

definition epoll_wait_body :: "'w mpr_os \<Rightarrow> va \<Rightarrow> 'w body" where
  "epoll_wait_body os events s = LTCKPT_CHECK_WRITE os events s"

definition poll_body :: "'w mpr_os \<Rightarrow> va \<Rightarrow> 'w body" where
  "poll_body os fds s = LTCKPT_CHECK_WRITE os fds s"

definition select_body :: "'w mpr_os \<Rightarrow> va \<Rightarrow> va \<Rightarrow> va \<Rightarrow> 'w body" where
  "select_body os readfds writefds exceptfds s =
     Option.bind (LTCKPT_CHECK_WRITE os readfds s) (\<lambda>s.
     Option.bind (LTCKPT_CHECK_WRITE os writefds s) (\<lambda>s. LTCKPT_CHECK_WRITE os exceptfds s))"

definition read_body :: "'w mpr_os \<Rightarrow> va \<Rightarrow> u64 \<Rightarrow> 'w body" where
  "read_body os buf count s = LTCKPT_CHECK_BUFF os buf count s"

definition accept_body :: "'w mpr_os \<Rightarrow> va \<Rightarrow> va \<Rightarrow> 'w body" where
  "accept_body os addr addrlen s =
     Option.bind (LTCKPT_CHECK_WRITE os addr s) (\<lambda>s. LTCKPT_CHECK_WRITE os addrlen s)"

definition accept4_body :: "'w mpr_os \<Rightarrow> va \<Rightarrow> va \<Rightarrow> 'w body" where
  "accept4_body os addr addrlen s =
     Option.bind (LTCKPT_CHECK_WRITE os addr s) (\<lambda>s. LTCKPT_CHECK_WRITE os addrlen s)"

definition recv_body :: "'w mpr_os \<Rightarrow> va \<Rightarrow> u64 \<Rightarrow> 'w body" where
  "recv_body os buf len s = LTCKPT_CHECK_BUFF os buf len s"

definition recvfrom_body :: "'w mpr_os \<Rightarrow> va \<Rightarrow> u64 \<Rightarrow> va \<Rightarrow> va \<Rightarrow> 'w body" where
  "recvfrom_body os buf len src_addr addrlen s =
     Option.bind (LTCKPT_CHECK_BUFF os buf len s) (\<lambda>s.
     Option.bind (LTCKPT_CHECK_WRITE os src_addr s) (\<lambda>s. LTCKPT_CHECK_WRITE os addrlen s))"

text \<open>The part of \<open>struct msghdr\<close> the wrapper reads, with the vector as a list of base and length.\<close>

record msghdr =
  msg_control :: va
  msg_controllen :: u64
  msg_iov :: "(va \<times> u64) list"

fun check_iov :: "'w mpr_os \<Rightarrow> (va \<times> u64) list \<Rightarrow> 'w body" where
  "check_iov os [] s = Some s"
| "check_iov os (v # vs) s = Option.bind (LTCKPT_CHECK_BUFF os (fst v) (snd v) s) (check_iov os vs)"

definition recvmsg_body :: "'w mpr_os \<Rightarrow> va \<Rightarrow> msghdr \<Rightarrow> 'w body" where
  "recvmsg_body os msg h s =
     (if msg \<noteq> 0
      then Option.bind (LTCKPT_CHECK_BUFF os (msg_control h) (msg_controllen h) s) (\<lambda>s.
           Option.bind (check_iov os (msg_iov h) s) (\<lambda>s. LTCKPT_CHECK_WRITE os msg s))
      else Some s)"

definition semop_body :: "'w mpr_os \<Rightarrow> va \<Rightarrow> 'w body" where
  "semop_body os sops s = LTCKPT_CHECK_WRITE os sops s"

definition xstat_body :: "'w mpr_os \<Rightarrow> va \<Rightarrow> 'w body" where
  "xstat_body os buf s = LTCKPT_CHECK_WRITE os buf s"

definition fxstat_body :: "'w mpr_os \<Rightarrow> va \<Rightarrow> 'w body" where
  "fxstat_body os buf s = LTCKPT_CHECK_WRITE os buf s"

definition lxstat_body :: "'w mpr_os \<Rightarrow> va \<Rightarrow> 'w body" where
  "lxstat_body os buf s = LTCKPT_CHECK_WRITE os buf s"

definition LTCKPT_WRAPPER :: "'w body \<Rightarrow> ('w mpr_state \<Rightarrow> 'r) \<Rightarrow> 'w mpr_state \<Rightarrow> 'r option" where
  "LTCKPT_WRAPPER body orig s = map_option orig (body s)"

text \<open>\<open>stat\<close>, \<open>fstat\<close> and \<open>lstat\<close> check the buffer and call the wrapper of the internal function.\<close>

definition stat_wrap :: "'w mpr_os \<Rightarrow> va \<Rightarrow> ('w mpr_state \<Rightarrow> 'r) \<Rightarrow> 'w mpr_state \<Rightarrow> 'r option" where
  "stat_wrap os buf orig s =
     Option.bind (LTCKPT_CHECK_WRITE os buf s) (LTCKPT_WRAPPER (xstat_body os buf) orig)"

definition fstat_wrap :: "'w mpr_os \<Rightarrow> va \<Rightarrow> ('w mpr_state \<Rightarrow> 'r) \<Rightarrow> 'w mpr_state \<Rightarrow> 'r option" where
  "fstat_wrap os buf orig s =
     Option.bind (LTCKPT_CHECK_WRITE os buf s) (LTCKPT_WRAPPER (fxstat_body os buf) orig)"

definition lstat_wrap :: "'w mpr_os \<Rightarrow> va \<Rightarrow> ('w mpr_state \<Rightarrow> 'r) \<Rightarrow> 'w mpr_state \<Rightarrow> 'r option" where
  "lstat_wrap os buf orig s =
     Option.bind (LTCKPT_CHECK_WRITE os buf s) (LTCKPT_WRAPPER (lxstat_body os buf) orig)"

section \<open>What the checks do\<close>

lemma mpr_write_pmem:
  "mpr_write os p s = Some t \<Longrightarrow> pmem t = mem_write (pmem s) (fst p) (snd p)"
  by (auto simp: mpr_write_def ltckpt_sighandler_def ltckpt_page_list_add_def ltckpt_mprotect_mem_def upd_ctx_def Let_def
      split: option.splits if_splits prod.splits)

lemma mem_write_same_byte: "mem_write m a [m a] = m"
  using mem_write_read_id [of m a 1] by (simp add: mem_read_def)

text \<open>The states between the checks of a wrapper, and the room for the pages still to be checked.\<close>

definition checked :: "'w mpr_os \<Rightarrow> 'w mpr_state \<Rightarrow> va set \<Rightarrow> 'w mpr_state \<Rightarrow> bool" where
  "checked os s ps t \<longleftrightarrow> mpr_inv os t \<and> mpr_saved t = mpr_saved s \<and> proc_maps t = proc_maps s \<and> pmem t = pmem s \<and>
     fst ` set (pages t) = fst ` set (pages s) \<union> ps"

lemma checked_refl: "mpr_inv os s \<Longrightarrow> checked os s {} s"
  by (simp add: checked_def)

lemma check_write_law:
  assumes c: "checked os s ps t" and a: "in_maps s a" "a \<noteq> 0"
    and room: "card (fst ` set (pages s) \<union> insert (page_of a) ps) \<le> MPROTECT_MAX_PAGES"
  shows "\<exists>u. LTCKPT_CHECK_WRITE os a t = Some u \<and> checked os s (insert (page_of a) ps) u"
proof -
  have i: "mpr_inv os t" and im: "in_maps t a" using c a(1) by (simp_all add: checked_def in_maps_def)
  have "length (pages t) < MPROTECT_MAX_PAGES" if n: "page_of a \<notin> fst ` set (pages t)"
  proof -
    have "length (pages t) = card (fst ` set (pages t))"
      using i distinct_card [of "map fst (pages t)"] by (simp add: mpr_inv_def)
    also have "\<dots> < card (insert (page_of a) (fst ` set (pages t)))" using n by simp
    also have "insert (page_of a) (fst ` set (pages t)) = fst ` set (pages s) \<union> insert (page_of a) ps"
      using c by (auto simp: checked_def)
    finally show ?thesis using room by linarith
  qed
  then have "mpr_ok (a, [pmem t a]) t" using im by (auto simp: mpr_ok_def)
  from mpr_step [OF i this] obtain u where u: "mpr_write os (a, [pmem t a]) t = Some u" "mpr_inv os u" "mpr_saved u = mpr_saved t"
    "proc_maps u = proc_maps t" "fst ` set (pages u) = insert (page_of a) (fst ` set (pages t))" by auto
  have "pmem u = pmem t" using mpr_write_pmem [OF u(1)] by (simp add: mem_write_same_byte)
  then show ?thesis using u c a(2) by (auto simp: LTCKPT_CHECK_WRITE_def checked_def)
qed

text \<open>The pages the loop touches from an offset on, and those of a whole buffer.\<close>

definition step_pages :: "va \<Rightarrow> nat \<Rightarrow> nat \<Rightarrow> va set" where
  "step_pages b n i = (\<lambda>k. page_of (b + word_of_nat (i + 4096 * k))) ` {k. i + 4096 * k < n}"

definition buf_pages :: "va \<Rightarrow> nat \<Rightarrow> va set" where
  "buf_pages b n = (\<lambda>j. page_of (b + word_of_nat j)) ` {..<n}"

lemma step_pages_next: "i < n \<Longrightarrow> step_pages b n i = insert (page_of (b + word_of_nat i)) (step_pages b n (i + 4096))"
proof -
  assume i: "i < n"
  have "{k. i + 4096 * k < n} = insert 0 (Suc ` {k. i + 4096 + 4096 * k < n})"
  proof (intro equalityI subsetI)
    fix k assume "k \<in> {k. i + 4096 * k < n}"
    then show "k \<in> insert 0 (Suc ` {k. i + 4096 + 4096 * k < n})" by (cases k) auto
  qed (use i in auto)
  then show ?thesis by (simp add: step_pages_def image_image add.assoc)
qed

lemma step_pages_subset: "step_pages b n i \<subseteq> buf_pages b n"
  by (auto simp: step_pages_def buf_pages_def simp del: of_nat_add of_nat_mult)

lemma check_pages_law:
  assumes "checked os s ps t" "\<forall>j < n. in_maps s (b + word_of_nat j) \<and> b + word_of_nat j \<noteq> 0" "n \<le> 2 ^ 31"
    and "card (fst ` set (pages s) \<union> (ps \<union> step_pages b n i)) \<le> MPROTECT_MAX_PAGES" "finite ps"
  shows "\<exists>u. check_pages os b n i t = Some u \<and> checked os s (ps \<union> step_pages b n i) u"
  using assms(1,4,5)
proof (induction "n - i" arbitrary: i ps t rule: less_induct)
  case less
  show ?case
  proof (cases "i < n")
    case False
    then have "step_pages b n i = {}" by (auto simp: step_pages_def)
    then show ?thesis using less.prems(1) False by (subst check_pages.simps) simp
  next
    case True
    let ?p = "page_of (b + word_of_nat i)"
    have sp: "ps \<union> step_pages b n i = insert ?p ps \<union> step_pages b n (i + 4096)" using step_pages_next [OF True] by simp
    have fin: "finite (step_pages b n (i + 4096))"
      by (rule finite_subset [OF step_pages_subset]) (simp add: buf_pages_def)
    have "card (fst ` set (pages s) \<union> insert ?p ps) \<le> card (fst ` set (pages s) \<union> (ps \<union> step_pages b n i))"
      unfolding sp using less.prems(3) fin by (intro card_mono) auto
    then obtain u where u: "LTCKPT_CHECK_WRITE os (b + word_of_nat i) t = Some u" "checked os s (insert ?p ps) u"
      using check_write_law [OF less.prems(1), of "b + word_of_nat i"] assms(2) True less.prems(2) by auto
    have "\<exists>v. check_pages os b n (i + 4096) u = Some v \<and> checked os s (insert ?p ps \<union> step_pages b n (i + 4096)) v"
      using u(2) less.prems(2,3) True sp by (intro less.hyps) auto
    then show ?thesis using True assms(3) u(1) unfolding sp by (subst check_pages.simps) auto
  qed
qed

lemma page_of_eq: "page_of x = page_of y \<longleftrightarrow> unat x div 4096 = unat y div 4096"
  by (simp add: word_unat_eq_iff unat_page_of)

text \<open>Together with the last byte, the loop touches every page of the buffer.\<close>

lemma buf_pages_covered:
  assumes "0 < n" "unat b + n \<le> 2 ^ 64"
  shows "buf_pages b n = step_pages b n 0 \<union> {page_of (b + word_of_nat (n - 1))}"
proof
  have u: "unat (b + word_of_nat j) = unat b + j" if "j < n" for j
    using that assms(2) by (simp add: unat_word_ariths unat_of_nat)
  show "step_pages b n 0 \<union> {page_of (b + word_of_nat (n - 1))} \<subseteq> buf_pages b n"
    using step_pages_subset [of b n 0] imageI [of "n - 1" "{..<n}" "\<lambda>j. page_of (b + word_of_nat j)"] assms(1)
    unfolding buf_pages_def by simp
  show "buf_pages b n \<subseteq> step_pages b n 0 \<union> {page_of (b + word_of_nat (n - 1))}"
  proof
    fix p assume "p \<in> buf_pages b n"
    then obtain j where j: "j < n" "p = page_of (b + word_of_nat j)" by (auto simp: buf_pages_def)
    define k where "k = j div 4096"
    have k: "4096 * k \<le> j" "j < 4096 * k + 4096" using div_mult_mod_eq [of j 4096] mod_less_divisor [of 4096 j] by (simp_all add: k_def)
    have div_add: "(unat b + 4096 * m) div 4096 = unat b div 4096 + m" for m by simp
    consider "(unat b + j) div 4096 = (unat b + 4096 * k) div 4096"
      | "(unat b + j) div 4096 = (unat b + 4096 * Suc k) div 4096" "4096 * Suc k < n"
      | "(unat b + j) div 4096 = (unat b + (n - 1)) div 4096"
    proof -
      have lo: "unat b div 4096 + k \<le> (unat b + j) div 4096"
        using k(1) div_le_mono [of "unat b + 4096 * k" "unat b + j" 4096] by simp
      have hi: "(unat b + j) div 4096 \<le> unat b div 4096 + Suc k"
        using k(2) div_le_mono [of "unat b + j" "unat b + 4096 * Suc k" 4096] by simp
      have last: "(unat b + j) div 4096 \<le> (unat b + (n - 1)) div 4096" using j(1) by (intro div_le_mono) simp
      have end_: "n \<le> 4096 * Suc k \<Longrightarrow> (unat b + (n - 1)) div 4096 \<le> unat b div 4096 + Suc k"
        using div_le_mono [of "unat b + (n - 1)" "unat b + 4096 * Suc k" 4096] by simp
      show thesis
      proof (cases "(unat b + j) div 4096 = unat b div 4096 + k")
        case True
        then show ?thesis using that(1) by simp
      next
        case False
        then have q: "(unat b + j) div 4096 = unat b div 4096 + Suc k" using lo hi by simp
        show ?thesis
        proof (cases "4096 * Suc k < n")
          case True
          then show ?thesis using that(2) q div_add [of "Suc k"] by simp
        next
          case False
          then have "n \<le> 4096 * Suc k" by simp
          then have "(unat b + j) div 4096 = (unat b + (n - 1)) div 4096" using q last end_ by linarith
          then show ?thesis by (rule that(3))
        qed
      qed
    qed
    then show "p \<in> step_pages b n 0 \<union> {page_of (b + word_of_nat (n - 1))}"
    proof cases
      case 1
      then have "p = page_of (b + word_of_nat (4096 * k))" using j k u [of "4096 * k"] u [of j] by (simp add: page_of_eq)
      then show ?thesis using k j by (auto simp: step_pages_def)
    next
      case 2
      then have "p = page_of (b + word_of_nat (4096 * Suc k))" using j u [of "4096 * Suc k"] u [of j] by (simp add: page_of_eq del: mult_Suc_right)
      then have "p = (\<lambda>k. page_of (b + word_of_nat (0 + 4096 * k))) (Suc k)" by simp
      then have "p \<in> step_pages b n 0" unfolding step_pages_def by (rule image_eqI) (use 2(2) in simp)
      then show ?thesis by blast
    next
      case 3
      then show ?thesis using j assms(1) u [of "n - 1"] u [of j] by (simp add: page_of_eq)
    qed
  qed
qed

lemma check_buff_law:
  assumes i: "mpr_inv os s" and n: "0 < n" "unat n \<le> 2 ^ 31" "b \<noteq> 0" "unat b + unat n \<le> 2 ^ 64"
    and im: "\<forall>x \<in> block b (unat n). in_maps s x"
    and room: "card (fst ` set (pages s) \<union> buf_pages b (unat n)) \<le> MPROTECT_MAX_PAGES"
  shows "\<exists>t. LTCKPT_CHECK_BUFF os b n s = Some t \<and> checked os s (buf_pages b (unat n)) t"
proof -
  let ?n = "unat n" and ?last = "b + (n - 1)"
  have n0: "0 < ?n" using n(1) by (simp add: word_less_nat_alt)
  have u: "unat (b + word_of_nat j) = unat b + j" if "j < ?n" for j
    using that n(4) by (simp add: unat_word_ariths unat_of_nat)
  have l: "?last = b + word_of_nat (?n - 1)"
    using n0 by (simp add: of_nat_diff Suc_le_eq)
  have at: "in_maps s (b + word_of_nat j)" "b + word_of_nat j \<noteq> 0" if j: "j < ?n" for j
  proof -
    have "unat (word_of_nat j :: u64) = j" using j n(2) by (simp add: unat_of_nat)
    then show "in_maps s (b + word_of_nat j)" using im j by (simp add: block_iff)
    show "b + word_of_nat j \<noteq> 0" using u [OF j] n(3) by (metis add_is_0 unat_0 unat_eq_zero)
  qed
  have cov: "buf_pages b ?n = step_pages b ?n 0 \<union> {page_of ?last}" unfolding l by (rule buf_pages_covered [OF n0 n(4)])
  have fin: "finite (buf_pages b ?n)" by (simp add: buf_pages_def)
  have "card (fst ` set (pages s) \<union> ({} \<union> step_pages b ?n 0)) \<le> card (fst ` set (pages s) \<union> buf_pages b ?n)"
    using fin cov by (intro card_mono) auto
  then obtain t where t: "check_pages os b ?n 0 s = Some t" "checked os s (step_pages b ?n 0) t"
    using check_pages_law [OF checked_refl [OF i], of ?n b 0] at n(2) room by auto
  have "insert (page_of ?last) (step_pages b ?n 0) = buf_pages b ?n" using cov by auto
  then obtain v where "LTCKPT_CHECK_WRITE os ?last t = Some v" "checked os s (buf_pages b ?n) v"
    using check_write_law [OF t(2), of ?last] at [of "?n - 1"] n0 room unfolding l by auto
  then show ?thesis using t(1) n by (auto simp: LTCKPT_CHECK_BUFF_def)
qed

section \<open>Properties\<close>

text \<open>
  C9: The wrapper of \<open>read\<close> keeps the kernel away from protected pages.  For a buffer in
  the checkpointed areas that does not make more than 1000 pages dirty, the wrapper
  makes the original call in a state in which every page of the buffer is writable, so
  that the kernel's copy does not fail; up to that call the memory of the application is
  unchanged, and what the checkpoint saved is too.
\<close>

theorem read_wrapper_unprotects:
  assumes i: "mpr_inv os s" and n: "0 < n" "unat n \<le> 2 ^ 31" "b \<noteq> 0" "unat b + unat n \<le> 2 ^ 64"
    and im: "\<forall>x \<in> block b (unat n). in_maps s x"
    and room: "card (fst ` set (pages s) \<union> buf_pages b (unat n)) \<le> MPROTECT_MAX_PAGES"
  shows "\<exists>t. LTCKPT_WRAPPER (read_body os b n) orig s = Some (orig t) \<and>
           (\<forall>x \<in> block b (unat n). writable t (page_of x)) \<and>
           pmem t = pmem s \<and> mpr_saved t = mpr_saved s \<and> mpr_inv os t"
proof -
  obtain t where t: "LTCKPT_CHECK_BUFF os b n s = Some t" "checked os s (buf_pages b (unat n)) t"
    using check_buff_law [OF assms] by blast
  have it: "mpr_inv os t" "\<And>x. in_maps t x = in_maps s x" using t(2) by (simp_all add: checked_def in_maps_def)
  have "writable t (page_of x)" if x: "x \<in> block b (unat n)" for x
  proof -
    have "x = b + word_of_nat (unat (x - b))" by simp
    then have "page_of x = (\<lambda>j. page_of (b + word_of_nat j)) (unat (x - b))" by simp
    then have "page_of x \<in> buf_pages b (unat n)" unfolding buf_pages_def by (rule image_eqI) (use x in \<open>simp add: block_iff\<close>)
    then have "page_of x \<in> fst ` set (pages t)" using t(2) by (simp add: checked_def)
    moreover have "in_maps t (page_of x)" using in_maps_page [of t x] it im x by (simp add: mpr_inv_def)
    ultimately show ?thesis using it(1) by (simp add: mpr_inv_def)
  qed
  then show ?thesis using t by (auto simp: LTCKPT_WRAPPER_def read_body_def checked_def)
qed

lemma demo_mpr_inv:
  "\<exists>s1. mpr_top_of_the_loop demo_mpr_os demo_addrs 0x400000 0x2000 demo_mpr = Some s1 \<and>
        mpr_inv demo_mpr_os s1 \<and> pages s1 = [] \<and> proc_maps s1 = [demo_vma]"
proof -
  have "protects demo_mpr_os" by (auto simp: protects_def demo_mpr_os_def)
  then have r: "mpr_ready demo_mpr_os demo_mpr"
    by (simp add: mpr_ready_def demo_mpr_def) (simp add: demo_mpr_os_def demo_vma_def page_of_def)
  have g: "fst (ctx_new_tol_or_return (ctx demo_mpr))" by (simp add: demo_mpr_def ctx_new_tol_or_return_def)
  show ?thesis using demo_mpr_top mpr_top_ready [OF r g] by blast
qed

theorem read_wrapper_unprotects_witness:
  "\<exists>s1. mpr_top_of_the_loop demo_mpr_os demo_addrs 0x400000 0x2000 demo_mpr = Some s1 \<and>
     LTCKPT_WRAPPER (read_body demo_mpr_os 0x1800 0x1000) (\<lambda>s. writable s 0x1000 \<and> writable s 0x2000) s1 = Some True"
proof -
  obtain s1 where s1: "mpr_top_of_the_loop demo_mpr_os demo_addrs 0x400000 0x2000 demo_mpr = Some s1"
    "mpr_inv demo_mpr_os s1" "pages s1 = []" "proc_maps s1 = [demo_vma]" using demo_mpr_inv by blast
  have im: "in_maps s1 x" if "x \<in> block 0x1800 (unat (0x1000 :: u64))" for x
  proof -
    have y: "unat (x - 0x1800) < 4096" using that by (simp add: block_iff)
    have "unat x = unat ((x - 0x1800) + 0x1800)" by simp
    also have "\<dots> = unat (x - 0x1800) + 0x1800" using y by (subst unat_word_ariths) simp
    finally show ?thesis
      using y by (simp add: in_maps_def s1(4) demo_vma_def ENTRY_CONTAINS_ADDR_def word_le_nat_alt word_less_nat_alt)
  qed
  have sp: "step_pages 0x1800 4096 0 = {page_of 0x1800}" by (auto simp: step_pages_def)
  have "buf_pages 0x1800 4096 = {page_of 0x1800} \<union> {page_of (0x1800 + word_of_nat (4096 - 1))}"
    using buf_pages_covered [of 4096 "0x1800"] unfolding sp by simp
  then have "card (fst ` set (pages s1) \<union> buf_pages 0x1800 (unat (0x1000 :: u64))) \<le> MPROTECT_MAX_PAGES"
    using s1(3) card_insert_le_m1 [of 2 "{page_of (0x1800 + word_of_nat (4096 - 1))}"] by (simp add: card_insert_if)
  then have "\<exists>t. LTCKPT_WRAPPER (read_body demo_mpr_os 0x1800 0x1000) (\<lambda>s. writable s 0x1000 \<and> writable s 0x2000) s1 =
       Some (writable t 0x1000 \<and> writable t 0x2000) \<and>
     (\<forall>x \<in> block 0x1800 (unat (0x1000 :: u64)). writable t (page_of x)) \<and>
     pmem t = pmem s1 \<and> mpr_saved t = mpr_saved s1 \<and> mpr_inv demo_mpr_os t"
    by (intro read_wrapper_unprotects [OF s1(2)] ballI im) simp_all
  then obtain t where
    t: "LTCKPT_WRAPPER (read_body demo_mpr_os 0x1800 0x1000) (\<lambda>s. writable s 0x1000 \<and> writable s 0x2000) s1 =
       Some (writable t 0x1000 \<and> writable t 0x2000)"
    "\<forall>x \<in> block 0x1800 (unat (0x1000 :: u64)). writable t (page_of x)"
      "mpr_inv demo_mpr_os t"
    by (elim exE conjE) (rule that)
  have "writable t (page_of 0x1800)" "writable t (page_of 0x2000)"
    using t(2) by (simp_all add: block_iff)
  then show ?thesis using t(1) s1(1) by (simp add: page_of_def)
qed

text \<open>
  The checks of structures write to their first byte only: when the structure continues on
  the next page, that page is still protected at the call, which then fails.
\<close>

lemma xstat_leaves_second_page:
  assumes "mpr_inv os s" "in_maps s b" "b \<noteq> 0" "pages s = []" "in_maps s (page_of x)" "page_of x \<noteq> page_of b"
  shows "\<exists>t. xstat_body os b s = Some t \<and> \<not> writable t (page_of x)"
proof -
  obtain t where t: "LTCKPT_CHECK_WRITE os b s = Some t" "checked os s {page_of b} t"
    using check_write_law [OF checked_refl [OF assms(1)] assms(2,3)] assms(4) by auto
  then have "mpr_inv os t" "in_maps t (page_of x)" "fst ` set (pages t) = {page_of b}"
    using assms(4,5) by (simp_all add: checked_def in_maps_def)
  then have "\<not> writable t (page_of x)" using assms(6) by (simp add: mpr_inv_def)
  then show ?thesis using t(1) by (simp add: xstat_body_def)
qed

end
