(* ===== verification/Bufread.thy ===== *)
theory Bufread
  imports Prelude
begin

text \<open>
  Buffered reading of lines (\<open>include/common/util/bufread.h\<close>).  The buffer is the list of
  the bytes from \<open>start\<close> to \<open>end\<close> inclusive, \<open>ptr\<close> an offset from \<open>start\<close>; the destination
  is a list of bytes.  The \<open>read\<close> call is a parameter, a function of a world, and None is a
  run that repeats an interrupted call for ever.  The size of the destination is positive,
  as at the only caller.

  The lemmas show that successive calls deliver a file line by line, whatever pieces the
  kernel hands out, and what they leave of the destination.
\<close>

section \<open>The code\<close>

abbreviation (input) "NUL \<equiv> CHR 0x00"
abbreviation (input) "NL \<equiv> CHR 0x0A"
abbreviation (input) "READ_EINTR \<equiv> 4 :: int"

record read_buffer =
  rb_bytes :: string
  rb_ptr :: nat

definition rb_end :: "read_buffer \<Rightarrow> nat" where
  "rb_end b = length (rb_bytes b) - 1"

text \<open>A call for so many bytes: the result, \<open>errno\<close> and the bytes read.\<close>

type_synonym 'w read_call = "nat \<Rightarrow> 'w \<Rightarrow> (int \<times> int \<times> string) \<times> 'w"

definition put_bytes :: "nat \<Rightarrow> string \<Rightarrow> string \<Rightarrow> string" where
  "put_bytes i bs xs = take i xs @ bs @ drop (i + length bs) xs"

definition strncpy_bytes :: "nat \<Rightarrow> string \<Rightarrow> string" where
  "strncpy_bytes n src =
     (let t = takeWhile (\<lambda>c. c \<noteq> NUL) (take n src) in t @ replicate (n - length t) NUL)"

definition strchrnul_len :: "string \<Rightarrow> char \<Rightarrow> nat" where
  "strchrnul_len s c = length (takeWhile (\<lambda>x. x \<noteq> c \<and> x \<noteq> NUL) s)"

partial_function (option) read_retry :: "'w read_call \<Rightarrow> nat \<Rightarrow> 'w \<Rightarrow> ((int \<times> string) \<times> 'w) option" where
  "read_retry rd k w =
     (case rd k w of ((n, errno, bs), w) \<Rightarrow>
        if n = - 1 \<and> errno = READ_EINTR then read_retry rd k w else Some ((n, bs), w))"

text \<open>The loop that fills the buffer; False is the error return.\<close>

partial_function (option) fill_loop ::
    "'w read_call \<Rightarrow> nat \<Rightarrow> int \<Rightarrow> string \<Rightarrow> 'w \<Rightarrow> (bool \<times> string \<times> 'w) option" where
  "fill_loop rd readptr to_read bytes w =
     (if to_read > 0
      then Option.bind (read_retry rd (nat to_read) w) (\<lambda>((n, bs), w).
             if n \<le> - 1 then Some (False, bytes, w)
             else if n = 0 then Some (True, bytes, w)
             else fill_loop rd (readptr + nat n) (to_read - n) (put_bytes readptr bs bytes) w)
      else Some (True, bytes, w))"

text \<open>
  The step that copies the next piece of the buffer, from \<open>ret\<close> bytes already copied:
  the new number, the destination and the buffer.
\<close>

definition copy_piece :: "nat \<Rightarrow> nat \<Rightarrow> string \<Rightarrow> read_buffer \<Rightarrow> nat \<times> string \<times> read_buffer" where
  "copy_piece dstsize ret dst b =
     (let src = drop (rb_ptr b) (rb_bytes b);
          p = rb_ptr b + strchrnul_len src NL;
          p = (if p < length (rb_bytes b) \<and> rb_bytes b ! p = NL then p + 1 else p);
          len = p - rb_ptr b;
          len = (if ret + len \<ge> dstsize - 1 then dstsize - ret - 1 else len)
      in (ret + len, put_bytes ret (strncpy_bytes len src) dst, b\<lparr>rb_ptr := p\<rparr>))"

partial_function (option) bufread_loop ::
    "'w read_call \<Rightarrow> nat \<Rightarrow> nat \<Rightarrow> string \<Rightarrow> read_buffer \<Rightarrow> 'w
     \<Rightarrow> (int \<times> string \<times> read_buffer \<times> 'w) option" where
  "bufread_loop rd dstsize ret dst b w =
     (if rb_ptr b \<noteq> rb_end b \<and> rb_bytes b ! rb_ptr b = NUL
      then Some (int ret, dst, b\<lparr>rb_ptr := rb_ptr b + 1\<rparr>, w)
      else case (if rb_ptr b \<noteq> rb_end b then copy_piece dstsize ret dst b else (ret, dst, b)) of
             (ret', dst', b') \<Rightarrow>
               if rb_ptr b \<noteq> rb_end b \<and> (ret' = dstsize - 1 \<or> rb_bytes b' ! (rb_ptr b' - 1) = NL)
               then Some (int ret', dst', b', w)
               else if rb_ptr b' = rb_end b'
               then Option.bind (fill_loop rd 0 (int (rb_end b')) (replicate (length (rb_bytes b')) NUL) w)
                      (\<lambda>(ok, bytes, w).
                         if \<not> ok then Some (- 1, dst', b'\<lparr>rb_bytes := bytes\<rparr>, w)
                         else bufread_loop rd dstsize ret' dst' \<lparr>rb_bytes = bytes, rb_ptr = 0\<rparr> w)
               else Some (int ret', dst', b', w))"

definition bufread ::
    "'w read_call \<Rightarrow> nat \<Rightarrow> string \<Rightarrow> read_buffer \<Rightarrow> 'w \<Rightarrow> (int \<times> string \<times> read_buffer \<times> 'w) option" where
  "bufread rd dstsize dst b w =
     (if rb_ptr b \<le> 0 \<or> rb_ptr b > rb_end b then Some (- 1, dst, b, w)
      else bufread_loop rd dstsize 0 dst b w)"

section \<open>Reading a file\<close>

text \<open>
  What a file descriptor promises: \<open>rest\<close> is what is still to be read, and \<open>busy\<close> bounds how
  often a call is still interrupted.  A read delivers a non-empty piece of what is left, of
  any length the caller has room for, and nothing at the end of the file.
\<close>

definition reads_file :: "'w read_call \<Rightarrow> ('w \<Rightarrow> string) \<Rightarrow> ('w \<Rightarrow> nat) \<Rightarrow> bool" where
  "reads_file rd rest busy \<longleftrightarrow>
     (\<forall>k w n errno bs w'. k > 0 \<longrightarrow> rd k w = ((n, errno, bs), w') \<longrightarrow>
        (if n = - 1 \<and> errno = READ_EINTR then rest w' = rest w \<and> busy w' < busy w
         else (\<exists>m \<le> k. n = int m \<and> m \<le> length (rest w) \<and> (m = 0 \<longrightarrow> rest w = []) \<and>
                       bs = take m (rest w) \<and> rest w' = drop m (rest w))))"

lemma read_retry_reads:
  assumes "reads_file rd rest busy" "k > 0"
  shows "\<exists>m w'. read_retry rd k w = Some ((int m, take m (rest w)), w') \<and> m \<le> k \<and> m \<le> length (rest w) \<and>
           (m = 0 \<longrightarrow> rest w = []) \<and> rest w' = drop m (rest w)"
proof (induction "busy w" arbitrary: w rule: less_induct)
  case less
  obtain n errno bs w' where r: "rd k w = ((n, errno, bs), w')" by (metis prod.exhaust)
  note h = assms(1) [unfolded reads_file_def, rule_format, OF assms(2) r]
  show ?case
  proof (cases "n = - 1 \<and> errno = READ_EINTR")
    case True
    then have b: "busy w' < busy w" "rest w' = rest w" using h by auto
    show ?thesis using less [OF b(1)] True r b(2) by (subst read_retry.simps) simp
  next
    case False
    then show ?thesis using h r by (subst read_retry.simps) auto
  qed
qed

lemma put_bytes_zeros:
  "length bs \<le> k \<Longrightarrow>
   put_bytes (length got) bs (got @ replicate (Suc k) NUL) = (got @ bs) @ replicate (Suc (k - length bs)) NUL"
  by (simp add: put_bytes_def Suc_diff_le replicate_Suc [symmetric] del: replicate_Suc)

lemma fill_loop_reads:
  assumes "reads_file rd rest busy"
  shows "\<exists>w'. fill_loop rd (length got) (int k) (got @ replicate (Suc k) NUL) w =
           Some (True, got @ take k (rest w) @ replicate (Suc (k - length (rest w))) NUL, w') \<and>
           rest w' = drop k (rest w)"
proof (induction k arbitrary: got w rule: less_induct)
  case (less k)
  show ?case
  proof (cases "k = 0")
    case True
    then show ?thesis by (subst fill_loop.simps) simp
  next
    case False
    then obtain m w' where m: "read_retry rd k w = Some ((int m, take m (rest w)), w')" "m \<le> k" "m \<le> length (rest w)"
      "m = 0 \<longrightarrow> rest w = []" "rest w' = drop m (rest w)"
      using read_retry_reads [OF assms, of k w] by auto
    show ?thesis
    proof (cases "m = 0")
      case True
      then show ?thesis using m False by (subst fill_loop.simps) simp
    next
      case m0: False
      let ?got = "got @ take m (rest w)"
      have "fill_loop rd (length got) (int k) (got @ replicate (Suc k) NUL) w =
          fill_loop rd (length ?got) (int (k - m)) (?got @ replicate (Suc (k - m)) NUL) w'"
        using m m0 False put_bytes_zeros [of "take m (rest w)" k got]
        by (subst fill_loop.simps) (simp add: min_absorb2 of_nat_diff)
      moreover have "take m (rest w) @ take (k - m) (rest w') = take k (rest w)"
        using m(2,5) by (metis le_add_diff_inverse take_add)
      moreover have "k - m - length (rest w') = k - length (rest w)" using m(3,5) by simp
      ultimately show ?thesis using less [of "k - m" ?got w'] m(2,5) m0 False by auto
    qed
  qed
qed

definition first_line :: "string \<Rightarrow> string" where
  "first_line p = takeWhile (\<lambda>c. c \<noteq> NL) p @ (if NL \<in> set p then [NL] else [])"

lemma first_line_Nil [simp]: "first_line [] = []"
  by (simp add: first_line_def)

lemma first_line_append:
  "first_line (d @ r) = (if NL \<in> set d then first_line d else d @ first_line r)"
  by (auto simp: first_line_def takeWhile_append)

lemma first_line_eq_Nil [simp]: "first_line p = [] \<longleftrightarrow> p = []"
  by (cases p) (auto simp: first_line_def)

lemma first_line_id: "NL \<notin> set p \<Longrightarrow> first_line p = p"
  by (auto simp: first_line_def)

lemma first_line_prefix: "\<exists>r. p = first_line p @ r"
proof (cases "NL \<in> set p")
  case True
  then obtain a b where "p = a @ NL # b" "NL \<notin> set a" by (meson split_list_first)
  then show ?thesis by (auto simp: first_line_def takeWhile_append)
qed (simp add: first_line_id)

lemma strchrnul_len_first_line:
  assumes "NUL \<notin> set d"
  shows "strchrnul_len (d @ replicate (Suc k) NUL) NL = length (takeWhile (\<lambda>c. c \<noteq> NL) d)"
proof -
  have "takeWhile (\<lambda>x. x \<noteq> NL \<and> x \<noteq> NUL) (d @ replicate (Suc k) NUL) = takeWhile (\<lambda>c. c \<noteq> NL) d"
    using assms by (induction d) auto
  then show ?thesis by (simp add: strchrnul_len_def)
qed

lemma copy_piece_eq:
  assumes "drop (rb_ptr b) (rb_bytes b) = d @ replicate (Suc k) NUL" "NUL \<notin> set d"
    and "ret + length (first_line d) \<le> dstsize - 1"
  shows "copy_piece dstsize ret dst b =
           (ret + length (first_line d), put_bytes ret (first_line d) dst,
            b\<lparr>rb_ptr := rb_ptr b + length (first_line d)\<rparr>)"
proof -
  let ?m = "length (takeWhile (\<lambda>c. c \<noteq> NL) d)"
  have at: "rb_bytes b ! (rb_ptr b + i) = (d @ replicate (Suc k) NUL) ! i"
    "rb_ptr b + i < length (rb_bytes b)" if "i \<le> length d" for i
  proof -
    have "length (rb_bytes b) - rb_ptr b = length d + Suc k" using arg_cong [OF assms(1), of length] by simp
    then show "rb_ptr b + i < length (rb_bytes b)" using that by simp
    then show "rb_bytes b ! (rb_ptr b + i) = (d @ replicate (Suc k) NUL) ! i"
      using nth_drop [of "rb_ptr b" "rb_bytes b" i] assms(1) by simp
  qed
  have m: "?m \<le> length d" by (rule length_takeWhile_le)
  have nl: "(d @ replicate (Suc k) NUL) ! ?m = NL \<longleftrightarrow> NL \<in> set d"
  proof (cases "NL \<in> set d")
    case True
    then obtain a c where d: "d = a @ NL # c" "NL \<notin> set a" by (meson split_list_first)
    then have "takeWhile (\<lambda>c. c \<noteq> NL) d = a" by (auto simp: takeWhile_append)
    then show ?thesis using True d(1) by simp
  next
    case False
    then have "takeWhile (\<lambda>c. c \<noteq> NL) d = d" by (auto simp: takeWhile_eq_all_conv)
    then have "?m = length d" by (rule arg_cong)
    then show ?thesis using False by (simp only: nth_append) simp
  qed
  have len: "length (first_line d) = ?m + (if NL \<in> set d then 1 else 0)" by (simp add: first_line_def)
  obtain r where r: "d = first_line d @ r" using first_line_prefix by blast
  define l where "l = first_line d"
  have dl: "d = l @ r" using r by (simp add: l_def)
  have "NUL \<notin> set l" using assms(2) dl by simp
  then have tw: "takeWhile (\<lambda>c. c \<noteq> NUL) l = l" by (auto simp: takeWhile_eq_all_conv)
  have "take (length l) (d @ replicate (Suc k) NUL) = l" by (simp add: dl)
  then have sn: "strncpy_bytes (length (first_line d)) (d @ replicate (Suc k) NUL) = first_line d"
    unfolding strncpy_bytes_def Let_def l_def [symmetric] by (simp only: tw) simp
  have "ret + length (first_line d) \<ge> dstsize - 1 \<Longrightarrow> dstsize - ret - 1 = length (first_line d)"
    using assms(3) by simp
  then show ?thesis
    unfolding copy_piece_def Let_def assms(1) strchrnul_len_first_line [OF assms(2)]
    using at [OF m] nl len sn by (auto simp: Let_def)
qed

text \<open>What is still to come: the unread part of the buffer and the rest of the file.\<close>

definition pending :: "('w \<Rightarrow> string) \<Rightarrow> read_buffer \<Rightarrow> 'w \<Rightarrow> string" where
  "pending rest b w =
     (if rb_ptr b = rb_end b then [] else takeWhile (\<lambda>c. c \<noteq> NUL) (drop (rb_ptr b) (rb_bytes b))) @ rest w"

text \<open>Behind the unread part the buffer holds zeros, and when there is more than one of them the file has ended.\<close>

definition rb_ok :: "('w \<Rightarrow> string) \<Rightarrow> read_buffer \<Rightarrow> 'w \<Rightarrow> bool" where
  "rb_ok rest b w \<longleftrightarrow> 0 < rb_end b \<and> rb_ptr b \<le> rb_end b \<and> NUL \<notin> set (rest w) \<and>
     (rb_ptr b = rb_end b \<or>
      (\<exists>d k. drop (rb_ptr b) (rb_bytes b) = d @ replicate (Suc k) NUL \<and> NUL \<notin> set d \<and> (k > 0 \<longrightarrow> rest w = [])))"

lemma takeWhile_zeros: "NUL \<notin> set d \<Longrightarrow> takeWhile (\<lambda>c. c \<noteq> NUL) (d @ replicate (Suc k) NUL) = d"
  by (induction d) auto

lemma put_bytes_append:
  "i + length bs \<le> length xs \<Longrightarrow> put_bytes (i + length bs) cs (put_bytes i bs xs) = put_bytes i (bs @ cs) xs"
  by (simp add: put_bytes_def ac_simps)

lemma length_put_bytes [simp]: "i + length bs \<le> length xs \<Longrightarrow> length (put_bytes i bs xs) = length xs"
  by (simp add: put_bytes_def)

text \<open>The goal of one call, for the state in the loop.\<close>

definition delivers ::
    "'w read_call \<Rightarrow> ('w \<Rightarrow> string) \<Rightarrow> nat \<Rightarrow> nat \<Rightarrow> string \<Rightarrow> read_buffer \<Rightarrow> 'w \<Rightarrow> bool" where
  "delivers rd rest dstsize ret dst b w \<longleftrightarrow>
     (let line = first_line (pending rest b w)
      in \<exists>b' w'. bufread_loop rd dstsize ret dst b w = Some (int (ret + length line), put_bytes ret line dst, b', w') \<and>
           rb_ok rest b' w' \<and> 0 < rb_ptr b' \<and> rb_end b' = rb_end b \<and>
           pending rest b' w' = drop (length line) (pending rest b w))"

lemma delivers_nothing:
  assumes "rb_ok rest b w" "rb_ptr b < rb_end b" "rb_bytes b ! rb_ptr b = NUL"
  shows "delivers rd rest dstsize ret dst b w"
proof -
  obtain d k where d: "drop (rb_ptr b) (rb_bytes b) = d @ replicate (Suc k) NUL" "NUL \<notin> set d" "k > 0 \<longrightarrow> rest w = []"
    using assms(1,2) by (auto simp: rb_ok_def)
  have l: "length (rb_bytes b) = rb_ptr b + length d + Suc k"
    using arg_cong [OF d(1), of length] assms(2) by (simp add: rb_end_def)
  have "(d @ replicate (Suc k) NUL) ! 0 = NUL" using assms(3) nth_drop [of "rb_ptr b" "rb_bytes b" 0] d(1) l by simp
  then have d0: "d = []" using d(2) by (cases d) auto
  then have k: "k > 0" "rest w = []" using l assms(2) d(3) by (auto simp: rb_end_def)
  have p: "pending rest b w = []" using d(1) d0 k(2) by (simp add: pending_def)
  let ?b = "b\<lparr>rb_ptr := rb_ptr b + 1\<rparr>"
  have e: "rb_end ?b = rb_end b" by (simp add: rb_end_def)
  have "drop (rb_ptr ?b) (rb_bytes ?b) = replicate k NUL"
    using arg_cong [OF d(1), of "drop 1"] d0 by simp
  moreover obtain j where "k = Suc j" using k(1) by (cases k) auto
  ultimately have z: "drop (rb_ptr ?b) (rb_bytes ?b) = [] @ replicate (Suc j) NUL" by simp
  have "rb_ok rest ?b w"
    unfolding rb_ok_def e
    by (intro conjI disjI2 exI [of _ "[]"] exI [of _ j]) (use assms(1,2) z k(2) in \<open>simp_all add: rb_ok_def\<close>)
  moreover have "pending rest ?b w = []" using z k(2) e by (simp add: pending_def)
  moreover have "bufread_loop rd dstsize ret dst b w = Some (int ret, dst, ?b, w)"
    using assms(2,3) by (subst bufread_loop.simps) simp
  moreover have "put_bytes ret [] dst = dst" by (simp add: put_bytes_def)
  ultimately show ?thesis using p e by (simp add: delivers_def)
qed

lemma rb_okD:
  assumes "rb_ok rest b w" "rb_ptr b < rb_end b"
  obtains d k where "drop (rb_ptr b) (rb_bytes b) = d @ replicate (Suc k) NUL" "NUL \<notin> set d"
    "k > 0 \<longrightarrow> rest w = []" "pending rest b w = d @ rest w" "rb_ptr b + length d + k = rb_end b"
proof -
  obtain d k where d: "drop (rb_ptr b) (rb_bytes b) = d @ replicate (Suc k) NUL" "NUL \<notin> set d" "k > 0 \<longrightarrow> rest w = []"
    using assms by (auto simp: rb_ok_def)
  have "rb_ptr b + length d + k = rb_end b"
    using arg_cong [OF d(1), of length] assms(2) by (simp add: rb_end_def)
  moreover have "pending rest b w = d @ rest w"
    using assms(2) d(1,2) by (simp add: pending_def takeWhile_zeros del: replicate_Suc)
  ultimately show ?thesis using d that by blast
qed

text \<open>The state after filling the buffer.\<close>

lemma filled_ok:
  assumes "0 < n" "NUL \<notin> set (rest w)" "rest w' = drop n (rest w)"
    and b: "b = \<lparr>rb_bytes = take n (rest w) @ replicate (Suc (n - length (rest w))) NUL, rb_ptr = 0\<rparr>"
  shows "rb_ok rest b w' \<and> rb_end b = n \<and> pending rest b w' = rest w"
proof -
  have e: "rb_end b = n" using assms(1) by (simp add: b rb_end_def)
  have t: "NUL \<notin> set (take n (rest w))" using assms(2) by (meson in_set_takeD)
  have "rb_ok rest b w'"
    unfolding rb_ok_def e
    by (intro conjI disjI2 exI [of _ "take n (rest w)"] exI [of _ "n - length (rest w)"])
      (use assms t in \<open>auto dest: in_set_dropD\<close>)
  moreover have "pending rest b w' = rest w"
    using e assms(1,3) t by (simp add: pending_def b takeWhile_zeros del: replicate_Suc)
  ultimately show ?thesis using e by simp
qed

lemma delivers_refill:
  assumes rd: "reads_file rd rest busy" and ok: "rb_ok rest b w" "rb_ptr b = rb_end b"
    and next_: "\<And>b' w'. rb_ok rest b' w' \<Longrightarrow> rb_end b' = rb_end b \<Longrightarrow> rb_ptr b' = 0 \<Longrightarrow> pending rest b' w' = rest w \<Longrightarrow>
      rest w' = drop (rb_end b) (rest w) \<Longrightarrow> delivers rd rest dstsize ret dst b' w'"
  shows "delivers rd rest dstsize ret dst b w"
proof -
  let ?n = "rb_end b"
  have n: "0 < ?n" "NUL \<notin> set (rest w)" using ok(1) by (auto simp: rb_ok_def)
  then have l: "length (rb_bytes b) = Suc ?n" by (simp add: rb_end_def)
  define b' where "b' = \<lparr>rb_bytes = take ?n (rest w) @ replicate (Suc (?n - length (rest w))) NUL, rb_ptr = 0\<rparr>"
  obtain w' where f: "fill_loop rd 0 (int ?n) (replicate (Suc ?n) NUL) w = Some (True, rb_bytes b', w')"
    "rest w' = drop ?n (rest w)" using fill_loop_reads [OF rd, of "[]" ?n w] by (auto simp: b'_def)
  note b' = filled_ok [of ?n rest w w' b', OF n f(2) b'_def]
  have "bufread_loop rd dstsize ret dst b w = bufread_loop rd dstsize ret dst b' w'"
    using ok(2) f(1) l by (subst bufread_loop.simps) (simp add: b'_def del: replicate_Suc)
  moreover have "pending rest b w = rest w" using ok(2) by (simp add: pending_def)
  moreover have "delivers rd rest dstsize ret dst b' w'" using b' f(2) by (intro next_) (auto simp: b'_def)
  ultimately show ?thesis using b' by (simp add: delivers_def)
qed

lemma bufread_loop_at_end:
  "rb_ptr b = rb_end b \<Longrightarrow>
   bufread_loop rd dstsize ret dst b w =
     Option.bind (fill_loop rd 0 (int (rb_end b)) (replicate (length (rb_bytes b)) NUL) w)
       (\<lambda>(ok, bytes, w). if \<not> ok then Some (- 1, dst, b\<lparr>rb_bytes := bytes\<rparr>, w)
                         else bufread_loop rd dstsize ret dst \<lparr>rb_bytes = bytes, rb_ptr = 0\<rparr> w)"
  by (subst bufread_loop.simps) simp

lemma last_not: "p \<noteq> [] \<Longrightarrow> c \<notin> set p \<Longrightarrow> last p \<noteq> c"
  using last_in_set by fastforce

lemma last_first_line: "p \<noteq> [] \<Longrightarrow> last (first_line p) = NL \<longleftrightarrow> NL \<in> set p"
proof (cases "NL \<in> set p")
  case False
  moreover assume "p \<noteq> []"
  ultimately show ?thesis by (simp add: first_line_id last_not)
qed (simp add: first_line_def)

lemma delivers_piece:
  assumes ok: "rb_ok rest b w" "rb_ptr b < rb_end b" "rb_bytes b ! rb_ptr b \<noteq> NUL"
    and fits: "ret + length (first_line (pending rest b w)) \<le> dstsize - 1" "dstsize \<le> length dst"
    and refill: "\<And>ret' dst' b'. rb_ok rest b' w \<Longrightarrow> rb_ptr b' = rb_end b' \<Longrightarrow> rb_end b' = rb_end b \<Longrightarrow>
      ret' + length (first_line (rest w)) \<le> dstsize - 1 \<Longrightarrow> dstsize \<le> length dst' \<Longrightarrow>
      delivers rd rest dstsize ret' dst' b' w"
  shows "delivers rd rest dstsize ret dst b w"
proof -
  obtain d k where d: "drop (rb_ptr b) (rb_bytes b) = d @ replicate (Suc k) NUL" "NUL \<notin> set d" "k > 0 \<longrightarrow> rest w = []"
    "pending rest b w = d @ rest w" "rb_ptr b + length d + k = rb_end b" using rb_okD [OF ok(1,2)] .
  define l where "l = first_line d"
  let ?b = "b\<lparr>rb_ptr := rb_ptr b + length l\<rparr>"
  obtain r where r: "d = l @ r" using first_line_prefix l_def by blast
  have fl: "ret + length l \<le> dstsize - 1"
    using fits(1) d(4) by (auto simp: l_def first_line_append first_line_id split: if_splits)
  note cp = copy_piece_eq [OF d(1,2) fl [unfolded l_def], of dst, folded l_def]
  have e: "rb_end ?b = rb_end b" by (simp add: rb_end_def)
  have "d \<noteq> []"
  proof
    assume "d = []"
    then have "drop (rb_ptr b) (rb_bytes b) ! 0 = NUL" using d(1) by simp
    then show False using ok(2,3) by (simp add: rb_end_def)
  qed
  then have l0: "l \<noteq> []" by (simp add: l_def)
  have rb: "drop (rb_ptr ?b) (rb_bytes ?b) = r @ replicate (Suc k) NUL" "NUL \<notin> set r"
    using arg_cong [OF d(1), of "drop (length l)"] d(2) by (simp_all add: r add.commute)
  have lst: "rb_bytes ?b ! (rb_ptr ?b - 1) = last l"
  proof -
    have i: "rb_ptr ?b - 1 = rb_ptr b + (length l - 1)" using l0 by (simp add: Suc_le_eq)
    have "rb_ptr b + (length l - 1) < length (rb_bytes b)" using d(5) r l0 ok(2) by (simp add: rb_end_def)
    then have "rb_bytes b ! (rb_ptr b + (length l - 1)) = (l @ r @ replicate (Suc k) NUL) ! (length l - 1)"
      using nth_drop [of "rb_ptr b" "rb_bytes b" "length l - 1"] d(1) r by (simp del: replicate_Suc)
    also have "\<dots> = last l" using l0 by (simp add: nth_append last_conv_nth)
    finally show ?thesis unfolding i by simp
  qed
  have ptr: "rb_ptr ?b + length r + k = rb_end b" using d(5) r by simp
  have okb: "rb_ok rest ?b w"
    unfolding rb_ok_def e
    by (intro conjI disjI2 exI [of _ r] exI [of _ k]) (use ok(1) rb d(3) ptr in \<open>simp_all add: rb_ok_def\<close>)
  have pb: "pending rest ?b w = r @ rest w"
  proof (cases "rb_ptr ?b = rb_end ?b")
    case True
    then have "r = []" using ptr e by simp
    then show ?thesis using True by (simp add: pending_def)
  next
    case False
    then show ?thesis using rb by (simp add: pending_def takeWhile_zeros del: replicate_Suc)
  qed
  have loop: "bufread_loop rd dstsize ret dst b w =
      (if ret + length l = dstsize - 1 \<or> last l = NL then Some (int (ret + length l), put_bytes ret l dst, ?b, w)
       else if rb_ptr ?b = rb_end ?b then bufread_loop rd dstsize (ret + length l) (put_bytes ret l dst) ?b w
       else Some (int (ret + length l), put_bytes ret l dst, ?b, w))"
    using ok(2,3) lst cp bufread_loop_at_end [of ?b rd dstsize "ret + length l" "put_bytes ret l dst" w]
    by (subst bufread_loop.simps) simp
  have p0: "0 < rb_ptr ?b" using l0 by simp
  show ?thesis
  proof (cases "NL \<in> set d")
    case True
    then have "last l = NL" "first_line (pending rest b w) = l"
      using last_first_line [OF \<open>d \<noteq> []\<close>] by (simp_all add: l_def d(4) first_line_append)
    then show ?thesis using loop okb p0 e pb d(4) r by (auto simp: delivers_def)
  next
    case False
    then have ld1: "l = d" by (simp add: l_def first_line_id)
    then have "r = []" using r by simp
    note ld = ld1 this
    have nl: "last l \<noteq> NL" using False l0 ld1 by (simp add: last_not)
    have line: "first_line (pending rest b w) = l @ first_line (rest w)" using False d(4) ld by (simp add: first_line_append)
    show ?thesis
    proof (cases "ret + length l \<noteq> dstsize - 1 \<and> rb_ptr ?b = rb_end ?b")
      case True
      have g: "ret + length l + length (first_line (rest w)) \<le> dstsize - 1" using fits(1) line by simp
      have "dstsize \<le> length (put_bytes ret l dst)" using fl fits(2) by simp
      from refill [OF okb conjunct2 [OF True] e g this] have dl: "delivers rd rest dstsize (ret + length l) (put_bytes ret l dst) ?b w" .
      have pe: "pending rest ?b w = rest w" using pb ld by simp
      have pu: "put_bytes (ret + length l) x (put_bytes ret l dst) = put_bytes ret (l @ x) dst" for x
        using fl fits(2) by (intro put_bytes_append) simp
      have lp: "bufread_loop rd dstsize ret dst b w =
          bufread_loop rd dstsize (ret + length l) (put_bytes ret l dst) ?b w" using loop True nl by (simp only: if_False simp_thms if_True)
      show ?thesis
        using dl line unfolding delivers_def Let_def lp pe pu e d(4) ld(1) [symmetric]
        by (simp add: add.assoc)
    next
      case stop: False
      have "rest w = []"
      proof (cases "ret + length l = dstsize - 1")
        case True
        have "ret + length l + length (first_line (rest w)) \<le> dstsize - 1" using fits(1) line by simp
        then have "length (first_line (rest w)) = 0" using True by linarith
        then show ?thesis by (simp only: length_0_conv first_line_eq_Nil)
      next
        case False
        then have "k > 0" using stop ptr ld e by simp
        then show ?thesis using d(3) by blast
      qed
      then show ?thesis using stop nl loop line okb p0 e pb d(4) ld by (auto simp: delivers_def Let_def)
    qed
  qed
qed

lemma bufread_loop_delivers:
  assumes rd: "reads_file rd rest busy"
    and "rb_ok rest b w" "ret + length (first_line (pending rest b w)) \<le> dstsize - 1" "dstsize \<le> length dst"
  shows "delivers rd rest dstsize ret dst b w"
  using assms(2-4)
proof (induction "length (rest w)" arbitrary: ret dst b w rule: less_induct)
  case less
  note IH = less.hyps
  have refill: "delivers rd rest dstsize ret dst b w"
    if b: "rb_ok rest b w" "rb_ptr b = rb_end b" "ret + length (first_line (rest w)) \<le> dstsize - 1" "dstsize \<le> length dst"
    for ret dst b
  proof (rule delivers_refill [OF rd b(1,2)])
    fix b' w'
    assume b': "rb_ok rest b' w'" "rb_end b' = rb_end b" "rb_ptr b' = 0" "pending rest b' w' = rest w"
      "rest w' = drop (rb_end b) (rest w)"
    have n: "0 < rb_end b" using b(1) by (simp add: rb_ok_def)
    show "delivers rd rest dstsize ret dst b' w'"
    proof (cases "rest w = []")
      case True
      then have "takeWhile (\<lambda>c. c \<noteq> NUL) (rb_bytes b') = []" using b'(2-4) n by (simp add: pending_def)
      moreover have "rb_bytes b' \<noteq> []" using b'(2) n by (auto simp: rb_end_def)
      ultimately have "rb_bytes b' ! rb_ptr b' = NUL" using b'(3) by (cases "rb_bytes b'") (auto split: if_splits)
      then show ?thesis using b' n by (intro delivers_nothing) simp_all
    next
      case False
      then show ?thesis using b b' n by (intro IH) simp_all
    qed
  qed
  show ?case
  proof (cases "rb_ptr b = rb_end b")
    case True
    then show ?thesis using less.prems by (intro refill) (simp_all add: pending_def)
  next
    case False
    then have lt: "rb_ptr b < rb_end b" using less.prems(1) by (simp add: rb_ok_def)
    show ?thesis
    proof (cases "rb_bytes b ! rb_ptr b = NUL")
      case True
      then show ?thesis using less.prems(1) lt by (intro delivers_nothing)
    next
      case False
      then show ?thesis by (rule delivers_piece [OF less.prems(1) lt _ less.prems(2,3)]) (rule refill)
    qed
  qed
qed

lemma bufread_line:
  assumes "reads_file rd rest busy" "rb_ok rest b w" "0 < rb_ptr b" "length dst = dstsize"
    and "length (first_line (pending rest b w)) < dstsize"
  shows "\<exists>b' w'. bufread rd dstsize dst b w =
           Some (int (length (first_line (pending rest b w))), put_bytes 0 (first_line (pending rest b w)) dst, b', w') \<and>
           rb_ok rest b' w' \<and> 0 < rb_ptr b' \<and>
           pending rest b' w' = drop (length (first_line (pending rest b w))) (pending rest b w)"
proof -
  have "bufread rd dstsize dst b w = bufread_loop rd dstsize 0 dst b w"
    using assms(2,3) by (simp add: bufread_def rb_ok_def)
  moreover have "delivers rd rest dstsize 0 dst b w"
    using assms(4,5) by (intro bufread_loop_delivers [OF assms(1,2)]) simp_all
  ultimately show ?thesis by (auto simp: delivers_def Let_def)
qed

text \<open>The lines of a file, each with its newline.\<close>

function lines_of :: "string \<Rightarrow> string list" where
  "lines_of p = (if p = [] then [] else first_line p # lines_of (drop (length (first_line p)) p))"
  by pat_completeness auto
termination
  by (relation "measure length") simp_all

declare lines_of.simps [simp del]

end
