(* ===== verification/Maps_Text.thy ===== *)
theory Maps_Text
  imports Bufread Env Proc_Maps
begin

text \<open>
  Reading \<open>/proc/<pid>/maps\<close> as text (\<open>include/common/util/proc_maps.h\<close>): the loop over the
  lines delivered by Bufread, the \<open>sscanf\<close> of a line, and the printer of an entry.

  The array a line is read into is a list of bytes, and the C string in it ends at the first
  zero.  None is a run that does not return or that writes behind the 128 bytes of the name.
  The theorems show that the loop computes the parse of Proc_Maps, what it takes for a line,
  and that an entry survives being printed and parsed.
\<close>

section \<open>The code\<close>

text \<open>
  The directives of \<open>sscanf\<close>: a number skips blanks and takes a sign and, in base 16, a
  prefix; it saturates at the largest value.
\<close>

definition c_string :: "string \<Rightarrow> string" where
  "c_string bs = takeWhile (\<lambda>c. c \<noteq> NUL) bs"

definition skip_space :: "string \<Rightarrow> string" where
  "skip_space s = dropWhile is_space s"

definition skip_0x :: "nat \<Rightarrow> string \<Rightarrow> string" where
  "skip_0x base s =
     (case s of c0 # c1 # r \<Rightarrow> if base = 16 \<and> c0 = CHR ''0'' \<and> (c1 = CHR ''x'' \<or> c1 = CHR ''X'') then r else s
      | _ \<Rightarrow> s)"

definition scan_num :: "nat \<Rightarrow> string \<Rightarrow> (u64 \<times> string) option" where
  "scan_num base s =
     (let (neg, body) = strtol_sign (skip_space s); ds = skip_0x base body; (n, rest) = digits_val base 0 ds
      in if rest = ds then None
         else Some (if n \<ge> 2 ^ 64 then - 1 else if neg then - word_of_nat n else word_of_nat n, rest))"

definition scan_char :: "string \<Rightarrow> (char \<times> string) option" where
  "scan_char s = (case s of [] \<Rightarrow> None | c # r \<Rightarrow> Some (c, r))"

definition scan_lit :: "char \<Rightarrow> string \<Rightarrow> string option" where
  "scan_lit l s = (case s of [] \<Rightarrow> None | c # r \<Rightarrow> if c = l then Some r else None)"

definition scan_word :: "string \<Rightarrow> string" where
  "scan_word s = takeWhile (\<lambda>c. \<not> is_space c) (skip_space s)"

text \<open>The ten conversions before the name, and what is left of the line.\<close>

definition scan_fields :: "string \<Rightarrow> (util_proc_maps_entry \<times> string) option" where
  "scan_fields s =
     Option.bind (scan_num 16 s) (\<lambda>(vs, s). Option.bind (scan_lit CHR ''-'' s) (\<lambda>s.
     Option.bind (scan_num 16 s) (\<lambda>(ve, s). Option.bind (scan_char (skip_space s)) (\<lambda>(r, s).
     Option.bind (scan_char s) (\<lambda>(wr, s). Option.bind (scan_char s) (\<lambda>(x, s).
     Option.bind (scan_char s) (\<lambda>(sh, s). Option.bind (scan_num 16 s) (\<lambda>(off, s).
     Option.bind (scan_num 16 s) (\<lambda>(maj, s). Option.bind (scan_lit CHR '':'' s) (\<lambda>s.
     Option.bind (scan_num 16 s) (\<lambda>(mnr, s). Option.bind (scan_num 10 s) (\<lambda>(i, s).
       Some (\<lparr>vm_start = vs, vm_end = ve, pm_r = r, pm_w = wr, pm_x = x, pm_s = sh, pgoff = off,
              pm_major = sint (ucast maj :: u32), pm_minor = sint (ucast mnr :: u32), ino = i, pm_name = []\<rparr>, s)))))))))))))"

text \<open>\<open>sscanf\<close> of a line: None when fewer than ten conversions succeed.\<close>

definition sscanf_maps :: "string \<Rightarrow> util_proc_maps_entry option" where
  "sscanf_maps s = map_option (\<lambda>(e, s). e\<lparr>pm_name := scan_word s\<rparr>) (scan_fields s)"

abbreviation (input) "MAPS_BUF \<equiv> 5000 :: nat"

partial_function (option) parse_text ::
    "(util_proc_maps_entry \<Rightarrow> util_proc_maps_parse_ret) option \<Rightarrow> 'w read_call \<Rightarrow> string \<Rightarrow> read_buffer
     \<Rightarrow> util_proc_maps_entry list \<Rightarrow> 'w \<Rightarrow> ((int \<times> util_proc_maps_entry list) \<times> 'w) option" where
  "parse_text cb rd buf b entries w =
     Option.bind (bufread rd MAPS_BUF buf b w) (\<lambda>(n, buf, b, w).
       if n \<le> 0 then Some ((0, entries), w)
       else case sscanf_maps (c_string buf) of
              None \<Rightarrow> Some ((- EINVAL, entries), w)
            | Some e \<Rightarrow>
                if length (pm_name e) \<ge> 128 then None
                else (case (case cb of None \<Rightarrow> UTIL_PROC_MAPS_RET_SAVE | Some f \<Rightarrow> f e) of
                        UTIL_PROC_MAPS_RET_SAVE \<Rightarrow> parse_text cb rd buf b (entries @ [e]) w
                      | UTIL_PROC_MAPS_RET_SAVE_AND_STOP \<Rightarrow> Some ((0, entries @ [e]), w)
                      | UTIL_PROC_MAPS_RET_CONTINUE \<Rightarrow> parse_text cb rd buf b entries w
                      | UTIL_PROC_MAPS_RET_STOP \<Rightarrow> Some ((0, entries), w)
                      | UTIL_PROC_MAPS_RET_ERR \<Rightarrow> Some ((- ENOENT, entries), w)))"

text \<open>
  The whole function on an opened file: \<open>buf\<close> is what the array holds before the first line,
  \<open>iobuf\<close> the uninitialised array of the reader, whose pointer starts at its end.
\<close>

definition util_proc_maps_parse_filter_text ::
    "(u64 \<Rightarrow> bool) \<Rightarrow> 'w read_call \<Rightarrow> string \<Rightarrow> string \<Rightarrow> (util_proc_maps_entry \<Rightarrow> util_proc_maps_parse_ret) option \<Rightarrow> 'w
     \<Rightarrow> ((int \<times> util_proc_maps_entry list) \<times> 'w) option" where
  "util_proc_maps_parse_filter_text mapped rd buf iobuf cb w =
     Option.bind (parse_text cb rd buf \<lparr>rb_bytes = iobuf, rb_ptr = length iobuf - 1\<rparr> [] w) (\<lambda>((ret, entries), w).
       if ret \<noteq> 0 then Some ((ret, []), w) else Some ((ret, util_proc_maps_remove_unmapped mapped entries), w))"

text \<open>\<open>util_proc_maps_entry_print\<close>, as the characters it prints.\<close>

definition pad_left :: "nat \<Rightarrow> char \<Rightarrow> string \<Rightarrow> string" where
  "pad_left n c s = replicate (n - length s) c @ s"

definition pad_right :: "nat \<Rightarrow> char \<Rightarrow> string \<Rightarrow> string" where
  "pad_right n c s = s @ replicate (n - length s) c"

definition util_proc_maps_entry_print :: "util_proc_maps_entry \<Rightarrow> string" where
  "util_proc_maps_entry_print e =
     pad_left 8 CHR ''0'' (lt_kputx_digits (unat (vm_start e))) @ CHR ''-'' #
     pad_left 8 CHR ''0'' (lt_kputx_digits (unat (vm_end e))) @ CHR '' '' # pm_r e # pm_w e # pm_x e # pm_s e # CHR '' '' #
     pad_left 8 CHR ''0'' (lt_kputx_digits (unat (pgoff e))) @ CHR '' '' #
     pad_left 2 CHR ''0'' (lt_kputx_digits (unat (word_of_int (pm_major e) :: u32))) @ CHR '':'' #
     pad_left 2 CHR ''0'' (lt_kputx_digits (unat (word_of_int (pm_minor e) :: u32))) @ CHR '' '' #
     pad_right 10 CHR '' '' (lt_kputn (unat (ino e))) @ CHR '' '' # pm_name e"

section \<open>The loop over the lines\<close>

text \<open>What the array holds after each line: a line is laid over what was there before.\<close>

primrec overlays :: "string \<Rightarrow> string list \<Rightarrow> string list" where
  "overlays buf [] = []"
| "overlays buf (l # ls) = put_bytes 0 l buf # overlays (put_bytes 0 l buf) ls"

abbreviation (input) "scanned buf ls \<equiv> map (\<lambda>s. sscanf_maps (c_string s)) (overlays buf ls)"

definition names_fit :: "string \<Rightarrow> string list \<Rightarrow> bool" where
  "names_fit buf ls \<longleftrightarrow> list_all (\<lambda>e. case e of None \<Rightarrow> True | Some e \<Rightarrow> length (pm_name e) < 128) (scanned buf ls)"

lemma lines_of_ne: "p \<noteq> [] \<Longrightarrow> lines_of p = first_line p # lines_of (drop (length (first_line p)) p)"
  by (subst lines_of.simps) simp

lemma parse_text_lines:
  assumes rd: "reads_file rd rest busy" and "rb_ok rest b w" "0 < rb_ptr b" "length buf = MAPS_BUF"
    and "\<forall>l \<in> set (lines_of (pending rest b w)). length l < MAPS_BUF" "names_fit buf (lines_of (pending rest b w))"
  shows "\<exists>w'. parse_text cb rd buf b entries w =
           Some (parse_lines cb (scanned buf (lines_of (pending rest b w))) entries, w')"
  using assms(2-)
proof (induction "length (pending rest b w)" arbitrary: b w buf entries rule: less_induct)
  case less
  let ?p = "pending rest b w"
  let ?l = "first_line ?p"
  have ll: "length ?l < MAPS_BUF" using less.prems(4) by (cases "?p = []") (simp_all add: lines_of_ne)
  obtain b' w' where b': "bufread rd MAPS_BUF buf b w = Some (int (length ?l), put_bytes 0 ?l buf, b', w')"
    "rb_ok rest b' w'" "0 < rb_ptr b'" "pending rest b' w' = drop (length ?l) ?p"
    using bufread_line [OF rd less.prems(1-3) ll] by blast
  show ?case
  proof (cases "?p = []")
    case True
    then show ?thesis using b'(1) by (subst parse_text.simps) (simp add: lines_of.simps)
  next
    case False
    let ?buf = "put_bytes 0 ?l buf"
    have ls: "lines_of ?p = ?l # lines_of (pending rest b' w')" using False b'(4) by (simp add: lines_of_ne)
    have l0: "0 < length ?l" using False by simp
    have lb: "length ?buf = MAPS_BUF" using ll less.prems(3) by simp
    have "\<exists>w''. parse_text cb rd ?buf b' es w' =
        Some (parse_lines cb (scanned ?buf (lines_of (pending rest b' w'))) es, w'')" for es
      using less.prems(4,5) ls l0 lb b' by (intro less.hyps) (auto simp: names_fit_def)
    then obtain v where IH: "\<And>es. parse_text cb rd ?buf b' es w' =
        Some (parse_lines cb (scanned ?buf (lines_of (pending rest b' w'))) es, v es)" by metis
    have nf: "sscanf_maps (c_string ?buf) = Some e \<Longrightarrow> length (pm_name e) < 128" for e
      using less.prems(5) ls by (simp add: names_fit_def)
    show ?thesis
      unfolding ls
      using b'(1) l0 nf IH
      by (subst parse_text.simps)
        (auto split: option.splits util_proc_maps_parse_ret.splits simp: not_le)
  qed
qed

text \<open>A file read in pieces of at most seven bytes, after as many interruptions as the second component says.\<close>

definition demo_read :: "(string \<times> nat) read_call" where
  "demo_read k w =
     (if snd w > 0 then ((- 1, READ_EINTR, []), (fst w, snd w - 1))
      else let m = min 7 (min k (length (fst w))) in ((int m, 0, take m (fst w)), (drop m (fst w), 0)))"

lemma demo_reads: "reads_file demo_read fst snd"
  unfolding reads_file_def
proof (intro allI impI)
  fix k :: nat and w :: "string \<times> nat" and n errno bs w'
  assume k: "k > 0" and r: "demo_read k w = ((n, errno, bs), w')"
  show "if n = - 1 \<and> errno = READ_EINTR then fst w' = fst w \<and> snd w' < snd w
        else \<exists>m\<le>k. n = int m \<and> m \<le> length (fst w) \<and> (m = 0 \<longrightarrow> fst w = []) \<and> bs = take m (fst w) \<and> fst w' = drop m (fst w)"
  proof (cases "snd w > 0")
    case True
    then show ?thesis using r by (auto simp: demo_read_def)
  next
    case False
    let ?m = "min 7 (min k (length (fst w)))"
    have "n = int ?m" "bs = take ?m (fst w)" "fst w' = drop ?m (fst w)"
      using r False by (auto simp: demo_read_def Let_def)
    moreover have "?m \<le> k" "?m \<le> length (fst w)" by simp_all
    moreover have "?m = 0 \<longrightarrow> fst w = []" using k by (auto simp: min_def split: if_splits)
    ultimately show ?thesis by (auto intro: exI [of _ ?m])
  qed
qed

definition demo_line :: string where
  "demo_line = ''2000-3000 rw-p 0 0:0 0 '' @ [NL]"

definition demo_entry :: util_proc_maps_entry where
  "demo_entry = \<lparr>vm_start = 0x2000, vm_end = 0x3000, pm_r = CHR ''r'', pm_w = CHR ''w'', pm_x = CHR ''-'', pm_s = CHR ''p'',
     pgoff = 0, pm_major = 0, pm_minor = 0, ino = 0, pm_name = []\<rparr>"

lemma demo_scan: "sscanf_maps demo_line = Some demo_entry"
  by (simp add: sscanf_maps_def scan_fields_def demo_line_def demo_entry_def scan_num_def skip_space_def is_space_def
      strtol_sign_def skip_0x_def digit_in_def digit_val_def scan_char_def scan_lit_def scan_word_def Let_def)

lemma demo_first_line: "first_line demo_line = demo_line"
  by (simp add: first_line_def demo_line_def)

lemma demo_lines: "lines_of demo_line = [demo_line]"
  by (simp add: lines_of.simps demo_first_line) (simp add: demo_line_def)

lemma demo_no_NUL: "NUL \<notin> set demo_line" "length demo_line = 24"
  by (simp_all add: demo_line_def)

section \<open>Scanning a line with something behind it\<close>

lemma digits_val_append_rest:
  "digits_val b a x = (v, r) \<Longrightarrow> r \<noteq> [] \<Longrightarrow> digits_val b a (x @ t) = (v, r @ t)"
  by (induction x arbitrary: a) (auto split: if_splits)

lemma digits_val_suffix: "digits_val b a x = (v, r) \<Longrightarrow> \<exists>y. x = y @ r"
  by (induction x arbitrary: a) (force split: if_splits)+

lemma skip_space_append: "skip_space x \<noteq> [] \<Longrightarrow> skip_space (x @ t) = skip_space x @ t"
  by (induction x) (auto simp: skip_space_def)

lemma skip_space_append_Nil: "skip_space x = [] \<Longrightarrow> skip_space (x @ t) = skip_space t"
  by (induction x) (auto simp: skip_space_def split: if_splits)

lemma scan_num_Nil [simp]: "scan_num b [] = None"
  by (simp add: scan_num_def skip_space_def strtol_sign_def skip_0x_def)

lemma strtol_sign_append: "s \<noteq> [] \<Longrightarrow> strtol_sign (s @ t) = (fst (strtol_sign s), snd (strtol_sign s) @ t)"
  by (cases s) (auto simp: strtol_sign_def)

lemma skip_0x_append: "2 \<le> length s \<Longrightarrow> skip_0x b (s @ t) = skip_0x b s @ t"
  by (cases s; cases "tl s") (auto simp: skip_0x_def)

lemma length_skip_0x: "length (skip_0x b s) \<le> length s"
  by (auto simp: skip_0x_def split: list.splits)

lemma scan_num_append:
  assumes "scan_num b x = Some (v, r)" "r \<noteq> []"
  shows "scan_num b (x @ t) = Some (v, r @ t)"
proof -
  let ?body = "snd (strtol_sign (skip_space x))"
  let ?ds = "skip_0x b ?body"
  obtain n where n: "digits_val b 0 ?ds = (n, r)" "r \<noteq> ?ds"
    using assms(1) by (auto simp: scan_num_def Let_def split: prod.splits if_splits)
  have "2 \<le> length ?ds"
  proof -
    obtain y where "?ds = y @ r" using digits_val_suffix [OF n(1)] by blast
    then show ?thesis using n(2) assms(2) by (cases y; cases r) auto
  qed
  then have l: "2 \<le> length ?body" using length_skip_0x [of b ?body] by linarith
  have x: "skip_space x \<noteq> []"
  proof
    assume "skip_space x = []"
    then show False using l by (simp add: strtol_sign_def)
  qed
  have "digits_val b 0 (skip_0x b (snd (strtol_sign (skip_space (x @ t))))) = (n, r @ t)"
    using digits_val_append_rest [OF n(1) assms(2)] by (simp add: skip_space_append [OF x] strtol_sign_append [OF x] skip_0x_append [OF l])
  then show ?thesis
    using assms(1) n
    by (simp add: scan_num_def Let_def case_prod_beta skip_space_append [OF x] strtol_sign_append [OF x] skip_0x_append [OF l]
        split: if_splits)
qed

lemma scan_char_append: "scan_char x = Some (c, r) \<Longrightarrow> scan_char (x @ t) = Some (c, r @ t)"
  by (auto simp: scan_char_def split: list.splits)

lemma scan_lit_append: "scan_lit l x = Some r \<Longrightarrow> scan_lit l (x @ t) = Some (r @ t)"
  by (auto simp: scan_lit_def split: list.splits if_splits)

lemma scan_char_skip_append:
  "scan_char (skip_space x) = Some (c, r) \<Longrightarrow> scan_char (skip_space (x @ t)) = Some (c, r @ t)"
  by (subst skip_space_append) (auto simp: scan_char_append simp: scan_char_def split: list.splits)

lemma scan_Nil [simp]: "scan_char [] = None" "scan_lit l [] = None" "skip_space [] = []"
  by (simp_all add: scan_char_def scan_lit_def skip_space_def)

lemma scan_fields_append:
  assumes "scan_fields x = Some (e, r)" "r \<noteq> []"
  shows "scan_fields (x @ t) = Some (e, r @ t)"
proof -
  note ap = scan_num_append scan_char_append scan_lit_append scan_char_skip_append
  obtain vs s1 s2 ve s3 c1 s4 c2 s5 c3 s6 c4 s7 off s8 maj s9 s10 mnr s11 i where h:
    "scan_num 16 x = Some (vs, s1)" "scan_lit CHR ''-'' s1 = Some s2" "scan_num 16 s2 = Some (ve, s3)"
    "scan_char (skip_space s3) = Some (c1, s4)" "scan_char s4 = Some (c2, s5)" "scan_char s5 = Some (c3, s6)"
    "scan_char s6 = Some (c4, s7)" "scan_num 16 s7 = Some (off, s8)" "scan_num 16 s8 = Some (maj, s9)"
    "scan_lit CHR '':'' s9 = Some s10" "scan_num 16 s10 = Some (mnr, s11)" "scan_num 10 s11 = Some (i, r)"
    and e: "e = \<lparr>vm_start = vs, vm_end = ve, pm_r = c1, pm_w = c2, pm_x = c3, pm_s = c4, pgoff = off,
              pm_major = sint (ucast maj :: u32), pm_minor = sint (ucast mnr :: u32), ino = i, pm_name = []\<rparr>"
    using assms(1) unfolding scan_fields_def by (auto simp: bind_eq_Some_conv)
  have ne: "s1 \<noteq> []" "s3 \<noteq> []" "s8 \<noteq> []" "s9 \<noteq> []" "s11 \<noteq> []" using h by auto
  show ?thesis
    unfolding scan_fields_def e
    by (simp add: ap(1) [OF h(1) ne(1)] ap(3) [OF h(2)] ap(1) [OF h(3) ne(2)] ap(4) [OF h(4)] ap(2) [OF h(5)]
        ap(2) [OF h(6)] ap(2) [OF h(7)] ap(1) [OF h(8) ne(3)] ap(1) [OF h(9) ne(4)] ap(3) [OF h(10)] ap(1) [OF h(11) ne(5)]
        ap(1) [OF h(12) assms(2)])
qed

lemma scan_word_Nil: "scan_word s = [] \<longleftrightarrow> skip_space s = []"
proof -
  have "skip_space s \<noteq> [] \<Longrightarrow> \<not> is_space (hd (skip_space s))" unfolding skip_space_def by (rule hd_dropWhile)
  then show ?thesis unfolding scan_word_def by (cases "skip_space s") auto
qed

lemma digits_val_last: "digits_val b a x = (v, []) \<Longrightarrow> x \<noteq> [] \<Longrightarrow> digit_in b (last x)"
  by (induction x arbitrary: a) (auto split: if_splits)

lemma skip_space_suffix: "\<exists>y. x = y @ skip_space x"
  unfolding skip_space_def by (metis takeWhile_dropWhile_id)

lemma skip_0x_suffix: "\<exists>y. s = y @ skip_0x b s"
proof (cases "skip_0x b s = s")
  case False
  then obtain c0 c1 r where "s = c0 # c1 # r" "skip_0x b s = r"
    by (auto simp: skip_0x_def split: list.splits if_splits)
  then show ?thesis by simp
qed (intro exI [of _ "[]"], simp)

lemma strtol_sign_suffix: "\<exists>y. s = y @ snd (strtol_sign s)"
  by (cases s) (auto simp: strtol_sign_def)

lemma scan_num_suffix:
  assumes "scan_num b x = Some (v, r)"
  obtains y ds n where "x = y @ ds" "digits_val b 0 ds = (n, r)" "ds \<noteq> []"
proof -
  let ?ds = "skip_0x b (snd (strtol_sign (skip_space x)))"
  obtain n where n: "digits_val b 0 ?ds = (n, r)" "r \<noteq> ?ds"
    using assms by (auto simp: scan_num_def Let_def split: prod.splits if_splits)
  then have "?ds \<noteq> []" by auto
  moreover obtain y1 y2 y3 where "x = y1 @ skip_space x" "skip_space x = y2 @ snd (strtol_sign (skip_space x))"
    "snd (strtol_sign (skip_space x)) = y3 @ ?ds"
    using skip_space_suffix strtol_sign_suffix skip_0x_suffix by blast
  then have "x = (y1 @ y2 @ y3) @ ?ds" by simp
  ultimately show ?thesis using that n(1) by blast
qed

lemma scan_num_last:
  assumes "scan_num b x = Some (v, r)"
  shows "if r = [] then digit_in b (last x) else last x = last r"
proof -
  obtain y ds n where d: "x = y @ ds" "digits_val b 0 ds = (n, r)" "ds \<noteq> []" using scan_num_suffix [OF assms] .
  moreover obtain z where "ds = z @ r" using digits_val_suffix [OF d(2)] by blast
  ultimately show ?thesis using digits_val_last [of b 0 ds n] by auto
qed

lemma scan_fields_last:
  assumes "scan_fields x = Some (e, r)"
  shows "if r = [] then digit_in 10 (last x) else last x = last r"
proof -
  obtain vs s1 s2 ve s3 c1 s4 c2 s5 c3 s6 c4 s7 off s8 maj s9 s10 mnr s11 i where h:
    "scan_num 16 x = Some (vs, s1)" "scan_lit CHR ''-'' s1 = Some s2" "scan_num 16 s2 = Some (ve, s3)"
    "scan_char (skip_space s3) = Some (c1, s4)" "scan_char s4 = Some (c2, s5)" "scan_char s5 = Some (c3, s6)"
    "scan_char s6 = Some (c4, s7)" "scan_num 16 s7 = Some (off, s8)" "scan_num 16 s8 = Some (maj, s9)"
    "scan_lit CHR '':'' s9 = Some s10" "scan_num 16 s10 = Some (mnr, s11)" "scan_num 10 s11 = Some (i, r)"
    using assms unfolding scan_fields_def by (auto simp: bind_eq_Some_conv)
  have ne: "s1 \<noteq> []" "s2 \<noteq> []" "s3 \<noteq> []" "s4 \<noteq> []" "s5 \<noteq> []" "s6 \<noteq> []" "s7 \<noteq> []" "s8 \<noteq> []" "s9 \<noteq> []"
    "s10 \<noteq> []" "s11 \<noteq> []" using h by auto
  have c: "scan_char a = Some (c, b) \<Longrightarrow> b \<noteq> [] \<Longrightarrow> last a = last b" for a c b
    by (auto simp: scan_char_def split: list.splits)
  have l: "scan_lit ch a = Some b \<Longrightarrow> b \<noteq> [] \<Longrightarrow> last a = last b" for ch a b
    by (auto simp: scan_lit_def split: list.splits if_splits)
  have "last s3 = last (skip_space s3)"
  proof -
    have "skip_space s3 \<noteq> []" using h(4) by auto
    then show ?thesis using skip_space_suffix [of s3] by (metis last_appendR)
  qed
  then have "last x = last s11"
    using scan_num_last [OF h(1)] l [OF h(2)] scan_num_last [OF h(3)] c [OF h(4)] c [OF h(5)] c [OF h(6)] c [OF h(7)]
      scan_num_last [OF h(8)] scan_num_last [OF h(9)] l [OF h(10)] scan_num_last [OF h(11)] ne by simp
  then show ?thesis using scan_num_last [OF h(12)] by simp
qed

text \<open>A line of an area without a name that ends in a newline: the word behind the newline becomes the name.\<close>

lemma sscanf_maps_leftover:
  assumes "sscanf_maps l = Some e" "pm_name e = []" "last l = NL"
  shows "sscanf_maps (l @ t) = Some (e\<lparr>pm_name := scan_word t\<rparr>)"
proof -
  obtain f r where f: "scan_fields l = Some (f, r)" "e = f\<lparr>pm_name := scan_word r\<rparr>"
    using assms(1) by (auto simp: sscanf_maps_def)
  have "r \<noteq> []" using scan_fields_last [OF f(1)] assms(3) by (auto simp: digit_in_def digit_val_def)
  then have "scan_fields (l @ t) = Some (f, r @ t)" using scan_fields_append [OF f(1)] by simp
  moreover have "skip_space r = []" using f(2) assms(2) by (simp add: scan_word_Nil)
  then have "scan_word (r @ t) = scan_word t" by (simp add: scan_word_def skip_space_append_Nil)
  ultimately show ?thesis using f(2) by (simp add: sscanf_maps_def)
qed

lemma pending_no_NUL: "rb_ok rest b w \<Longrightarrow> NUL \<notin> set (pending rest b w)"
  by (auto simp: rb_ok_def pending_def dest: set_takeWhileD)

lemma c_string_put:
  "NUL \<notin> set l \<Longrightarrow> c_string (put_bytes 0 l buf) = l @ c_string (drop (length l) buf)"
  by (auto simp: c_string_def put_bytes_def takeWhile_append)

text \<open>A line that names its area: nothing behind its newline is read.\<close>

lemma scan_word_append:
  assumes "skip_space r \<noteq> []" "last r = NL"
  shows "scan_word (r @ t) = scan_word r"
proof -
  have "last (skip_space r) = NL" using assms skip_space_suffix [of r] by (metis last_appendR)
  then have "NL \<in> set (skip_space r)" using assms(1) last_in_set by metis
  moreover have "is_space NL" by (simp add: is_space_def)
  ultimately have "takeWhile (\<lambda>c. \<not> is_space c) (skip_space r @ t) = takeWhile (\<lambda>c. \<not> is_space c) (skip_space r)"
    by (intro takeWhile_append1 [of NL]) simp_all
  then show ?thesis by (simp add: scan_word_def skip_space_append [OF assms(1)])
qed

lemma sscanf_maps_named:
  assumes "sscanf_maps l = Some e" "pm_name e \<noteq> []" "last l = NL"
  shows "sscanf_maps (l @ t) = Some e"
proof -
  obtain f r where f: "scan_fields l = Some (f, r)" "e = f\<lparr>pm_name := scan_word r\<rparr>"
    using assms(1) by (auto simp: sscanf_maps_def)
  have r: "r \<noteq> []" "last r = NL"
    using scan_fields_last [OF f(1)] assms(3) by (auto simp: digit_in_def digit_val_def split: if_splits)
  then have "scan_fields (l @ t) = Some (f, r @ t)" using scan_fields_append [OF f(1)] by simp
  moreover have "skip_space r \<noteq> []" using f(2) assms(2) by (simp add: scan_word_Nil [symmetric])
  ultimately show ?thesis using f(2) scan_word_append r(2) by (simp add: sscanf_maps_def)
qed

lemma lines_of_set: "l \<in> set (lines_of p) \<Longrightarrow> set l \<subseteq> set p"
proof (induction p rule: lines_of.induct)
  case (1 p)
  show ?case
  proof (cases "p = []")
    case False
    obtain r where "p = first_line p @ r" using first_line_prefix by blast
    then have "set (first_line p) \<subseteq> set p" by (metis Un_upper1 set_append)
    then show ?thesis using 1 False set_drop_subset [of "length (first_line p)" p] by (auto simp: lines_of_ne)
  qed (use 1 in \<open>simp add: lines_of.simps\<close>)
qed

text \<open>
  What a line stands for.  A complete line ends in a newline and has the ten fields.  Its entry
  is the parse of the line itself, except that an area without a name is named by the first word
  behind the end of the line in the array, where an earlier and longer line may have left one.
\<close>

definition line_complete :: "string \<Rightarrow> bool" where
  "line_complete l \<longleftrightarrow> l \<noteq> [] \<and> last l = NL \<and> sscanf_maps l \<noteq> None"

primrec line_entries :: "string \<Rightarrow> string list \<Rightarrow> util_proc_maps_entry option list" where
  "line_entries buf [] = []"
| "line_entries buf (l # ls) =
     map_option (\<lambda>e. if pm_name e \<noteq> [] then e else e\<lparr>pm_name := scan_word (c_string (drop (length l) buf))\<rparr>) (sscanf_maps l)
     # line_entries (put_bytes 0 l buf) ls"

lemma scanned_complete:
  "list_all line_complete ls \<Longrightarrow> \<forall>l \<in> set ls. NUL \<notin> set l \<Longrightarrow> scanned buf ls = line_entries buf ls"
proof (induction ls arbitrary: buf)
  case (Cons l ls)
  obtain e where e: "sscanf_maps l = Some e" "last l = NL" using Cons.prems(1) by (auto simp: line_complete_def)
  have "sscanf_maps (c_string (put_bytes 0 l buf)) =
      Some (if pm_name e \<noteq> [] then e else e\<lparr>pm_name := scan_word (c_string (drop (length l) buf))\<rparr>)"
    using sscanf_maps_named [OF e(1) _ e(2)] sscanf_maps_leftover [OF e(1) _ e(2)] Cons.prems(2) by (simp add: c_string_put)
  then show ?case using Cons e(1) by simp
qed simp

text \<open>When every line names its area, the entries are the parse of the lines by themselves.\<close>

lemma line_entries_named:
  "list_all (\<lambda>l. case sscanf_maps l of Some e \<Rightarrow> pm_name e \<noteq> [] | None \<Rightarrow> False) ls \<Longrightarrow> line_entries buf ls = map sscanf_maps ls"
  by (induction ls arbitrary: buf) (auto split: option.splits)

text \<open>
  C15: Reading the memory map of a process as text computes a parse of its lines.  For
  a file without zero bytes whose lines are shorter than the array and whose names are
  shorter than 128 characters, whatever pieces the kernel delivers and however often it
  interrupts, the function returns, with the entries and the result of the parse over the
  array as each line leaves it.  For complete lines that is the parse of the line by itself
  when it names its area; an area without a name takes the word that an earlier, longer line
  left behind it in the array.  So when all lines name their areas, the result is the parse
  of the lines of the file.
\<close>

theorem maps_text_refines:
  assumes "reads_file rd rest busy" "NUL \<notin> set (rest w)" "length buf = MAPS_BUF" "1 < length iobuf"
    and "\<forall>l \<in> set (lines_of (rest w)). length l < MAPS_BUF" "names_fit buf (lines_of (rest w))"
  shows "\<exists>w'. util_proc_maps_parse_filter_text mapped rd buf iobuf cb w =
             Some (util_proc_maps_parse_filter mapped (Some (scanned buf (lines_of (rest w)))) cb, w') \<and>
           (list_all line_complete (lines_of (rest w)) \<longrightarrow>
              scanned buf (lines_of (rest w)) = line_entries buf (lines_of (rest w)) \<and>
              (list_all (\<lambda>l. pm_name (the (sscanf_maps l)) \<noteq> []) (lines_of (rest w)) \<longrightarrow>
                 scanned buf (lines_of (rest w)) = map sscanf_maps (lines_of (rest w))))"
proof -
  let ?b = "\<lparr>rb_bytes = iobuf, rb_ptr = length iobuf - 1\<rparr>"
  let ?ls = "lines_of (rest w)"
  have p: "pending rest ?b w = rest w" by (simp add: pending_def rb_end_def)
  have "rb_ok rest ?b w" "0 < rb_ptr ?b" using assms(2,4) by (auto simp: rb_ok_def rb_end_def)
  from parse_text_lines [OF assms(1) this assms(3), unfolded p, OF assms(5,6)] obtain w' where
    "parse_text cb rd buf ?b [] w = Some (parse_lines cb (scanned buf ?ls) [], w')" by blast
  then have "util_proc_maps_parse_filter_text mapped rd buf iobuf cb w =
      Some (util_proc_maps_parse_filter mapped (Some (scanned buf ?ls)) cb, w')"
    by (simp add: util_proc_maps_parse_filter_text_def util_proc_maps_parse_filter_def Let_def case_prod_beta)
  moreover have "\<forall>l \<in> set ?ls. NUL \<notin> set l" using assms(2) lines_of_set by blast
  then have "scanned buf ?ls = line_entries buf ?ls" if "list_all line_complete ?ls"
    using scanned_complete that by blast
  moreover have "line_entries buf ?ls = map sscanf_maps ?ls"
    if "list_all line_complete ?ls" "list_all (\<lambda>l. pm_name (the (sscanf_maps l)) \<noteq> []) ?ls"
    by (rule line_entries_named) (use that in \<open>fastforce simp: list_all_iff line_complete_def\<close>)
  ultimately show ?thesis by auto
qed

text \<open>A file of two lines, the second without a name: it is reported under the name of the first.\<close>

definition demo_previous :: string where
  "demo_previous = ''1000-2000 r-xp 0 0:0 9  /lib/a'' @ [NL]"

abbreviation (input) "demo_file \<equiv> demo_previous @ demo_line"

definition demo_previous_entry :: util_proc_maps_entry where
  "demo_previous_entry = \<lparr>vm_start = 0x1000, vm_end = 0x2000, pm_r = CHR ''r'', pm_w = CHR ''-'', pm_x = CHR ''x'',
     pm_s = CHR ''p'', pgoff = 0, pm_major = 0, pm_minor = 0, ino = 9, pm_name = ''/lib/a''\<rparr>"

lemma demo_previous_scan: "sscanf_maps demo_previous = Some demo_previous_entry"
  by (simp add: sscanf_maps_def scan_fields_def demo_previous_def demo_previous_entry_def scan_num_def skip_space_def is_space_def
      strtol_sign_def skip_0x_def digit_in_def digit_val_def scan_char_def scan_lit_def scan_word_def Let_def)

lemma demo_file_lines: "lines_of demo_file = [demo_previous, demo_line]"
proof -
  have "first_line demo_file = demo_previous" by (simp add: first_line_def demo_previous_def)
  moreover have "demo_file \<noteq> []" by (simp add: demo_previous_def)
  note lines_of_ne [OF this]
  ultimately show ?thesis by (simp add: demo_lines)
qed

lemma demo_file_entries:
  "line_entries (replicate MAPS_BUF NUL) (lines_of demo_file) = [Some demo_previous_entry, Some (demo_entry\<lparr>pm_name := ''/lib/a''\<rparr>)]"
proof -
  have "c_string (drop (length demo_line) (put_bytes 0 demo_previous (replicate MAPS_BUF NUL))) = ''/lib/a'' @ [NL]"
    by (simp add: demo_no_NUL put_bytes_def) (simp add: demo_previous_def c_string_def)
  then have "scan_word (c_string (drop (length demo_line) (put_bytes 0 demo_previous (replicate MAPS_BUF NUL)))) = ''/lib/a''"
    by (simp add: scan_word_def skip_space_def is_space_def)
  then show ?thesis
    by (simp add: demo_file_lines demo_scan demo_previous_scan) (simp add: demo_previous_entry_def demo_entry_def)
qed

lemma demo_file_complete: "list_all line_complete (lines_of demo_file)" "\<forall>l \<in> set (lines_of demo_file). length l < MAPS_BUF \<and> NUL \<notin> set l"
  by (simp_all add: demo_file_lines line_complete_def demo_scan demo_previous_scan) (simp_all add: demo_line_def demo_previous_def)

theorem maps_text_refines_witness:
  "\<exists>w'. util_proc_maps_parse_filter_text (\<lambda>_. True) demo_read (replicate MAPS_BUF NUL) (replicate 3 NUL) None (demo_file, 5) =
     Some ((0, [demo_previous_entry, demo_entry\<lparr>pm_name := ''/lib/a''\<rparr>]), w')"
proof -
  have s: "scanned (replicate MAPS_BUF NUL) (lines_of demo_file) = line_entries (replicate MAPS_BUF NUL) (lines_of demo_file)"
    using scanned_complete demo_file_complete by blast
  have "names_fit (replicate MAPS_BUF NUL) (lines_of (fst (demo_file, 5 :: nat)))"
    unfolding names_fit_def fst_conv s demo_file_entries by (simp add: demo_entry_def demo_previous_entry_def)
  moreover have "NUL \<notin> set demo_file" by (simp add: demo_no_NUL) (simp add: demo_previous_def)
  ultimately obtain w' where
    "util_proc_maps_parse_filter_text (\<lambda>_. True) demo_read (replicate MAPS_BUF NUL) (replicate 3 NUL) None (demo_file, 5) =
       Some (util_proc_maps_parse_filter (\<lambda>_. True) (Some (line_entries (replicate MAPS_BUF NUL) (lines_of demo_file))) None, w')"
    using maps_text_refines [OF demo_reads, of "(demo_file, 5)" "replicate MAPS_BUF NUL" "replicate 3 NUL" "\<lambda>_. True" None]
      demo_file_complete by auto
  then show ?thesis
    unfolding demo_file_entries by (simp add: util_proc_maps_parse_filter_def util_proc_maps_remove_unmapped_def)
qed

text \<open>
  An area without a name gets a name left over from an earlier line.  The reader
  does not end the line it delivers with a zero byte, so the scan of a line without a name
  goes on behind its newline: when such a line is read over the contents \<open>buf\<close> of the
  array, its entry is named by the first word behind the end of the line in \<open>buf\<close>.
\<close>

theorem anonymous_area_takes_leftover_name:
  assumes "reads_file rd rest busy" "rb_ok rest b w" "0 < rb_ptr b" "length buf = MAPS_BUF"
    and line: "line = first_line (pending rest b w)" "length line < MAPS_BUF" "last line = NL"
    and "sscanf_maps line = Some e" "pm_name e = []"
  shows "\<exists>buf' b' w'. bufread rd MAPS_BUF buf b w = Some (int (length line), buf', b', w') \<and>
           sscanf_maps (c_string buf') = Some (e\<lparr>pm_name := scan_word (c_string (drop (length line) buf))\<rparr>)"
proof -
  obtain r where "pending rest b w = line @ r" using first_line_prefix line(1) by blast
  then have "NUL \<notin> set line" using pending_no_NUL [OF assms(2)] by auto
  then have "sscanf_maps (c_string (put_bytes 0 line buf)) = Some (e\<lparr>pm_name := scan_word (c_string (drop (length line) buf))\<rparr>)"
    using sscanf_maps_leftover [OF assms(8,9) line(3)] by (simp add: c_string_put)
  then show ?thesis using bufread_line [OF assms(1-4) line(2) [unfolded line(1)]] line(1) by blast
qed

theorem anonymous_area_takes_leftover_name_witness:
  "\<exists>buf' b' w'. bufread demo_read MAPS_BUF (demo_previous @ replicate (MAPS_BUF - length demo_previous) NUL)
       \<lparr>rb_bytes = replicate 9 NUL, rb_ptr = 8\<rparr> (demo_line, 2) = Some (24, buf', b', w') \<and>
     sscanf_maps (c_string buf') = Some (demo_entry\<lparr>pm_name := ''/lib/a''\<rparr>)"
proof -
  let ?buf = "demo_previous @ replicate (MAPS_BUF - length demo_previous) NUL"
  let ?b = "\<lparr>rb_bytes = replicate 9 NUL, rb_ptr = 8\<rparr>"
  have ok: "rb_ok fst ?b (demo_line, 2 :: nat)" using demo_no_NUL by (simp add: rb_ok_def rb_end_def)
  have p: "demo_line = first_line (pending fst ?b (demo_line, 2 :: nat))"
    by (simp add: pending_def rb_end_def demo_first_line)
  have l: "length ?buf = MAPS_BUF" by (simp add: demo_previous_def)
  have "c_string (drop (length demo_line) ?buf) = ''/lib/a'' @ [NL]"
    by (simp add: demo_no_NUL) (simp add: demo_previous_def c_string_def)
  then have w: "scan_word (c_string (drop (length demo_line) ?buf)) = ''/lib/a''"
    by (simp add: scan_word_def skip_space_def is_space_def)
  have "last demo_line = NL" "length demo_line < MAPS_BUF" "pm_name demo_entry = []"
    using demo_no_NUL by (simp_all add: demo_entry_def) (simp add: demo_line_def)
  then show ?thesis
    using anonymous_area_takes_leftover_name [OF demo_reads ok _ l p _ _ demo_scan, unfolded w] demo_no_NUL by simp
qed

section \<open>Printing and parsing an entry\<close>

lemma hex_digit: "k < 16 \<Longrightarrow> digit_val (''0123456789abcdef'' ! k) = Some k"
proof -
  have "list_all (\<lambda>k. digit_val (''0123456789abcdef'' ! k) = Some k) [0..<16]" by code_simp
  then show "k < 16 \<Longrightarrow> digit_val (''0123456789abcdef'' ! k) = Some k" by (simp add: list_all_iff)
qed

lemma lt_kputx_digits_hex: "c \<in> set (lt_kputx_digits n) \<Longrightarrow> digit_in 16 c"
proof (induction n rule: lt_kputx_digits.induct)
  case (1 n)
  have "digit_in 16 (''0123456789abcdef'' ! (n mod 16))" unfolding digit_in_def by (subst hex_digit) simp_all
  then show ?case using 1 by (subst (asm) (2) lt_kputx_digits.simps) (auto split: if_splits)
qed

lemma lt_kputx_digits_value: "fst (digits_val 16 0 (lt_kputx_digits n)) = n"
proof (induction n rule: lt_kputx_digits.induct)
  case (1 n)
  have last: "digits_val 16 a [''0123456789abcdef'' ! (n mod 16)] = (a * 16 + n mod 16, [])" for a
  proof -
    have "digit_val (''0123456789abcdef'' ! (n mod 16)) = Some (n mod 16)" by (rule hex_digit) simp
    then show ?thesis by (simp only: digits_val.simps digit_in_def) simp
  qed
  have ds: "\<forall>c \<in> set (lt_kputx_digits (n div 16)). digit_in 16 c" by (simp add: lt_kputx_digits_hex)
  show ?case
  proof (cases "n \<ge> 16")
    case True
    then have "lt_kputx_digits n = lt_kputx_digits (n div 16) @ [''0123456789abcdef'' ! (n mod 16)]"
      by (subst lt_kputx_digits.simps) simp
    then show ?thesis by (simp only: digits_val_append [OF ds] last 1 [OF True]) simp
  next
    case False
    then have "lt_kputx_digits n = [''0123456789abcdef'' ! (n mod 16)]" by (subst lt_kputx_digits.simps) simp
    then show ?thesis using False by (simp only: last) simp
  qed
qed

lemma digits_zeros: "digits_val 16 0 (replicate m CHR ''0'' @ ds) = digits_val 16 0 ds"
  by (induction m) (simp_all add: digit_in_def digit_val_def)

lemma digit_not_special:
  "digit_in b c \<Longrightarrow> b \<le> 16 \<Longrightarrow> \<not> is_space c \<and> c \<noteq> CHR ''-'' \<and> c \<noteq> CHR ''+'' \<and> c \<noteq> CHR ''x'' \<and> c \<noteq> CHR ''X''"
  by (auto simp: digit_in_def digit_val_def is_space_def Let_def split: if_splits)

lemma scan_digits:
  assumes ds: "\<forall>c \<in> set ds. digit_in b c" "ds \<noteq> []" "b \<le> 16" and n: "fst (digits_val b 0 ds) = n" "n < 2 ^ 64"
    and c: "\<not> digit_in b c" "c \<noteq> CHR ''x''" "c \<noteq> CHR ''X''"
    and sp: "\<forall>x \<in> set sp. is_space x"
  shows "scan_num b (sp @ ds @ c # t) = Some (word_of_nat n, c # t)"
proof -
  obtain d0 dr where d: "ds = d0 # dr" using ds(2) by (cases ds) auto
  have d0: "\<not> is_space d0 \<and> d0 \<noteq> CHR ''-'' \<and> d0 \<noteq> CHR ''+''" using digit_not_special [of b d0] ds(1,3) d by auto
  have "skip_space (sp @ ds @ c # t) = ds @ c # t" using sp d0 d by (induction sp) (auto simp: skip_space_def)
  moreover have "strtol_sign (ds @ c # t) = (False, ds @ c # t)" using d0 d by (simp add: strtol_sign_def)
  moreover have "skip_0x b (ds @ c # t) = ds @ c # t"
  proof (cases dr)
    case Nil
    then show ?thesis using c d by (simp add: skip_0x_def)
  next
    case (Cons d1 ds')
    then show ?thesis using digit_not_special [of b d1] ds(1,3) d by (simp add: skip_0x_def)
  qed
  moreover have "digits_val b 0 (ds @ c # t) = (n, c # t)"
    using digits_val_append [OF ds(1), of 0 "c # t"] n(1) c(1) by simp
  ultimately show ?thesis using n(2) ds(2) by (auto simp: scan_num_def)
qed

lemma scan_hex:
  assumes "n < 2 ^ 64" "\<not> digit_in 16 c" "c \<noteq> CHR ''x''" "c \<noteq> CHR ''X''" "\<forall>x \<in> set sp. is_space x"
  shows "scan_num 16 (sp @ pad_left k CHR ''0'' (lt_kputx_digits n) @ c # t) = Some (word_of_nat n, c # t)"
proof (rule scan_digits [OF _ _ _ _ assms])
  have "lt_kputx_digits n \<noteq> []" by (subst lt_kputx_digits.simps) simp
  then show "pad_left k CHR ''0'' (lt_kputx_digits n) \<noteq> []" by (simp add: pad_left_def)
  show "\<forall>c \<in> set (pad_left k CHR ''0'' (lt_kputx_digits n)). digit_in 16 c"
    using lt_kputx_digits_hex by (auto simp: pad_left_def digit_in_def digit_val_def)
  show "fst (digits_val 16 0 (pad_left k CHR ''0'' (lt_kputx_digits n))) = n"
    by (simp add: pad_left_def digits_zeros lt_kputx_digits_value)
qed simp

lemma unat_u64: "unat (x :: u64) < 2 ^ 64"
  using unsigned_less [of x, where ?'a = nat] by simp

lemma unat_u32: "unat (x :: u32) < 2 ^ 64"
  using unsigned_less [of x, where ?'a = nat] by simp

lemma int_field:
  assumes "- (2 ^ 31) \<le> m" "m < 2 ^ 31"
  shows "sint (ucast (word_of_nat (unat (word_of_int m :: u32)) :: u64) :: u32) = m"
proof -
  have "(ucast (word_of_nat (unat (x :: u32)) :: u64) :: u32) = x" for x
    by (simp add: ucast_up_ucast_id is_up)
  moreover have "sint (word_of_int m :: u32) = m"
    using assms by (simp add: sint_sbintrunc' signed_take_bit_int_eq_self)
  ultimately show ?thesis by simp
qed

definition printable_entry :: "util_proc_maps_entry \<Rightarrow> bool" where
  "printable_entry e \<longleftrightarrow> \<not> is_space (pm_r e) \<and> list_all (\<lambda>c. \<not> is_space c) (pm_name e) \<and>
     - (2 ^ 31) \<le> pm_major e \<and> pm_major e < 2 ^ 31 \<and> - (2 ^ 31) \<le> pm_minor e \<and> pm_minor e < 2 ^ 31"

lemma scan_word_padded:
  assumes "list_all (\<lambda>c. \<not> is_space c) n"
  shows "scan_word (replicate k CHR '' '' @ n @ [NL]) = n"
proof -
  have "skip_space (replicate k CHR '' '' @ n @ [NL]) = skip_space (n @ [NL])"
    by (induction k) (simp_all add: skip_space_def is_space_def)
  moreover have "takeWhile (\<lambda>c. \<not> is_space c) (n @ [NL]) = n"
    using assms by (simp add: takeWhile_append list_all_iff is_space_def)
  ultimately show ?thesis
    using assms by (cases n) (simp_all add: scan_word_def, simp_all add: skip_space_def is_space_def)
qed

text \<open>
  C16: An entry survives being printed and parsed: scanning the line printed for an entry
  gives the entry back, with all of its numbers and its name, also when it has none.
\<close>

theorem maps_entry_roundtrip:
  assumes "printable_entry e"
  shows "sscanf_maps (util_proc_maps_entry_print e @ [NL]) = Some e"
proof -
  let ?h = "\<lambda>k n. pad_left k CHR ''0'' (lt_kputx_digits n)"
  let ?mj = "unat (word_of_int (pm_major e) :: u32)" and ?mn = "unat (word_of_int (pm_minor e) :: u32)"
  let ?d = "lt_kputn (unat (ino e))"
  let ?m = "10 - length ?d"
  have nd: "\<not> digit_in 16 CHR ''-''" "\<not> digit_in 16 CHR '' ''" "\<not> digit_in 16 CHR '':''" "\<not> digit_in 10 CHR '' ''"
    by (simp_all add: digit_in_def digit_val_def)
  have sp: "is_space CHR '' ''" by (simp add: is_space_def)
  have num: "scan_num 16 (?h k (unat (x :: u64)) @ CHR ''-'' # t) = Some (x, CHR ''-'' # t)"
    "scan_num 16 (?h k (unat x) @ CHR '' '' # t) = Some (x, CHR '' '' # t)"
    "scan_num 16 (CHR '' '' # ?h k (unat x) @ CHR '' '' # t) = Some (x, CHR '' '' # t)" for k x t
    using scan_hex [OF unat_u64 nd(1), of "[]" k x t] scan_hex [OF unat_u64 nd(2), of "[]" k x t]
      scan_hex [OF unat_u64 nd(2), of "[CHR '' '']" k x t] sp by simp_all
  have num32: "scan_num 16 (CHR '' '' # ?h 2 (unat (y :: u32)) @ CHR '':'' # t) = Some (word_of_nat (unat y), CHR '':'' # t)"
    "scan_num 16 (?h 2 (unat y) @ CHR '' '' # t) = Some (word_of_nat (unat y), CHR '' '' # t)" for y t
    using scan_hex [OF unat_u32 nd(3), of "[CHR '' '']" 2 y t] scan_hex [OF unat_u32 nd(2), of "[]" 2 y t] sp by simp_all
  have dec: "scan_num 10 (CHR '' '' # ?d @ CHR '' '' # t) = Some (ino e, CHR '' '' # t)" for t
  proof -
    have "?d \<noteq> []" by (subst lt_kputn.simps) simp
    then show ?thesis
      using scan_digits [of ?d 10 "unat (ino e)" "CHR '' ''" "[CHR '' '']" t] lt_kputn_digits lt_kputn_value [of "unat (ino e)"]
        unat_u64 [of "ino e"] nd(4) sp by simp
  qed
  have pr: "pad_right 10 CHR '' '' ?d @ CHR '' '' # t = ?d @ CHR '' '' # replicate ?m CHR '' '' @ t" for t
    by (simp add: pad_right_def replicate_app_Cons_same)
  have ch: "scan_char (skip_space (CHR '' '' # pm_r e # t)) = Some (pm_r e, t)" for t
    using assms sp by (simp add: skip_space_def scan_char_def printable_entry_def)
  have c: "scan_char (x # t) = Some (x, t)" "scan_lit x (x # t) = Some t" for x t by (simp_all add: scan_char_def scan_lit_def)
  have w: "scan_word (CHR '' '' # replicate ?m CHR '' '' @ pm_name e @ [NL]) = pm_name e"
    using scan_word_padded [of "pm_name e" "Suc ?m"] assms by (simp add: printable_entry_def)
  have ii: "sint (ucast (word_of_nat ?mj :: u64) :: u32) = pm_major e" "sint (ucast (word_of_nat ?mn :: u64) :: u32) = pm_minor e"
    using assms int_field by (simp_all add: printable_entry_def)
  show ?thesis
    by (simp add: sscanf_maps_def scan_fields_def util_proc_maps_entry_print_def num num32 dec pr ch c w ii del: of_nat_unat)
qed

theorem maps_entry_roundtrip_witness:
  "sscanf_maps (util_proc_maps_entry_print (demo_entry\<lparr>pm_name := ''/lib/a'', pm_major := 8\<rparr>) @ [NL]) =
     Some (demo_entry\<lparr>pm_name := ''/lib/a'', pm_major := 8\<rparr>)"
  by (rule maps_entry_roundtrip) (simp add: printable_entry_def demo_entry_def is_space_def)

end
