(* ===== verification/Fixpoint.thy ===== *)
theory Fixpoint
  imports Main "HOL-Library.Product_Lexorder"
begin

text \<open>
  The containers and loops the analyses under \<open>passes/slicer\<close> are written with: an ordered set
  (\<open>std::set\<close>) as a strictly sorted list, iteration over such a set while it grows, and the
  loops that repeat a pass over some rules until no rule reports a change.

  The locale \<open>inflationary\<close> is the contract of such a rule: it returns, keeps an invariant, and
  reports a change exactly when it used up some of a finite room.  From it follow termination
  of the loop and that its result is stable under every rule.
\<close>

section \<open>Ordered sets\<close>

abbreviation ordered :: "'a :: linorder list \<Rightarrow> bool" where
  "ordered \<equiv> sorted_wrt (<)"

fun set_insert :: "'a :: linorder \<Rightarrow> 'a list \<Rightarrow> 'a list" where
  "set_insert x [] = [x]"
| "set_insert x (y # ys) = (if x < y then x # y # ys else if x = y then y # ys else y # set_insert x ys)"

definition set_copy :: "'a :: linorder list \<Rightarrow> 'a list \<Rightarrow> 'a list" where
  "set_copy xs ys = fold set_insert xs ys"

lemma set_set_insert [simp]: "set (set_insert x xs) = insert x (set xs)"
  by (induction xs) auto

lemma ordered_set_insert: "ordered xs \<Longrightarrow> ordered (set_insert x xs)"
  by (induction xs) auto

lemma set_insert_in: "ordered xs \<Longrightarrow> x \<in> set xs \<Longrightarrow> set_insert x xs = xs"
  by (induction xs) auto

lemma set_set_copy [simp]: "set (set_copy xs ys) = set xs \<union> set ys"
  unfolding set_copy_def by (induction xs arbitrary: ys) auto

lemma ordered_set_copy: "ordered ys \<Longrightarrow> ordered (set_copy xs ys)"
  unfolding set_copy_def by (induction xs arbitrary: ys) (auto intro: ordered_set_insert)

lemma set_copy_subset: "ordered ys \<Longrightarrow> set xs \<subseteq> set ys \<Longrightarrow> set_copy xs ys = ys"
  unfolding set_copy_def by (induction xs) (simp_all add: set_insert_in)

lemma ordered_distinct: "ordered xs \<Longrightarrow> distinct xs"
  by (induction xs) auto

lemma ordered_length: "ordered xs \<Longrightarrow> length xs = card (set xs)"
  by (simp add: distinct_card ordered_distinct)

lemma ordered_grown:
  assumes "ordered xs" "ordered ys" "set xs \<subseteq> set ys"
  shows "length ys = length xs \<longleftrightarrow> ys = xs" "length xs \<le> length ys"
proof -
  show "length xs \<le> length ys" using assms by (simp add: ordered_length card_mono)
  have "ys = xs" if "length ys = length xs"
  proof -
    have "card (set xs) = card (set ys)" using that assms by (simp add: ordered_length)
    then have "set ys = set xs" using card_subset_eq [OF _ assms(3)] by simp
    then show ?thesis using strict_sorted_equal [OF assms(2,1)] by simp
  qed
  then show "length ys = length xs \<longleftrightarrow> ys = xs" by blast
qed

text \<open>The element an iterator moves to from \<open>cur\<close>, or the first one.\<close>

fun next_after :: "'a :: linorder option \<Rightarrow> 'a list \<Rightarrow> 'a option" where
  "next_after cur [] = None"
| "next_after cur (x # xs) = (if case cur of None \<Rightarrow> True | Some c \<Rightarrow> c < x then Some x else next_after cur xs)"

definition behind :: "'a :: linorder option \<Rightarrow> 'a \<Rightarrow> bool" where
  "behind cur x \<longleftrightarrow> (case cur of None \<Rightarrow> True | Some c \<Rightarrow> c < x)"

lemma behind_simps [simp]: "behind None x" "behind (Some c) x \<longleftrightarrow> c < x"
  by (simp_all add: behind_def)

lemma next_after_None: "next_after cur xs = None \<longleftrightarrow> (\<forall>x \<in> set xs. \<not> behind cur x)"
  by (induction xs) (auto simp: behind_def)

lemma next_after_Some:
  "ordered xs \<Longrightarrow> next_after cur xs = Some x \<Longrightarrow> x \<in> set xs \<and> behind cur x \<and> (\<forall>y \<in> set xs. behind cur y \<longrightarrow> x \<le> y)"
proof (induction xs)
  case (Cons a xs)
  then show ?case
    by (cases "behind cur a") (auto simp: behind_def order.strict_implies_order split: option.splits)
qed simp

text \<open>
  \<open>for (i = get.begin(); i != get.end(); ++i) body\<close>, where the body may insert into the set
  that is iterated.
\<close>

partial_function (option) iter_live ::
    "('s \<Rightarrow> 'a :: linorder list) \<Rightarrow> ('a \<Rightarrow> 's \<Rightarrow> 's option) \<Rightarrow> 'a option \<Rightarrow> 's \<Rightarrow> 's option" where
  "iter_live get body cur s =
     (case next_after cur (get s) of
        None \<Rightarrow> Some s
      | Some x \<Rightarrow> Option.bind (body x s) (iter_live get body (Some x)))"

text \<open>
  With elements from a finite set and a body that returns, the iteration returns.  The body
  keeps the invariant and moves the state up in a preorder; the elements present at the
  beginning are all visited, at states in between.
\<close>

lemma iter_live_returns:
  assumes "finite U"
    and ok: "\<And>s. ok s \<Longrightarrow> ordered (get s) \<and> set (get s) \<subseteq> U"
    and body: "\<And>x s. ok s \<Longrightarrow> x \<in> set (get s) \<Longrightarrow> \<exists>s'. body x s = Some s' \<and> ok s' \<and> le s s'"
    and le: "\<And>s. le s s" "\<And>s t u. le s t \<Longrightarrow> le t u \<Longrightarrow> le s u"
    and grow: "\<And>s t. le s t \<Longrightarrow> set (get s) \<subseteq> set (get t)"
    and "ok s"
  shows "\<exists>s'. iter_live get body cur s = Some s' \<and> ok s' \<and> le s s' \<and>
           (\<forall>x \<in> set (get s). behind cur x \<longrightarrow>
              (\<exists>t t'. ok t \<and> le s t \<and> x \<in> set (get t) \<and> body x t = Some t' \<and> le t' s'))"
  using \<open>ok s\<close>
proof (induction "card {x \<in> U. behind cur x}" arbitrary: cur s rule: less_induct)
  case less
  note ord = ok [OF less.prems]
  show ?case
  proof (cases "next_after cur (get s)")
    case None
    then show ?thesis
      using less.prems le(1) next_after_None [of cur "get s"] by (subst iter_live.simps) auto
  next
    case (Some x)
    note x = next_after_Some [OF conjunct1 [OF ord] Some]
    obtain s1 where s1: "body x s = Some s1" "ok s1" "le s s1" using body [OF less.prems] x by blast
    have "{y \<in> U. behind (Some x) y} \<subset> {y \<in> U. behind cur y}"
      using x ord by (auto simp: behind_def split: option.splits)
    then have "card {y \<in> U. behind (Some x) y} < card {y \<in> U. behind cur y}"
      using \<open>finite U\<close> by (intro psubset_card_mono) auto
    from less.hyps [OF this s1(2)] obtain s' where s': "iter_live get body (Some x) s1 = Some s'" "ok s'" "le s1 s'"
      and v: "\<forall>y \<in> set (get s1). x < y \<longrightarrow>
         (\<exists>t t'. ok t \<and> le s1 t \<and> y \<in> set (get t) \<and> body y t = Some t' \<and> le t' s')" by auto
    have r: "iter_live get body cur s = Some s'" using Some s1 s' by (subst iter_live.simps) simp
    have "\<exists>t t'. ok t \<and> le s t \<and> y \<in> set (get t) \<and> body y t = Some t' \<and> le t' s'"
      if y: "y \<in> set (get s)" "behind cur y" for y
    proof (cases "y = x")
      case True
      then show ?thesis using s1 s' x less.prems le(1) by blast
    next
      case False
      then have "x < y" using x y by force
      moreover have "y \<in> set (get s1)" using grow [OF s1(3)] y(1) by blast
      ultimately show ?thesis using v le(2) s1(3) by blast
    qed
    then show ?thesis using r s' le(2) s1(3) by blast
  qed
qed

text \<open>Rule for an invariant along an iteration that is known to return.\<close>

lemma next_after_in: "next_after cur xs = Some x \<Longrightarrow> x \<in> set xs"
  by (induction xs) (auto split: if_splits)

lemma iter_live_inv:
  assumes "iter_live get body cur s = Some s'" "Q s"
    and step: "\<And>x t t'. Q t \<Longrightarrow> x \<in> set (get t) \<Longrightarrow> body x t = Some t' \<Longrightarrow> Q t'"
  shows "Q s'"
proof -
  have "get' = get \<longrightarrow> body' = body \<longrightarrow> Q s \<longrightarrow> Q s'" if "iter_live get' body' cur s = Some s'" for get' body' cur s s'
    using that
  proof (rule iter_live.raw_induct [rotated, where P = "\<lambda>g b cur s s'. g = get \<longrightarrow> b = body \<longrightarrow> Q s \<longrightarrow> Q s'"], intro impI)
    fix it get' body' cur s y
    assume IH: "\<And>g b c s y. it g b c s = Some y \<Longrightarrow> g = get \<longrightarrow> b = body \<longrightarrow> Q s \<longrightarrow> Q y"
      and e: "(case next_after cur (get' s) of None \<Rightarrow> Some s | Some x \<Rightarrow> Option.bind (body' x s) (it get' body' (Some x))) = Some y"
      and g: "get' = get" "body' = body" and q: "Q s"
    show "Q y"
    proof (cases "next_after cur (get s)")
      case (Some x)
      then obtain t where t: "body x s = Some t" "it get body (Some x) t = Some y"
        using e g by (auto simp: bind_eq_Some_conv)
      show ?thesis using IH [OF t(2)] step [OF q next_after_in [OF Some] t(1)] by simp
    qed (use e g q in simp)
  qed
  then show ?thesis using assms(1,2) by blast
qed

section \<open>Loops until nothing changes\<close>

text \<open>\<open>change = false; for (r in rules) change |= app(r)\<close>\<close>

fun apply_all :: "('r \<Rightarrow> 's \<Rightarrow> (bool \<times> 's) option) \<Rightarrow> 'r list \<Rightarrow> 's \<Rightarrow> (bool \<times> 's) option" where
  "apply_all app [] s = Some (False, s)"
| "apply_all app (r # rs) s =
     Option.bind (app r s) (\<lambda>(c, s). Option.bind (apply_all app rs s) (\<lambda>(d, s). Some (c \<or> d, s)))"

text \<open>\<open>do change = pass(); while (change)\<close>\<close>

partial_function (option) change_loop :: "('s \<Rightarrow> (bool \<times> 's) option) \<Rightarrow> 's \<Rightarrow> 's option" where
  "change_loop pass s = Option.bind (pass s) (\<lambda>(c, s). if c then change_loop pass s else Some s)"

definition room_step :: "('s \<Rightarrow> bool) \<Rightarrow> ('s \<Rightarrow> nat) \<Rightarrow> 's \<Rightarrow> (bool \<times> 's) option \<Rightarrow> bool" where
  "room_step ok room s r \<longleftrightarrow>
     (\<exists>c s'. r = Some (c, s') \<and> ok s' \<and> (if c then room s' < room s else s' = s))"

lemma change_loop_last:
  assumes "\<And>s. ok s \<Longrightarrow> \<exists>c s'. pass s = Some (c, s') \<and> ok s' \<and> (c \<longrightarrow> (room s' :: nat) < room s)" "ok s"
  shows "\<exists>t s'. change_loop pass s = Some s' \<and> ok s' \<and> ok t \<and> pass t = Some (False, s')"
  using assms(2)
proof (induction "room s" arbitrary: s rule: less_induct)
  case less
  obtain c t where t: "pass s = Some (c, t)" "ok t" "c \<longrightarrow> room t < room s"
    using assms(1) [OF less.prems] by blast
  show ?case
  proof (cases c)
    case True
    then show ?thesis using less.hyps [of t] t by (subst change_loop.simps) simp
  next
    case False
    then show ?thesis using t less.prems by (subst change_loop.simps) auto
  qed
qed

lemma change_loop_returns:
  assumes "\<And>s. ok s \<Longrightarrow> room_step ok room s (pass s)" "ok s"
  shows "\<exists>s'. change_loop pass s = Some s' \<and> ok s' \<and> pass s' = Some (False, s')"
proof -
  have p: "\<exists>c s'. pass s = Some (c, s') \<and> ok s' \<and> (if c then room s' < room s else s' = s)" if "ok s" for s
    using assms(1) [OF that] by (simp add: room_step_def)
  then have "\<exists>t s'. change_loop pass s = Some s' \<and> ok s' \<and> ok t \<and> pass t = Some (False, s')"
    by (intro change_loop_last [where room = room] assms(2)) metis
  then show ?thesis using p by fastforce
qed

lemma change_loop_inv:
  assumes "change_loop pass s = Some s'" "Q s" and step: "\<And>t c t'. Q t \<Longrightarrow> pass t = Some (c, t') \<Longrightarrow> Q t'"
  shows "Q s'"
proof -
  have "pass' = pass \<longrightarrow> Q s \<longrightarrow> Q s'" if "change_loop pass' s = Some s'" for pass' s s'
    using that
  proof (rule change_loop.raw_induct [rotated, where P = "\<lambda>p s s'. p = pass \<longrightarrow> Q s \<longrightarrow> Q s'"], intro impI)
    fix it pass' s y
    assume IH: "\<And>p s y. it p s = Some y \<Longrightarrow> p = pass \<longrightarrow> Q s \<longrightarrow> Q y"
      and e: "Option.bind (pass' s) (\<lambda>(c, s). if c then it pass' s else Some s) = Some y"
      and g: "pass' = pass" and q: "Q s"
    obtain c t where t: "pass s = Some (c, t)" "(if c then it pass t else Some t) = Some y"
      using e g by (auto simp: bind_eq_Some_conv)
    show "Q y" using IH [of pass t y] step [OF q t(1)] t(2) by (cases c) simp_all
  qed
  then show ?thesis using assms(1,2) by blast
qed

lemma apply_all_inv:
  assumes "apply_all app rs s = Some (c, s')" "Q s"
    and "\<And>r t c t'. r \<in> set rs \<Longrightarrow> Q t \<Longrightarrow> app r t = Some (c, t') \<Longrightarrow> Q t'"
  shows "Q s'"
  using assms
proof (induction rs arbitrary: s c)
  case (Cons r rs)
  then obtain c1 s1 c2 where "app r s = Some (c1, s1)" "apply_all app rs s1 = Some (c2, s')"
    by (auto split: bind_splits prod.splits)
  then show ?case using Cons.IH [of s1 c2] Cons.prems by auto
qed simp

locale inflationary =
  fixes app :: "'r \<Rightarrow> 's \<Rightarrow> (bool \<times> 's) option"
    and rules :: "'r set"
    and ok :: "'s \<Rightarrow> bool"
    and room :: "'s \<Rightarrow> nat"
  assumes rule_step: "r \<in> rules \<Longrightarrow> ok s \<Longrightarrow> room_step ok room s (app r s)"
begin

lemma pass_step:
  assumes "set rs \<subseteq> rules" "ok s"
  shows "room_step ok room s (apply_all app rs s)"
  using assms
proof (induction rs arbitrary: s)
  case (Cons r rs)
  obtain c t where t: "app r s = Some (c, t)" "ok t" "if c then room t < room s else t = s"
    using rule_step [of r s] Cons.prems by (auto simp: room_step_def)
  obtain d u where "apply_all app rs t = Some (d, u)" "ok u" "if d then room u < room t else u = t"
    using Cons.IH [of t] Cons.prems t(2) by (auto simp: room_step_def)
  then show ?case using t by (auto simp: room_step_def split: if_splits)
qed (auto simp: room_step_def)

lemma pass_stable:
  assumes "set rs \<subseteq> rules" "ok s" "apply_all app rs s = Some (False, s)" "r \<in> set rs"
  shows "app r s = Some (False, s)"
  using assms
proof (induction rs)
  case (Cons q rs)
  obtain c t where t: "app q s = Some (c, t)" "ok t" "if c then room t < room s else t = s"
    using rule_step [of q s] Cons.prems by (auto simp: room_step_def)
  have c: "\<not> c" using Cons.prems(3) t(1) by (auto split: bind_splits)
  then have "apply_all app rs s = Some (False, s)" using Cons.prems(3) t by (auto split: bind_splits)
  then show ?case using Cons t c by auto
qed simp

lemma loop_stable:
  assumes "set rs \<subseteq> rules" "ok s"
  shows "\<exists>s'. change_loop (apply_all app rs) s = Some s' \<and> ok s' \<and>
           (\<forall>r \<in> set rs. app r s' = Some (False, s'))"
  using change_loop_returns [of ok room "apply_all app rs", OF pass_step [OF assms(1)] assms(2)]
    pass_stable [OF assms(1)] by blast

end

lemma loop_inv:
  assumes "change_loop (apply_all app rs) s = Some s'" "Q s"
    and "\<And>r t c t'. r \<in> set rs \<Longrightarrow> Q t \<Longrightarrow> app r t = Some (c, t') \<Longrightarrow> Q t'"
  shows "Q s'"
  using change_loop_inv [OF assms(1), of Q] apply_all_inv [of app rs _ _ _ Q] assms(2,3) by blast

end
