(* ===== verification/Llvm_Ir.thy ===== *)
theory Llvm_Ir
  imports Prelude Fixpoint
begin

text \<open>
  The view the slicer has of a module, and its predicates on values
  (\<open>passes/slicer/Languages/LLVM.cpp\<close>, \<open>LLVM.h\<close>).

  A value is its address.  A module is the functions through which the slicer reads it: the
  class of a value with the operands of that class, its type, the function it belongs to, the
  lists of functions, globals, formal arguments and basic blocks, and for a phi node the blocks its
  operands come from.  The layout of types
  (\<open>DataLayout\<close>), the stripping of casts and the text of constant strings, which are LLVM's,
  are part of the module.  A value has one class, so \<open>dyn_cast\<close> and \<open>isa\<close> are
  case distinctions.  Constants are shared, so equality of addresses is equality of values.
\<close>

type_synonym val = nat

datatype ty =
    VoidTy
  | IntegerTy nat
  | PointerTy ty
  | FunctionTy ty "ty list" bool
  | StructTy nat
  | ArrayTy nat ty
  | OtherTy nat

datatype intrinsic = NotIntrinsic | Intrinsic_memcpy | Intrinsic_memmove | Intrinsic_memset | OtherIntrinsic

datatype ce_opcode = CE_BinaryOp | CE_GetElementPtr | CE_Cast | CE_Other

text \<open>One index of a \<open>getelementptr\<close>: into a structure, or into a sequence of elements of a type.\<close>

datatype gep_step = StructStep ty | SeqStep ty

text \<open>The classes, with their operands in the order of the accessors the slicer calls.\<close>

datatype vkind =
    Argument
  | Function string bool intrinsic
  | GlobalVariable string "val option"
  | ConstantPointerNull
  | ConstantInt int
  | ConstantExpr ce_opcode "val list"
  | UndefValue
  | OtherConstant bool
  | InlineAsm
  | AllocaInst ty val bool
  | LoadInst val
  | StoreInst val val
  | BitCastInst val
  | IntToPtrInst val
  | OtherCastInst val
  | GetElementPtrInst val "(val \<times> gep_step) list"
  | CallInst val "val list"
  | PHINode "val list"
  | ExtractValueInst val
  | InsertValueInst val val
  | SelectInst val val val
  | ReturnInst "val option"
  | BinaryOperator val val
  | CmpInst val val
  | BranchInst "val option"
  | SwitchInst val
  | UnreachableInst
  | OtherInst
  | OtherValue

record bblock =
  bb_insts :: "val list"
  bb_succs :: "nat list"

record llvm_module =
  kind :: "val \<Rightarrow> vkind"
  getType :: "val \<Rightarrow> ty"
  fun_of :: "val \<Rightarrow> val"
  m_functions :: "val list"
  m_globals :: "val list"
  fun_args :: "val \<Rightarrow> val list"
  fun_blocks :: "val \<Rightarrow> bblock list"
  elem_offset :: "ty \<Rightarrow> int \<Rightarrow> u64"
  store_size :: "ty \<Rightarrow> u64"
  alloc_size :: "ty \<Rightarrow> u64"
  stripPointerCasts :: "val \<Rightarrow> val"
  getName :: "val \<Rightarrow> string"
  getCString :: "val \<Rightarrow> string option"
  phi_blocks :: "val \<Rightarrow> nat list"

text \<open>The instructions of a function in the order of \<open>inst_begin\<close> to \<open>inst_end\<close>.\<close>

definition insts :: "llvm_module \<Rightarrow> val \<Rightarrow> val list" where
  "insts m f = concat (map bb_insts (fun_blocks m f))"

definition isPointerTy :: "ty \<Rightarrow> bool" where
  "isPointerTy t = (case t of PointerTy _ \<Rightarrow> True | _ \<Rightarrow> False)"

text \<open>\<open>dyn_cast<PointerType>(t)->getElementType()\<close>; for a type that is no pointer there is none.\<close>

definition getPointedType :: "ty \<Rightarrow> ty option" where
  "getPointedType t = (case t of PointerTy u \<Rightarrow> Some u | _ \<Rightarrow> None)"

definition points_to_pointer :: "ty \<Rightarrow> bool" where
  "points_to_pointer t = (case getPointedType t of Some u \<Rightarrow> isPointerTy u | None \<Rightarrow> False)"

section \<open>Classes of values\<close>

definition hasExtraReference :: "llvm_module \<Rightarrow> val \<Rightarrow> bool" where
  "hasExtraReference m v =
     (case kind m v of AllocaInst _ _ _ \<Rightarrow> True | GlobalVariable _ _ \<Rightarrow> True | Function _ _ _ \<Rightarrow> True | _ \<Rightarrow> False)"

definition isConstantValue :: "llvm_module \<Rightarrow> val \<Rightarrow> bool" where
  "isConstantValue m v =
     (case kind m v of
        ConstantPointerNull \<Rightarrow> True | ConstantInt _ \<Rightarrow> True | ConstantExpr _ _ \<Rightarrow> True | OtherConstant _ \<Rightarrow> True
      | _ \<Rightarrow> False)"

definition isPointerValue :: "llvm_module \<Rightarrow> val \<Rightarrow> bool" where
  "isPointerValue m v =
     (if \<not> isPointerTy (getType m v) then False
      else if \<not> hasExtraReference m v then True
      else points_to_pointer (getType m v))"

definition isNullPtr :: "llvm_module \<Rightarrow> val \<Rightarrow> bool" where
  "isNullPtr m v = (kind m v = ConstantPointerNull)"

definition isFunction :: "llvm_module \<Rightarrow> val \<Rightarrow> bool" where
  "isFunction m v = (case kind m v of Function _ _ _ \<Rightarrow> True | _ \<Rightarrow> False)"

definition isDeclaration :: "llvm_module \<Rightarrow> val \<Rightarrow> bool" where
  "isDeclaration m v =
     (case kind m v of Function _ d _ \<Rightarrow> d | GlobalVariable _ i \<Rightarrow> i = None | _ \<Rightarrow> False)"

text \<open>A declared function of that name; a function without a name has the empty one.\<close>

definition declared_as :: "llvm_module \<Rightarrow> string \<Rightarrow> val \<Rightarrow> bool" where
  "declared_as m n v = (case kind m v of Function name decl _ \<Rightarrow> decl \<and> name = n | _ \<Rightarrow> False)"

definition isMemoryAllocation :: "llvm_module \<Rightarrow> val \<Rightarrow> bool" where
  "isMemoryAllocation m v = declared_as m ''malloc'' v"

definition isMemoryDeallocation :: "llvm_module \<Rightarrow> val \<Rightarrow> bool" where
  "isMemoryDeallocation m v = declared_as m ''free'' v"

definition isMemoryCopy :: "llvm_module \<Rightarrow> val \<Rightarrow> bool" where
  "isMemoryCopy m v = (case kind m v of Function _ _ i \<Rightarrow> i = Intrinsic_memcpy | _ \<Rightarrow> False)"

definition isMemoryMove :: "llvm_module \<Rightarrow> val \<Rightarrow> bool" where
  "isMemoryMove m v = (case kind m v of Function _ _ i \<Rightarrow> i = Intrinsic_memmove | _ \<Rightarrow> False)"

definition isMemorySet :: "llvm_module \<Rightarrow> val \<Rightarrow> bool" where
  "isMemorySet m v = (case kind m v of Function _ _ i \<Rightarrow> i = Intrinsic_memset | _ \<Rightarrow> False)"

definition memoryManStuff :: "llvm_module \<Rightarrow> val \<Rightarrow> bool" where
  "memoryManStuff m v \<longleftrightarrow>
     isMemoryAllocation m v \<or> isMemoryDeallocation m v \<or> isMemoryCopy m v \<or> isMemoryMove m v \<or> isMemorySet m v"

definition isInlineAssembly :: "llvm_module \<Rightarrow> val \<Rightarrow> bool" where
  "isInlineAssembly m v = (case kind m v of CallInst cv _ \<Rightarrow> kind m cv = InlineAsm | _ \<Rightarrow> False)"

definition callToMemoryManStuff :: "llvm_module \<Rightarrow> val \<Rightarrow> bool" where
  "callToMemoryManStuff m c = (case kind m c of CallInst cv _ \<Rightarrow> memoryManStuff m cv | _ \<Rightarrow> False)"

definition callToVoidFunction :: "llvm_module \<Rightarrow> val \<Rightarrow> bool" where
  "callToVoidFunction m c = (if isInlineAssembly m c then False else getType m c = VoidTy)"

definition isInstruction :: "llvm_module \<Rightarrow> val \<Rightarrow> bool" where
  "isInstruction m v =
     (case kind m v of
        Argument \<Rightarrow> False | Function _ _ _ \<Rightarrow> False | GlobalVariable _ _ \<Rightarrow> False | ConstantPointerNull \<Rightarrow> False
      | ConstantInt _ \<Rightarrow> False | ConstantExpr _ _ \<Rightarrow> False | UndefValue \<Rightarrow> False | OtherConstant _ \<Rightarrow> False
      | InlineAsm \<Rightarrow> False | OtherValue \<Rightarrow> False | _ \<Rightarrow> True)"

definition isLocalToFunction :: "llvm_module \<Rightarrow> val \<Rightarrow> val \<Rightarrow> bool" where
  "isLocalToFunction m v f = (if isInstruction m v then fun_of m v = f else False)"

text \<open>None is the failed assertion at the end.\<close>

definition isPointerManipulation :: "llvm_module \<Rightarrow> val \<Rightarrow> bool option" where
  "isPointerManipulation m i =
     (let other = (if isPointerValue m i then None else Some False)
      in case kind m i of
           AllocaInst _ _ _ \<Rightarrow> Some False
         | LoadInst p \<Rightarrow> if points_to_pointer (getType m p) then Some True else other
         | StoreInst v p \<Rightarrow> if isPointerTy (getType m v) then Some True else other
         | BitCastInst v \<Rightarrow> if isPointerTy (getType m i) \<and> isPointerTy (getType m v) then Some True else other
         | GetElementPtrInst _ _ \<Rightarrow> Some True
         | CallInst cv _ \<Rightarrow> if isInlineAssembly m i then Some False else Some (memoryManStuff m cv)
         | PHINode _ \<Rightarrow> Some (isPointerValue m i)
         | ExtractValueInst _ \<Rightarrow> Some (isPointerValue m i)
         | InsertValueInst _ r \<Rightarrow> Some (isPointerValue m r)
         | IntToPtrInst _ \<Rightarrow> Some True
         | SelectInst _ _ _ \<Rightarrow> if isPointerValue m i then Some True else other
         | _ \<Rightarrow> other)"

definition isGlobalPointerInitialization :: "llvm_module \<Rightarrow> val \<Rightarrow> bool" where
  "isGlobalPointerInitialization m g =
     (case kind m g of
        GlobalVariable _ (Some op) \<Rightarrow>
          isPointerTy (getType m op) \<and>
          (hasExtraReference m op \<or>
           (case getPointedType (getType m op) of Some (FunctionTy _ _ _) \<Rightarrow> True | _ \<Rightarrow> False))
      | _ \<Rightarrow> False)"

text \<open>The prototype of a function, and of what a call calls; None is the failed assertion.\<close>

definition getFunctionType :: "llvm_module \<Rightarrow> val \<Rightarrow> ty option" where
  "getFunctionType m f = getPointedType (getType m f)"

definition getCalleePrototype :: "llvm_module \<Rightarrow> val \<Rightarrow> ty option" where
  "getCalleePrototype m c =
     (if isInlineAssembly m c then None
      else case kind m c of
             CallInst cv _ \<Rightarrow> if isFunction m cv then getFunctionType m cv else getPointedType (getType m cv)
           | _ \<Rightarrow> None)"

text \<open>None is the failed assertion on other operations than casts and \<open>getelementptr\<close>.\<close>

partial_function (option) elimConstExpr :: "llvm_module \<Rightarrow> val \<Rightarrow> val option" where
  "elimConstExpr m v =
     (case kind m v of
        ConstantExpr opc ops \<Rightarrow>
          if opc = CE_BinaryOp then Some v
          else if opc = CE_Other \<or> ops = [] then None
          else elimConstExpr m (hd ops)
      | _ \<Rightarrow> Some v)"

section \<open>Calls and exits of a function\<close>

definition getFunctionCalls :: "llvm_module \<Rightarrow> val \<Rightarrow> val list" where
  "getFunctionCalls m f =
     filter (\<lambda>i. (case kind m i of CallInst _ _ \<Rightarrow> True | _ \<Rightarrow> False) \<and> \<not> isInlineAssembly m i) (insts m f)"

definition getFunctionExits :: "llvm_module \<Rightarrow> val \<Rightarrow> val list" where
  "getFunctionExits m f = filter (\<lambda>i. case kind m i of ReturnInst _ \<Rightarrow> True | _ \<Rightarrow> False) (insts m f)"

section \<open>Lemmas\<close>

text \<open>Operands of constant expressions come before the expressions in some order.\<close>

definition const_exprs_wf :: "llvm_module \<Rightarrow> (val \<Rightarrow> nat) \<Rightarrow> bool" where
  "const_exprs_wf m rank \<longleftrightarrow>
     (\<forall>v opc ops. kind m v = ConstantExpr opc ops \<longrightarrow>
        opc \<noteq> CE_Other \<and> ops \<noteq> [] \<and> (\<forall>u \<in> set ops. rank u < rank v))"

lemma elimConstExpr_returns:
  assumes "const_exprs_wf m rank"
  shows "\<exists>u. elimConstExpr m v = Some u \<and> (case kind m u of ConstantExpr opc _ \<Rightarrow> opc = CE_BinaryOp | _ \<Rightarrow> True)"
proof (induction "rank v" arbitrary: v rule: less_induct)
  case less
  show ?case
  proof (cases "\<exists>opc ops. kind m v = ConstantExpr opc ops \<and> opc \<noteq> CE_BinaryOp")
    case True
    then obtain opc ops where v: "kind m v = ConstantExpr opc ops" "opc \<noteq> CE_BinaryOp" by blast
    with assms have w: "opc \<noteq> CE_Other" "ops \<noteq> []" "rank (hd ops) < rank v"
      unfolding const_exprs_wf_def by force+
    show ?thesis using less [OF w(3)] v w by (subst elimConstExpr.simps) simp
  next
    case False
    then show ?thesis by (subst elimConstExpr.simps) (auto split: vkind.splits)
  qed
qed

end
