(* ===== verification/Rule_Codes.thy ===== *)
theory Rule_Codes
  imports Llvm_Ir
begin

text \<open>
  The rules the points-to analysis works on (\<open>passes/slicer/PointsTo/RuleExpressions.h\<close>) and
  how they are collected from a module (\<open>CallMaps\<close> and \<open>ProgramStructure\<close> in
  \<open>passes/slicer/PointsTo/PointsTo.cpp\<close>).

  A rule is its code with the left and the right value.  A multimap is the list of its
  insertions; a range of one key is the insertions with that key, in their order.  None is a
  failed assertion or an access to an operand that is not there.
\<close>

section \<open>Rules of one value\<close>

datatype rule_code =
    RCT_UNKNOWN
  | RCT_VAR_ASGN_ALLOC val val
  | RCT_VAR_ASGN_NULL val val
  | RCT_VAR_ASGN_VAR val val
  | RCT_VAR_ASGN_GEP val val
  | RCT_VAR_ASGN_REF_VAR val val
  | RCT_VAR_ASGN_DREF_VAR val val
  | RCT_DREF_VAR_ASGN_NULL val val
  | RCT_DREF_VAR_ASGN_VAR val val
  | RCT_DREF_VAR_ASGN_REF_VAR val val
  | RCT_DREF_VAR_ASGN_DREF_VAR val val
  | RCT_DEALLOC val

definition collect :: "('a \<Rightarrow> 'b list option) \<Rightarrow> 'a list \<Rightarrow> 'b list option" where
  "collect f xs = map_option concat (those (map f xs))"

text \<open>The choice between a null constant, a reference and a variable on the right.\<close>

definition toRuleCode :: "llvm_module \<Rightarrow> val \<Rightarrow> rule_code list option" where
  "toRuleCode m v =
     (case kind m v of
        LoadInst p \<Rightarrow>
          Option.bind (elimConstExpr m p) (\<lambda>op.
            Some [if hasExtraReference m op then RCT_VAR_ASGN_VAR v op else RCT_VAR_ASGN_DREF_VAR v op])
      | StoreInst sv sp \<Rightarrow>
          Option.bind (elimConstExpr m sp) (\<lambda>l. Option.bind (elimConstExpr m sv) (\<lambda>r.
            Some [if \<not> hasExtraReference m l
                  then (if hasExtraReference m r then RCT_DREF_VAR_ASGN_REF_VAR l r
                        else if isNullPtr m r then RCT_DREF_VAR_ASGN_NULL l r
                        else RCT_DREF_VAR_ASGN_VAR l r)
                  else (if hasExtraReference m r then RCT_VAR_ASGN_REF_VAR l r
                        else if isNullPtr m r then RCT_VAR_ASGN_NULL l r
                        else RCT_VAR_ASGN_VAR l r)]))
      | BitCastInst p \<Rightarrow>
          Option.bind (elimConstExpr m p) (\<lambda>op.
            Some [if hasExtraReference m op then RCT_VAR_ASGN_REF_VAR v op else RCT_VAR_ASGN_VAR v op])
      | GetElementPtrInst _ _ \<Rightarrow> Some [RCT_VAR_ASGN_GEP v v]
      | CallInst cv args \<Rightarrow>
          if isInlineAssembly m v then Some []
          else if isMemoryAllocation m cv then Some [RCT_VAR_ASGN_ALLOC v v]
          else if isMemoryDeallocation m cv then Some [RCT_DEALLOC v]
          else if isMemoryCopy m cv \<or> isMemoryMove m cv
          then (case args of
                  a0 # a1 # _ \<Rightarrow>
                    Option.bind (elimConstExpr m a0) (\<lambda>l. Option.bind (elimConstExpr m a1) (\<lambda>r.
                      Some [RCT_DREF_VAR_ASGN_DREF_VAR l r]))
                | _ \<Rightarrow> None)
          else Some []
      | PHINode rs \<Rightarrow>
          Some (map (\<lambda>r. if isNullPtr m r then RCT_VAR_ASGN_NULL v r else RCT_VAR_ASGN_VAR v r) rs)
      | ExtractValueInst op \<Rightarrow>
          if hasExtraReference m op then None else Some [RCT_VAR_ASGN_VAR v op]
      | InsertValueInst l r \<Rightarrow>
          if hasExtraReference m l then None
          else Some [if hasExtraReference m r then RCT_VAR_ASGN_REF_VAR l r
                     else if isNullPtr m r then RCT_VAR_ASGN_NULL l r
                     else RCT_VAR_ASGN_VAR l r]
      | SelectInst _ t f \<Rightarrow>
          Option.bind (elimConstExpr m t) (\<lambda>r1. Option.bind (elimConstExpr m f) (\<lambda>r2.
            Some (map (\<lambda>r. if isNullPtr m r then RCT_VAR_ASGN_NULL v r
                           else if hasExtraReference m r then RCT_VAR_ASGN_REF_VAR v r
                           else RCT_VAR_ASGN_VAR v r) [r1, r2])))
      | GlobalVariable _ (Some op) \<Rightarrow> Some [RCT_VAR_ASGN_REF_VAR v op]
      | GlobalVariable _ None \<Rightarrow> None
      | _ \<Rightarrow> Some [])"

section \<open>Calls and returns\<close>

record call_maps =
  FM :: "(ty \<times> val) list"
  CM :: "(ty \<times> val) list"

definition argPassRuleCode :: "llvm_module \<Rightarrow> val \<Rightarrow> val \<Rightarrow> rule_code" where
  "argPassRuleCode m l r =
     (if isNullPtr m r then RCT_VAR_ASGN_NULL l r
      else if hasExtraReference m l
      then (if hasExtraReference m r then RCT_VAR_ASGN_VAR l r else RCT_VAR_ASGN_DREF_VAR l r)
      else (if hasExtraReference m r then RCT_VAR_ASGN_REF_VAR l r else RCT_VAR_ASGN_VAR l r))"

definition collectCallRuleCodes_fun :: "llvm_module \<Rightarrow> val \<Rightarrow> val \<Rightarrow> rule_code list option" where
  "collectCallRuleCodes_fun m c f =
     (case kind m c of
        CallInst cv args \<Rightarrow>
          if isInlineAssembly m c then None
          else if memoryManStuff m f \<and> \<not> isMemoryAllocation m f then Some []
          else if isMemoryAllocation m f then Some [RCT_VAR_ASGN_ALLOC c c]
          else collect (\<lambda>(fit, a).
                 if isPointerValue m fit
                 then Option.bind (elimConstExpr m a) (\<lambda>r. Some [argPassRuleCode m fit r])
                 else Some []) (zip (fun_args m f) args)
      | _ \<Rightarrow> None)"

definition compatibleTypes :: "ty \<Rightarrow> ty \<Rightarrow> bool" where
  "compatibleTypes t1 t2 = (if isPointerTy t1 \<and> isPointerTy t2 then True else t1 = t2)"

fun compatibleFunTypes :: "ty \<Rightarrow> ty \<Rightarrow> bool" where
  "compatibleFunTypes (FunctionTy r1 ps1 va1) (FunctionTy r2 ps2 va2) =
     (if \<not> va1 \<and> \<not> va2 \<and> length ps1 \<noteq> length ps2 then False
      else if \<not> compatibleTypes r1 r2 then False
      else list_all (\<lambda>(t1, t2). compatibleTypes t1 t2) (zip ps1 ps2))"
| "compatibleFunTypes _ _ = False"

definition getReturnType :: "ty \<Rightarrow> ty option" where
  "getReturnType t = (case t of FunctionTy r _ _ \<Rightarrow> Some r | _ \<Rightarrow> None)"

text \<open>The values of a multimap under one key.\<close>

definition range_of :: "('k \<times> 'v) list \<Rightarrow> 'k \<Rightarrow> 'v list" where
  "range_of mm t = map snd (filter (\<lambda>(k, _). k = t) mm)"

definition getCalledFunction :: "llvm_module \<Rightarrow> val \<Rightarrow> val option" where
  "getCalledFunction m c =
     (case kind m c of CallInst cv _ \<Rightarrow> if isFunction m cv then Some cv else None | _ \<Rightarrow> None)"

definition collectCallRuleCodes :: "llvm_module \<Rightarrow> call_maps \<Rightarrow> val \<Rightarrow> rule_code list option" where
  "collectCallRuleCodes m cm c =
     (case getCalledFunction m c of
        Some f \<Rightarrow> collectCallRuleCodes_fun m c f
      | None \<Rightarrow>
          Option.bind (getCalleePrototype m c) (\<lambda>funTy. Option.bind (getReturnType funTy) (\<lambda>retTy.
            collect (\<lambda>f. Option.bind (getFunctionType m f) (\<lambda>ft.
                       if compatibleFunTypes funTy ft then collectCallRuleCodes_fun m c f else Some []))
              (range_of (FM cm) retTy))))"

definition collectReturnRuleCodes :: "llvm_module \<Rightarrow> call_maps \<Rightarrow> val \<Rightarrow> rule_code list option" where
  "collectReturnRuleCodes m cm r =
     (case kind m r of
        ReturnInst (Some retVal) \<Rightarrow>
          if \<not> isPointerValue m retVal then Some []
          else let f = fun_of m r
               in Option.bind (getFunctionType m f) (\<lambda>funTy. Option.bind (getReturnType funTy) (\<lambda>retTy.
                    collect (\<lambda>ci. case getCalledFunction m ci of
                               Some g \<Rightarrow> Some (if f = g then [argPassRuleCode m ci retVal] else [])
                             | None \<Rightarrow>
                                 Option.bind (getCalleePrototype m ci) (\<lambda>pt.
                                   Some (if compatibleFunTypes funTy pt then [argPassRuleCode m ci retVal] else [])))
                      (range_of (CM cm) retTy)))
      | _ \<Rightarrow> Some [])"

text \<open>The entries of the two maps, in the order of insertion.\<close>

definition fm_entries :: "llvm_module \<Rightarrow> val \<Rightarrow> (ty \<times> val) list option" where
  "fm_entries m f =
     Option.bind
       (if isDeclaration m f then Some []
        else Option.bind (getFunctionType m f) (\<lambda>t. Option.bind (getReturnType t) (\<lambda>r. Some [(r, f)])))
       (\<lambda>own. map_option ((@) own)
         (collect (\<lambda>i. case kind m i of
                     StoreInst r _ \<Rightarrow>
                       if hasExtraReference m r \<and> memoryManStuff m r
                       then Option.bind (getFunctionType m r) (\<lambda>t. Option.bind (getReturnType t) (\<lambda>rt. Some [(rt, r)]))
                       else Some []
                   | _ \<Rightarrow> Some []) (insts m f)))"

definition cm_entries :: "llvm_module \<Rightarrow> val \<Rightarrow> (ty \<times> val) list option" where
  "cm_entries m f =
     collect (\<lambda>i. case kind m i of
                CallInst _ _ \<Rightarrow>
                  if \<not> isInlineAssembly m i \<and> \<not> callToMemoryManStuff m i
                  then Option.bind (getCalleePrototype m i) (\<lambda>t. Option.bind (getReturnType t) (\<lambda>r. Some [(r, i)]))
                  else Some []
              | _ \<Rightarrow> Some []) (insts m f)"

definition buildCallMaps :: "llvm_module \<Rightarrow> call_maps option" where
  "buildCallMaps m =
     Option.bind (collect (fm_entries m) (m_functions m)) (\<lambda>fm.
     Option.bind (collect (cm_entries m) (m_functions m)) (\<lambda>cm. Some \<lparr>FM = fm, CM = cm\<rparr>))"

section \<open>The rules of a module\<close>

definition inst_rules :: "llvm_module \<Rightarrow> call_maps \<Rightarrow> val \<Rightarrow> rule_code list option" where
  "inst_rules m cm i =
     Option.bind (isPointerManipulation m i) (\<lambda>pm.
       if pm then toRuleCode m i
       else case kind m i of
              CallInst _ _ \<Rightarrow> if \<not> isInlineAssembly m i then collectCallRuleCodes m cm i else Some []
            | ReturnInst _ \<Rightarrow> collectReturnRuleCodes m cm i
            | _ \<Rightarrow> Some [])"

definition ProgramStructure :: "llvm_module \<Rightarrow> rule_code list option" where
  "ProgramStructure m =
     Option.bind (collect (\<lambda>g. if isGlobalPointerInitialization m g then toRuleCode m g else Some []) (m_globals m)) (\<lambda>gs.
     Option.bind (buildCallMaps m) (\<lambda>cm.
     Option.bind (collect (inst_rules m cm) (concat (map (insts m) (m_functions m)))) (\<lambda>is. Some (gs @ is))))"

end
