(* ===== verification/Points_To.thy ===== *)
theory Points_To
  imports Rule_Codes
begin

text \<open>
  The points-to analysis of the slicer (\<open>passes/slicer/PointsTo/PointsTo.cpp\<close>).

  A pointer is a location with an offset: \<open>-1\<close> for a variable itself, from 0 on for a place in
  the memory the location stands for.  A points-to set is an ordered set, and the map of the
  sets is a function; \<open>operator[]\<close> creates an empty set for a new key, and looking up a missing
  key gives the empty set, so a missing key is the empty list.  Offsets are computed in 64 bits
  and stored as \<open>int\<close>.  None is a failed assertion or a loop that does not return.

  It is shown that the analysis returns without failing an assertion, that its result satisfies
  the constraint of every rule and lies below every other solution, and that it covers every
  run of the rules.
\<close>

section \<open>The code\<close>

type_synonym pointer = "val \<times> int"
type_synonym ptset = "pointer list"
type_synonym pts = "pointer \<Rightarrow> ptset"

definition int_of :: "u64 \<Rightarrow> int" where
  "int_of w = sint (ucast w :: u32)"

text \<open>\<open>L\<close> after inserting or copying, and whether its size changed.\<close>

definition put :: "pointer \<Rightarrow> ptset \<Rightarrow> pts \<Rightarrow> bool \<times> pts" where
  "put k xs S = (let L = set_copy xs (S k) in (length (S k) \<noteq> length L, S(k := L)))"

definition applyRule_var :: "val \<Rightarrow> val \<Rightarrow> pts \<Rightarrow> (bool \<times> pts) option" where
  "applyRule_var lval rval S = Some (put (lval, - 1) (S (rval, - 1)) S)"

definition accumulateConstantOffset :: "llvm_module \<Rightarrow> (val \<times> gep_step) list \<Rightarrow> u64 \<times> bool" where
  "accumulateConstantOffset m steps =
     fold (\<lambda>(op, st) (off, isArray).
       case kind m op of
         ConstantInt i \<Rightarrow>
           if i = 0 then (off, isArray)
           else (case st of
                   StructStep t \<Rightarrow> (off + elem_offset m t i, isArray)
                 | SeqStep t \<Rightarrow> (off + word_of_int i * store_size m t, True))
       | _ \<Rightarrow> (off, isArray)) steps (0, False)"

definition checkOffset :: "llvm_module \<Rightarrow> val \<Rightarrow> u64 \<Rightarrow> bool" where
  "checkOffset m rval tot =
     (case kind m rval of
        GlobalVariable _ (Some i) \<Rightarrow> \<not> tot \<ge> alloc_size m (getType m i)
      | AllocaInst t _ isArrayAllocation \<Rightarrow> \<not> (\<not> isArrayAllocation \<and> tot \<ge> alloc_size m t)
      | _ \<Rightarrow> True)"

text \<open>The operand, offset and array flag of a \<open>getelementptr\<close>.\<close>

definition gep_info :: "llvm_module \<Rightarrow> val \<Rightarrow> (val \<times> u64 \<times> bool) option" where
  "gep_info m g =
     (case kind m g of
        GetElementPtrInst p steps \<Rightarrow>
          Option.bind (elimConstExpr m p) (\<lambda>op. Some (op, accumulateConstantOffset m steps))
      | _ \<Rightarrow> None)"

text \<open>The body of the loop over the operand's points-to set.\<close>

definition gep_body :: "llvm_module \<Rightarrow> val \<Rightarrow> u64 \<Rightarrow> bool \<Rightarrow> pointer \<Rightarrow> pts \<Rightarrow> pts option" where
  "gep_body m lval off isArray i S =
     (let L = S (lval, - 1); rval = fst i; tot = word_of_int (snd i) + off
      in if snd i < 0 then None
         else if i \<in> set L then Some S
         else if off \<noteq> 0 \<and> (isFunction m rval \<or> isNullPtr m rval) then Some S
         else if \<not> checkOffset m rval tot then Some S
         else if length (filter (\<lambda>p. fst p = rval) L) \<ge> 3 then Some S
         else let tot = (if sint tot < 0 then 0 else tot);
                  tot = (if isArray \<and> sint tot > 64 then 64 else tot)
              in Some (S((lval, - 1) := set_insert (rval, int_of tot) L)))"

definition applyRule_gep :: "llvm_module \<Rightarrow> val \<Rightarrow> val \<Rightarrow> pts \<Rightarrow> (bool \<times> pts) option" where
  "applyRule_gep m lval rval S =
     Option.bind (gep_info m rval) (\<lambda>(op, off, isArray).
       if hasExtraReference m op then Some (put (lval, - 1) [(op, int_of off)] S)
       else Option.bind (iter_live (\<lambda>S. S (op, - 1)) (gep_body m lval off isArray) None S) (\<lambda>S'.
              Some (length (S (lval, - 1)) \<noteq> length (S' (lval, - 1)), S')))"

definition applyRule_ref :: "val \<Rightarrow> val \<Rightarrow> pts \<Rightarrow> (bool \<times> pts) option" where
  "applyRule_ref lval rval S = Some (put (lval, - 1) [(rval, 0)] S)"

definition applyRule_dref :: "val \<Rightarrow> val \<Rightarrow> int \<Rightarrow> pts \<Rightarrow> (bool \<times> pts) option" where
  "applyRule_dref lval rval idx S =
     Option.bind (iter_live (\<lambda>S. S (rval, - 1)) (\<lambda>i S. Some (snd (put (lval, idx) (S i) S))) None S) (\<lambda>S'.
       Some (length (S (lval, idx)) \<noteq> length (S' (lval, idx)), S'))"

text \<open>The loop over the pointees of \<open>lval\<close>, which starts with \<open>change = false\<close>.\<close>

definition over_pointees :: "val \<Rightarrow> (pointer \<Rightarrow> pts \<Rightarrow> (bool \<times> pts) option) \<Rightarrow> pts \<Rightarrow> (bool \<times> pts) option" where
  "over_pointees lval body S =
     iter_live (\<lambda>(change, S). S (lval, - 1))
       (\<lambda>i (change, S). Option.bind (body i S) (\<lambda>(c, S). Some (change \<or> c, S))) None (False, S)"

definition applyRule_dref_var :: "val \<Rightarrow> val \<Rightarrow> pts \<Rightarrow> (bool \<times> pts) option" where
  "applyRule_dref_var lval rval S = over_pointees lval (\<lambda>i S. Some (put i (S (rval, - 1)) S)) S"

definition applyRule_dref_ref :: "val \<Rightarrow> val \<Rightarrow> pts \<Rightarrow> (bool \<times> pts) option" where
  "applyRule_dref_ref lval rval S = over_pointees lval (\<lambda>i S. Some (put i [(rval, 0)] S)) S"

definition applyRule_dref_dref :: "val \<Rightarrow> val \<Rightarrow> pts \<Rightarrow> (bool \<times> pts) option" where
  "applyRule_dref_dref lval rval S = over_pointees lval (\<lambda>i S. applyRule_dref (fst i) rval (snd i) S) S"

definition applyRule_alloc :: "val \<Rightarrow> val \<Rightarrow> pts \<Rightarrow> (bool \<times> pts) option" where
  "applyRule_alloc lval rval S = Some (put (lval, - 1) [(rval, 0)] S)"

definition applyRule_null :: "val \<Rightarrow> val \<Rightarrow> pts \<Rightarrow> (bool \<times> pts) option" where
  "applyRule_null lval rval S = Some (put (lval, - 1) [(rval, 0)] S)"

definition applyRule_dref_null :: "val \<Rightarrow> val \<Rightarrow> pts \<Rightarrow> (bool \<times> pts) option" where
  "applyRule_dref_null lval rval S = over_pointees lval (\<lambda>i S. Some (put i [(rval, 0)] S)) S"

definition applyRules :: "llvm_module \<Rightarrow> rule_code \<Rightarrow> pts \<Rightarrow> (bool \<times> pts) option" where
  "applyRules m rc S =
     (case rc of
        RCT_VAR_ASGN_ALLOC l r \<Rightarrow> applyRule_alloc l r S
      | RCT_VAR_ASGN_NULL l r \<Rightarrow> applyRule_null l r S
      | RCT_VAR_ASGN_VAR l r \<Rightarrow> applyRule_var l r S
      | RCT_VAR_ASGN_GEP l r \<Rightarrow> applyRule_gep m l r S
      | RCT_VAR_ASGN_REF_VAR l r \<Rightarrow> applyRule_ref l r S
      | RCT_VAR_ASGN_DREF_VAR l r \<Rightarrow> applyRule_dref l r (- 1) S
      | RCT_DREF_VAR_ASGN_NULL l r \<Rightarrow> applyRule_dref_null l r S
      | RCT_DREF_VAR_ASGN_VAR l r \<Rightarrow> applyRule_dref_var l r S
      | RCT_DREF_VAR_ASGN_REF_VAR l r \<Rightarrow> applyRule_dref_ref l r S
      | RCT_DREF_VAR_ASGN_DREF_VAR l r \<Rightarrow> applyRule_dref_dref l r S
      | RCT_DEALLOC l \<Rightarrow> Some (False, S)
      | RCT_UNKNOWN \<Rightarrow> None)"

definition pruneByType :: "llvm_module \<Rightarrow> pts \<Rightarrow> pts" where
  "pruneByType m S = (\<lambda>k. if isFunction m (fst k) then [] else S k)"

definition fixpoint :: "llvm_module \<Rightarrow> rule_code list \<Rightarrow> pts \<Rightarrow> pts option" where
  "fixpoint m P S = change_loop (apply_all (applyRules m) P) S"

definition computePointsToSets :: "llvm_module \<Rightarrow> rule_code list \<Rightarrow> pts \<Rightarrow> pts option" where
  "computePointsToSets m P S = map_option (pruneByType m) (fixpoint m P S)"

definition getPointsToSet :: "val \<Rightarrow> pts \<Rightarrow> ptset" where
  "getPointsToSet memLoc S = S (memLoc, - 1)"

section \<open>Constraints\<close>

text \<open>
  The constraint of a rule on the points-to sets.  A \<open>getelementptr\<close> of a pointer may drop a
  pointee: when the result lies outside of the object, or when three places of the object are
  known already.
\<close>

definition crop :: "bool \<Rightarrow> u64 \<Rightarrow> u64" where
  "crop isArray tot = (let tot = (if sint tot < 0 then 0 else tot) in if isArray \<and> sint tot > 64 then 64 else tot)"

definition gep_drops :: "llvm_module \<Rightarrow> val \<Rightarrow> u64 \<Rightarrow> pointer \<Rightarrow> pts \<Rightarrow> bool" where
  "gep_drops m l off p S \<longleftrightarrow>
     p \<in> set (S (l, - 1)) \<or> off \<noteq> 0 \<and> (isFunction m (fst p) \<or> isNullPtr m (fst p)) \<or>
     \<not> checkOffset m (fst p) (word_of_int (snd p) + off) \<or>
     card {q \<in> set (S (l, - 1)). fst q = fst p} \<ge> 3"

definition gep_target :: "u64 \<Rightarrow> bool \<Rightarrow> pointer \<Rightarrow> pointer" where
  "gep_target off arr p = (fst p, int_of (crop arr (word_of_int (snd p) + off)))"

fun sat :: "llvm_module \<Rightarrow> pts \<Rightarrow> rule_code \<Rightarrow> bool" where
  "sat m S (RCT_VAR_ASGN_ALLOC l r) \<longleftrightarrow> (r, 0) \<in> set (S (l, - 1))"
| "sat m S (RCT_VAR_ASGN_NULL l r) \<longleftrightarrow> (r, 0) \<in> set (S (l, - 1))"
| "sat m S (RCT_VAR_ASGN_VAR l r) \<longleftrightarrow> set (S (r, - 1)) \<subseteq> set (S (l, - 1))"
| "sat m S (RCT_VAR_ASGN_REF_VAR l r) \<longleftrightarrow> (r, 0) \<in> set (S (l, - 1))"
| "sat m S (RCT_VAR_ASGN_DREF_VAR l r) \<longleftrightarrow> (\<forall>p \<in> set (S (r, - 1)). set (S p) \<subseteq> set (S (l, - 1)))"
| "sat m S (RCT_DREF_VAR_ASGN_NULL l r) \<longleftrightarrow> (\<forall>p \<in> set (S (l, - 1)). (r, 0) \<in> set (S p))"
| "sat m S (RCT_DREF_VAR_ASGN_VAR l r) \<longleftrightarrow> (\<forall>p \<in> set (S (l, - 1)). set (S (r, - 1)) \<subseteq> set (S p))"
| "sat m S (RCT_DREF_VAR_ASGN_REF_VAR l r) \<longleftrightarrow> (\<forall>p \<in> set (S (l, - 1)). (r, 0) \<in> set (S p))"
| "sat m S (RCT_DREF_VAR_ASGN_DREF_VAR l r) \<longleftrightarrow>
     (\<forall>p \<in> set (S (l, - 1)). \<forall>q \<in> set (S (r, - 1)). set (S q) \<subseteq> set (S p))"
| "sat m S (RCT_VAR_ASGN_GEP l r) \<longleftrightarrow>
     (case gep_info m r of
        None \<Rightarrow> False
      | Some (op, off, arr) \<Rightarrow>
          if hasExtraReference m op then (op, int_of off) \<in> set (S (l, - 1))
          else \<forall>p \<in> set (S (op, - 1)). gep_drops m l off p S \<or> gep_target off arr p \<in> set (S (l, - 1)))"
| "sat m S (RCT_DEALLOC l) \<longleftrightarrow> True"
| "sat m S RCT_UNKNOWN \<longleftrightarrow> False"

text \<open>A map of sets that satisfies the rules without dropping anything.\<close>

definition solves :: "llvm_module \<Rightarrow> rule_code list \<Rightarrow> pts \<Rightarrow> bool" where
  "solves m P T \<longleftrightarrow>
     (\<forall>r \<in> set P. sat m T r \<and>
        (\<forall>l g op off arr. r = RCT_VAR_ASGN_GEP l g \<longrightarrow> gep_info m g = Some (op, off, arr) \<longrightarrow>
           \<not> hasExtraReference m op \<longrightarrow> (\<forall>p \<in> set (T (op, - 1)). gep_target off arr p \<in> set (T (l, - 1)))))"


section \<open>The sets grow within a bound\<close>

declare split_paired_All [simp del] split_paired_Ex [simp del]

definition pts_le :: "pts \<Rightarrow> pts \<Rightarrow> bool" where
  "pts_le S T \<longleftrightarrow> (\<forall>k. set (S k) \<subseteq> set (T k))"

lemma pts_le_refl [simp]: "pts_le S S"
  by (simp add: pts_le_def)

lemma pts_le_trans: "pts_le S T \<Longrightarrow> pts_le T U \<Longrightarrow> pts_le S U"
  by (auto simp: pts_le_def)

lemma pts_le_antisym: "pts_le S T \<Longrightarrow> pts_le T S \<Longrightarrow> \<forall>k. ordered (S k) \<Longrightarrow> \<forall>k. ordered (T k) \<Longrightarrow> S = T"
  by (intro ext strict_sorted_equal) (auto simp: pts_le_def)

text \<open>
  A \<open>getelementptr\<close> adds at most three places of one object to its result, so its offset is
  added at most three times; \<open>slack\<close> is what can still be added to offsets into an object.
\<close>

definition places :: "val \<Rightarrow> val \<Rightarrow> pts \<Rightarrow> nat" where
  "places l v S = card {p \<in> set (S (l, - 1)). fst p = v}"

definition gep_size :: "llvm_module \<Rightarrow> rule_code \<Rightarrow> int" where
  "gep_size m r =
     (case r of
        RCT_VAR_ASGN_GEP l g \<Rightarrow> (case gep_info m g of Some (op, off, arr) \<Rightarrow> max 0 (sint off) | None \<Rightarrow> 0)
      | _ \<Rightarrow> 0)"

fun gep_lval :: "rule_code \<Rightarrow> val" where
  "gep_lval (RCT_VAR_ASGN_GEP l g) = l"
| "gep_lval _ = 0"

definition slack :: "llvm_module \<Rightarrow> rule_code list \<Rightarrow> pts \<Rightarrow> val \<Rightarrow> int" where
  "slack m P S v = (\<Sum>r \<in> set P. int (3 - places (gep_lval r) v S) * gep_size m r)"

lemma gep_size_nonneg [simp]: "0 \<le> gep_size m r"
  by (auto simp: gep_size_def split: rule_code.splits option.splits)

lemma places_mono: "pts_le S T \<Longrightarrow> places l v S \<le> places l v T"
  unfolding places_def pts_le_def by (intro card_mono) auto

lemma slack_antimono: "pts_le S T \<Longrightarrow> slack m P T v \<le> slack m P S v"
  unfolding slack_def by (intro sum_mono mult_right_mono) (simp_all add: places_mono diff_le_mono2)

lemma slack_nonneg: "0 \<le> slack m P S v"
  unfolding slack_def by (intro sum_nonneg) simp

lemma slack_step:
  assumes "pts_le S T" "r \<in> set P" "places (gep_lval r) v S < places (gep_lval r) v T" "places (gep_lval r) v S < 3"
  shows "slack m P T v + gep_size m r \<le> slack m P S v"
proof -
  let ?f = "\<lambda>U q. int (3 - places (gep_lval q) v U) * gep_size m q"
  have "slack m P T v = ?f T r + (\<Sum>q \<in> set P - {r}. ?f T q)"
    unfolding slack_def using assms(2) by (intro sum.remove) auto
  also have "(\<Sum>q \<in> set P - {r}. ?f T q) \<le> (\<Sum>q \<in> set P - {r}. ?f S q)"
    using places_mono [OF assms(1)] by (intro sum_mono mult_right_mono) (simp_all add: diff_le_mono2)
  also have "?f T r + gep_size m r \<le> ?f S r"
  proof -
    have "int (3 - places (gep_lval r) v T) + 1 \<le> int (3 - places (gep_lval r) v S)" using assms(3,4) by linarith
    from mult_right_mono [OF this gep_size_nonneg [of m r]] show ?thesis by (simp add: algebra_simps)
  qed
  moreover have "slack m P S v = ?f S r + (\<Sum>q \<in> set P - {r}. ?f S q)"
    unfolding slack_def using assms(2) by (intro sum.remove) auto
  ultimately show ?thesis by linarith
qed

definition keys :: "val set \<Rightarrow> pointer set" where
  "keys V = V \<times> {- 1} \<union> V \<times> {0 ..< 2 ^ 31}"

definition fits :: "llvm_module \<Rightarrow> rule_code list \<Rightarrow> val set \<Rightarrow> pts \<Rightarrow> pointer \<Rightarrow> bool" where
  "fits m P V S p \<longleftrightarrow> fst p \<in> V \<and> 0 \<le> snd p \<and> snd p + slack m P S (fst p) < 2 ^ 31"

definition pts_ok :: "llvm_module \<Rightarrow> rule_code list \<Rightarrow> val set \<Rightarrow> pts \<Rightarrow> bool" where
  "pts_ok m P V S \<longleftrightarrow> (\<forall>k. ordered (S k) \<and> (S k \<noteq> [] \<longrightarrow> k \<in> keys V) \<and> (\<forall>p \<in> set (S k). fits m P V S p))"

definition grows :: "llvm_module \<Rightarrow> rule_code list \<Rightarrow> val set \<Rightarrow> pts \<Rightarrow> bool \<times> pts \<Rightarrow> bool" where
  "grows m P V S r \<longleftrightarrow> pts_ok m P V (snd r) \<and> pts_le S (snd r) \<and> (fst r \<longleftrightarrow> snd r \<noteq> S)"

lemma fits_mono: "fits m P V S p \<Longrightarrow> pts_le S T \<Longrightarrow> fits m P V T p"
  using slack_antimono [of S T m P "fst p"] by (simp add: fits_def)

lemma fits_key: "fits m P V S p \<Longrightarrow> p \<in> keys V"
  using slack_nonneg [of m P S "fst p"] by (cases p) (auto simp: fits_def keys_def)

lemma put_le: "pts_le S (snd (put k xs S))"
  by (simp add: put_def pts_le_def Let_def)

lemma put_grows:
  assumes "pts_ok m P V S" "k \<in> keys V" "\<forall>p \<in> set xs. fits m P V (snd (put k xs S)) p"
  shows "grows m P V S (put k xs S)" "set xs \<subseteq> set (snd (put k xs S) k)"
proof -
  let ?T = "snd (put k xs S)"
  have T: "?T = S(k := set_copy xs (S k))" by (simp add: put_def Let_def)
  have o: "ordered (S k)" "ordered (set_copy xs (S k))"
    using assms(1) by (simp_all add: pts_ok_def ordered_set_copy)
  have "pts_ok m P V ?T"
    unfolding pts_ok_def
  proof (intro allI conjI ballI impI)
    fix j
    show "ordered (?T j)" using assms(1) o by (simp add: T pts_ok_def)
    show "j \<in> keys V" if "?T j \<noteq> []" using that assms(1,2) by (auto simp: T pts_ok_def split: if_splits)
    show "fits m P V ?T p" if "p \<in> set (?T j)" for p
    proof (cases "p \<in> set (S j)")
      case True
      then show ?thesis using assms(1) fits_mono [OF _ put_le] by (simp add: pts_ok_def)
    next
      case False
      then show ?thesis using that assms(3) by (auto simp: T split: if_splits)
    qed
  qed
  moreover have "fst (put k xs S) \<longleftrightarrow> ?T \<noteq> S"
  proof -
    have "length (S k) = length (set_copy xs (S k)) \<longleftrightarrow> set_copy xs (S k) = S k"
      using ordered_grown(1) [OF o] by (simp add: eq_commute [of "length (S k)"])
    then show ?thesis by (simp add: put_def Let_def fun_upd_idem_iff eq_commute [of "S k"])
  qed
  ultimately show "grows m P V S (put k xs S)" by (simp add: grows_def put_le)
  show "set xs \<subseteq> set (?T k)" by (simp add: T)
qed

text \<open>Copying pointees that are already in some set.\<close>

lemma put_old_grows:
  assumes "pts_ok m P V S" "k \<in> keys V"
  shows "grows m P V S (put k (S j) S)" "set (S j) \<subseteq> set (snd (put k (S j) S) k)"
  using put_grows [OF assms, of "S j"] assms(1) fits_mono [OF _ put_le] by (auto simp: pts_ok_def)

lemma put_base_grows:
  assumes "pts_ok m P V S" "k \<in> keys V" "v \<in> V" "(\<Sum>r \<in> set P. 3 * gep_size m r) < 2 ^ 31"
  shows "grows m P V S (put k [(v, 0)] S)" "(v, 0) \<in> set (snd (put k [(v, 0)] S) k)"
proof -
  have "slack m P T v < 2 ^ 31" for T
  proof -
    have "slack m P T v \<le> (\<Sum>r \<in> set P. 3 * gep_size m r)"
      unfolding slack_def by (intro sum_mono mult_right_mono) simp_all
    then show ?thesis using assms(4) by linarith
  qed
  then show "grows m P V S (put k [(v, 0)] S)" "(v, 0) \<in> set (snd (put k [(v, 0)] S) k)"
    using put_grows [OF assms(1,2), of "[(v, 0)]"] assms(3) by (auto simp: fits_def)
qed


section \<open>Every rule returns and grows the sets\<close>

text \<open>What the loops over a points-to set have in common.\<close>

lemma pts_ok_ordered: "pts_ok m P V S \<Longrightarrow> \<forall>k. ordered (S k)"
  by (simp add: pts_ok_def)

lemma pts_ok_antisym: "pts_ok m P V S \<Longrightarrow> pts_ok m P V T \<Longrightarrow> pts_le S T \<Longrightarrow> pts_le T S \<Longrightarrow> T = S"
  using pts_le_antisym [of T S] pts_ok_ordered by metis

lemma pointees_bounded: "pts_ok m P V S \<Longrightarrow> ordered (S k) \<and> set (S k) \<subseteq> keys V"
  using fits_key by (fastforce simp: pts_ok_def)

lemma finite_keys: "finite V \<Longrightarrow> finite (keys V)"
  by (simp add: keys_def)

lemma grows_trans:
  assumes "grows m P V S (c, T)" "grows m P V T (d, U)"
  shows "grows m P V S (c \<or> d, U)"
proof -
  have "U \<noteq> S" if "T \<noteq> S"
    using that assms pts_ok_antisym [of m P V T S] by (fastforce simp: grows_def)
  then show ?thesis using assms pts_le_trans by (auto simp: grows_def)
qed

lemma over_pointees_law:
  assumes ok: "pts_ok m P V S" and V: "finite V"
    and body: "\<And>i T. pts_ok m P V T \<Longrightarrow> i \<in> set (T (l, - 1)) \<Longrightarrow>
      \<exists>r. body i T = Some r \<and> grows m P V T r \<and> (snd r = T \<longrightarrow> C i T)"
  shows "\<exists>r. over_pointees l body S = Some r \<and> grows m P V S r \<and> (snd r = S \<longrightarrow> (\<forall>i \<in> set (S (l, - 1)). C i S))"
proof -
  let ?get = "\<lambda>(change :: bool, S). S (l, - 1)"
  let ?body = "\<lambda>i (change, S). Option.bind (body i S) (\<lambda>(c, S). Some (change \<or> c, S))"
  let ?le = "\<lambda>a b :: bool \<times> pts. pts_le (snd a) (snd b)"
  have step: "\<exists>b. ?body i a = Some b \<and> grows m P V S b \<and> ?le a b"
    if "grows m P V S a" "i \<in> set (?get a)" for i a
  proof -
    obtain ch T where a: "a = (ch, T)" by (cases a)
    have T: "pts_ok m P V T" "i \<in> set (T (l, - 1))" using that a by (simp_all add: grows_def)
    obtain c U where U: "body i T = Some (c, U)" "grows m P V T (c, U)" using body [OF T] by auto
    then show ?thesis using grows_trans [OF that(1) [unfolded a] U(2)] a by (auto simp: grows_def)
  qed
  have o: "ordered (?get a) \<and> set (?get a) \<subseteq> keys V" if "grows m P V S a" for a
    using that pointees_bounded [of m P V "snd a" "(l, - 1)"] by (cases a) (simp add: grows_def)
  have gr: "set (?get a) \<subseteq> set (?get b)" if "?le a b" for a b
    using that by (cases a; cases b) (simp add: pts_le_def)
  have st: "grows m P V S (False, S)" using ok by (simp add: grows_def)
  have "\<exists>r. iter_live ?get ?body None (False, S) = Some r \<and> grows m P V S r \<and> ?le (False, S) r \<and>
    (\<forall>i \<in> set (?get (False, S)). behind None i \<longrightarrow>
       (\<exists>t t'. grows m P V S t \<and> ?le (False, S) t \<and> i \<in> set (?get t) \<and> ?body i t = Some t' \<and> ?le t' r))"
    by (rule iter_live_returns [where le = ?le, OF finite_keys [OF V] o step _ _ gr st])
      (simp_all, blast intro: pts_le_trans)
  then obtain r where r: "iter_live ?get ?body None (False, S) = Some r" "grows m P V S r"
    and v: "\<forall>i \<in> set (?get (False, S)). behind None i \<longrightarrow>
       (\<exists>t t'. grows m P V S t \<and> ?le (False, S) t \<and> i \<in> set (?get t) \<and> ?body i t = Some t' \<and> ?le t' r)" by blast
  have "C i S" if sr: "snd r = S" and i: "i \<in> set (S (l, - 1))" for i
  proof -
    obtain t t' where t: "grows m P V S t" "?le (False, S) t" "?body i t = Some t'" "?le t' r" "i \<in> set (?get t)"
      using v i by auto
    obtain ch T where a: "t = (ch, T)" by (cases t)
    have T: "pts_ok m P V T" "i \<in> set (T (l, - 1))" using t a by (simp_all add: grows_def)
    obtain c U where U: "body i T = Some (c, U)" "grows m P V T (c, U)" "U = T \<longrightarrow> C i T" using body [OF T] by auto
    have tU: "snd t' = U" using t(3) U(1) a by auto
    have "T = S" "U = S"
      using pts_ok_antisym [OF ok T(1)] pts_ok_antisym [of m P V S U] t(2,4) sr U(2) a tU ok pts_le_trans
      by (auto simp: grows_def)
    then show ?thesis using U(3) by simp
  qed
  then show ?thesis using r unfolding over_pointees_def by blast
qed

text \<open>A loop whose body changes the set of one key only.\<close>

lemma one_key_law:
  assumes ok: "pts_ok m P V S" and V: "finite V"
    and body: "\<And>i T. pts_ok m P V T \<Longrightarrow> i \<in> set (T j) \<Longrightarrow>
      \<exists>U. body i T = Some U \<and> pts_ok m P V U \<and> pts_le T U \<and> (\<forall>k'. k' \<noteq> k \<longrightarrow> U k' = T k') \<and> (U = T \<longrightarrow> C i T)"
  shows "\<exists>r. Option.bind (iter_live (\<lambda>S. S j) body None S) (\<lambda>S'. Some (length (S k) \<noteq> length (S' k), S')) = Some r \<and>
           grows m P V S r \<and> (snd r = S \<longrightarrow> (\<forall>i \<in> set (S j). C i S))"
proof -
  let ?inv = "\<lambda>T. pts_ok m P V T \<and> pts_le S T \<and> (\<forall>k'. k' \<noteq> k \<longrightarrow> T k' = S k')"
  have step: "\<exists>U. body i T = Some U \<and> ?inv U \<and> pts_le T U" if "?inv T" "i \<in> set (T j)" for i T
    using body [of T i] that pts_le_trans by metis
  have o: "ordered (T j) \<and> set (T j) \<subseteq> keys V" if "?inv T" for T using that pointees_bounded by blast
  have gr: "set (T j) \<subseteq> set (U j)" if "pts_le T U" for T U using that by (simp add: pts_le_def)
  have st: "?inv S" using ok by simp
  have "\<exists>S'. iter_live (\<lambda>S. S j) body None S = Some S' \<and> ?inv S' \<and> pts_le S S' \<and> (\<forall>i \<in> set (S j). behind None i \<longrightarrow>
       (\<exists>t t'. ?inv t \<and> pts_le S t \<and> i \<in> set (t j) \<and> body i t = Some t' \<and> pts_le t' S'))"
    by (rule iter_live_returns [where le = pts_le, OF finite_keys [OF V] o step _ _ gr st])
      (simp_all, blast intro: pts_le_trans)
  then obtain S' where r: "iter_live (\<lambda>S. S j) body None S = Some S'" "?inv S'"
    and v: "\<forall>i \<in> set (S j). behind None i \<longrightarrow>
       (\<exists>t t'. ?inv t \<and> pts_le S t \<and> i \<in> set (t j) \<and> body i t = Some t' \<and> pts_le t' S')" by blast
  have "length (S k) \<noteq> length (S' k) \<longleftrightarrow> S' \<noteq> S"
  proof -
    have "length (S' k) = length (S k) \<longleftrightarrow> S' k = S k"
      using ok r(2) by (intro ordered_grown(1)) (auto simp: pts_ok_def pts_le_def)
    moreover have "S' = S" if "S' k = S k"
    proof
      fix x show "S' x = S x" using that r(2) by (cases "x = k") simp_all
    qed
    ultimately show ?thesis by metis
  qed
  moreover have "C i S" if sr: "S' = S" and i: "i \<in> set (S j)" for i
  proof -
    obtain t t' where t: "?inv t" "i \<in> set (t j)" "body i t = Some t'" "pts_le t' S'" using v i by auto
    obtain U where U: "body i t = Some U" "pts_ok m P V U" "pts_le t U" "U = t \<longrightarrow> C i t" using body [of t i] t by blast
    have "pts_le U S" using t(3,4) U(1) sr by simp
    then have "t = S" "U = S"
      using pts_ok_antisym [OF ok, of t] pts_ok_antisym [OF ok U(2)] t(1) U(3) pts_le_trans by metis+
    then show ?thesis using U(4) by simp
  qed
  ultimately show ?thesis using r by (auto simp: grows_def)
qed


text \<open>Offsets: no wrap-around as long as they fit.\<close>

lemma sint_add_off:
  assumes "0 \<le> a" "a + sint off < 2 ^ 63"
  shows "sint (word_of_int a + off :: u64) = a + sint off"
proof -
  have "- (2 ^ 63) \<le> sint off" using sint_greater_eq [of off] by simp
  then have "signed_take_bit 63 (a + sint off) = a + sint off"
    using assms by (intro signed_take_bit_int_eq_self) simp_all
  moreover have e: "word_of_int a + off = (word_of_int (a + sint off) :: u64)" by simp
  have "sint (word_of_int a + off) = signed_take_bit 63 (a + sint off)"
    unfolding e sint_sbintrunc' by simp
  ultimately show ?thesis by simp
qed

lemma int_of_small:
  assumes "0 \<le> sint c" "sint c < 2 ^ 31"
  shows "int_of c = sint c"
proof -
  have e: "(ucast c :: u32) = word_of_int (sint c)" by (rule bit_word_eqI) (simp add: bit_simps)
  have "int_of c = signed_take_bit 31 (sint c)" unfolding int_of_def e sint_sbintrunc' by simp
  also have "\<dots> = sint c" using assms by (intro signed_take_bit_int_eq_self) simp_all
  finally show ?thesis .
qed

lemma crop_bounds: "0 \<le> sint (crop arr w)" "sint (crop arr w) \<le> max 0 (sint w)"
  by (auto simp: crop_def Let_def)

lemma gep_target_bounds:
  assumes "0 \<le> snd p" "snd p + max 0 (sint off) < 2 ^ 31"
  shows "0 \<le> snd (gep_target off arr p)" "snd (gep_target off arr p) \<le> max 0 (snd p + sint off)"
proof -
  let ?c = "crop arr (word_of_int (snd p) + off)"
  have s: "sint (word_of_int (snd p) + off) = snd p + sint off" using assms by (intro sint_add_off) simp_all
  then have "sint ?c \<le> max 0 (snd p + sint off)" "0 \<le> sint ?c"
    using crop_bounds [of arr "word_of_int (snd p) + off"] by simp_all
  moreover from this have "int_of ?c = sint ?c" using assms by (intro int_of_small) auto
  ultimately show "0 \<le> snd (gep_target off arr p)" "snd (gep_target off arr p) \<le> max 0 (snd p + sint off)"
    by (simp_all add: gep_target_def)
qed

lemma places_insert:
  assumes "\<forall>k. ordered (S k)" "(v, x) \<notin> set (S (l, - 1))"
  shows "places l v (snd (put (l, - 1) [(v, x)] S)) = Suc (places l v S)"
proof -
  have "{p \<in> insert (v, x) (set (S (l, - 1))). fst p = v} = insert (v, x) {p \<in> set (S (l, - 1)). fst p = v}" by auto
  then show ?thesis using assms(2) by (simp add: places_def put_def Let_def)
qed

lemma gep_body_law:
  assumes ok: "pts_ok m P V S" and i: "i \<in> set (S j)"
    and r: "RCT_VAR_ASGN_GEP l g \<in> set P" "gep_info m g = Some (op, off, arr)" "l \<in> V"
  shows "\<exists>U. gep_body m l off arr i S = Some U \<and> pts_ok m P V U \<and> pts_le S U \<and> (\<forall>k'. k' \<noteq> (l, - 1) \<longrightarrow> U k' = S k') \<and>
           (U = S \<longrightarrow> gep_drops m l off i S \<or> gep_target off arr i \<in> set (S (l, - 1)))"
proof (cases "gep_drops m l off i S")
  case True
  have "0 \<le> snd i" using ok i by (auto simp: pts_ok_def fits_def)
  moreover have "length (filter (\<lambda>p. fst p = fst i) (S (l, - 1))) = card {p \<in> set (S (l, - 1)). fst p = fst i}"
    using ok ordered_distinct [of "S (l, - 1)"] distinct_card [of "filter (\<lambda>p. fst p = fst i) (S (l, - 1))"]
    by (simp add: pts_ok_def)
  ultimately have "gep_body m l off arr i S = Some S"
    using True by (auto simp: gep_body_def gep_drops_def Let_def)
  then show ?thesis using ok True by simp
next
  case False
  let ?t = "gep_target off arr i"
  let ?U = "snd (put (l, - 1) [?t] S)"
  have f: "fits m P V S i" using ok i by (simp add: pts_ok_def)
  have n: "0 \<le> snd i" using f by (simp add: fits_def)
  have "length (filter (\<lambda>p. fst p = fst i) (S (l, - 1))) = places l (fst i) S"
    using ok ordered_distinct [of "S (l, - 1)"] distinct_card [of "filter (\<lambda>p. fst p = fst i) (S (l, - 1))"]
    by (simp add: pts_ok_def places_def)
  moreover have pl: "places l (fst i) S < 3" using False by (simp add: gep_drops_def places_def)
  ultimately have b: "gep_body m l off arr i S = Some ?U"
    using False n
    by (auto simp: gep_body_def gep_drops_def Let_def gep_target_def crop_def put_def set_copy_def)
  let ?r = "RCT_VAR_ASGN_GEP l g"
  have gs: "gep_size m ?r = max 0 (sint off)" using r(2) by (simp add: gep_size_def)
  have sl: "gep_size m ?r \<le> slack m P S (fst i)"
  proof -
    have "gep_size m ?r \<le> int (3 - places (gep_lval ?r) (fst i) S) * gep_size m ?r"
      using mult_right_mono [of 1 "int (3 - places l (fst i) S)" "gep_size m ?r"] pl by simp
    also have "\<dots> \<le> slack m P S (fst i)"
      unfolding slack_def using r(1) by (intro member_le_sum) simp_all
    finally show ?thesis .
  qed
  have "snd i + max 0 (sint off) < 2 ^ 31" using f sl gs unfolding fits_def by linarith
  note tb = gep_target_bounds [OF n this, of arr]
  have "fits m P V ?U ?t"
  proof (cases "?t \<in> set (S (l, - 1))")
    case True
    then show ?thesis using ok fits_mono [OF _ put_le] by (simp add: pts_ok_def)
  next
    case new: False
    have "slack m P ?U (fst i) + gep_size m ?r \<le> slack m P S (fst i)"
      using places_insert [OF pts_ok_ordered [OF ok], of "fst i" "snd ?t" l] new pl r(1)
      by (intro slack_step [OF put_le]) (simp_all add: gep_target_def)
    then show ?thesis using f tb gs slack_nonneg [of m P ?U "fst i"] by (auto simp: fits_def gep_target_def)
  qed
  then have "grows m P V S (put (l, - 1) [?t] S)" "?t \<in> set (?U (l, - 1))"
    using put_grows [OF ok, of "(l, - 1)" "[?t]"] r(3) by (auto simp: keys_def)
  moreover have "\<forall>k'. k' \<noteq> (l, - 1) \<longrightarrow> ?U k' = S k'" by (simp add: put_def Let_def)
  ultimately show ?thesis using b by (auto simp: grows_def)
qed


text \<open>What a rule may mention, and the offsets a list of rules may have.\<close>

definition rule_wf :: "llvm_module \<Rightarrow> val set \<Rightarrow> rule_code \<Rightarrow> bool" where
  "rule_wf m V r =
     (case r of
        RCT_UNKNOWN \<Rightarrow> False
      | RCT_DEALLOC l \<Rightarrow> True
      | RCT_VAR_ASGN_GEP l g \<Rightarrow>
          l \<in> V \<and> (case gep_info m g of
                      None \<Rightarrow> False
                    | Some (op, off, arr) \<Rightarrow> op \<in> V \<and> (hasExtraReference m op \<longrightarrow> 0 \<le> sint off))
      | RCT_VAR_ASGN_ALLOC l r \<Rightarrow> l \<in> V \<and> r \<in> V
      | RCT_VAR_ASGN_NULL l r \<Rightarrow> l \<in> V \<and> r \<in> V
      | RCT_VAR_ASGN_VAR l r \<Rightarrow> l \<in> V \<and> r \<in> V
      | RCT_VAR_ASGN_REF_VAR l r \<Rightarrow> l \<in> V \<and> r \<in> V
      | RCT_VAR_ASGN_DREF_VAR l r \<Rightarrow> l \<in> V \<and> r \<in> V
      | RCT_DREF_VAR_ASGN_NULL l r \<Rightarrow> l \<in> V \<and> r \<in> V
      | RCT_DREF_VAR_ASGN_VAR l r \<Rightarrow> l \<in> V \<and> r \<in> V
      | RCT_DREF_VAR_ASGN_REF_VAR l r \<Rightarrow> l \<in> V \<and> r \<in> V
      | RCT_DREF_VAR_ASGN_DREF_VAR l r \<Rightarrow> l \<in> V \<and> r \<in> V)"

definition rules_wf :: "llvm_module \<Rightarrow> val set \<Rightarrow> rule_code list \<Rightarrow> bool" where
  "rules_wf m V P \<longleftrightarrow> finite V \<and> (\<forall>r \<in> set P. rule_wf m V r) \<and> (\<Sum>r \<in> set P. 3 * gep_size m r) < 2 ^ 31"

definition rule_law :: "llvm_module \<Rightarrow> rule_code list \<Rightarrow> val set \<Rightarrow> rule_code \<Rightarrow> pts \<Rightarrow> bool" where
  "rule_law m P V rc S \<longleftrightarrow>
     (\<exists>r. applyRules m rc S = Some r \<and> grows m P V S r \<and> (snd r = S \<longrightarrow> sat m S rc))"

lemma var_key: "v \<in> V \<Longrightarrow> (v, - 1) \<in> keys V"
  by (simp add: keys_def)

lemma pointee_key: "pts_ok m P V S \<Longrightarrow> i \<in> set (S k) \<Longrightarrow> i \<in> keys V"
  using pointees_bounded by blast

lemma dref_law:
  assumes ok: "pts_ok m P V S" and V: "finite V" and k: "(l, idx) \<in> keys V"
  shows "\<exists>r. applyRule_dref l rv idx S = Some r \<and> grows m P V S r \<and>
           (snd r = S \<longrightarrow> (\<forall>p \<in> set (S (rv, - 1)). set (S p) \<subseteq> set (S (l, idx))))"
  unfolding applyRule_dref_def
proof (rule one_key_law [OF ok V, where C = "\<lambda>p S. set (S p) \<subseteq> set (S (l, idx))"])
  fix i T
  assume T: "pts_ok m P V T"
  have "snd (put (l, idx) (T i) T) k' = T k'" if "k' \<noteq> (l, idx)" for k'
    using that by (simp add: put_def Let_def)
  then show "\<exists>U. Some (snd (put (l, idx) (T i) T)) = Some U \<and> pts_ok m P V U \<and> pts_le T U \<and>
      (\<forall>k'. k' \<noteq> (l, idx) \<longrightarrow> U k' = T k') \<and> (U = T \<longrightarrow> set (T i) \<subseteq> set (T (l, idx)))"
    using put_old_grows [OF T k, of i] by (auto simp: grows_def)
qed

lemma gep_law:
  assumes ok: "pts_ok m P V S" and wf: "rules_wf m V P" and r: "RCT_VAR_ASGN_GEP l g \<in> set P"
  shows "rule_law m P V (RCT_VAR_ASGN_GEP l g) S"
proof -
  obtain op off arr where g: "gep_info m g = Some (op, off, arr)" "op \<in> V" "l \<in> V" "hasExtraReference m op \<longrightarrow> 0 \<le> sint off"
    using wf r by (fastforce simp: rules_wf_def rule_wf_def split: option.splits)
  show ?thesis
  proof (cases "hasExtraReference m op")
    case False
    have "\<exists>r. Option.bind (iter_live (\<lambda>S. S (op, - 1)) (gep_body m l off arr) None S)
        (\<lambda>S'. Some (length (S (l, - 1)) \<noteq> length (S' (l, - 1)), S')) = Some r \<and> grows m P V S r \<and>
        (snd r = S \<longrightarrow> (\<forall>i \<in> set (S (op, - 1)). gep_drops m l off i S \<or> gep_target off arr i \<in> set (S (l, - 1))))"
      using wf gep_body_law [OF _ _ r g(1,3)]
      by (intro one_key_law [OF ok, where C = "\<lambda>i S. gep_drops m l off i S \<or> gep_target off arr i \<in> set (S (l, - 1))"])
        (auto simp: rules_wf_def)
    then show ?thesis using False g(1) by (simp add: rule_law_def applyRules_def applyRule_gep_def)
  next
    case True
    let ?r = "RCT_VAR_ASGN_GEP l g"
    let ?t = "(op, int_of off)"
    let ?U = "snd (put (l, - 1) [?t] S)"
    have n: "0 \<le> sint off" using True g(4) by simp
    have gs: "gep_size m ?r = sint off" using g(1) n by (simp add: gep_size_def)
    have tot: "(\<Sum>q \<in> set P. 3 * gep_size m q) < 2 ^ 31" using wf by (simp add: rules_wf_def)
    have "slack m P ?U op + sint off \<le> slack m P (\<lambda>_. []) op"
    proof -
      have "0 < places l op ?U" by (force simp: places_def card_gt_0_iff put_def Let_def)
      then show ?thesis
        using slack_step [of "\<lambda>_. []" ?U ?r P op m] r gs by (simp add: pts_le_def places_def)
    qed
    also have "slack m P (\<lambda>_. []) op = (\<Sum>q \<in> set P. 3 * gep_size m q)" by (simp add: slack_def places_def)
    finally have b: "slack m P ?U op + sint off < 2 ^ 31" using tot by linarith
    then have "sint off < 2 ^ 31" using slack_nonneg [of m P ?U op] by linarith
    then have "int_of off = sint off" using n by (intro int_of_small)
    then have "fits m P V ?U ?t" using b g(2) n by (simp add: fits_def)
    then have "grows m P V S (put (l, - 1) [?t] S)" "?t \<in> set (?U (l, - 1))"
      using put_grows [OF ok var_key [OF g(3)], of "[?t]"] by auto
    then show ?thesis using True g(1) by (auto simp: rule_law_def applyRules_def applyRule_gep_def)
  qed
qed

lemma rule_law:
  assumes ok: "pts_ok m P V S" and wf: "rules_wf m V P" and rc: "rc \<in> set P"
  shows "rule_law m P V rc S"
proof -
  have V: "finite V" and w: "rule_wf m V rc" and tot: "(\<Sum>r \<in> set P. 3 * gep_size m r) < 2 ^ 31"
    using wf rc by (simp_all add: rules_wf_def)
  note base = put_base_grows [OF _ _ _ tot]
  have base_law: "grows m P V S (put (l, - 1) [(r, 0)] S) \<and> (snd (put (l, - 1) [(r, 0)] S) = S \<longrightarrow> (r, 0) \<in> set (S (l, - 1)))"
    if "l \<in> V" "r \<in> V" for l r
    using base [OF ok var_key [OF that(1)] that(2)] by metis
  show ?thesis
  proof (cases rc)
    case (RCT_VAR_ASGN_GEP l r)
    then show ?thesis using gep_law [OF ok wf] rc by simp
  next
    case (RCT_VAR_ASGN_VAR l r)
    then show ?thesis
      using put_old_grows [OF ok var_key, of l "(r, - 1)"] w
      by (auto simp: rule_law_def rule_wf_def applyRules_def applyRule_var_def)
  next
    case (RCT_VAR_ASGN_DREF_VAR l r)
    then show ?thesis
      using dref_law [OF ok V var_key, of l r] w by (simp add: rule_law_def rule_wf_def applyRules_def)
  next
    case (RCT_DREF_VAR_ASGN_NULL l r)
    then have "\<exists>q. over_pointees l (\<lambda>i S. Some (put i [(r, 0)] S)) S = Some q \<and> grows m P V S q \<and>
        (snd q = S \<longrightarrow> (\<forall>i \<in> set (S (l, - 1)). (r, 0) \<in> set (S i)))"
      using w base pointee_key by (intro over_pointees_law [OF ok V, where C = "\<lambda>i S. (r, 0) \<in> set (S i)"])
        (fastforce simp: rule_wf_def)
    then show ?thesis using RCT_DREF_VAR_ASGN_NULL by (simp add: rule_law_def applyRules_def applyRule_dref_null_def)
  next
    case (RCT_DREF_VAR_ASGN_REF_VAR l r)
    then have "\<exists>q. over_pointees l (\<lambda>i S. Some (put i [(r, 0)] S)) S = Some q \<and> grows m P V S q \<and>
        (snd q = S \<longrightarrow> (\<forall>i \<in> set (S (l, - 1)). (r, 0) \<in> set (S i)))"
      using w base pointee_key by (intro over_pointees_law [OF ok V, where C = "\<lambda>i S. (r, 0) \<in> set (S i)"])
        (fastforce simp: rule_wf_def)
    then show ?thesis using RCT_DREF_VAR_ASGN_REF_VAR by (simp add: rule_law_def applyRules_def applyRule_dref_ref_def)
  next
    case (RCT_DREF_VAR_ASGN_VAR l r)
    then have "\<exists>q. over_pointees l (\<lambda>i S. Some (put i (S (r, - 1)) S)) S = Some q \<and> grows m P V S q \<and>
        (snd q = S \<longrightarrow> (\<forall>i \<in> set (S (l, - 1)). set (S (r, - 1)) \<subseteq> set (S i)))"
      using put_old_grows pointee_key
      by (intro over_pointees_law [OF ok V, where C = "\<lambda>i S. set (S (r, - 1)) \<subseteq> set (S i)"]) fastforce
    then show ?thesis using RCT_DREF_VAR_ASGN_VAR by (simp add: rule_law_def applyRules_def applyRule_dref_var_def)
  next
    case (RCT_DREF_VAR_ASGN_DREF_VAR l r)
    then have "\<exists>q. over_pointees l (\<lambda>i S. applyRule_dref (fst i) r (snd i) S) S = Some q \<and> grows m P V S q \<and>
        (snd q = S \<longrightarrow> (\<forall>i \<in> set (S (l, - 1)). \<forall>p \<in> set (S (r, - 1)). set (S p) \<subseteq> set (S i)))"
      using dref_law [OF _ V] pointee_key
      by (intro over_pointees_law [OF ok V, where C = "\<lambda>i S. \<forall>p \<in> set (S (r, - 1)). set (S p) \<subseteq> set (S i)"]) fastforce
    then show ?thesis using RCT_DREF_VAR_ASGN_DREF_VAR by (simp add: rule_law_def applyRules_def applyRule_dref_dref_def)
  next
    case (RCT_DEALLOC l)
    then show ?thesis using ok by (simp add: rule_law_def applyRules_def grows_def)
  qed (use w base_law in \<open>simp_all add: rule_law_def rule_wf_def applyRules_def applyRule_alloc_def
      applyRule_null_def applyRule_ref_def\<close>)
qed


section \<open>The analysis\<close>

definition pts_room :: "val set \<Rightarrow> pts \<Rightarrow> nat" where
  "pts_room V S = (\<Sum>k \<in> keys V. card (keys V) - length (S k))"

lemma pts_room_less:
  assumes "finite V" "pts_ok m P V S" "grows m P V S (c, T)" c
  shows "pts_room V T < pts_room V S"
proof -
  have T: "pts_ok m P V T" "pts_le S T" "T \<noteq> S" using assms(3,4) by (simp_all add: grows_def)
  note fk = finite_keys [OF assms(1)]
  have len: "length (T k) \<le> card (keys V)" for k
    using pointees_bounded [OF T(1), of k] fk by (simp add: ordered_length card_mono)
  have o: "ordered (S k)" "ordered (T k)" "set (S k) \<subseteq> set (T k)" for k
    using assms(2) T by (simp_all add: pts_ok_def pts_le_def)
  obtain k where k: "T k \<noteq> S k" using T(3) by blast
  have l: "length (S k) < length (T k)" using ordered_grown [OF o, of k] k by linarith
  then have "T k \<noteq> []" by auto
  then have kk: "k \<in> keys V" using T(1) unfolding pts_ok_def by blast
  have "card (keys V) - length (T k) < card (keys V) - length (S k)" using l len [of k] by linarith
  then show ?thesis
    unfolding pts_room_def
    using fk kk ordered_grown(2) [OF o]
    by (intro sum_strict_mono_ex1) (blast intro: diff_le_mono2)+
qed

text \<open>The rules of a well-formed list meet the contract of Fixpoint.\<close>

interpretation pt: inflationary "applyRules m" "if rules_wf m V P then set P else {}" "pts_ok m P V" "pts_room V"
  for m V P
proof unfold_locales
  fix r S
  assume r: "r \<in> (if rules_wf m V P then set P else {})" and ok: "pts_ok m P V S"
  then have wf: "rules_wf m V P" and rP: "r \<in> set P" by (simp_all split: if_splits)
  obtain c T where T: "applyRules m r S = Some (c, T)" "grows m P V S (c, T)"
    using rule_law [OF ok wf rP] by (auto simp: rule_law_def)
  then show "room_step (pts_ok m P V) (pts_room V) S (applyRules m r S)"
    using pts_room_less [OF _ ok T(2)] wf by (auto simp: room_step_def grows_def rules_wf_def)
qed

lemma empty_ok: "pts_ok m P V (\<lambda>_. [])"
  by (simp add: pts_ok_def)

lemma fixpoint_solution:
  assumes wf: "rules_wf m V P"
  shows "\<exists>S. fixpoint m P (\<lambda>_. []) = Some S \<and> pts_ok m P V S \<and> (\<forall>r \<in> set P. sat m S r)"
proof -
  obtain S where S: "fixpoint m P (\<lambda>_. []) = Some S" "pts_ok m P V S"
    "\<forall>r \<in> set P. applyRules m r S = Some (False, S)"
    using pt.loop_stable [of P m V P "\<lambda>_. []"] wf empty_ok by (auto simp: fixpoint_def)
  moreover have "sat m S r" if "r \<in> set P" for r
    using rule_law [OF S(2) wf that] S(3) that by (auto simp: rule_law_def)
  ultimately show ?thesis by blast
qed

text \<open>No rule leaves a solution.\<close>

lemma put_below: "pts_le S T \<Longrightarrow> set xs \<subseteq> set (T k) \<Longrightarrow> pts_le (snd (put k xs S)) T"
  by (simp add: put_def Let_def pts_le_def)

lemma put_below_eq: "put k xs S = (c, S') \<Longrightarrow> pts_le S T \<Longrightarrow> set xs \<subseteq> set (T k) \<Longrightarrow> pts_le S' T"
  using put_below [of S T xs k] by simp

lemma pts_leD: "pts_le S T \<Longrightarrow> p \<in> set (S k) \<Longrightarrow> p \<in> set (T k)"
  by (auto simp: pts_le_def)

lemma over_pointees_below:
  assumes "over_pointees l body S = Some (c, S')" "pts_le S T"
    and "\<And>i U d U'. pts_le U T \<Longrightarrow> i \<in> set (T (l, - 1)) \<Longrightarrow> body i U = Some (d, U') \<Longrightarrow> pts_le U' T"
  shows "pts_le S' T"
proof -
  have "pts_le (snd (c, S')) T"
    using assms(1) [unfolded over_pointees_def]
  proof (rule iter_live_inv [where Q = "\<lambda>a. pts_le (snd a) T"])
    fix i a b
    assume a: "pts_le (snd a) T" "i \<in> set (case a of (change :: bool, S) \<Rightarrow> S (l, - 1))"
      "(case a of (change, S) \<Rightarrow> Option.bind (body i S) (\<lambda>(c, S). Some (change \<or> c, S))) = Some b"
    obtain ch U where U: "a = (ch, U)" by (cases a)
    obtain d U' where U': "body i U = Some (d, U')" "b = (ch \<or> d, U')" using a(3) U by (auto simp: bind_eq_Some_conv)
    have "i \<in> set (T (l, - 1))" using a U pts_leD [of U T i] by simp
    then show "pts_le (snd b) T" using assms(3) [of U i d U'] a(1) U U' by simp
  qed (use assms(2) in simp)
  then show ?thesis by simp
qed

lemma dref_below:
  assumes "applyRule_dref l r idx S = Some (c, S')" "pts_le S T" "\<forall>p \<in> set (T (r, - 1)). set (T p) \<subseteq> set (T (l, idx))"
  shows "pts_le S' T"
proof -
  have it: "iter_live (\<lambda>S. S (r, - 1)) (\<lambda>i S. Some (snd (put (l, idx) (S i) S))) None S = Some S'"
    using assms(1) by (auto simp: applyRule_dref_def bind_eq_Some_conv)
  show ?thesis
    using it assms(2)
  proof (rule iter_live_inv [where Q = "\<lambda>S. pts_le S T"])
    fix i U U'
    assume U: "pts_le U T" "i \<in> set (U (r, - 1))" "Some (snd (put (l, idx) (U i) U)) = Some U'"
    then have "set (U i) \<subseteq> set (T (l, idx))"
      using assms(3) pts_leD [OF U(1,2)] by (auto simp: pts_le_def)
    then show "pts_le U' T" using put_below [OF U(1)] U(3) by auto
  qed
qed

lemma gep_below:
  assumes "applyRule_gep m l g S = Some (c, S')" "pts_le S T" "solves m P T" "RCT_VAR_ASGN_GEP l g \<in> set P"
  shows "pts_le S' T"
proof -
  obtain op off arr where g: "gep_info m g = Some (op, off, arr)"
    using assms(1) by (auto simp: applyRule_gep_def bind_eq_Some_conv)
  have s: "sat m T (RCT_VAR_ASGN_GEP l g)"
    "\<not> hasExtraReference m op \<longrightarrow> (\<forall>p \<in> set (T (op, - 1)). gep_target off arr p \<in> set (T (l, - 1)))"
    using assms(3,4) g unfolding solves_def by blast+
  show ?thesis
  proof (cases "hasExtraReference m op")
    case True
    then have "S' = snd (put (l, - 1) [(op, int_of off)] S)" using assms(1) g by (auto simp: applyRule_gep_def)
    then show ?thesis using True s(1) g put_below [OF assms(2)] by simp
  next
    case False
    then have it: "iter_live (\<lambda>S. S (op, - 1)) (gep_body m l off arr) None S = Some S'"
      using assms(1) g by (auto simp: applyRule_gep_def bind_eq_Some_conv)
    show ?thesis
      using it assms(2)
    proof (rule iter_live_inv [where Q = "\<lambda>S. pts_le S T"])
      fix i U U'
      assume U: "pts_le U T" "i \<in> set (U (op, - 1))" "gep_body m l off arr i U = Some U'"
      then have "U' = U \<or> U' = snd (put (l, - 1) [gep_target off arr i] U)"
        by (auto simp: gep_body_def Let_def gep_target_def crop_def put_def set_copy_def split: if_splits)
      moreover have "gep_target off arr i \<in> set (T (l, - 1))" using False s(2) pts_leD [OF U(1,2)] by blast
      ultimately show "pts_le U' T" using put_below [OF U(1)] U(1) by auto
    qed
  qed
qed

lemma rule_below:
  assumes a: "applyRules m rc S = Some (c, S')" and le: "pts_le S T" and T: "solves m P T" and rc: "rc \<in> set P"
  shows "pts_le S' T"
proof -
  have s: "sat m T rc" using T rc by (simp add: solves_def)
  have sub: "set (U k) \<subseteq> set (T k)" if "pts_le U T" for U k using that by (simp add: pts_le_def)
  have store: "pts_le S' T"
    if o: "over_pointees l (\<lambda>i S. Some (put i [(r, 0)] S)) S = Some (c, S')"
      and t: "\<forall>p \<in> set (T (l, - 1)). (r, 0) \<in> set (T p)" for l r
    using o le
  proof (rule over_pointees_below)
    fix i U d U'
    assume "pts_le U T" "i \<in> set (T (l, - 1))" "Some (put i [(r, 0)] U) = Some (d, U')"
    then show "pts_le U' T" using put_below_eq [of i "[(r, 0)]" U d U' T] t by simp
  qed
  show ?thesis
  proof (cases rc)
    case (RCT_VAR_ASGN_GEP l r)
    then show ?thesis using gep_below [OF _ le T] a rc by (simp add: applyRules_def)
  next
    case (RCT_VAR_ASGN_VAR l r)
    then have "put (l, - 1) (S (r, - 1)) S = (c, S')" "set (T (r, - 1)) \<subseteq> set (T (l, - 1))"
      using a s by (simp_all add: applyRules_def applyRule_var_def)
    then show ?thesis using put_below_eq [OF _ le] sub [OF le, of "(r, - 1)"] by blast
  next
    case (RCT_VAR_ASGN_DREF_VAR l r)
    then show ?thesis using a s dref_below [OF _ le] by (simp add: applyRules_def)
  next
    case (RCT_DREF_VAR_ASGN_VAR l r)
    then have o: "over_pointees l (\<lambda>i S. Some (put i (S (r, - 1)) S)) S = Some (c, S')"
      and t: "\<forall>p \<in> set (T (l, - 1)). set (T (r, - 1)) \<subseteq> set (T p)"
      using a s by (simp_all add: applyRules_def applyRule_dref_var_def)
    show ?thesis
      using o le
    proof (rule over_pointees_below)
      fix i U d U'
      assume "pts_le U T" "i \<in> set (T (l, - 1))" "Some (put i (U (r, - 1)) U) = Some (d, U')"
      then show "pts_le U' T" using put_below_eq [of i "U (r, - 1)" U d U' T] t sub [of U "(r, - 1)"] by blast
    qed
  next
    case (RCT_DREF_VAR_ASGN_DREF_VAR l r)
    then have o: "over_pointees l (\<lambda>i S. applyRule_dref (fst i) r (snd i) S) S = Some (c, S')"
      and t: "\<forall>p \<in> set (T (l, - 1)). \<forall>q \<in> set (T (r, - 1)). set (T q) \<subseteq> set (T p)"
      using a s by (simp_all add: applyRules_def applyRule_dref_dref_def)
    show ?thesis
      using o le
    proof (rule over_pointees_below)
      fix i U d U'
      assume "pts_le U T" "i \<in> set (T (l, - 1))" "applyRule_dref (fst i) r (snd i) U = Some (d, U')"
      then show "pts_le U' T" using dref_below [of "fst i" r "snd i" U d U' T] t by simp
    qed
  next
    case (RCT_DREF_VAR_ASGN_NULL l r)
    then show ?thesis
      using a s store [of l r] by (simp add: applyRules_def applyRule_dref_null_def)
  next
    case (RCT_DREF_VAR_ASGN_REF_VAR l r)
    then show ?thesis
      using a s store [of l r] by (simp add: applyRules_def applyRule_dref_ref_def)
  qed (use a s le put_below_eq [OF _ le] in \<open>simp_all add: applyRules_def applyRule_alloc_def applyRule_null_def
      applyRule_ref_def\<close>)
qed

lemma fixpoint_least:
  assumes "fixpoint m P S = Some S'" "pts_le S T" "solves m P T"
  shows "pts_le S' T"
  using assms(1) [unfolded fixpoint_def] assms(2)
  by (rule loop_inv [where Q = "\<lambda>S. pts_le S T"]) (use rule_below [OF _ _ assms(3)] in blast)


text \<open>
  C22: The analysis returns, whatever the order of the values, without failing an assertion or
  overflowing an offset, provided that no constant offset from a variable is negative and that
  three times the sum of the constant offsets fits an int.  Its result satisfies the constraint
  of every rule, and it lies below every map of sets that satisfies the rules without dropping
  a pointee.
\<close>

theorem points_to_least_solution:
  assumes "rules_wf m V P"
  shows "\<exists>S. fixpoint m P (\<lambda>_. []) = Some S \<and> (\<forall>r \<in> set P. sat m S r) \<and> (\<forall>T. solves m P T \<longrightarrow> pts_le S T)"
proof -
  obtain S where S: "fixpoint m P (\<lambda>_. []) = Some S" "\<forall>r \<in> set P. sat m S r"
    using fixpoint_solution [OF assms] by blast
  then show ?thesis using fixpoint_least [OF S(1)] by (simp add: pts_le_def)
qed

text \<open>
  A module with a call of \<open>malloc\<close> (10), a global structure (20) and the address of its member
  at offset 8 (11); the rules store the allocated pointer through itself and load it again.
\<close>

definition demo_module :: llvm_module where
  "demo_module =
     \<lparr>kind = (\<lambda>v. if v = 20 then GlobalVariable ''g'' None
                  else if v = 11 then GetElementPtrInst 20 [(30, SeqStep (StructTy 1)), (31, StructStep (StructTy 1))]
                  else if v = 30 then ConstantInt 0 else if v = 31 then ConstantInt 1 else OtherValue),
      getType = (\<lambda>_. PointerTy VoidTy), fun_of = (\<lambda>_. 0), m_functions = [], m_globals = [20], fun_args = (\<lambda>_. []),
      fun_blocks = (\<lambda>_. []), elem_offset = (\<lambda>_ _. 8), store_size = (\<lambda>_. 16), alloc_size = (\<lambda>_. 16),
      stripPointerCasts = (\<lambda>v. v), getName = (\<lambda>_. []), getCString = (\<lambda>_. None),
      phi_blocks = (\<lambda>_. [])\<rparr>"

definition demo_rules :: "rule_code list" where
  "demo_rules = [RCT_VAR_ASGN_ALLOC 10 10, RCT_VAR_ASGN_GEP 11 11, RCT_VAR_ASGN_VAR 12 10,
     RCT_DREF_VAR_ASGN_VAR 12 11, RCT_VAR_ASGN_DREF_VAR 13 12]"

lemma demo_gep: "gep_info demo_module 11 = Some (20, 8, False)"
  by (simp add: gep_info_def demo_module_def elimConstExpr.simps accumulateConstantOffset_def)

lemma demo_rules_wf: "rules_wf demo_module {10, 11, 12, 13, 20} demo_rules"
  by (simp add: rules_wf_def demo_rules_def rule_wf_def demo_gep gep_size_def)

theorem points_to_least_solution_witness:
  "\<exists>S. fixpoint demo_module demo_rules (\<lambda>_. []) = Some S \<and> (20, 8) \<in> set (S (13, - 1))"
proof -
  obtain S where S: "fixpoint demo_module demo_rules (\<lambda>_. []) = Some S" "\<forall>r \<in> set demo_rules. sat demo_module S r"
    using points_to_least_solution [OF demo_rules_wf] by blast
  have "int_of 8 = 8" by (simp add: int_of_def)
  then have "(20, 8) \<in> set (S (11, - 1))"
    using S(2) by (simp add: demo_rules_def demo_gep) (simp add: hasExtraReference_def demo_module_def)
  moreover have "(10, 0) \<in> set (S (12, - 1))" using S(2) by (auto simp: demo_rules_def)
  ultimately have "(20, 8) \<in> set (S (13, - 1))" using S(2) by (force simp: demo_rules_def)
  then show ?thesis using S(1) by blast
qed

text \<open>
  C35: The result of the analysis is typed as the header of the analysis says: a key is a
  variable, with offset -1, or a place in memory, with an offset from 0 on; a pointee is a place
  in memory; all locations are among those of the rules, and no function is a key.  The rules have
  no negative constant offset from a variable, and three times the sum of their offsets is below 2^31.
\<close>

theorem points_to_typed:
  assumes "rules_wf m V P"
  shows "\<exists>S. computePointsToSets m P (\<lambda>_. []) = Some S \<and>
    (\<forall>k p. p \<in> set (S k) \<longrightarrow> fst k \<in> V \<and> \<not> isFunction m (fst k) \<and> (snd k = - 1 \<or> 0 \<le> snd k \<and> snd k < 2 ^ 31) \<and>
       fst p \<in> V \<and> 0 \<le> snd p \<and> snd p < 2 ^ 31)"
proof -
  obtain S where S: "fixpoint m P (\<lambda>_. []) = Some S" "pts_ok m P V S" using fixpoint_solution [OF assms] by blast
  have "fst k \<in> V \<and> (snd k = - 1 \<or> 0 \<le> snd k \<and> snd k < 2 ^ 31) \<and> fst p \<in> V \<and> 0 \<le> snd p \<and> snd p < 2 ^ 31"
    if "p \<in> set (S k)" for k p
  proof -
    have "fits m P V S p" "S k \<noteq> []" using S(2) that by (auto simp: pts_ok_def)
    moreover from this have "k \<in> keys V" using S(2) unfolding pts_ok_def by blast
    ultimately show ?thesis using slack_nonneg [of m P S "fst p"] by (auto simp: fits_def keys_def)
  qed
  then show ?thesis
    using S(1) by (intro exI [of _ "pruneByType m S"]) (simp add: computePointsToSets_def pruneByType_def)
qed

theorem points_to_typed_witness:
  "\<exists>S. computePointsToSets demo_module demo_rules (\<lambda>_. []) = Some S \<and> (\<forall>p \<in> set (S (13, - 1)). 0 \<le> snd p)"
  using points_to_typed [OF demo_rules_wf] by blast

section \<open>Runs of the rules\<close>

text \<open>
  The rules read as assignments: a memory maps variables and places to the place they point to.
  A run executes rules in any order, any number of times.
\<close>

inductive rule_step :: "llvm_module \<Rightarrow> rule_code \<Rightarrow> (pointer \<rightharpoonup> pointer) \<Rightarrow> (pointer \<rightharpoonup> pointer) \<Rightarrow> bool" for m where
  step_alloc: "rule_step m (RCT_VAR_ASGN_ALLOC l r) \<mu> (\<mu>((l, - 1) \<mapsto> (r, 0)))"
| step_null: "rule_step m (RCT_VAR_ASGN_NULL l r) \<mu> (\<mu>((l, - 1) \<mapsto> (r, 0)))"
| step_ref: "rule_step m (RCT_VAR_ASGN_REF_VAR l r) \<mu> (\<mu>((l, - 1) \<mapsto> (r, 0)))"
| step_var: "\<mu> (r, - 1) = Some p \<Longrightarrow> rule_step m (RCT_VAR_ASGN_VAR l r) \<mu> (\<mu>((l, - 1) \<mapsto> p))"
| step_dref: "\<mu> (r, - 1) = Some q \<Longrightarrow> \<mu> q = Some p \<Longrightarrow> rule_step m (RCT_VAR_ASGN_DREF_VAR l r) \<mu> (\<mu>((l, - 1) \<mapsto> p))"
| step_gep_ref: "gep_info m g = Some (op, off, arr) \<Longrightarrow> hasExtraReference m op \<Longrightarrow>
    rule_step m (RCT_VAR_ASGN_GEP l g) \<mu> (\<mu>((l, - 1) \<mapsto> (op, int_of off)))"
| step_gep: "gep_info m g = Some (op, off, arr) \<Longrightarrow> \<not> hasExtraReference m op \<Longrightarrow> \<mu> (op, - 1) = Some p \<Longrightarrow>
    rule_step m (RCT_VAR_ASGN_GEP l g) \<mu> (\<mu>((l, - 1) \<mapsto> gep_target off arr p))"
| step_store_null: "\<mu> (l, - 1) = Some q \<Longrightarrow> rule_step m (RCT_DREF_VAR_ASGN_NULL l r) \<mu> (\<mu>(q \<mapsto> (r, 0)))"
| step_store_ref: "\<mu> (l, - 1) = Some q \<Longrightarrow> rule_step m (RCT_DREF_VAR_ASGN_REF_VAR l r) \<mu> (\<mu>(q \<mapsto> (r, 0)))"
| step_store: "\<mu> (l, - 1) = Some q \<Longrightarrow> \<mu> (r, - 1) = Some p \<Longrightarrow> rule_step m (RCT_DREF_VAR_ASGN_VAR l r) \<mu> (\<mu>(q \<mapsto> p))"
| step_copy: "\<mu> (l, - 1) = Some q \<Longrightarrow> \<mu> (r, - 1) = Some u \<Longrightarrow> \<mu> u = Some p \<Longrightarrow>
    rule_step m (RCT_DREF_VAR_ASGN_DREF_VAR l r) \<mu> (\<mu>(q \<mapsto> p))"
| step_dealloc: "rule_step m (RCT_DEALLOC l) \<mu> \<mu>"

inductive reach :: "llvm_module \<Rightarrow> rule_code list \<Rightarrow> (pointer \<rightharpoonup> pointer) \<Rightarrow> bool" for m P where
  reach_start: "reach m P Map.empty"
| reach_step: "reach m P \<mu> \<Longrightarrow> r \<in> set P \<Longrightarrow> rule_step m r \<mu> \<mu>' \<Longrightarrow> reach m P \<mu>'"

text \<open>
  The analysis drops pointees when it takes the address of a member through a pointer.  A step
  is kept by the sets \<open>S\<close> when it is not such a step, or its pointee passes the tests of the
  analysis, or the member is in the set all the same.  \<open>run\<close> is a run of kept steps.
\<close>

definition step_kept :: "llvm_module \<Rightarrow> pts \<Rightarrow> rule_code \<Rightarrow> (pointer \<rightharpoonup> pointer) \<Rightarrow> bool" where
  "step_kept m S r \<mu> \<longleftrightarrow>
     (case r of
        RCT_VAR_ASGN_GEP l g \<Rightarrow>
          (case gep_info m g of
             Some (op, off, arr) \<Rightarrow>
               hasExtraReference m op \<or>
               (case \<mu> (op, - 1) of
                  Some p \<Rightarrow> gep_drops m l off p S \<longrightarrow> gep_target off arr p \<in> set (S (l, - 1))
                | None \<Rightarrow> True)
           | None \<Rightarrow> True)
      | _ \<Rightarrow> True)"

inductive run :: "llvm_module \<Rightarrow> rule_code list \<Rightarrow> pts \<Rightarrow> (pointer \<rightharpoonup> pointer) \<Rightarrow> bool" for m P S where
  run_start: "run m P S Map.empty"
| run_step: "run m P S \<mu> \<Longrightarrow> r \<in> set P \<Longrightarrow> step_kept m S r \<mu> \<Longrightarrow> rule_step m r \<mu> \<mu>' \<Longrightarrow> run m P S \<mu>'"

definition covers :: "pts \<Rightarrow> (pointer \<rightharpoonup> pointer) \<Rightarrow> bool" where
  "covers S \<mu> \<longleftrightarrow> (\<forall>k p. \<mu> k = Some p \<longrightarrow> p \<in> set (S k))"

lemma covers_upd: "covers S \<mu> \<Longrightarrow> p \<in> set (S k) \<Longrightarrow> covers S (\<mu>(k \<mapsto> p))"
  by (simp add: covers_def)

lemma coversD: "covers S \<mu> \<Longrightarrow> \<mu> k = Some p \<Longrightarrow> p \<in> set (S k)"
  by (simp add: covers_def)

lemma rule_step_covers:
  assumes "rule_step m r \<mu> \<mu>'" "covers S \<mu>" and s: "sat m S r" and kept: "step_kept m S r \<mu>"
  shows "covers S \<mu>'"
proof -
  show ?thesis
    using assms(1)
  proof cases
    case (step_gep g op off arr p l)
    then have "gep_target off arr p \<in> set (S (l, - 1))"
      using s kept coversD [OF assms(2) step_gep(5)] by (auto simp: step_kept_def)
    then show ?thesis using step_gep covers_upd [OF assms(2)] by simp
  next
    case (step_copy l q r u p)
    have "p \<in> set (S q)"
      using s step_copy(1) coversD [OF assms(2) step_copy(3)] coversD [OF assms(2) step_copy(4)]
        coversD [OF assms(2) step_copy(5)] by auto
    then show ?thesis using step_copy covers_upd [OF assms(2)] by simp
  next
    case (step_store l q r p)
    have "p \<in> set (S q)"
      using s step_store(1) coversD [OF assms(2) step_store(3)] coversD [OF assms(2) step_store(4)] by auto
    then show ?thesis using step_store covers_upd [OF assms(2)] by simp
  next
    case (step_dref r q p l)
    have "p \<in> set (S (l, - 1))"
      using s step_dref(1) coversD [OF assms(2) step_dref(3)] coversD [OF assms(2) step_dref(4)] by auto
    then show ?thesis using step_dref covers_upd [OF assms(2)] by simp
  next
    case (step_var r p l)
    have "p \<in> set (S (l, - 1))" using s step_var(1) coversD [OF assms(2) step_var(3)] by auto
    then show ?thesis using step_var covers_upd [OF assms(2)] by simp
  next
    case (step_store_null l q r)
    then show ?thesis using s coversD [OF assms(2) step_store_null(3)] covers_upd [OF assms(2)] by simp
  next
    case (step_store_ref l q r)
    then show ?thesis using s coversD [OF assms(2) step_store_ref(3)] covers_upd [OF assms(2)] by simp
  qed (use s assms(2) covers_upd [OF assms(2)] in simp_all)
qed

text \<open>Rules without the address of a member of what a pointer points to.\<close>

definition no_pointer_gep :: "llvm_module \<Rightarrow> rule_code list \<Rightarrow> bool" where
  "no_pointer_gep m P \<longleftrightarrow>
     list_all (\<lambda>r. case r of
        RCT_VAR_ASGN_GEP l g \<Rightarrow> (case gep_info m g of Some (op, off, arr) \<Rightarrow> hasExtraReference m op | None \<Rightarrow> False)
      | _ \<Rightarrow> True) P"

lemma reach_run: "reach m P \<mu> \<Longrightarrow> no_pointer_gep m P \<Longrightarrow> run m P S \<mu>"
proof (induction rule: reach.induct)
  case (reach_step \<mu> r \<mu>')
  then have "step_kept m S r \<mu>"
    by (auto simp: no_pointer_gep_def list_all_iff step_kept_def split: rule_code.splits option.splits)
  then show ?case using reach_step run_step by blast
qed (rule run_start)

text \<open>
  C23: The points-to sets over-approximate the runs of the rules.  Read the rules as assignments
  and execute them in any order and however often: every pointer such a run produces is in the
  computed set of its variable or place.  Runs are restricted where the analysis itself drops
  pointees: a member address taken through a pointer counts when its pointee passes the tests of
  the analysis (it is no function or null pointer, the offset lies in the object, it is not
  already a pointee of the result and the result has fewer than three places of the object), or
  when the member is recorded anyway.  Offsets are those of the analysis, cropped at 0 and, for
  arrays, at 64.  When members are only taken of variables, this is no restriction.  The rules have
  finitely many locations, no negative constant offset from a variable, and three times the sum of
  their offsets is below 2^31.
\<close>

theorem points_to_covers_runs:
  assumes "rules_wf m V P"
  shows "\<exists>S. fixpoint m P (\<lambda>_. []) = Some S \<and> (\<forall>\<mu> k p. run m P S \<mu> \<longrightarrow> \<mu> k = Some p \<longrightarrow> p \<in> set (S k)) \<and>
           (no_pointer_gep m P \<longrightarrow> (\<forall>\<mu>. reach m P \<mu> \<longrightarrow> run m P S \<mu>))"
proof -
  obtain S where S: "fixpoint m P (\<lambda>_. []) = Some S" "\<forall>r \<in> set P. sat m S r"
    using fixpoint_solution [OF assms(1)] by blast
  have "covers S \<mu>" if "run m P S \<mu>" for \<mu>
    using that
  proof induction
    case (run_step \<mu> r \<mu>')
    then show ?case using rule_step_covers S(2) by blast
  qed (simp add: covers_def)
  then show ?thesis using S(1) reach_run by (auto simp: covers_def)
qed

text \<open>The address of the member at offset 8 of what \<open>malloc\<close> returned: a run that takes it is covered.\<close>

definition demo_member :: llvm_module where
  "demo_member = demo_module\<lparr>kind := (kind demo_module)
     (14 := GetElementPtrInst 10 [(30, SeqStep (StructTy 1)), (31, StructStep (StructTy 1))])\<rparr>"

definition demo_member_rules :: "rule_code list" where
  "demo_member_rules = [RCT_VAR_ASGN_ALLOC 10 10, RCT_VAR_ASGN_GEP 14 14]"

lemma demo_member_gep: "gep_info demo_member 14 = Some (10, 8, False)" "\<not> hasExtraReference demo_member 10"
  by (simp_all add: gep_info_def demo_member_def demo_module_def elimConstExpr.simps accumulateConstantOffset_def hasExtraReference_def)

lemma demo_member_target: "gep_target 8 False (10, 0) = (10, 8)"
  by (simp add: gep_target_def crop_def int_of_def)

lemma demo_member_wf: "rules_wf demo_member {10, 14} demo_member_rules"
  by (simp add: rules_wf_def demo_member_rules_def rule_wf_def demo_member_gep gep_size_def)

lemma demo_member_solved:
  "solves demo_member demo_member_rules (\<lambda>k. if k = (10, - 1) then [(10, 0)] else if k = (14, - 1) then [(10, 8)] else [])"
  by (auto simp: solves_def demo_member_rules_def demo_member_gep demo_member_target)

theorem points_to_covers_runs_witness:
  "\<exists>S \<mu>. fixpoint demo_member demo_member_rules (\<lambda>_. []) = Some S \<and> run demo_member demo_member_rules S \<mu> \<and>
     \<mu> (14, - 1) = Some (10, 8) \<and> (10, 8) \<in> set (S (14, - 1))"
proof -
  obtain S where S: "fixpoint demo_member demo_member_rules (\<lambda>_. []) = Some S"
    "\<forall>\<mu> k p. run demo_member demo_member_rules S \<mu> \<longrightarrow> \<mu> k = Some p \<longrightarrow> p \<in> set (S k)"
    using points_to_covers_runs [OF demo_member_wf] by blast
  have "pts_le S (\<lambda>k. if k = (10, - 1) then [(10, 0)] else if k = (14, - 1) then [(10, 8)] else [])"
    using fixpoint_least [OF S(1) _ demo_member_solved] by (simp add: pts_le_def)
  then have le: "set (S (14, - 1)) \<subseteq> {(10, 8)}" by (force simp: pts_le_def)
  have "card {q \<in> set (S (14, - 1)). fst q = 10} \<le> card {(10 :: val, 8 :: int)}"
    by (rule card_mono) (use le in auto)
  then have "\<not> gep_drops demo_member 14 8 (10, 0) S"
    using le by (auto simp: gep_drops_def checkOffset_def isFunction_def isNullPtr_def demo_member_def demo_module_def)
  then have k: "step_kept demo_member S (RCT_VAR_ASGN_GEP 14 14) [(10, - 1) \<mapsto> (10, 0)]"
    by (simp add: step_kept_def demo_member_gep)
  let ?\<mu> = "[(10, - 1) \<mapsto> (10, 0), (14, - 1) \<mapsto> (10, 8)] :: pointer \<rightharpoonup> pointer"
  have "run demo_member demo_member_rules S [(10, - 1) \<mapsto> (10, 0)]"
    using run_step [OF run_start _ _ step_alloc [of _ 10 10]] by (simp add: demo_member_rules_def step_kept_def)
  then have "run demo_member demo_member_rules S ?\<mu>"
    using run_step [OF _ _ k step_gep [OF demo_member_gep(1,2), where p = "(10, 0)"]]
    by (simp add: demo_member_rules_def demo_member_target)
  then show ?thesis using S by (intro exI [of _ S] exI [of _ ?\<mu>]) simp
qed

text \<open>
  A variable whose address is taken has two points-to sets: a store through a pointer goes to
  offset 0, a load of the variable reads offset -1.  So the load does not see the store.
\<close>

lemma load_misses_store_through_pointer:
  assumes "distinct [p, a, t, x, y]" "hasExtraReference m p" "hasExtraReference m a" "hasExtraReference m x"
    "\<not> hasExtraReference m t"
    "kind m s1 = StoreInst a p" "kind m t = LoadInst p" "kind m s2 = StoreInst x t" "kind m y = LoadInst a"
    "\<forall>v \<in> {p, a, t, x}. elimConstExpr m v = Some v"
  shows "\<exists>P S. collect (toRuleCode m) [s1, t, s2, y] = Some P \<and> fixpoint m P (\<lambda>_. []) = Some S \<and>
           (x, 0) \<in> set (S (a, 0)) \<and> S (y, - 1) = []"
proof -
  let ?P = "[RCT_VAR_ASGN_REF_VAR p a, RCT_VAR_ASGN_VAR t p, RCT_DREF_VAR_ASGN_REF_VAR t x, RCT_VAR_ASGN_VAR y a]"
  have P: "collect (toRuleCode m) [s1, t, s2, y] = Some ?P"
    using assms by (simp add: collect_def toRuleCode_def)
  have "\<forall>r \<in> set ?P. gep_size m r = 0" by (simp add: gep_size_def)
  then have "(\<Sum>r \<in> set ?P. 3 * gep_size m r) = 0" by (intro sum.neutral) simp
  moreover have "\<forall>r \<in> set ?P. rule_wf m {p, a, t, x, y} r" by (simp add: rule_wf_def)
  ultimately have wf: "rules_wf m {p, a, t, x, y} ?P" unfolding rules_wf_def by simp
  obtain S where S: "fixpoint m ?P (\<lambda>_. []) = Some S" "\<forall>r \<in> set ?P. sat m S r" "\<forall>T. solves m ?P T \<longrightarrow> pts_le S T"
    using fixpoint_solution [OF wf] fixpoint_least [of m ?P "\<lambda>_. []"] by (auto simp: pts_le_def)
  let ?T = "(\<lambda>_. [])((p, - 1) := [(a, 0)], (t, - 1) := [(a, 0)], (a, 0) := [(x, 0)]) :: pts"
  have "solves m ?P ?T" using assms(1) by (auto simp: solves_def)
  then have "set (S (y, - 1)) \<subseteq> set (?T (y, - 1))" using S(3) unfolding pts_le_def by blast
  then have "S (y, - 1) = []" using assms(1) by (auto split: if_splits)
  moreover have "(x, 0) \<in> set (S (a, 0))" using S(2) by auto
  ultimately show ?thesis using P S(1) by blast
qed

text \<open>
  A negative constant offset from a variable is stored as it is, and the assertion on offsets
  fails when the address of a member is taken from the result.
\<close>

lemma negative_offset_fails:
  assumes "gep_info m g1 = Some (a, off1, arr1)" "hasExtraReference m a" "int_of off1 < 0"
    "gep_info m g2 = Some (g1, off2, arr2)" "\<not> hasExtraReference m g1"
  shows "fixpoint m [RCT_VAR_ASGN_GEP g1 g1, RCT_VAR_ASGN_GEP g2 g2] (\<lambda>_. []) = None"
proof -
  let ?S = "(\<lambda>_. [])((g1, - 1) := [(a, int_of off1)]) :: pts"
  have "applyRules m (RCT_VAR_ASGN_GEP g1 g1) (\<lambda>_. []) = Some (True, ?S)"
    using assms(1,2) by (simp add: applyRules_def applyRule_gep_def put_def set_copy_def)
  moreover have "applyRules m (RCT_VAR_ASGN_GEP g2 g2) ?S = None"
  proof -
    have "iter_live (\<lambda>S. S (g1, - 1)) (gep_body m g2 off2 arr2) None ?S = None"
      using assms(3) by (subst iter_live.simps) (simp add: gep_body_def)
    then show ?thesis using assms(4,5) unfolding applyRules_def applyRule_gep_def by simp
  qed
  ultimately show ?thesis by (simp add: fixpoint_def change_loop.simps)
qed

end
