(* ===== verification/Callgraph.thy ===== *)
theory Callgraph
  imports Points_To
begin

text \<open>
  The call graph of a module (\<open>passes/slicer/Callgraph\<close>, \<open>Languages/LLVMSupport.h\<close>): the direct
  calls, resolved through the points-to sets where the callee is a pointer, and their
  transitive closure.

  A multimap is the list of its insertions; iterating over it visits the keys in order.  The
  closure is shown to be the transitive closure of the direct calls.
\<close>

section \<open>The code\<close>

definition getCalledFunctions :: "llvm_module \<Rightarrow> val \<Rightarrow> pts \<Rightarrow> val list" where
  "getCalledFunctions m ci PS =
     (case kind m ci of
        CallInst cv _ \<Rightarrow>
          let stripped = stripPointerCasts m cv
          in if isFunction m stripped then [stripped]
             else filter (isFunction m) (map fst (getPointsToSet stripped PS))
      | _ \<Rightarrow> [])"

record callgraph =
  directCallsMap :: "(val \<times> val) list"
  directCalleesMap :: "(val \<times> val) list"
  callsMap :: "(val \<times> val) list"
  calleesMap :: "(val \<times> val) list"

text \<open>The loop that extends the calls of one entry of the set by the calls of its callee.\<close>

definition closure_body :: "('a :: linorder \<times> 'a) list \<Rightarrow> 'a \<times> 'a \<Rightarrow> ('a \<times> 'a) list \<Rightarrow> ('a \<times> 'a) list option" where
  "closure_body D it S = Some (fold (\<lambda>b. set_insert (fst it, b)) (range_of D (snd it)) S)"

definition closure_pass :: "('a :: linorder \<times> 'a) list \<Rightarrow> ('a \<times> 'a) list \<Rightarrow> (bool \<times> ('a \<times> 'a) list) option" where
  "closure_pass D S =
     Option.bind (iter_live (\<lambda>S. S) (closure_body D) None S) (\<lambda>S'. Some (length S \<noteq> length S', S'))"

definition computeTransitiveClosure :: "('a :: linorder \<times> 'a) list \<Rightarrow> ('a \<times> 'a) list option" where
  "computeTransitiveClosure R = change_loop (closure_pass R) (set_copy R [])"

definition contains :: "(val \<times> val) list \<Rightarrow> val \<Rightarrow> val \<Rightarrow> bool" where
  "contains mm key v = (v \<in> set (range_of mm key))"

definition handleCall :: "llvm_module \<Rightarrow> pts \<Rightarrow> val \<Rightarrow> val \<Rightarrow> (val \<times> val) list \<Rightarrow> (val \<times> val) list" where
  "handleCall m PS parent ci direct =
     (if isInlineAssembly m ci then direct
      else fold (\<lambda>called direct.
             if \<not> memoryManStuff m called \<and> \<not> isDeclaration m called \<and> \<not> contains direct parent called
             then direct @ [(parent, called)] else direct) (getCalledFunctions m ci PS) direct)"

definition isCallInst :: "llvm_module \<Rightarrow> val \<Rightarrow> bool" where
  "isCallInst m i = (case kind m i of CallInst _ _ \<Rightarrow> True | _ \<Rightarrow> False)"

definition directCalls :: "llvm_module \<Rightarrow> pts \<Rightarrow> (val \<times> val) list" where
  "directCalls m PS =
     fold (\<lambda>f direct.
       if \<not> isDeclaration m f \<and> \<not> memoryManStuff m f
       then fold (\<lambda>i direct. if isCallInst m i then handleCall m PS f i direct else direct) (insts m f) direct
       else direct) (m_functions m) []"

definition Callgraph :: "llvm_module \<Rightarrow> pts \<Rightarrow> callgraph option" where
  "Callgraph m PS =
     (let direct = directCalls m PS
      in Option.bind (computeTransitiveClosure (sort_key fst direct)) (\<lambda>calls.
           Some \<lparr>directCallsMap = direct,
                 directCalleesMap = map (\<lambda>(f, g). (g, f)) (sort_key fst direct),
                 callsMap = calls,
                 calleesMap = map (\<lambda>(f, g). (g, f)) calls\<rparr>))"

definition calls :: "callgraph \<Rightarrow> val \<Rightarrow> val list" where
  "calls cg f = range_of (callsMap cg) f"

definition callees :: "callgraph \<Rightarrow> val \<Rightarrow> val list" where
  "callees cg f = range_of (calleesMap cg) f"

section \<open>The closure\<close>

lemma set_range_of [simp]: "set (range_of mm k) = {v. (k, v) \<in> set mm}"
  by (force simp: range_of_def)

lemma fold_insert:
  "ordered S \<Longrightarrow> ordered (fold (\<lambda>b. set_insert (a, b)) bs S)"
  "set (fold (\<lambda>b. set_insert (a, b)) bs S) = Pair a ` set bs \<union> set S"
  by (induction bs arbitrary: S) (auto simp: ordered_set_insert)

definition closure_inv :: "('a :: linorder \<times> 'a) list \<Rightarrow> ('a \<times> 'a) list \<Rightarrow> bool" where
  "closure_inv R S \<longleftrightarrow> ordered S \<and> set R \<subseteq> set S \<and> set S \<subseteq> (set R)\<^sup>+"

lemma closure_body_law:
  assumes "closure_inv R S" "it \<in> set S"
  shows "\<exists>S'. closure_body R it S = Some S' \<and> closure_inv R S' \<and> set S \<subseteq> set S' \<and> (\<forall>b. (snd it, b) \<in> set R \<longrightarrow> (fst it, b) \<in> set S')"
proof -
  have "(fst it, b) \<in> (set R)\<^sup>+" if "(snd it, b) \<in> set R" for b
  proof -
    have "(fst it, snd it) \<in> (set R)\<^sup>+" using assms by (auto simp: closure_inv_def)
    then show ?thesis using that by (rule trancl_into_trancl)
  qed
  then show ?thesis
    using assms(1) by (auto simp: closure_body_def closure_inv_def fold_insert)
qed

lemma closure_pass_law:
  assumes i: "closure_inv R S"
  shows "\<exists>S'. closure_pass R S = Some (S' \<noteq> S, S') \<and> closure_inv R S' \<and> set S \<subseteq> set S' \<and>
           (\<forall>a b c. (a, b) \<in> set S \<longrightarrow> (b, c) \<in> set R \<longrightarrow> (a, c) \<in> set S')"
proof -
  let ?le = "\<lambda>S T :: ('a \<times> 'a) list. set S \<subseteq> set T"
  have "\<exists>S'. iter_live (\<lambda>S. S) (closure_body R) None S = Some S' \<and> closure_inv R S' \<and> ?le S S' \<and>
      (\<forall>x \<in> set S. behind None x \<longrightarrow>
         (\<exists>t t'. closure_inv R t \<and> ?le S t \<and> x \<in> set t \<and> closure_body R x t = Some t' \<and> ?le t' S'))"
  proof (rule iter_live_returns [where le = ?le and U = "(set R)\<^sup>+"])
    show "\<exists>s'. closure_body R x s = Some s' \<and> closure_inv R s' \<and> ?le s s'" if "closure_inv R s" "x \<in> set s" for x s
      using closure_body_law [OF that] by blast
  qed (use i in \<open>auto simp: closure_inv_def\<close>)
  then obtain S' where S': "iter_live (\<lambda>S. S) (closure_body R) None S = Some S'" "closure_inv R S'" "set S \<subseteq> set S'"
    and v: "\<forall>x \<in> set S. behind None x \<longrightarrow>
       (\<exists>t t'. closure_inv R t \<and> ?le S t \<and> x \<in> set t \<and> closure_body R x t = Some t' \<and> ?le t' S')" by blast
  have "length S = length S' \<longleftrightarrow> S' = S"
    using ordered_grown(1) [of S S'] i S'(2,3) by (auto simp: closure_inv_def)
  then have "closure_pass R S = Some (S' \<noteq> S, S')" using S'(1) by (simp add: closure_pass_def)
  moreover have "(a, c) \<in> set S'" if "(a, b) \<in> set S" "(b, c) \<in> set R" for a b c
  proof -
    obtain t t' where t: "closure_inv R t" "(a, b) \<in> set t" "closure_body R (a, b) t = Some t'" "set t' \<subseteq> set S'"
      using v [rule_format, OF \<open>(a, b) \<in> set S\<close> behind_simps(1)] by blast
    then show ?thesis using closure_body_law [OF t(1,2)] that(2) by auto
  qed
  ultimately show ?thesis using S'(2,3) by blast
qed

lemma transitive_closure:
  "\<exists>S. computeTransitiveClosure R = Some S \<and> ordered S \<and> set S = (set R)\<^sup>+"
proof -
  let ?room = "\<lambda>S. card ((set R)\<^sup>+) - length S"
  have "room_step (closure_inv R) ?room S (closure_pass R S)" if i: "closure_inv R S" for S
  proof -
    obtain S' where S': "closure_pass R S = Some (S' \<noteq> S, S')" "closure_inv R S'" "set S \<subseteq> set S'"
      using closure_pass_law [OF i] by blast
    have "length S' \<le> card ((set R)\<^sup>+)"
      using S'(2) by (simp add: closure_inv_def ordered_length card_mono)
    moreover have "length S < length S'" if "S' \<noteq> S"
      using ordered_grown [of S S'] i S'(2,3) that by (auto simp: closure_inv_def)
    ultimately show ?thesis using S'(1,2) by (auto simp: room_step_def)
  qed
  moreover have "closure_inv R (set_copy R [])" by (auto simp: closure_inv_def ordered_set_copy)
  ultimately obtain S where S: "computeTransitiveClosure R = Some S" "closure_inv R S" "closure_pass R S = Some (False, S)"
    using change_loop_returns [of "closure_inv R" ?room "closure_pass R"] unfolding computeTransitiveClosure_def by blast
  have c: "(a, c) \<in> set S" if "(a, b) \<in> set S" "(b, c) \<in> set R" for a b c
    using closure_pass_law [OF S(2)] S(3) that by auto
  have "(a, b) \<in> set S" if "(a, b) \<in> (set R)\<^sup>+" for a b
    using that
  proof induction
    case (base b)
    then show ?case using S(2) by (auto simp: closure_inv_def)
  qed (use c in blast)
  then show ?thesis using S(1,2) by (auto simp: closure_inv_def)
qed

section \<open>Direct calls\<close>

text \<open>A call in the body of a function may reach a function that has a body too.\<close>

definition may_call :: "llvm_module \<Rightarrow> pts \<Rightarrow> val \<Rightarrow> val \<Rightarrow> bool" where
  "may_call m PS f g \<longleftrightarrow>
     f \<in> set (m_functions m) \<and> \<not> isDeclaration m f \<and> \<not> memoryManStuff m f \<and>
     (\<exists>i \<in> set (insts m f). isCallInst m i \<and> \<not> isInlineAssembly m i \<and> g \<in> set (getCalledFunctions m i PS)) \<and>
     \<not> memoryManStuff m g \<and> \<not> isDeclaration m g"

lemma handleCall_set:
  "set (handleCall m PS f i direct) = set direct \<union>
     {(f, g) |g. \<not> isInlineAssembly m i \<and> g \<in> set (getCalledFunctions m i PS) \<and> \<not> memoryManStuff m g \<and> \<not> isDeclaration m g}"
proof -
  have "set (fold (\<lambda>called direct.
        if \<not> memoryManStuff m called \<and> \<not> isDeclaration m called \<and> \<not> contains direct f called
        then direct @ [(f, called)] else direct) gs direct) =
      set direct \<union> {(f, g) |g. g \<in> set gs \<and> \<not> memoryManStuff m g \<and> \<not> isDeclaration m g}" for gs
    by (induction gs arbitrary: direct) (auto simp: contains_def)
  then show ?thesis by (auto simp: handleCall_def)
qed

lemma directCalls_set: "set (directCalls m PS) = {(f, g). may_call m PS f g}"
proof -
  let ?C = "\<lambda>f i g. isCallInst m i \<and> \<not> isInlineAssembly m i \<and> g \<in> set (getCalledFunctions m i PS) \<and>
    \<not> memoryManStuff m g \<and> \<not> isDeclaration m g"
  have body: "set (fold (\<lambda>i direct. if isCallInst m i then handleCall m PS f i direct else direct) is direct) =
      set direct \<union> {(f, g) |g. \<exists>i \<in> set is. ?C f i g}" for f "is" direct
    by (induction "is" arbitrary: direct) (auto simp: handleCall_set)
  have "set (fold (\<lambda>f direct.
        if \<not> isDeclaration m f \<and> \<not> memoryManStuff m f
        then fold (\<lambda>i direct. if isCallInst m i then handleCall m PS f i direct else direct) (insts m f) direct
        else direct) fs direct) =
      set direct \<union> {(f, g) |f g. f \<in> set fs \<and> \<not> isDeclaration m f \<and> \<not> memoryManStuff m f \<and> (\<exists>i \<in> set (insts m f). ?C f i g)}" for fs direct
    by (induction fs arbitrary: direct) (auto simp: body)
  then show ?thesis by (auto simp: directCalls_def may_call_def)
qed

text \<open>
  C36: The call graph is computed for every module: the calls of a function are exactly the
  functions with a body that a chain of one or more direct calls reaches from it, and the
  callees map is the converse.
\<close>

theorem callgraph_closure:
  "\<exists>cg. Callgraph m PS = Some cg \<and>
     (\<forall>f g. (g \<in> set (calls cg f)) = ((f, g) \<in> {(f, g). may_call m PS f g}\<^sup>+)) \<and>
     (\<forall>f g. (f \<in> set (callees cg g)) = (g \<in> set (calls cg f)))"
proof -
  obtain S where S: "computeTransitiveClosure (sort_key fst (directCalls m PS)) = Some S"
    "set S = {(f, g). may_call m PS f g}\<^sup>+"
    using transitive_closure [of "sort_key fst (directCalls m PS)"] by (auto simp: directCalls_set)
  then show ?thesis
    by (auto simp: Callgraph_def calls_def callees_def Let_def)
qed

end
