(* ===== verification/Modifies.thy ===== *)
theory Modifies
  imports Callgraph
begin

text \<open>
  What a function may modify, itself and through the functions it calls
  (\<open>passes/slicer/Modifies\<close>).  The sets are a function from functions to ordered sets of
  pointees; a missing key is the empty set.

  The result is shown to be exactly the writes of a function and of the functions its calls
  reach, without the instructions of the function itself; the order in which the loop visits
  the closure does not matter.
\<close>

section \<open>The code\<close>

datatype write_type = CMD_UNKNOWN | CMD_VAR | CMD_DREF_VAR

type_synonym write_command = "write_type \<times> val"
type_synonym modifies = "val \<Rightarrow> ptset"

definition store_commands :: "llvm_module \<Rightarrow> val \<Rightarrow> write_command list option" where
  "store_commands m f =
     collect (\<lambda>i. case kind m i of
                StoreInst _ p \<Rightarrow>
                  Option.bind (elimConstExpr m p) (\<lambda>l. Some [(if hasExtraReference m l then CMD_VAR else CMD_DREF_VAR, l)])
              | _ \<Rightarrow> Some []) (insts m f)"

text \<open>The map from functions to their commands, in the order of its keys.\<close>

definition mods_ProgramStructure :: "llvm_module \<Rightarrow> (val \<times> write_command list) list option" where
  "mods_ProgramStructure m =
     map_option (sort_key fst) (collect (\<lambda>f.
       if \<not> isDeclaration m f \<and> \<not> memoryManStuff m f
       then Option.bind (store_commands m f) (\<lambda>cs. Some (if cs = [] then [] else [(f, cs)]))
       else Some []) (m_functions m))"

definition getModSet :: "val \<Rightarrow> modifies \<Rightarrow> ptset" where
  "getModSet f MOD = MOD f"

definition add_write :: "llvm_module \<Rightarrow> pts \<Rightarrow> val \<Rightarrow> write_command \<Rightarrow> modifies \<Rightarrow> modifies" where
  "add_write m PS f c MOD =
     (case fst c of
        CMD_VAR \<Rightarrow>
          if \<not> isLocalToFunction m (snd c) f then MOD(f := set_insert (snd c, - 1) (MOD f)) else MOD
      | CMD_DREF_VAR \<Rightarrow>
          fold (\<lambda>p MOD. if \<not> isLocalToFunction m (fst p) f \<and> \<not> isConstantValue m (fst p)
                        then MOD(f := set_insert p (MOD f)) else MOD) (getPointsToSet (snd c) PS) MOD
      | CMD_UNKNOWN \<Rightarrow> MOD)"

definition add_call :: "llvm_module \<Rightarrow> val \<times> val \<Rightarrow> modifies \<Rightarrow> modifies" where
  "add_call m i MOD =
     (let dst = set_copy (MOD (snd i)) (MOD (fst i))
      in MOD(fst i := filter (\<lambda>p. \<not> isLocalToFunction m (fst p) (fst i)) dst))"

definition computeModifies ::
    "llvm_module \<Rightarrow> (val \<times> write_command list) list \<Rightarrow> callgraph \<Rightarrow> pts \<Rightarrow> modifies \<Rightarrow> modifies" where
  "computeModifies m P CG PS MOD =
     fold (add_call m) (callsMap CG) (fold (\<lambda>(f, cs). fold (add_write m PS f) cs) P MOD)"

section \<open>What is computed\<close>

text \<open>The writes of the commands of a function, as a set.\<close>

definition writes_of :: "llvm_module \<Rightarrow> pts \<Rightarrow> val \<Rightarrow> write_command list \<Rightarrow> pointer set" where
  "writes_of m PS f cs =
     {(v, - 1) |v. (CMD_VAR, v) \<in> set cs \<and> \<not> isLocalToFunction m v f} \<union>
     {p. (\<exists>v. (CMD_DREF_VAR, v) \<in> set cs \<and> p \<in> set (getPointsToSet v PS)) \<and>
         \<not> isLocalToFunction m (fst p) f \<and> \<not> isConstantValue m (fst p)}"

definition own_writes :: "llvm_module \<Rightarrow> pts \<Rightarrow> (val \<times> write_command list) list \<Rightarrow> val \<Rightarrow> pointer set" where
  "own_writes m PS P f = (\<Union>cs \<in> {cs. (f, cs) \<in> set P}. writes_of m PS f cs)"

lemma add_write_set:
  "set (add_write m PS f c MOD g) = set (MOD g) \<union> (if g = f then writes_of m PS f [c] else {})"
proof (cases "fst c")
  case CMD_DREF_VAR
  have "set (fold (\<lambda>p MOD. if \<not> isLocalToFunction m (fst p) f \<and> \<not> isConstantValue m (fst p)
        then MOD(f := set_insert p (MOD f)) else MOD) ps MOD g) =
      set (MOD g) \<union> (if g = f then {p \<in> set ps. \<not> isLocalToFunction m (fst p) f \<and> \<not> isConstantValue m (fst p)} else {})" for ps
    by (induction ps arbitrary: MOD) auto
  then show ?thesis using CMD_DREF_VAR by (cases c) (auto simp: add_write_def writes_of_def)
qed (cases c; auto simp: add_write_def writes_of_def)+

lemma writes_of_Cons: "writes_of m PS f (c # cs) = writes_of m PS f [c] \<union> writes_of m PS f cs"
  by (auto simp: writes_of_def)

lemma add_writes_set:
  "set (fold (add_write m PS f) cs MOD g) = set (MOD g) \<union> (if g = f then writes_of m PS f cs else {})"
proof (induction cs arbitrary: MOD)
  case (Cons c cs)
  then show ?case using writes_of_Cons [of m PS f c cs] by (simp add: add_write_set Un_assoc)
qed (simp add: writes_of_def)

lemma first_loop_set:
  "set (fold (\<lambda>(f, cs). fold (add_write m PS f) cs) P MOD g) = set (MOD g) \<union> own_writes m PS P g"
proof (induction P arbitrary: MOD)
  case (Cons a P)
  obtain f cs where a: "a = (f, cs)" by (cases a)
  have "own_writes m PS (a # P) g = (if g = f then writes_of m PS f cs else {}) \<union> own_writes m PS P g"
    by (auto simp: own_writes_def a)
  then show ?case using Cons by (simp add: a add_writes_set Un_assoc)
qed (simp add: own_writes_def)

lemma own_writes_not_local: "p \<in> own_writes m PS P f \<Longrightarrow> \<not> isLocalToFunction m (fst p) f"
  by (auto simp: own_writes_def writes_of_def)

text \<open>What is known after some of the closure has been visited.\<close>

definition mods_inv ::
    "llvm_module \<Rightarrow> (val \<Rightarrow> pointer set) \<Rightarrow> (val \<times> val) set \<Rightarrow> (val \<times> val) set \<Rightarrow> modifies \<Rightarrow> bool" where
  "mods_inv m own C seen MOD \<longleftrightarrow>
     (\<forall>f. own f \<subseteq> set (MOD f) \<and>
          set (MOD f) \<subseteq> {p. \<not> isLocalToFunction m (fst p) f \<and> (p \<in> own f \<or> (\<exists>h. (f, h) \<in> C \<and> p \<in> own h))} \<and>
          (\<forall>h. (f, h) \<in> seen \<longrightarrow> {p \<in> own h. \<not> isLocalToFunction m (fst p) f} \<subseteq> set (MOD f)))"

lemma mods_inv_step:
  assumes i: "mods_inv m own C seen MOD" and c: "(f, g) \<in> C" "trans C" and nl: "\<forall>p f. p \<in> own f \<longrightarrow> \<not> isLocalToFunction m (fst p) f"
  shows "mods_inv m own C (insert (f, g) seen) (add_call m (f, g) MOD)"
proof -
  let ?M = "add_call m (f, g) MOD"
  have M: "set (?M f) = {p \<in> set (MOD f) \<union> set (MOD g). \<not> isLocalToFunction m (fst p) f}" "\<And>h. h \<noteq> f \<Longrightarrow> ?M h = MOD h"
    by (auto simp: add_call_def Let_def)
  have own: "own h \<subseteq> set (MOD h)"
    and up: "\<And>p. p \<in> set (MOD h) \<Longrightarrow> \<not> isLocalToFunction m (fst p) h \<and> (p \<in> own h \<or> (\<exists>k. (h, k) \<in> C \<and> p \<in> own k))"
    and sn: "\<And>k. (h, k) \<in> seen \<Longrightarrow> {p \<in> own k. \<not> isLocalToFunction m (fst p) h} \<subseteq> set (MOD h)" for h
    using i unfolding mods_inv_def by auto
  have "own h \<subseteq> set (?M h) \<and>
      set (?M h) \<subseteq> {p. \<not> isLocalToFunction m (fst p) h \<and> (p \<in> own h \<or> (\<exists>k. (h, k) \<in> C \<and> p \<in> own k))} \<and>
      (\<forall>k. (h, k) \<in> insert (f, g) seen \<longrightarrow> {p \<in> own k. \<not> isLocalToFunction m (fst p) h} \<subseteq> set (?M h))" for h
  proof (cases "h = f")
    case True
    have "\<exists>k. (f, k) \<in> C \<and> p \<in> own k" if "p \<in> set (MOD g)" for p
      using up [OF that] c transD [OF c(2) c(1)] by blast
    then show ?thesis using own [of f] own [of g] up [of _ f] sn [of f] nl unfolding True M(1) by blast
  next
    case False
    then show ?thesis using own [of h] up [of _ h] sn [of h] by (auto simp: M(2))
  qed
  then show ?thesis unfolding mods_inv_def by blast
qed

lemma mods_inv_loop:
  assumes "mods_inv m own C seen MOD" "set cs \<subseteq> C" "trans C" "\<forall>p f. p \<in> own f \<longrightarrow> \<not> isLocalToFunction m (fst p) f"
  shows "mods_inv m own C (seen \<union> set cs) (fold (add_call m) cs MOD)"
  using assms(1,2)
proof (induction cs arbitrary: seen MOD)
  case (Cons c cs)
  obtain f g where c: "c = (f, g)" by (cases c)
  have "mods_inv m own C (insert (f, g) seen) (add_call m (f, g) MOD)"
    using mods_inv_step Cons.prems assms(3,4) c by simp
  then show ?case using Cons.IH [of "insert (f, g) seen"] Cons.prems(2) c by simp
qed simp

lemma computeModifies_closed:
  assumes "trans (set (callsMap CG))"
  shows "(p \<in> set (getModSet f (computeModifies m P CG PS (\<lambda>_. [])))) =
    (\<not> isLocalToFunction m (fst p) f \<and>
     (p \<in> own_writes m PS P f \<or> (\<exists>g. (f, g) \<in> set (callsMap CG) \<and> p \<in> own_writes m PS P g)))"
proof -
  let ?own = "own_writes m PS P"
  have "mods_inv m ?own (set (callsMap CG)) {} (fold (\<lambda>(f, cs). fold (add_write m PS f) cs) P (\<lambda>_. []))"
    using own_writes_not_local [of _ m PS P] by (auto simp: mods_inv_def first_loop_set)
  from mods_inv_loop [OF this order_refl assms] have
    "mods_inv m ?own (set (callsMap CG)) (set (callsMap CG)) (computeModifies m P CG PS (\<lambda>_. []))"
    using own_writes_not_local [of _ m PS P] by (simp add: computeModifies_def)
  then show ?thesis
    using own_writes_not_local [of p m PS P f] unfolding mods_inv_def getModSet_def by blast
qed

text \<open>
  C37: With the call graph of the module, a place is in the set of a function exactly when it is
  not an instruction of that function and is written by the function or by one that its calls
  reach.  Writes to instructions of the writing function and to constants do not count.
\<close>

theorem computeModifies_exact:
  "\<exists>CG. Callgraph m PS = Some CG \<and>
     (\<forall>f p. (p \<in> set (getModSet f (computeModifies m P CG PS (\<lambda>_. [])))) =
        (\<not> isLocalToFunction m (fst p) f \<and>
         (p \<in> own_writes m PS P f \<or> (\<exists>g. (f, g) \<in> {(f, g). may_call m PS f g}\<^sup>+ \<and> p \<in> own_writes m PS P g))))"
proof -
  obtain S where S: "computeTransitiveClosure (sort_key fst (directCalls m PS)) = Some S"
    "set S = {(f, g). may_call m PS f g}\<^sup>+"
    using transitive_closure [of "sort_key fst (directCalls m PS)"] by (auto simp: directCalls_set)
  then obtain CG where CG: "Callgraph m PS = Some CG" "set (callsMap CG) = {(f, g). may_call m PS f g}\<^sup>+"
    by (simp add: Callgraph_def Let_def)
  show ?thesis
    using CG computeModifies_closed [of CG _ _ m P PS] by (intro exI [of _ CG]) (simp add: trans_trancl)
qed

end
