(* ===== verification/Ins_Info.thy ===== *)
theory Ins_Info
  imports Modifies
begin

text \<open>
  What an instruction defines and refers to (\<open>InsInfo\<close> in
  \<open>passes/slicer/Slicing/FunctionStaticSlicer.cpp\<close>).  A \<open>SmallSetVector\<close> is the list of its
  elements in the order of insertion.  None is a failed assertion or an access to an argument
  that is not there; a message on the error stream is left out.
\<close>

record ins_info =
  RC :: "pointer list"
  DEF :: "pointer list"
  REF :: "pointer list"
  sliced :: bool

definition sv_insert :: "'a \<Rightarrow> 'a list \<Rightarrow> 'a list" where
  "sv_insert x xs = (if x \<in> set xs then xs else xs @ [x])"

definition sv_inserts :: "'a list \<Rightarrow> 'a list \<Rightarrow> 'a list" where
  "sv_inserts xs ys = fold sv_insert xs ys"

definition getSizeOfMem :: "llvm_module \<Rightarrow> val \<Rightarrow> nat option" where
  "getSizeOfMem m v =
     (case kind m v of
        ConstantInt i \<Rightarrow>
          (case getType m v of IntegerTy w \<Rightarrow> Some (nat (min (i mod 2 ^ w) (2 ^ 64 - 1))) | _ \<Rightarrow> None)
      | ConstantPointerNull \<Rightarrow> Some 0
      | OtherConstant isNull \<Rightarrow> if isNull then Some 0 else None
      | ConstantExpr _ _ \<Rightarrow> None | UndefValue \<Rightarrow> None | Function _ _ _ \<Rightarrow> None | GlobalVariable _ _ \<Rightarrow> None
      | _ \<Rightarrow> Some 64)"

text \<open>The places \<open>addDEFArray\<close> and \<open>addREFArray\<close> add.\<close>

definition array_places :: "llvm_module \<Rightarrow> pts \<Rightarrow> val \<Rightarrow> nat \<Rightarrow> pointer list" where
  "array_places m PS v len =
     (if isPointerValue m v
      then concat (map (\<lambda>p. map (\<lambda>i. (fst p, int_of (word_of_int (snd p) + of_nat i))) [0..<len]) (getPointsToSet v PS))
      else [])"

text \<open>The elements added to DEF and to REF, in this order.\<close>

type_synonym effects = "pointer list \<times> pointer list"

definition ref_unless_constant :: "llvm_module \<Rightarrow> val \<Rightarrow> pointer list" where
  "ref_unless_constant m v = (if isConstantValue m v then [] else [(v, - 1)])"

definition handleVariousFuns :: "llvm_module \<Rightarrow> pts \<Rightarrow> val list \<Rightarrow> val \<Rightarrow> effects option" where
  "handleVariousFuns m PS args f =
     (case kind m f of
        Function name _ _ \<Rightarrow>
          if name = ''klee_make_symbolic''
          then (case args of
                  a0 # a1 # _ \<Rightarrow>
                    Option.bind (elimConstExpr m a0) (\<lambda>l. Option.bind (elimConstExpr m a1) (\<lambda>len.
                    Option.bind (getSizeOfMem m len) (\<lambda>lenConst.
                      Some (array_places m PS l lenConst, (l, - 1) # ref_unless_constant m len))))
                | _ \<Rightarrow> None)
          else Some ([], [])
      | _ \<Rightarrow> Some ([], []))"

definition load_effects :: "llvm_module \<Rightarrow> pts \<Rightarrow> val \<Rightarrow> val \<Rightarrow> effects option" where
  "load_effects m PS i p =
     Option.bind (elimConstExpr m p) (\<lambda>op.
       Some ([(i, - 1)],
             case kind m op of
               ConstantPointerNull \<Rightarrow> []
             | ConstantInt _ \<Rightarrow> []
             | _ \<Rightarrow> (op, - 1) # (if hasExtraReference m op then [(op, 0)] else getPointsToSet op PS)))"

definition store_effects :: "llvm_module \<Rightarrow> pts \<Rightarrow> val \<Rightarrow> val \<Rightarrow> effects option" where
  "store_effects m PS v p =
     Option.bind (elimConstExpr m p) (\<lambda>l.
       case kind m l of
         ConstantPointerNull \<Rightarrow> Some ([], [])
       | ConstantInt _ \<Rightarrow> Some ([], [])
       | _ \<Rightarrow>
           Option.bind (elimConstExpr m v) (\<lambda>r.
             Some (if hasExtraReference m l then [(l, 0)] else getPointsToSet l PS,
                   (case getType m l of IntegerTy _ \<Rightarrow> [] | _ \<Rightarrow> [(l, - 1)]) @
                   (if \<not> hasExtraReference m r \<and> \<not> isConstantValue m r then [(r, - 1)] else []))))"

definition call_effects :: "llvm_module \<Rightarrow> pts \<Rightarrow> modifies \<Rightarrow> val \<Rightarrow> val \<Rightarrow> val list \<Rightarrow> effects option" where
  "call_effects m PS MOD i cv args =
     (if isInlineAssembly m i then Some ([], [])
      else if isMemoryAllocation m cv
      then (case args of a0 # _ \<Rightarrow> Some ([(i, - 1)], ref_unless_constant m a0) | _ \<Rightarrow> None)
      else if isMemoryDeallocation m cv then Some ([], [])
      else if isMemoryCopy m cv \<or> isMemoryMove m cv \<or> isMemorySet m cv
      then (case args of
              a0 # a1 # a2 # _ \<Rightarrow>
                Option.bind (elimConstExpr m a2) (\<lambda>len. Option.bind (getSizeOfMem m len) (\<lambda>lenConst.
                Option.bind (elimConstExpr m a0) (\<lambda>l. Option.bind (elimConstExpr m a1) (\<lambda>r.
                  Some (array_places m PS l lenConst,
                        (l, - 1) # (if isMemoryCopy m cv \<or> isMemoryMove m cv then array_places m PS r lenConst else []) @
                        (r, - 1) # ref_unless_constant m len)))))
            | _ \<Rightarrow> None)
      else Option.bind (if isFunction m cv then handleVariousFuns m PS args cv else Some ([], [(cv, - 1)])) (\<lambda>(d, r).
             Some (d @ concat (map (\<lambda>f. getModSet f MOD) (getCalledFunctions m i PS)) @
                   (if callToVoidFunction m i then [] else [(i, - 1)]), r)))"

definition ins_effects :: "llvm_module \<Rightarrow> pts \<Rightarrow> modifies \<Rightarrow> val \<Rightarrow> effects option" where
  "ins_effects m PS MOD i =
     (case kind m i of
        LoadInst p \<Rightarrow> load_effects m PS i p
      | StoreInst v p \<Rightarrow> store_effects m PS v p
      | GetElementPtrInst p steps \<Rightarrow>
          Some ([(i, - 1)], (p, - 1) # concat (map (\<lambda>(op, _). ref_unless_constant m op) steps))
      | CallInst cv args \<Rightarrow> call_effects m PS MOD i cv args
      | ReturnInst _ \<Rightarrow> Some ([], [])
      | BinaryOperator a b \<Rightarrow> Some ([(i, - 1)], ref_unless_constant m a @ ref_unless_constant m b)
      | BitCastInst a \<Rightarrow> Some ([(i, - 1)], if hasExtraReference m a then [] else [(a, - 1)])
      | IntToPtrInst a \<Rightarrow> Some ([(i, - 1)], if hasExtraReference m a then [] else [(a, - 1)])
      | OtherCastInst a \<Rightarrow> Some ([(i, - 1)], if hasExtraReference m a then [] else [(a, - 1)])
      | AllocaInst _ n _ \<Rightarrow> Some ([(i, - 1)], ref_unless_constant m n)
      | CmpInst a b \<Rightarrow> Some ([(i, - 1)], ref_unless_constant m a @ ref_unless_constant m b)
      | BranchInst c \<Rightarrow> Some ([], case c of Some v \<Rightarrow> ref_unless_constant m v | None \<Rightarrow> [])
      | PHINode vs \<Rightarrow> Some ([(i, - 1)], concat (map (ref_unless_constant m) vs))
      | SwitchInst c \<Rightarrow> Some ([], ref_unless_constant m c)
      | SelectInst c t f \<Rightarrow> Some ([(i, - 1)], ref_unless_constant m c @ ref_unless_constant m t @ ref_unless_constant m f)
      | UnreachableInst \<Rightarrow> Some ([], [])
      | ExtractValueInst a \<Rightarrow> Some ([(i, - 1)], [(a, - 1)])
      | InsertValueInst a r \<Rightarrow> Some ([(a, - 1)], ref_unless_constant m r)
      | _ \<Rightarrow> Some ([], []))"

definition InsInfo :: "llvm_module \<Rightarrow> pts \<Rightarrow> modifies \<Rightarrow> val \<Rightarrow> ins_info option" where
  "InsInfo m PS MOD i =
     map_option (\<lambda>(d, r). \<lparr>RC = [], DEF = sv_inserts d [], REF = sv_inserts r [], sliced = True\<rparr>) (ins_effects m PS MOD i)"

section \<open>Lemmas\<close>

lemma set_sv_insert [simp]: "set (sv_insert x xs) = insert x (set xs)"
  by (auto simp: sv_insert_def)

lemma distinct_sv_insert: "distinct xs \<Longrightarrow> distinct (sv_insert x xs)"
  by (simp add: sv_insert_def)

lemma set_sv_inserts [simp]: "set (sv_inserts xs ys) = set xs \<union> set ys"
  unfolding sv_inserts_def by (induction xs arbitrary: ys) auto

lemma distinct_sv_inserts: "distinct ys \<Longrightarrow> distinct (sv_inserts xs ys)"
  unfolding sv_inserts_def by (induction xs arbitrary: ys) (auto intro: distinct_sv_insert)

lemma sv_inserts_subset: "set xs \<subseteq> set ys \<Longrightarrow> sv_inserts xs ys = ys"
  unfolding sv_inserts_def by (induction xs) (simp_all add: sv_insert_def)

lemma sv_inserts_length: "length ys \<le> length (sv_inserts xs ys)"
proof (induction xs arbitrary: ys)
  case (Cons x xs)
  have "length ys \<le> length (sv_insert x ys)" by (simp add: sv_insert_def)
  also have "\<dots> \<le> length (sv_inserts xs (sv_insert x ys))" by (rule Cons)
  finally show ?case by (simp add: sv_inserts_def)
qed (simp add: sv_inserts_def)

lemma sv_inserts_grown: "length (sv_inserts xs ys) = length ys \<longleftrightarrow> set xs \<subseteq> set ys"
proof -
  have "length ys < length (sv_inserts xs ys)" if "\<not> set xs \<subseteq> set ys"
    using that
  proof (induction xs arbitrary: ys)
    case (Cons x xs)
    show ?case
    proof (cases "x \<in> set ys")
      case True
      then show ?thesis using Cons by (simp add: sv_inserts_def sv_insert_def)
    next
      case False
      then show ?thesis using sv_inserts_length [of "ys @ [x]" xs] by (simp add: sv_inserts_def sv_insert_def)
    qed
  qed simp
  then show ?thesis using sv_inserts_subset [of xs ys] by force
qed

end
