(* ===== verification/Postdom.thy ===== *)
theory Postdom
  imports Llvm_Ir
begin

text \<open>
  Post-dominance frontiers (\<open>passes/slicer/Slicing/PostDominanceFrontier.cpp\<close>), as the slicer
  computes them where LLVM has no class for them.

  A node of LLVM's post-dominator tree is its block, none for the virtual exit, and the nodes it
  immediately dominates.  \<open>getIDom()\<close> of a node is the node among whose children it is, and a node
  properly dominates what is below it.  The blocks that precede a block are a parameter, a block is
  its number, and the map of the frontiers is the list of its entries, the sets ordered.
\<close>

section \<open>The code\<close>

datatype dom_node = DomNode "nat option" "dom_node list"

fun getBlock :: "dom_node \<Rightarrow> nat option" where
  "getBlock (DomNode b _) = b"

fun node_blocks :: "dom_node \<Rightarrow> nat list" where
  "node_blocks (DomNode b cs) = (case b of Some k \<Rightarrow> [k] | None \<Rightarrow> []) @ concat (map node_blocks cs)"

fun properlyDominates :: "dom_node \<Rightarrow> nat \<Rightarrow> bool" where
  "properlyDominates (DomNode _ cs) p = list_ex (\<lambda>c. p \<in> set (node_blocks c)) cs"

definition df_local :: "dom_node \<Rightarrow> (nat \<Rightarrow> nat list) \<Rightarrow> nat option \<Rightarrow> dom_node list \<Rightarrow> nat list" where
  "df_local DT preds b cs =
     (case b of
        None \<Rightarrow> []
      | Some k \<Rightarrow> fold (\<lambda>p S. if p \<in> set (node_blocks DT) \<and> Some p \<notin> getBlock ` set cs then set_insert p S else S) (preds k) [])"

fun calculate :: "dom_node \<Rightarrow> (nat \<Rightarrow> nat list) \<Rightarrow> nat list \<Rightarrow> dom_node \<Rightarrow> nat list \<times> (nat option \<times> nat list) list" where
  "calculate DT preds Roots (DomNode b cs) =
     (if Roots = [] then ([], [(b, [])])
      else let rs = map (calculate DT preds Roots) cs;
               S = fold (\<lambda>(ChildDF, _). fold (\<lambda>p S. if properlyDominates (DomNode b cs) p then S else set_insert p S) ChildDF)
                     rs (df_local DT preds b cs)
           in (S, (b, S) # concat (map snd rs)))"

text \<open>The run of the pass, with the frontiers by the number of a block.\<close>

definition frontiers :: "dom_node option \<Rightarrow> (nat \<Rightarrow> nat list) \<Rightarrow> nat list \<Rightarrow> nat \<Rightarrow> nat list option" where
  "frontiers root preds Roots k =
     (case root of None \<Rightarrow> None | Some DT \<Rightarrow> map_of (snd (calculate DT preds Roots DT)) (Some k))"

section \<open>What the frontiers are\<close>

fun subtrees :: "dom_node \<Rightarrow> dom_node set" where
  "subtrees (DomNode b cs) = insert (DomNode b cs) (\<Union>c \<in> set cs. subtrees c)"

fun node_keys :: "dom_node \<Rightarrow> nat option list" where
  "node_keys (DomNode b cs) = b # concat (map node_keys cs)"

text \<open>
  A post-dominator tree: the nodes have different blocks, and the immediate post-dominator of a
  block post-dominates every successor of the block.
\<close>

fun children :: "dom_node \<Rightarrow> dom_node list" where
  "children (DomNode _ cs) = cs"

definition postdom_tree :: "dom_node \<Rightarrow> (nat \<Rightarrow> nat list) \<Rightarrow> bool" where
  "postdom_tree DT preds \<longleftrightarrow>
     distinct (node_keys DT) \<and>
     (\<forall>n \<in> subtrees DT. \<forall>c \<in> set (children n). \<forall>p s. getBlock c = Some p \<longrightarrow> s \<in> set (node_blocks DT) \<longrightarrow>
        p \<in> set (preds s) \<longrightarrow> s \<in> set (node_blocks n))"

lemma set_fold_insert:
  "set (fold (\<lambda>p S. if Q p then set_insert p S else S) ps S) = set S \<union> {p \<in> set ps. Q p}"
  by (induction ps arbitrary: S) (auto simp: set_set_insert)

lemma blocks_keys: "k \<in> set (node_blocks n) \<longleftrightarrow> Some k \<in> set (node_keys n)"
  by (induction n) (auto split: option.splits)

lemma subtrees_self [simp]: "n \<in> subtrees n"
  by (cases n) simp

lemma subtrees_trans: "m \<in> subtrees n \<Longrightarrow> k \<in> subtrees m \<Longrightarrow> k \<in> subtrees n"
  by (induction n) auto

lemma subtrees_child: "c \<in> set (children n) \<Longrightarrow> c \<in> subtrees n"
  using subtrees_self [of c] by (cases n) (simp del: subtrees_self, blast)

lemma subtrees_keys: "m \<in> subtrees n \<Longrightarrow> set (node_keys m) \<subseteq> set (node_keys n)"
  by (induction n) auto

lemma subtrees_blocks: "m \<in> subtrees n \<Longrightarrow> set (node_blocks m) \<subseteq> set (node_blocks n)"
  using subtrees_keys [of m n] by (auto simp: blocks_keys)

lemma subtrees_distinct: "m \<in> subtrees n \<Longrightarrow> distinct (node_keys n) \<Longrightarrow> distinct (node_keys m)"
  by (induction n) (auto simp: distinct_concat_iff)

lemma getBlock_in: "getBlock n = Some k \<Longrightarrow> k \<in> set (node_blocks n)"
  by (cases n) simp

lemma below_iff: "properlyDominates n p \<longleftrightarrow> (\<exists>c \<in> set (children n). p \<in> set (node_blocks c))"
  by (cases n) (simp add: list_ex_iff)

text \<open>What is below a node and not a child of it has its parent below the node.\<close>

lemma parent_below:
  "properlyDominates n p \<Longrightarrow> Some p \<in> getBlock ` set (children n) \<or>
     (\<exists>c \<in> set (children n). \<exists>m \<in> subtrees c. Some p \<in> getBlock ` set (children m))"
proof (induction n)
  case (DomNode b cs)
  obtain c where c: "c \<in> set cs" "p \<in> set (node_blocks c)" using DomNode.prems by (auto simp: list_ex_iff)
  have "getBlock c = Some p \<or> properlyDominates c p"
    using c(2) by (cases c) (auto simp: list_ex_iff split: option.splits)
  then show ?case
  proof
    assume "getBlock c = Some p"
    then show ?thesis using c(1) by force
  next
    assume "properlyDominates c p"
    from DomNode.IH [OF c(1) this] obtain m where "m \<in> subtrees c" "Some p \<in> getBlock ` set (children m)"
      using subtrees_self subtrees_trans [OF subtrees_child] by blast
    then show ?thesis using c(1) by auto
  qed
qed

definition frontier_of :: "dom_node \<Rightarrow> (nat \<Rightarrow> nat list) \<Rightarrow> dom_node \<Rightarrow> nat set" where
  "frontier_of DT preds n =
     {p \<in> set (node_blocks DT). (\<exists>s \<in> set (node_blocks n). p \<in> set (preds s)) \<and> \<not> properlyDominates n p}"

lemma df_local_iff:
  "p \<in> set (df_local DT preds b cs) \<longleftrightarrow>
     (\<exists>k. b = Some k \<and> p \<in> set (preds k) \<and> p \<in> set (node_blocks DT) \<and> Some p \<notin> getBlock ` set cs)"
  unfolding df_local_def by (cases b) (auto simp: set_fold_insert)

lemma local_not_below:
  assumes t: "postdom_tree DT preds" and n: "DomNode (Some k) cs \<in> subtrees DT"
    and p: "p \<in> set (preds k)" "Some p \<notin> getBlock ` set cs"
  shows "\<not> properlyDominates (DomNode (Some k) cs) p"
proof
  assume "properlyDominates (DomNode (Some k) cs) p"
  then obtain c m d where c: "c \<in> set cs" "m \<in> subtrees c" "d \<in> set (children m)" "getBlock d = Some p"
    using parent_below [of "DomNode (Some k) cs" p] p(2) by auto
  have "m \<in> subtrees (DomNode (Some k) cs)" using c(1,2) by auto
  then have m: "m \<in> subtrees DT" using subtrees_trans [OF n] by blast
  have "k \<in> set (node_blocks DT)" using subtrees_blocks [OF n] by auto
  then have "k \<in> set (node_blocks m)" using t m c(3,4) p(1) unfolding postdom_tree_def by blast
  then have "Some k \<in> set (node_keys c)" using subtrees_keys [OF c(2)] by (auto simp: blocks_keys)
  moreover have "distinct (node_keys (DomNode (Some k) cs))" using t subtrees_distinct [OF n] by (simp add: postdom_tree_def)
  ultimately show False using c(1) by auto
qed

lemma set_fold_children:
  "set (fold (\<lambda>(ChildDF, _). fold (\<lambda>p S. if D p then S else set_insert p S) ChildDF) rs S) =
     set S \<union> {p. \<exists>r \<in> set rs. p \<in> set (fst r) \<and> \<not> D p}"
proof (induction rs arbitrary: S)
  case (Cons r rs)
  have "set (fold (\<lambda>p S. if D p then S else set_insert p S) ps S) = set S \<union> {p \<in> set ps. \<not> D p}" for ps S
    by (induction ps arbitrary: S) auto
  then show ?case using Cons by (auto simp: case_prod_beta)
qed simp

lemma calculate_frontier:
  assumes t: "postdom_tree DT preds" and "Roots \<noteq> []" "n \<in> subtrees DT"
  shows "set (fst (calculate DT preds Roots n)) = frontier_of DT preds n"
  using assms(3)
proof (induction n)
  case (DomNode b cs)
  let ?n = "DomNode b cs"
  have IH: "set (fst (calculate DT preds Roots c)) = frontier_of DT preds c" if "c \<in> set cs" for c
    using DomNode.IH [OF that] subtrees_trans [OF DomNode.prems] subtrees_child [of c ?n] that by simp
  have "set (fst (calculate DT preds Roots ?n)) =
      set (df_local DT preds b cs) \<union> {p. \<exists>c \<in> set cs. p \<in> frontier_of DT preds c \<and> \<not> properlyDominates ?n p}"
    using assms(2) IH by (auto simp: Let_def set_fold_children simp del: properlyDominates.simps)
  also have "\<dots> = frontier_of DT preds ?n"
  proof (intro set_eqI iffI)
    fix p
    assume "p \<in> set (df_local DT preds b cs) \<union> {p. \<exists>c \<in> set cs. p \<in> frontier_of DT preds c \<and> \<not> properlyDominates ?n p}"
    then show "p \<in> frontier_of DT preds ?n"
      using local_not_below [OF t, of _ cs p] DomNode.prems
      by (auto simp: df_local_iff frontier_of_def simp del: properlyDominates.simps split: option.splits)
  next
    fix p
    assume p: "p \<in> frontier_of DT preds ?n"
    then obtain s where s: "s \<in> set (node_blocks ?n)" "p \<in> set (preds s)" "p \<in> set (node_blocks DT)" "\<not> properlyDominates ?n p"
      by (auto simp: frontier_of_def simp del: properlyDominates.simps node_blocks.simps)
    have nb: "p \<notin> set (node_blocks c)" if "c \<in> set cs" for c using s(4) that by (auto simp: below_iff)
    have "Some p \<notin> getBlock ` set cs"
    proof
      assume "Some p \<in> getBlock ` set cs"
      then obtain c where "c \<in> set cs" "getBlock c = Some p" by auto
      then show False using nb [of c] getBlock_in by blast
    qed
    moreover have "\<not> properlyDominates c p" if "c \<in> set cs" for c
      using nb [OF that] subtrees_blocks [OF subtrees_child] by (auto simp: below_iff)
    ultimately show "p \<in> set (df_local DT preds b cs) \<union> {p. \<exists>c \<in> set cs. p \<in> frontier_of DT preds c \<and> \<not> properlyDominates ?n p}"
      using s by (auto simp: df_local_iff frontier_of_def simp del: properlyDominates.simps split: option.splits)
  qed
  finally show ?case .
qed

lemma calculate_keys: "Roots \<noteq> [] \<Longrightarrow> map fst (snd (calculate DT preds Roots n)) = node_keys n"
  by (induction n) (simp add: Let_def map_concat comp_def cong: map_cong)

lemma calculate_entry:
  "Roots \<noteq> [] \<Longrightarrow> m \<in> subtrees n \<Longrightarrow> (getBlock m, fst (calculate DT preds Roots m)) \<in> set (snd (calculate DT preds Roots n))"
proof (induction n)
  case (DomNode b cs)
  show ?case
  proof (cases "m = DomNode b cs")
    case True
    then show ?thesis using DomNode.prems by (simp add: Let_def)
  next
    case False
    then obtain c where "c \<in> set cs" "m \<in> subtrees c" using DomNode.prems by auto
    then show ?thesis using DomNode by (auto simp: Let_def)
  qed
qed

lemma frontiers_node:
  assumes "postdom_tree DT preds" "Roots \<noteq> []" "n \<in> subtrees DT" "getBlock n = Some k"
  shows "frontiers (Some DT) preds Roots k = Some (fst (calculate DT preds Roots n))"
proof -
  have "distinct (map fst (snd (calculate DT preds Roots DT)))"
    using assms(1,2) by (simp add: calculate_keys postdom_tree_def)
  then show ?thesis
    using map_of_is_SomeI [OF _ calculate_entry [OF assms(2,3)]] assms(4) by (simp add: frontiers_def)
qed

text \<open>
  C40: The frontier the pass stores for a block, in the code for LLVM before version 4, is its
  control dependence: exactly the blocks of the
  tree with a successor that the block post-dominates, while it does not properly post-dominate
  the block itself.
\<close>

theorem frontiers_exact:
  assumes "postdom_tree DT preds" "Roots \<noteq> []" "n \<in> subtrees DT" "getBlock n = Some k"
  shows "\<exists>fr. frontiers (Some DT) preds Roots k = Some fr \<and>
           set fr = {p \<in> set (node_blocks DT). (\<exists>s \<in> set (node_blocks n). p \<in> set (preds s)) \<and> \<not> properlyDominates n p}"
  using frontiers_node [OF assms] calculate_frontier [OF assms(1-3)] by (simp add: frontier_of_def)

text \<open>A diamond inside a conditional: 0 branches to 1 and 4, 1 to 2 and 3, which meet in 4.\<close>

definition demo_tree :: dom_node where
  "demo_tree = DomNode (Some 4) [DomNode (Some 0) [], DomNode (Some 1) [], DomNode (Some 2) [], DomNode (Some 3) []]"

definition demo_preds :: "nat \<Rightarrow> nat list" where
  "demo_preds k = (if k = 1 then [0] else if k = 2 \<or> k = 3 then [1] else if k = 4 then [0, 2, 3] else [])"

theorem frontiers_exact_witness:
  "\<exists>fr. frontiers (Some demo_tree) demo_preds [4] 2 = Some fr \<and> set fr = {1}"
proof -
  have "postdom_tree demo_tree demo_preds"
    by (auto simp: postdom_tree_def demo_tree_def demo_preds_def)
  moreover have "DomNode (Some 2) [] \<in> subtrees demo_tree" by (simp add: demo_tree_def)
  ultimately show ?thesis
    using frontiers_exact [of demo_tree demo_preds "[4]" "DomNode (Some 2) []" 2]
    by (auto simp: demo_tree_def demo_preds_def)
qed

end
