(* ===== verification/Function_Slicer.thy ===== *)
theory Function_Slicer
  imports Ins_Info Postdom
begin

text \<open>
  Slicing of one function (\<open>FunctionStaticSlicer\<close> in
  \<open>passes/slicer/Slicing/FunctionStaticSlicer.cpp\<close>), after Weiser: the relevant variables RC of
  every instruction, the instructions of the slice, and the branches they depend on.

  The state is the map from instructions to their \<open>InsInfo\<close>.  A function is the list of its basic
  blocks; the post-dominance frontiers of the blocks, which \<open>PostDominanceFrontier\<close> or a class of
  LLVM computes, are a parameter, the frontier of a block by its number.  None is a loop that does not return.
\<close>

declare split_paired_All [simp del] split_paired_Ex [simp del]

section \<open>The code\<close>

type_synonym slicer = "val \<Rightarrow> ins_info"

definition all_insts :: "bblock list \<Rightarrow> val list" where
  "all_insts bs = concat (map bb_insts bs)"

fun block_pairs :: "bblock list \<Rightarrow> val list \<Rightarrow> nat list \<Rightarrow> (val \<times> val list) list" where
  "block_pairs bs [] ss = []"
| "block_pairs bs [i] ss = [(i, map (\<lambda>k. hd (bb_insts (bs ! k))) ss)]"
| "block_pairs bs (i # j # is) ss = (i, [j]) # block_pairs bs (j # is) ss"

definition getSuccList :: "bblock list \<Rightarrow> val \<Rightarrow> val list" where
  "getSuccList bs i =
     (case map_of (concat (map (\<lambda>b. block_pairs bs (bb_insts b) (bb_succs b)) bs)) i of Some js \<Rightarrow> js | None \<Rightarrow> [])"

definition meets :: "pointer list \<Rightarrow> pointer list \<Rightarrow> bool" where
  "meets xs ys = list_ex (\<lambda>x. x \<in> set ys) xs"

definition computeRCi :: "val \<times> val \<Rightarrow> slicer \<Rightarrow> (bool \<times> slicer) option" where
  "computeRCi e st =
     (let ii = st (fst e); RCj = RC (st (snd e));
          new = filter (\<lambda>v. v \<notin> set (DEF ii)) RCj @ (if meets (DEF ii) RCj then REF ii else []);
          rc = sv_inserts new (RC ii)
      in Some (length rc \<noteq> length (RC ii), st(fst e := ii\<lparr>RC := rc\<rparr>)))"

text \<open>The instructions with their successors, from the last instruction to the first.\<close>

definition rc_edges :: "bblock list \<Rightarrow> (val \<times> val) list" where
  "rc_edges bs = concat (map (\<lambda>i. map (Pair i) (getSuccList bs i)) (rev (all_insts bs)))"

definition computeRC :: "bblock list \<Rightarrow> slicer \<Rightarrow> slicer option" where
  "computeRC bs st = change_loop (apply_all computeRCi (rc_edges bs)) st"

definition deslice :: "val \<Rightarrow> slicer \<Rightarrow> slicer" where
  "deslice i st = st(i := (st i)\<lparr>sliced := False\<rparr>)"

definition computeSCi :: "val \<Rightarrow> val \<Rightarrow> slicer \<Rightarrow> slicer" where
  "computeSCi i j st = (if meets (DEF (st i)) (RC (st j)) then deslice i st else st)"

definition computeSC :: "bblock list \<Rightarrow> slicer \<Rightarrow> slicer" where
  "computeSC bs st = fold (\<lambda>i st. fold (computeSCi i) (getSuccList bs i) st) (all_insts bs) st"

definition terminator :: "bblock list \<Rightarrow> nat \<Rightarrow> val" where
  "terminator bs k = last (bb_insts (bs ! k))"

definition updateRCSC :: "bblock list \<Rightarrow> nat list \<Rightarrow> bool \<times> slicer \<Rightarrow> bool \<times> slicer" where
  "updateRCSC bs frontier cs =
     fold (\<lambda>k (changed, st).
       let i = terminator bs k; st = deslice i st; rc = sv_inserts (REF (st i)) (RC (st i))
       in (changed \<or> length rc \<noteq> length (RC (st i)), st(i := (st i)\<lparr>RC := rc\<rparr>))) frontier cs"

text \<open>The instructions with the number of their block, in order.\<close>

definition placed_insts :: "bblock list \<Rightarrow> (nat \<times> val) list" where
  "placed_insts bs = concat (map (\<lambda>k. map (Pair k) (bb_insts (bs ! k))) [0..<length bs])"

definition computeBC :: "bblock list \<Rightarrow> (nat \<Rightarrow> nat list option) \<Rightarrow> slicer \<Rightarrow> bool \<times> slicer" where
  "computeBC bs pdf st =
     fold (\<lambda>(k, i) (changed, st).
       if sliced (st i) then (changed, st)
       else case pdf k of None \<Rightarrow> (changed, st) | Some frontier \<Rightarrow> updateRCSC bs frontier (changed, st))
     (placed_insts bs) (False, st)"

definition calculateStaticSlice :: "bblock list \<Rightarrow> (nat \<Rightarrow> nat list option) \<Rightarrow> slicer \<Rightarrow> slicer option" where
  "calculateStaticSlice bs pdf st =
     change_loop (\<lambda>st. Option.bind (computeRC bs st) (\<lambda>st. Some (computeBC bs pdf (computeSC bs st)))) st"

definition canSlice :: "llvm_module \<Rightarrow> val \<Rightarrow> bool" where
  "canSlice m i =
     (case kind m i of
        AllocaInst _ _ _ \<Rightarrow> False | ReturnInst _ \<Rightarrow> False | UnreachableInst \<Rightarrow> False
      | BranchInst _ \<Rightarrow> False | SwitchInst _ \<Rightarrow> False | _ \<Rightarrow> True)"

definition removed :: "llvm_module \<Rightarrow> slicer \<Rightarrow> val \<Rightarrow> bool" where
  "removed m st i \<longleftrightarrow> sliced (st i) \<and> canSlice m i"

text \<open>The operands of a value, and the value with other operands.\<close>

definition operands :: "vkind \<Rightarrow> val list" where
  "operands k =
     (case k of
        GlobalVariable _ (Some v) \<Rightarrow> [v] | ConstantExpr _ vs \<Rightarrow> vs | AllocaInst _ n _ \<Rightarrow> [n] | LoadInst p \<Rightarrow> [p]
      | StoreInst v p \<Rightarrow> [v, p] | BitCastInst v \<Rightarrow> [v] | IntToPtrInst v \<Rightarrow> [v] | OtherCastInst v \<Rightarrow> [v]
      | GetElementPtrInst p steps \<Rightarrow> p # map fst steps | CallInst cv args \<Rightarrow> cv # args | PHINode vs \<Rightarrow> vs
      | ExtractValueInst a \<Rightarrow> [a] | InsertValueInst a v \<Rightarrow> [a, v] | SelectInst c t f \<Rightarrow> [c, t, f]
      | ReturnInst (Some v) \<Rightarrow> [v] | BinaryOperator a b \<Rightarrow> [a, b] | CmpInst a b \<Rightarrow> [a, b]
      | BranchInst (Some c) \<Rightarrow> [c] | SwitchInst c \<Rightarrow> [c] | _ \<Rightarrow> [])"

definition with_operands :: "(val \<Rightarrow> val) \<Rightarrow> vkind \<Rightarrow> vkind" where
  "with_operands h k =
     (case k of
        GlobalVariable n v \<Rightarrow> GlobalVariable n (map_option h v) | ConstantExpr opc vs \<Rightarrow> ConstantExpr opc (map h vs)
      | AllocaInst t n b \<Rightarrow> AllocaInst t (h n) b | LoadInst p \<Rightarrow> LoadInst (h p) | StoreInst v p \<Rightarrow> StoreInst (h v) (h p)
      | BitCastInst v \<Rightarrow> BitCastInst (h v) | IntToPtrInst v \<Rightarrow> IntToPtrInst (h v) | OtherCastInst v \<Rightarrow> OtherCastInst (h v)
      | GetElementPtrInst p steps \<Rightarrow> GetElementPtrInst (h p) (map (\<lambda>(v, t). (h v, t)) steps)
      | CallInst cv args \<Rightarrow> CallInst (h cv) (map h args) | PHINode vs \<Rightarrow> PHINode (map h vs)
      | ExtractValueInst a \<Rightarrow> ExtractValueInst (h a) | InsertValueInst a v \<Rightarrow> InsertValueInst (h a) (h v)
      | SelectInst c t f \<Rightarrow> SelectInst (h c) (h t) (h f) | ReturnInst v \<Rightarrow> ReturnInst (map_option h v)
      | BinaryOperator a b \<Rightarrow> BinaryOperator (h a) (h b) | CmpInst a b \<Rightarrow> CmpInst (h a) (h b)
      | BranchInst c \<Rightarrow> BranchInst (map_option h c) | SwitchInst c \<Rightarrow> SwitchInst (h c) | _ \<Rightarrow> k)"

definition replaceAllUsesWith :: "val \<Rightarrow> val \<Rightarrow> llvm_module \<Rightarrow> llvm_module" where
  "replaceAllUsesWith i u m = m\<lparr>kind := \<lambda>v. with_operands (\<lambda>x. if x = i then u else x) (kind m v)\<rparr>"

definition eraseFromParent :: "val \<Rightarrow> llvm_module \<Rightarrow> llvm_module" where
  "eraseFromParent i m =
     m\<lparr>fun_blocks := \<lambda>f. map (\<lambda>b. b\<lparr>bb_insts := filter (\<lambda>j. j \<noteq> i) (bb_insts b)\<rparr>) (fun_blocks m f)\<rparr>"

text \<open>The undefined value of a type (\<open>UndefValue::get\<close>) is a parameter.\<close>

definition slice_function :: "(ty \<Rightarrow> val) \<Rightarrow> slicer \<Rightarrow> val \<Rightarrow> llvm_module \<Rightarrow> bool \<times> llvm_module" where
  "slice_function undef st f m =
     fold (\<lambda>i (rem, m).
       if sliced (st i) \<and> canSlice m i
       then (True, eraseFromParent i (replaceAllUsesWith i (undef (getType m i)) m)) else (rem, m))
     (insts m f) (False, m)"

section \<open>The equations\<close>

definition edges :: "bblock list \<Rightarrow> (val \<times> val) set" where
  "edges bs = set (rc_edges bs)"

definition cfg_wf :: "bblock list \<Rightarrow> (nat \<Rightarrow> nat list option) \<Rightarrow> bool" where
  "cfg_wf bs pdf \<longleftrightarrow>
     (\<forall>b \<in> set bs. bb_insts b \<noteq> [] \<and> (\<forall>k \<in> set (bb_succs b). k < length bs)) \<and>
     (\<forall>k < length bs. \<forall>fr. pdf k = Some fr \<longrightarrow> (\<forall>q \<in> set fr. q < length bs))"

text \<open>What an edge of the control flow demands: relevance flows backwards, and what defines something relevant stays.\<close>

definition edge_closed :: "slicer \<Rightarrow> val \<times> val \<Rightarrow> bool" where
  "edge_closed st e \<longleftrightarrow>
     set (RC (st (snd e))) - set (DEF (st (fst e))) \<subseteq> set (RC (st (fst e))) \<and>
     (set (DEF (st (fst e))) \<inter> set (RC (st (snd e))) \<noteq> {} \<longrightarrow>
        set (REF (st (fst e))) \<subseteq> set (RC (st (fst e))) \<and> \<not> sliced (st (fst e)))"

text \<open>An instruction that stays for its data, and the branches it depends on.\<close>

definition needed :: "bblock list \<Rightarrow> slicer \<Rightarrow> val \<Rightarrow> bool" where
  "needed bs st i \<longleftrightarrow> (\<exists>j. (i, j) \<in> edges bs \<and> set (DEF (st i)) \<inter> set (RC (st j)) \<noteq> {})"

definition branch_kept :: "bblock list \<Rightarrow> slicer \<Rightarrow> nat \<Rightarrow> bool" where
  "branch_kept bs st k \<longleftrightarrow>
     \<not> sliced (st (terminator bs k)) \<and> set (REF (st (terminator bs k))) \<subseteq> set (RC (st (terminator bs k)))"

definition branches_kept :: "bblock list \<Rightarrow> (nat \<Rightarrow> nat list option) \<Rightarrow> slicer \<Rightarrow> val \<Rightarrow> bool" where
  "branches_kept bs pdf st i \<longleftrightarrow>
     (\<forall>k fr q. (k, i) \<in> set (placed_insts bs) \<longrightarrow> pdf k = Some fr \<longrightarrow> q \<in> set fr \<longrightarrow> branch_kept bs st q)"

section \<open>The loops\<close>

lemma placed_iff: "(k, i) \<in> set (placed_insts bs) \<longleftrightarrow> k < length bs \<and> i \<in> set (bb_insts (bs ! k))"
  by (auto simp: placed_insts_def)

lemma insts_iff: "i \<in> set (all_insts bs) \<longleftrightarrow> (\<exists>k. (k, i) \<in> set (placed_insts bs))"
proof -
  have "i \<in> set (all_insts bs) \<longleftrightarrow> (\<exists>b \<in> set bs. i \<in> set (bb_insts b))" by (simp add: all_insts_def)
  also have "\<dots> \<longleftrightarrow> (\<exists>k < length bs. i \<in> set (bb_insts (bs ! k)))" by (metis in_set_conv_nth)
  finally show ?thesis by (simp add: placed_iff)
qed

lemma block_pairs_succ:
  "(i, js) \<in> set (block_pairs bs is ss) \<Longrightarrow> i \<in> set is \<and> (\<forall>j \<in> set js. j \<in> set is \<or> (\<exists>k \<in> set ss. j = hd (bb_insts (bs ! k))))"
  by (induction bs "is" ss rule: block_pairs.induct) auto

lemma edges_insts:
  assumes "cfg_wf bs pdf" "(i, j) \<in> edges bs"
  shows "i \<in> set (all_insts bs)" "j \<in> set (all_insts bs)"
proof -
  show i: "i \<in> set (all_insts bs)" using assms(2) by (auto simp: edges_def rc_edges_def)
  have "j \<in> set (getSuccList bs i)" using assms(2) by (auto simp: edges_def rc_edges_def)
  then obtain js where js: "map_of (concat (map (\<lambda>b. block_pairs bs (bb_insts b) (bb_succs b)) bs)) i = Some js" "j \<in> set js"
    by (cases "map_of (concat (map (\<lambda>b. block_pairs bs (bb_insts b) (bb_succs b)) bs)) i") (simp_all add: getSuccList_def)
  then obtain b where b: "b \<in> set bs" "(i, js) \<in> set (block_pairs bs (bb_insts b) (bb_succs b))"
    using map_of_SomeD [OF js(1)] by auto
  from block_pairs_succ [OF b(2)] js(2) have "j \<in> set (bb_insts b) \<or> (\<exists>k \<in> set (bb_succs b). j = hd (bb_insts (bs ! k)))" by blast
  moreover have "hd (bb_insts (bs ! k)) \<in> set (all_insts bs)" if "k \<in> set (bb_succs b)" for k
  proof -
    have "k < length bs" using that b(1) assms(1) unfolding cfg_wf_def by blast
    then have k: "bs ! k \<in> set bs" by simp
    then have "bb_insts (bs ! k) \<noteq> []" using assms(1) unfolding cfg_wf_def by blast
    then show ?thesis using k unfolding all_insts_def by (auto intro: hd_in_set)
  qed
  ultimately show "j \<in> set (all_insts bs)" using b(1) by (auto simp: all_insts_def)
qed

lemma terminator_inst: "cfg_wf bs pdf \<Longrightarrow> k < length bs \<Longrightarrow> terminator bs k \<in> set (all_insts bs)"
proof -
  assume "cfg_wf bs pdf" and k: "k < length bs"
  then have "bb_insts (bs ! k) \<noteq> []" unfolding cfg_wf_def using nth_mem by blast
  then show ?thesis using k by (auto simp: terminator_def insts_iff placed_iff)
qed

lemma meets_iff: "meets xs ys \<longleftrightarrow> set xs \<inter> set ys \<noteq> {}"
  by (auto simp: meets_def list_ex_iff)

text \<open>The states a slicer reaches from a first one, with all variables from a finite set.\<close>

definition sl_ok :: "val set \<Rightarrow> pointer set \<Rightarrow> slicer \<Rightarrow> slicer \<Rightarrow> bool" where
  "sl_ok I U st0 st \<longleftrightarrow> finite U \<and> finite I \<and>
     (\<forall>i. distinct (RC (st i)) \<and> set (RC (st0 i)) \<subseteq> set (RC (st i)) \<and> DEF (st i) = DEF (st0 i) \<and>
          REF (st i) = REF (st0 i) \<and> (sliced (st i) \<longrightarrow> sliced (st0 i))) \<and>
     (\<forall>i \<in> I. set (RC (st i)) \<subseteq> U \<and> set (REF (st0 i)) \<subseteq> U)"

definition sl_room :: "val set \<Rightarrow> pointer set \<Rightarrow> slicer \<Rightarrow> nat" where
  "sl_room I U st = (\<Sum>i \<in> I. card U - length (RC (st i)))"

lemma sl_okD:
  assumes "sl_ok I U st0 st"
  shows "distinct (RC (st i))" "i \<in> I \<Longrightarrow> set (RC (st i)) \<subseteq> U" "i \<in> I \<Longrightarrow> set (REF (st i)) \<subseteq> U"
    "DEF (st i) = DEF (st0 i)" "REF (st i) = REF (st0 i)" "finite I" "finite U"
    "set (RC (st0 i)) \<subseteq> set (RC (st i))" "sliced (st i) \<Longrightarrow> sliced (st0 i)"
  using assms by (simp_all add: sl_ok_def)

lemma sl_ok_insert:
  assumes "sl_ok I U st0 st" "i \<in> I" "set new \<subseteq> U"
  shows "sl_ok I U st0 (st(i := (st i)\<lparr>RC := sv_inserts new (RC (st i))\<rparr>))"
  using assms unfolding sl_ok_def by (simp add: distinct_sv_inserts) blast

lemma sl_room_insert:
  assumes ok: "sl_ok I U st0 st" and i: "i \<in> I" and new: "set new \<subseteq> U"
  shows "sl_room I U (st(i := (st i)\<lparr>RC := sv_inserts new (RC (st i))\<rparr>)) \<le> sl_room I U st"
    "length (sv_inserts new (RC (st i))) \<noteq> length (RC (st i)) \<Longrightarrow>
     sl_room I U (st(i := (st i)\<lparr>RC := sv_inserts new (RC (st i))\<rparr>)) < sl_room I U st"
proof -
  let ?st = "st(i := (st i)\<lparr>RC := sv_inserts new (RC (st i))\<rparr>)"
  have fin: "finite I" "finite U" using ok by (simp_all add: sl_ok_def)
  have le: "card U - length (RC (?st j)) \<le> card U - length (RC (st j))" for j
    using sv_inserts_length [of "RC (st i)" new] by (simp add: diff_le_mono2)
  show "sl_room I U ?st \<le> sl_room I U st" unfolding sl_room_def by (intro sum_mono le)
  assume ch: "length (sv_inserts new (RC (st i))) \<noteq> length (RC (st i))"
  have "distinct (sv_inserts new (RC (st i)))" "set (sv_inserts new (RC (st i))) \<subseteq> U"
    using ok i new unfolding sl_ok_def by (simp_all add: distinct_sv_inserts)
  then have "length (sv_inserts new (RC (st i))) \<le> card U"
    using fin(2) by (metis card_mono distinct_card)
  then have "card U - length (RC (?st i)) < card U - length (RC (st i))"
    using ch sv_inserts_length [of "RC (st i)" new] by simp
  then show "sl_room I U ?st < sl_room I U st"
    unfolding sl_room_def using i le fin(1) by (intro sum_strict_mono_ex1) auto
qed

lemma computeRCi_law:
  assumes ok: "sl_ok I U st0 st" and e: "fst e \<in> I" "snd e \<in> I"
  shows "\<exists>c st'. computeRCi e st = Some (c, st') \<and> sl_ok I U st0 st' \<and> (if c then sl_room I U st' < sl_room I U st else st' = st) \<and>
           (\<forall>i. sliced (st' i) = sliced (st i))"
proof -
  define ii j where "ii = st (fst e)" and "j = RC (st (snd e))"
  define new where "new = filter (\<lambda>v. v \<notin> set (DEF ii)) j @ (if meets (DEF ii) j then REF ii else [])"
  define st' where "st' = st(fst e := ii\<lparr>RC := sv_inserts new (RC ii)\<rparr>)"
  have r: "computeRCi e st = Some (length (sv_inserts new (RC ii)) \<noteq> length (RC ii), st')"
    by (simp add: computeRCi_def Let_def ii_def j_def new_def st'_def)
  have "set new \<subseteq> set j \<union> set (REF ii)" by (auto simp: new_def)
  then have new: "set new \<subseteq> U"
    using sl_okD(2) [OF ok e(2)] sl_okD(3) [OF ok e(1)] unfolding ii_def j_def by blast
  have same: "st' = st" if "length (sv_inserts new (RC ii)) = length (RC ii)"
  proof -
    have "sv_inserts new (RC ii) = RC ii" using that sv_inserts_subset [of new] by (simp add: sv_inserts_grown)
    then show ?thesis by (simp add: st'_def ii_def)
  qed
  have "sl_ok I U st0 st'" using sl_ok_insert [OF ok e(1) new] by (simp add: st'_def ii_def)
  moreover have "sl_room I U st' < sl_room I U st" if "length (sv_inserts new (RC ii)) \<noteq> length (RC ii)"
    using sl_room_insert(2) [OF ok e(1) new] that by (simp add: st'_def ii_def)
  moreover have "\<forall>i. sliced (st' i) = sliced (st i)" by (simp add: st'_def ii_def)
  ultimately show ?thesis unfolding r using same by auto
qed

interpretation rcl: inflationary computeRCi "{e. fst e \<in> I \<and> snd e \<in> I}" "sl_ok I U st0" "sl_room I U"
  for I U st0
proof unfold_locales
  fix e st
  assume "e \<in> {e. fst e \<in> I \<and> snd e \<in> I}" "sl_ok I U st0 st"
  then show "room_step (sl_ok I U st0) (sl_room I U) st (computeRCi e st)"
    using computeRCi_law [of I U st0 st e] unfolding room_step_def by fastforce
qed


text \<open>The order the states move up in.\<close>

definition sl_le :: "slicer \<Rightarrow> slicer \<Rightarrow> bool" where
  "sl_le st st' \<longleftrightarrow>
     (\<forall>i. set (RC (st i)) \<subseteq> set (RC (st' i)) \<and> DEF (st' i) = DEF (st i) \<and> REF (st' i) = REF (st i) \<and>
          (sliced (st' i) \<longrightarrow> sliced (st i)))"

lemma sl_le_refl [simp]: "sl_le st st"
  by (simp add: sl_le_def)

lemma sl_le_trans: "sl_le a b \<Longrightarrow> sl_le b c \<Longrightarrow> sl_le a c"
  unfolding sl_le_def by (metis order_trans)

lemma sl_ok_le: "sl_ok I U st0 st \<Longrightarrow> sl_le st0 st"
  by (simp add: sl_ok_def sl_le_def)

lemma branch_kept_mono: "branch_kept bs st k \<Longrightarrow> sl_le st st' \<Longrightarrow> branch_kept bs st' k"
  unfolding branch_kept_def sl_le_def by (metis order_trans)

lemma computeRCi_stable:
  assumes "computeRCi e st = Some (False, st)"
  shows "set (RC (st (snd e))) - set (DEF (st (fst e))) \<subseteq> set (RC (st (fst e)))"
    "set (DEF (st (fst e))) \<inter> set (RC (st (snd e))) \<noteq> {} \<Longrightarrow> set (REF (st (fst e))) \<subseteq> set (RC (st (fst e)))"
proof -
  define new where "new = filter (\<lambda>v. v \<notin> set (DEF (st (fst e)))) (RC (st (snd e))) @
    (if meets (DEF (st (fst e))) (RC (st (snd e))) then REF (st (fst e)) else [])"
  have "length (sv_inserts new (RC (st (fst e)))) = length (RC (st (fst e)))"
    using assms by (simp add: computeRCi_def Let_def new_def)
  then have n: "set new \<subseteq> set (RC (st (fst e)))" by (simp add: sv_inserts_grown)
  have "set (RC (st (snd e))) - set (DEF (st (fst e))) \<subseteq> set new" by (auto simp: new_def)
  then show "set (RC (st (snd e))) - set (DEF (st (fst e))) \<subseteq> set (RC (st (fst e)))" using n by blast
  assume "set (DEF (st (fst e))) \<inter> set (RC (st (snd e))) \<noteq> {}"
  then have "set (REF (st (fst e))) \<subseteq> set new" by (simp add: new_def meets_iff)
  then show "set (REF (st (fst e))) \<subseteq> set (RC (st (fst e)))" using n by blast
qed

lemma computeRC_law:
  assumes wf: "cfg_wf bs pdf" and ok: "sl_ok (set (all_insts bs)) U st0 st"
  shows "\<exists>st'. computeRC bs st = Some st' \<and> sl_ok (set (all_insts bs)) U st0 st' \<and>
           sl_room (set (all_insts bs)) U st' \<le> sl_room (set (all_insts bs)) U st \<and>
           (\<forall>i. sliced (st' i) = sliced (st i)) \<and> (\<forall>e \<in> edges bs. computeRCi e st' = Some (False, st'))"
proof -
  let ?I = "set (all_insts bs)"
  have sub: "set (rc_edges bs) \<subseteq> {e. fst e \<in> ?I \<and> snd e \<in> ?I}"
    using edges_insts [OF wf] unfolding edges_def by (auto split: prod.splits)
  obtain st' where st': "computeRC bs st = Some st'" "sl_ok ?I U st0 st'" "\<forall>e \<in> edges bs. computeRCi e st' = Some (False, st')"
    using rcl.loop_stable [OF sub ok] by (auto simp: computeRC_def edges_def)
  let ?Q = "\<lambda>t. sl_ok ?I U st0 t \<and> sl_room ?I U t \<le> sl_room ?I U st \<and> (\<forall>i. sliced (t i) = sliced (st i))"
  have "?Q st'"
    using st'(1) [unfolded computeRC_def]
  proof (rule loop_inv [where Q = ?Q])
    fix e t c t'
    assume e: "e \<in> set (rc_edges bs)" and q: "?Q t" and c: "computeRCi e t = Some (c, t')"
    have i: "fst e \<in> ?I" "snd e \<in> ?I" using sub e by auto
    show "?Q t'" using computeRCi_law [OF conjunct1 [OF q] i] q c by (auto split: if_splits)
  qed (use ok in simp)
  then show ?thesis using st' by blast
qed

text \<open>The pass that keeps the instructions whose definitions are relevant.\<close>

definition same_sets :: "slicer \<Rightarrow> slicer \<Rightarrow> bool" where
  "same_sets st st' \<longleftrightarrow>
     (\<forall>i. RC (st' i) = RC (st i) \<and> DEF (st' i) = DEF (st i) \<and> REF (st' i) = REF (st i) \<and> (sliced (st' i) \<longrightarrow> sliced (st i)))"

lemma same_sets_trans: "same_sets a b \<Longrightarrow> same_sets b c \<Longrightarrow> same_sets a c"
  by (simp add: same_sets_def)

lemma computeSCi_law:
  "same_sets st (computeSCi i j st)" "meets (DEF (st i)) (RC (st j)) \<Longrightarrow> \<not> sliced (computeSCi i j st i)"
  by (simp_all add: computeSCi_def deslice_def same_sets_def)

lemma computeSC_edges:
  "computeSC bs st = fold (\<lambda>e. computeSCi (fst e) (snd e)) (concat (map (\<lambda>i. map (Pair i) (getSuccList bs i)) (all_insts bs))) st"
proof -
  have "fold (\<lambda>i st. fold (computeSCi i) (getSuccList bs i) st) is st =
      fold (\<lambda>e. computeSCi (fst e) (snd e)) (concat (map (\<lambda>i. map (Pair i) (getSuccList bs i)) is)) st" for "is"
    by (induction "is" arbitrary: st) (simp_all add: fold_map comp_def)
  then show ?thesis by (simp add: computeSC_def)
qed

lemma computeSC_law:
  "same_sets st (computeSC bs st)"
  "e \<in> edges bs \<Longrightarrow> meets (DEF (st (fst e))) (RC (st (snd e))) \<Longrightarrow> \<not> sliced (computeSC bs st (fst e))"
proof -
  have f: "same_sets st (fold (\<lambda>e. computeSCi (fst e) (snd e)) es st) \<and>
      (\<forall>e \<in> set es. meets (DEF (st (fst e))) (RC (st (snd e))) \<longrightarrow>
         \<not> sliced (fold (\<lambda>e. computeSCi (fst e) (snd e)) es st (fst e)))" for es
  proof (induction es arbitrary: st)
    case (Cons e es)
    let ?st = "computeSCi (fst e) (snd e) st"
    have s: "same_sets st ?st" "same_sets ?st (fold (\<lambda>e. computeSCi (fst e) (snd e)) es ?st)"
      using computeSCi_law(1) Cons.IH [of ?st] by auto
    have m: "meets (DEF (?st i)) (RC (?st j)) = meets (DEF (st i)) (RC (st j))" for i j
      using s(1) by (simp add: same_sets_def)
    have "\<not> sliced (fold (\<lambda>e. computeSCi (fst e) (snd e)) es ?st (fst e))" if "meets (DEF (st (fst e))) (RC (st (snd e)))"
      using computeSCi_law(2) [OF that] s(2) unfolding same_sets_def by blast
    then show ?case using same_sets_trans [OF s] Cons.IH [of ?st] m by simp
  qed (simp add: same_sets_def)
  have "edges bs = set (concat (map (\<lambda>i. map (Pair i) (getSuccList bs i)) (all_insts bs)))"
    by (simp add: edges_def rc_edges_def)
  then show "same_sets st (computeSC bs st)"
    "e \<in> edges bs \<Longrightarrow> meets (DEF (st (fst e))) (RC (st (snd e))) \<Longrightarrow> \<not> sliced (computeSC bs st (fst e))"
    using f by (simp_all add: computeSC_edges)
qed

text \<open>The pass that keeps the branches.\<close>

definition bc_adv :: "val set \<Rightarrow> pointer set \<Rightarrow> slicer \<Rightarrow> slicer \<Rightarrow> bool \<times> slicer \<Rightarrow> bool" where
  "bc_adv I U st0 base cs \<longleftrightarrow>
     sl_ok I U st0 (snd cs) \<and> sl_le base (snd cs) \<and> sl_room I U (snd cs) \<le> sl_room I U base \<and>
     (fst cs \<longrightarrow> sl_room I U (snd cs) < sl_room I U base) \<and> (\<not> fst cs \<longrightarrow> (\<forall>i. RC (snd cs i) = RC (base i)))"

definition keep_branch :: "bblock list \<Rightarrow> nat \<Rightarrow> bool \<times> slicer \<Rightarrow> bool \<times> slicer" where
  "keep_branch bs k cs =
     (let i = terminator bs k; st = deslice i (snd cs); rc = sv_inserts (REF (st i)) (RC (st i))
      in (fst cs \<or> length rc \<noteq> length (RC (st i)), st(i := (st i)\<lparr>RC := rc\<rparr>)))"

lemma updateRCSC_fold: "updateRCSC bs fr cs = fold (keep_branch bs) fr cs"
  unfolding updateRCSC_def keep_branch_def by (simp add: case_prod_beta')

lemma keep_branch_law:
  assumes adv: "bc_adv I U st0 base cs" and k: "terminator bs k \<in> I"
  shows "bc_adv I U st0 base (keep_branch bs k cs)" "sl_le (snd cs) (snd (keep_branch bs k cs))"
    "branch_kept bs (snd (keep_branch bs k cs)) k"
proof -
  define i st where "i = terminator bs k" and "st = deslice i (snd cs)"
  define rc where "rc = sv_inserts (REF (st i)) (RC (st i))"
  have kb: "keep_branch bs k cs = (fst cs \<or> length rc \<noteq> length (RC (st i)), st(i := (st i)\<lparr>RC := rc\<rparr>))"
    by (simp add: keep_branch_def i_def st_def rc_def Let_def)
  have c: "sl_ok I U st0 (snd cs)" "sl_le base (snd cs)" using adv by (simp_all add: bc_adv_def)
  have ok: "sl_ok I U st0 st" using c(1) by (simp add: sl_ok_def st_def deslice_def)
  have rm: "sl_room I U st = sl_room I U (snd cs)"
    unfolding sl_room_def by (intro sum.cong) (simp_all add: st_def deslice_def)
  have iI: "i \<in> I" using k by (simp add: i_def)
  note new = sl_okD(3) [OF ok iI]
  have le: "sl_le (snd cs) (st(i := (st i)\<lparr>RC := rc\<rparr>))"
    by (auto simp: sl_le_def st_def deslice_def rc_def)
  then show "sl_le (snd cs) (snd (keep_branch bs k cs))" by (simp add: kb)
  have "sl_ok I U st0 (st(i := (st i)\<lparr>RC := rc\<rparr>))"
    using sl_ok_insert [OF ok iI new] by (simp add: rc_def)
  moreover have "sl_room I U (st(i := (st i)\<lparr>RC := rc\<rparr>)) \<le> sl_room I U (snd cs)"
    using sl_room_insert(1) [OF ok iI new] by (simp add: rc_def rm)
  moreover have "sl_room I U (st(i := (st i)\<lparr>RC := rc\<rparr>)) < sl_room I U (snd cs)" if "length rc \<noteq> length (RC (st i))"
    using sl_room_insert(2) [OF ok iI new] that by (simp add: rc_def rm)
  moreover have "rc = RC (st i)" if "length rc = length (RC (st i))"
    using that sv_inserts_subset [of "REF (st i)"] by (simp add: rc_def sv_inserts_grown)
  moreover have "RC (st j) = RC (snd cs j)" for j by (simp add: st_def deslice_def)
  ultimately show "bc_adv I U st0 base (keep_branch bs k cs)"
    using adv sl_le_trans [OF c(2) le] by (auto simp: bc_adv_def kb)
  show "branch_kept bs (snd (keep_branch bs k cs)) k"
    by (simp add: branch_kept_def kb i_def [symmetric] rc_def) (simp add: st_def deslice_def)
qed

lemma updateRCSC_law:
  assumes "bc_adv I U st0 base cs" "\<forall>k \<in> set fr. terminator bs k \<in> I"
  shows "bc_adv I U st0 base (updateRCSC bs fr cs) \<and> sl_le (snd cs) (snd (updateRCSC bs fr cs)) \<and>
           (\<forall>k \<in> set fr. branch_kept bs (snd (updateRCSC bs fr cs)) k)"
  using assms unfolding updateRCSC_fold
proof (induction fr arbitrary: cs)
  case (Cons k fr)
  let ?cs = "keep_branch bs k cs"
  have k: "bc_adv I U st0 base ?cs" "sl_le (snd cs) (snd ?cs)" "branch_kept bs (snd ?cs) k"
    using keep_branch_law [OF Cons.prems(1)] Cons.prems(2) by simp_all
  have IH: "bc_adv I U st0 base (fold (keep_branch bs) fr ?cs)" "sl_le (snd ?cs) (snd (fold (keep_branch bs) fr ?cs))"
    "\<forall>k \<in> set fr. branch_kept bs (snd (fold (keep_branch bs) fr ?cs)) k"
    using Cons.IH [OF k(1)] Cons.prems(2) by auto
  then show ?case using sl_le_trans [OF k(2) IH(2)] branch_kept_mono [OF k(3) IH(2)] by simp
qed simp

lemma computeBC_law:
  assumes wf: "cfg_wf bs pdf" and ok: "sl_ok (set (all_insts bs)) U st0 st"
  shows "bc_adv (set (all_insts bs)) U st0 st (computeBC bs pdf st) \<and>
           (\<forall>i. \<not> sliced (st i) \<longrightarrow> branches_kept bs pdf (snd (computeBC bs pdf st)) i)"
proof -
  let ?I = "set (all_insts bs)"
  define step where "step = (\<lambda>(k, i) (changed, st).
       if sliced (st i) then (changed, st)
       else case pdf k of None \<Rightarrow> (changed, st) | Some frontier \<Rightarrow> updateRCSC bs frontier (changed, st))"
  have st: "bc_adv ?I U st0 st (step p cs) \<and> sl_le (snd cs) (snd (step p cs)) \<and>
      (\<forall>fr q. \<not> sliced (st (snd p)) \<longrightarrow> pdf (fst p) = Some fr \<longrightarrow> q \<in> set fr \<longrightarrow> branch_kept bs (snd (step p cs)) q)"
    if a: "bc_adv ?I U st0 st cs" and p: "p \<in> set (placed_insts bs)" for p cs
  proof -
    obtain k i c t where pc: "p = (k, i)" "cs = (c, t)" by (cases p; cases cs)
    have sl: "sliced (t i) \<longrightarrow> sliced (st i)" using a pc by (simp add: bc_adv_def sl_le_def)
    have "terminator bs q \<in> ?I" if "pdf k = Some fr" "q \<in> set fr" for fr q
      using p pc that wf terminator_inst [OF wf] by (auto simp: placed_iff cfg_wf_def)
    then show ?thesis
      using updateRCSC_law [OF a] a sl pc by (auto simp: step_def split: option.splits)
  qed
  have "set ps \<subseteq> set (placed_insts bs) \<Longrightarrow> bc_adv ?I U st0 st cs \<Longrightarrow>
      bc_adv ?I U st0 st (fold step ps cs) \<and> sl_le (snd cs) (snd (fold step ps cs)) \<and>
      (\<forall>p \<in> set ps. \<forall>fr q. \<not> sliced (st (snd p)) \<longrightarrow> pdf (fst p) = Some fr \<longrightarrow> q \<in> set fr \<longrightarrow>
         branch_kept bs (snd (fold step ps cs)) q)" for ps cs
  proof (induction ps arbitrary: cs)
    case (Cons p ps)
    have s: "bc_adv ?I U st0 st (step p cs)" "sl_le (snd cs) (snd (step p cs))"
      "\<forall>fr q. \<not> sliced (st (snd p)) \<longrightarrow> pdf (fst p) = Some fr \<longrightarrow> q \<in> set fr \<longrightarrow> branch_kept bs (snd (step p cs)) q"
      using st [of cs p] Cons.prems by auto
    have IH: "bc_adv ?I U st0 st (fold step ps (step p cs))" "sl_le (snd (step p cs)) (snd (fold step ps (step p cs)))"
      "\<forall>r \<in> set ps. \<forall>fr q. \<not> sliced (st (snd r)) \<longrightarrow> pdf (fst r) = Some fr \<longrightarrow> q \<in> set fr \<longrightarrow>
         branch_kept bs (snd (fold step ps (step p cs))) q"
      using Cons.IH [OF _ s(1)] Cons.prems(1) by auto
    then show ?case using s sl_le_trans [OF s(2) IH(2)] branch_kept_mono [OF _ IH(2)] by simp
  qed simp
  from this [of "placed_insts bs" "(False, st)"] show ?thesis
    using ok unfolding computeBC_def step_def [symmetric] branches_kept_def by (auto simp: bc_adv_def)
qed

lemma same_sets_ok: "sl_ok I U st0 st \<Longrightarrow> same_sets st st' \<Longrightarrow> sl_ok I U st0 st'"
  unfolding sl_ok_def same_sets_def by metis

lemma same_sets_room: "same_sets st st' \<Longrightarrow> sl_room I U st' = sl_room I U st"
  by (simp add: sl_room_def same_sets_def)

lemma slice_pass:
  assumes wf: "cfg_wf bs pdf" and ok: "sl_ok (set (all_insts bs)) U st0 st"
  obtains st1 where "computeRC bs st = Some st1" "bc_adv (set (all_insts bs)) U st0 (computeSC bs st1) (computeBC bs pdf (computeSC bs st1))"
    "sl_room (set (all_insts bs)) U (computeSC bs st1) \<le> sl_room (set (all_insts bs)) U st" "sl_ok (set (all_insts bs)) U st0 st1"
    "\<forall>e \<in> edges bs. computeRCi e st1 = Some (False, st1)"
    "\<forall>i. \<not> sliced (computeSC bs st1 i) \<longrightarrow> branches_kept bs pdf (snd (computeBC bs pdf (computeSC bs st1))) i"
proof -
  obtain st1 where st1: "computeRC bs st = Some st1" "sl_ok (set (all_insts bs)) U st0 st1"
    "sl_room (set (all_insts bs)) U st1 \<le> sl_room (set (all_insts bs)) U st"
    "\<forall>e \<in> edges bs. computeRCi e st1 = Some (False, st1)"
    using computeRC_law [OF wf ok] by blast
  note same = computeSC_law(1) [of st1 bs]
  show thesis
    using that [OF st1(1)] computeBC_law [OF wf same_sets_ok [OF st1(2) same]] st1(2-4) same_sets_room [OF same] by simp
qed

lemma last_pass_closed:
  assumes e: "e \<in> edges bs" and stable: "computeRCi e st1 = Some (False, st1)"
    and adv: "bc_adv I U st0 (computeSC bs st1) (False, st')"
  shows "edge_closed st' e" "set (DEF (st' (fst e))) \<inter> set (RC (st' (snd e))) \<noteq> {} \<Longrightarrow> \<not> sliced (computeSC bs st1 (fst e))"
proof -
  have same: "RC (st' i) = RC (st1 i)" "DEF (st' i) = DEF (st1 i)" "REF (st' i) = REF (st1 i)" for i
    using adv computeSC_law(1) [of st1 bs] by (simp_all add: bc_adv_def sl_le_def same_sets_def)
  show kept: "set (DEF (st' (fst e))) \<inter> set (RC (st' (snd e))) \<noteq> {} \<Longrightarrow> \<not> sliced (computeSC bs st1 (fst e))"
    using computeSC_law(2) [OF e, of st1] by (simp add: same meets_iff)
  moreover have "sliced (st' i) \<longrightarrow> sliced (computeSC bs st1 i)" for i
    using adv by (simp add: bc_adv_def sl_le_def)
  ultimately show "edge_closed st' e"
    using computeRCi_stable [OF stable] unfolding edge_closed_def same by blast
qed

section \<open>The slice of a function\<close>

lemma slice_exists_in:
  assumes wf: "cfg_wf bs pdf" and ok: "sl_ok (set (all_insts bs)) U st st"
  shows "\<exists>st'. calculateStaticSlice bs pdf st = Some st' \<and> sl_ok (set (all_insts bs)) U st st' \<and> (\<forall>e \<in> edges bs. edge_closed st' e) \<and>
           (\<forall>i. needed bs st' i \<or> \<not> sliced (st i) \<longrightarrow> branches_kept bs pdf st' i)"
proof -
  let ?I = "set (all_insts bs)"
  define pass where "pass = (\<lambda>st. Option.bind (computeRC bs st) (\<lambda>st. Some (computeBC bs pdf (computeSC bs st))))"
  have "\<exists>c s'. pass s = Some (c, s') \<and> sl_ok ?I U st s' \<and> (c \<longrightarrow> sl_room ?I U s' < sl_room ?I U s)" if s: "sl_ok ?I U st s" for s
  proof -
    obtain s1 where "computeRC bs s = Some s1" "bc_adv ?I U st (computeSC bs s1) (computeBC bs pdf (computeSC bs s1))"
      "sl_room ?I U (computeSC bs s1) \<le> sl_room ?I U s"
      by (rule slice_pass [OF wf s])
    then show ?thesis by (cases "computeBC bs pdf (computeSC bs s1)") (auto simp: pass_def bc_adv_def)
  qed
  from change_loop_last [where ok = "sl_ok ?I U st" and room = "sl_room ?I U", OF this ok]
  obtain t st' where st': "change_loop pass st = Some st'" "sl_ok ?I U st st'" "sl_ok ?I U st t" "pass t = Some (False, st')"
    by blast
  obtain s1 where s1: "computeRC bs t = Some s1" "bc_adv ?I U st (computeSC bs s1) (computeBC bs pdf (computeSC bs s1))"
    "sl_ok ?I U st s1" "\<forall>e \<in> edges bs. computeRCi e s1 = Some (False, s1)"
    "\<forall>i. \<not> sliced (computeSC bs s1 i) \<longrightarrow> branches_kept bs pdf (snd (computeBC bs pdf (computeSC bs s1))) i"
    by (rule slice_pass [OF wf st'(3)])
  have bc: "computeBC bs pdf (computeSC bs s1) = (False, st')" using st'(4) s1(1) by (simp add: pass_def)
  note closed = last_pass_closed [OF _ bspec [OF s1(4)] s1(2) [unfolded bc]]
  have "\<not> sliced (computeSC bs s1 i)" if "needed bs st' i \<or> \<not> sliced (st i)" for i
    using that sl_okD(9) [OF same_sets_ok [OF s1(3) computeSC_law(1)]] closed(2) unfolding needed_def by fastforce
  then show ?thesis
    using st'(1,2) closed(1) s1(5) bc unfolding calculateStaticSlice_def pass_def by fastforce
qed

lemma slice_exists:
  assumes wf: "cfg_wf bs pdf" and d: "\<forall>i. distinct (RC (st i))"
  shows "\<exists>st'. calculateStaticSlice bs pdf st = Some st' \<and> sl_le st st' \<and> (\<forall>e \<in> edges bs. edge_closed st' e) \<and>
           (\<forall>i. needed bs st' i \<or> \<not> sliced (st i) \<longrightarrow> branches_kept bs pdf st' i)"
proof -
  have "sl_ok (set (all_insts bs)) (\<Union>i \<in> set (all_insts bs). set (RC (st i)) \<union> set (REF (st i))) st st"
    using d unfolding sl_ok_def by auto
  from slice_exists_in [OF wf this] show ?thesis using sl_ok_le by blast
qed

text \<open>
  C20: The slicer of a function returns, whatever the control flow graph: on its result relevance is
  closed along every edge, an instruction that defines something relevant after it stays with
  everything it reads relevant, the branches that the instructions kept for their data or by the
  criterion depend on stay with their conditions relevant, and nothing the slicer was given is lost.
\<close>

theorem slice_solution:
  assumes wf: "cfg_wf bs pdf" and d: "\<forall>i. distinct (RC (st i))"
  shows "\<exists>st'. calculateStaticSlice bs pdf st = Some st' \<and> sl_le st st' \<and> (\<forall>e \<in> edges bs. edge_closed st' e) \<and>
           (\<forall>i. needed bs st' i \<or> \<not> sliced (st i) \<longrightarrow> branches_kept bs pdf st' i)"
  using slice_exists [OF assms] .

section \<open>Nothing is kept without need\<close>

lemma sl_le_insert:
  assumes "sl_le st t" "set new \<subseteq> set (RC (t i))"
  shows "sl_le (st(i := (st i)\<lparr>RC := sv_inserts new (RC (st i))\<rparr>)) t"
  using assms by (simp add: sl_le_def set_sv_inserts)

lemma sl_le_deslice: "sl_le st t \<Longrightarrow> \<not> sliced (t i) \<Longrightarrow> sl_le (deslice i st) t"
  by (simp add: sl_le_def deslice_def)

lemma computeRCi_below:
  assumes e: "edge_closed t e" and le: "sl_le st t" and r: "computeRCi e st = Some (c, st')"
  shows "sl_le st' t"
proof -
  define new where "new = filter (\<lambda>v. v \<notin> set (DEF (st (fst e)))) (RC (st (snd e))) @
    (if meets (DEF (st (fst e))) (RC (st (snd e))) then REF (st (fst e)) else [])"
  have m: "set (RC (st i)) \<subseteq> set (RC (t i))" "DEF (t i) = DEF (st i)" "REF (t i) = REF (st i)" for i
    using le by (simp_all add: sl_le_def)
  have "set (RC (st (snd e))) - set (DEF (st (fst e))) \<subseteq> set (RC (t (fst e)))"
    "set (DEF (st (fst e))) \<inter> set (RC (st (snd e))) \<noteq> {} \<Longrightarrow> set (REF (st (fst e))) \<subseteq> set (RC (t (fst e)))"
    using e m(1) [of "snd e"] unfolding edge_closed_def m(2,3) by blast+
  then have "set new \<subseteq> set (RC (t (fst e)))" by (auto simp: new_def meets_iff)
  from sl_le_insert [OF le this] show ?thesis
    using r by (simp add: computeRCi_def Let_def new_def)
qed

lemma computeSC_below:
  assumes "\<forall>e \<in> edges bs. edge_closed t e" "sl_le st t"
  shows "sl_le (computeSC bs st) t"
proof -
  have "sl_le (fold (\<lambda>e. computeSCi (fst e) (snd e)) es st) t" if "\<forall>e \<in> set es. edge_closed t e" "sl_le st t" for es
    using that
  proof (induction es arbitrary: st)
    case (Cons e es)
    have "meets (DEF (st (fst e))) (RC (st (snd e))) \<Longrightarrow> \<not> sliced (t (fst e))"
    proof -
      assume "meets (DEF (st (fst e))) (RC (st (snd e)))"
      moreover have "DEF (t (fst e)) = DEF (st (fst e))" "set (RC (st (snd e))) \<subseteq> set (RC (t (snd e)))"
        using Cons.prems(2) by (simp_all add: sl_le_def)
      ultimately have "set (DEF (t (fst e))) \<inter> set (RC (t (snd e))) \<noteq> {}" unfolding meets_iff by auto
      then show "\<not> sliced (t (fst e))" using Cons.prems(1) by (simp add: edge_closed_def)
    qed
    then have "sl_le (computeSCi (fst e) (snd e) st) t"
      using Cons.prems(2) by (simp add: computeSCi_def sl_le_deslice)
    then show ?case using Cons by simp
  qed simp
  then show ?thesis using assms by (simp add: computeSC_edges edges_def rc_edges_def)
qed

lemma keep_branch_below:
  assumes "branch_kept bs t k" "sl_le (snd cs) t"
  shows "sl_le (snd (keep_branch bs k cs)) t"
proof -
  define i st where "i = terminator bs k" and "st = deslice i (snd cs)"
  have k: "\<not> sliced (t i)" "set (REF (t i)) \<subseteq> set (RC (t i))" using assms(1) by (simp_all add: branch_kept_def i_def)
  have le: "sl_le st t" using sl_le_deslice [OF assms(2) k(1)] by (simp add: st_def)
  have "REF (t i) = REF (st i)" using le by (simp add: sl_le_def)
  then show ?thesis using sl_le_insert [OF le, of "REF (st i)"] k(2) by (simp add: keep_branch_def Let_def i_def st_def)
qed

lemma computeBC_below:
  assumes kept: "\<forall>i. \<not> sliced (t i) \<longrightarrow> branches_kept bs pdf t i" and le: "sl_le st t"
  shows "sl_le (snd (computeBC bs pdf st)) t"
proof -
  have u: "sl_le (snd (updateRCSC bs fr cs)) t" if "\<forall>k \<in> set fr. branch_kept bs t k" "sl_le (snd cs) t" for fr cs
    using that unfolding updateRCSC_fold by (induction fr arbitrary: cs) (simp_all add: keep_branch_below)
  define step where "step = (\<lambda>(k, i) (changed, st).
       if sliced (st i) then (changed, st)
       else case pdf k of None \<Rightarrow> (changed, st) | Some frontier \<Rightarrow> updateRCSC bs frontier (changed, st))"
  have s: "sl_le (snd (step p cs)) t" if p: "p \<in> set (placed_insts bs)" and cs: "sl_le (snd cs) t" for p cs
  proof -
    obtain k i c s where pc: "p = (k, i)" "cs = (c, s)" by (cases p; cases cs)
    have "\<forall>q \<in> set fr. branch_kept bs t q" if "\<not> sliced (s i)" "pdf k = Some fr" for fr
      using kept cs p pc that by (auto simp: sl_le_def branches_kept_def)
    then show ?thesis using cs pc u by (auto simp: step_def split: option.splits)
  qed
  have "set ps \<subseteq> set (placed_insts bs) \<Longrightarrow> sl_le (snd cs) t \<Longrightarrow> sl_le (snd (fold step ps cs)) t" for ps cs
    by (induction ps arbitrary: cs) (simp_all add: s)
  from this [of "placed_insts bs" "(False, st)"] show ?thesis
    using le by (simp add: computeBC_def step_def)
qed

text \<open>
  C38: The slice is precise: it is below every solution of the slicing equations that extends what
  the slicer started from, so a variable is only relevant, and an instruction only kept, when data
  flow, a criterion or a branch demands it.
\<close>

theorem slice_least:
  assumes r: "calculateStaticSlice bs pdf st = Some st'" and le: "sl_le st t" and closed: "\<forall>e \<in> edges bs. edge_closed t e"
    and kept: "\<forall>i. \<not> sliced (t i) \<longrightarrow> branches_kept bs pdf t i"
  shows "sl_le st' t"
  using r le unfolding calculateStaticSlice_def
proof (rule change_loop_inv [where Q = "\<lambda>s. sl_le s t"])
  fix s c s'
  assume s: "sl_le s t" and p: "Option.bind (computeRC bs s) (\<lambda>st. Some (computeBC bs pdf (computeSC bs st))) = Some (c, s')"
  obtain s1 where s1: "computeRC bs s = Some s1" "computeBC bs pdf (computeSC bs s1) = (c, s')"
    using p by (auto simp: bind_eq_Some_conv)
  have "sl_le s1 t"
    using s1(1) s unfolding computeRC_def
    by (rule loop_inv [where Q = "\<lambda>s. sl_le s t"]) (rule computeRCi_below, use closed in \<open>simp_all add: edges_def\<close>)
  then show "sl_le s' t" using computeBC_below [OF kept computeSC_below [OF closed]] s1(2) by fastforce
qed

section \<open>Other functions are left alone\<close>

definition apart :: "val set \<Rightarrow> slicer \<Rightarrow> slicer \<Rightarrow> bool" where
  "apart I st st' \<longleftrightarrow> (\<forall>i. i \<notin> I \<longrightarrow> st' i = st i)"

lemma computeSC_apart: "apart (set (all_insts bs)) st (computeSC bs st)"
proof -
  have "apart (set (all_insts bs)) st (fold (\<lambda>e. computeSCi (fst e) (snd e)) es s)"
    if "fst ` set es \<subseteq> set (all_insts bs)" "apart (set (all_insts bs)) st s" for es s
    using that by (induction es arbitrary: s) (auto simp: computeSCi_def deslice_def apart_def)
  from this [OF _, of "concat (map (\<lambda>i. map (Pair i) (getSuccList bs i)) (all_insts bs))" st] show ?thesis
    unfolding computeSC_edges by (force simp: apart_def)
qed

lemma computeBC_apart:
  assumes wf: "cfg_wf bs pdf"
  shows "apart (set (all_insts bs)) st (snd (computeBC bs pdf st))"
proof -
  let ?A = "\<lambda>cs. apart (set (all_insts bs)) st (snd cs)"
  have u: "?A (updateRCSC bs fr cs)" if "\<forall>k \<in> set fr. terminator bs k \<in> set (all_insts bs)" "?A cs" for fr and cs :: "bool \<times> slicer"
    using that unfolding updateRCSC_fold
    by (induction fr arbitrary: cs) (auto simp: keep_branch_def Let_def deslice_def apart_def)
  define step where "step = (\<lambda>(k, i) (changed, st).
       if sliced (st i) then (changed, st)
       else case pdf k of None \<Rightarrow> (changed, st) | Some frontier \<Rightarrow> updateRCSC bs frontier (changed, st))"
  have s: "?A (step p cs)" if p: "p \<in> set (placed_insts bs)" and cs: "?A cs" for p and cs :: "bool \<times> slicer"
  proof -
    obtain k i c t where pc: "p = (k, i)" "cs = (c, t)" by (cases p; cases cs)
    have "terminator bs q \<in> set (all_insts bs)" if "pdf k = Some fr" "q \<in> set fr" for fr q
      using p pc that wf terminator_inst [OF wf] by (auto simp: placed_iff cfg_wf_def)
    then show ?thesis using cs pc u by (auto simp: step_def split: option.splits)
  qed
  have "set ps \<subseteq> set (placed_insts bs) \<Longrightarrow> ?A cs \<Longrightarrow> ?A (fold step ps cs)" for ps and cs :: "bool \<times> slicer"
    by (induction ps arbitrary: cs) (simp_all add: s)
  from this [of "placed_insts bs" "(False, st)"] show ?thesis
    by (simp add: computeBC_def step_def apart_def)
qed

lemma slice_apart:
  assumes wf: "cfg_wf bs pdf" and r: "calculateStaticSlice bs pdf st = Some st'"
  shows "apart (set (all_insts bs)) st st'"
  using r unfolding calculateStaticSlice_def
proof (rule change_loop_inv [where Q = "apart (set (all_insts bs)) st"])
  fix s c s'
  assume s: "apart (set (all_insts bs)) st s"
    and p: "Option.bind (computeRC bs s) (\<lambda>st. Some (computeBC bs pdf (computeSC bs st))) = Some (c, s')"
  obtain s1 where s1: "computeRC bs s = Some s1" "computeBC bs pdf (computeSC bs s1) = (c, s')"
    using p by (auto simp: bind_eq_Some_conv)
  have "apart (set (all_insts bs)) st s1"
    using s1(1) s unfolding computeRC_def
  proof (rule loop_inv [where Q = "apart (set (all_insts bs)) st"])
    fix e t c t'
    assume e: "e \<in> set (rc_edges bs)" and t: "apart (set (all_insts bs)) st t" and c: "computeRCi e t = Some (c, t')"
    have "fst e \<in> set (all_insts bs)" using edges_insts(1) [OF wf, of "fst e" "snd e"] e by (simp add: edges_def)
    moreover have "apart {fst e} t t'" using c by (auto simp: computeRCi_def Let_def apart_def)
    ultimately show "apart (set (all_insts bs)) st t'" using t unfolding apart_def by (metis singletonD)
  qed
  then show "apart (set (all_insts bs)) st s'"
    using computeSC_apart [of bs s1] computeBC_apart [OF wf, of "computeSC bs s1"] s1(2) unfolding apart_def by simp
qed (simp add: apart_def)

section \<open>The removal\<close>

lemma operands_with: "operands (with_operands h k) = map h (operands k)"
  by (cases k) (auto simp: operands_def with_operands_def split: option.splits)

lemma canSlice_with: "canSlice (replaceAllUsesWith i u m) j = canSlice m j"
  by (cases "kind m j") (simp_all add: canSlice_def replaceAllUsesWith_def with_operands_def)

lemma erase_fields [simp]:
  "kind (eraseFromParent i m) = kind m" "getType (eraseFromParent i m) = getType m"
  "insts (eraseFromParent i m) g = filter (\<lambda>j. j \<noteq> i) (insts m g)"
  by (simp_all add: eraseFromParent_def insts_def filter_concat comp_def)

lemma replace_fields [simp]:
  "kind (replaceAllUsesWith i u m) v = with_operands (\<lambda>x. if x = i then u else x) (kind m v)"
  "getType (replaceAllUsesWith i u m) = getType m" "insts (replaceAllUsesWith i u m) g = insts m g"
  by (simp_all add: replaceAllUsesWith_def insts_def)

lemma canSlice_erase [simp]: "canSlice (eraseFromParent i m) j = canSlice m j"
  by (simp add: canSlice_def)

text \<open>One instruction of the loop, and all of them.\<close>

definition slice_step :: "(ty \<Rightarrow> val) \<Rightarrow> slicer \<Rightarrow> val \<Rightarrow> bool \<times> llvm_module \<Rightarrow> bool \<times> llvm_module" where
  "slice_step undef st i rm =
     (if removed (snd rm) st i then (True, eraseFromParent i (replaceAllUsesWith i (undef (getType (snd rm) i)) (snd rm))) else rm)"

lemma slice_steps: "slice_function undef st f m = fold (slice_step undef st) (insts m f) (False, m)"
  unfolding slice_function_def slice_step_def removed_def by (intro arg_cong [where f = "\<lambda>h. fold h (insts m f) (False, m)"] ext) auto

lemma slice_step_law:
  assumes "undef (getType (snd rm) i) \<noteq> i"
  shows "insts (snd (slice_step undef st i rm)) g = filter (\<lambda>j. j \<noteq> i \<or> \<not> removed (snd rm) st j) (insts (snd rm) g)"
    "removed (snd (slice_step undef st i rm)) st j = removed (snd rm) st j"
    "set (operands (kind (snd (slice_step undef st i rm)) k)) \<subseteq> set (operands (kind (snd rm) k)) \<union> range undef"
    "removed (snd rm) st i \<Longrightarrow> i \<notin> set (operands (kind (snd (slice_step undef st i rm)) k))"
    "fst (slice_step undef st i rm) = (fst rm \<or> removed (snd rm) st i)"
proof -
  show "insts (snd (slice_step undef st i rm)) g = filter (\<lambda>j. j \<noteq> i \<or> \<not> removed (snd rm) st j) (insts (snd rm) g)"
  proof (cases "removed (snd rm) st i")
    case True
    then show ?thesis by (auto simp: slice_step_def intro!: filter_cong)
  next
    case False
    then show ?thesis by (auto simp: slice_step_def intro!: filter_True [symmetric])
  qed
qed (use assms in \<open>auto simp: slice_step_def removed_def canSlice_with operands_with\<close>)

lemma slice_steps_law:
  assumes "\<forall>t. undef t \<notin> set is"
  shows "insts (snd (fold (slice_step undef st) is rm)) g = filter (\<lambda>j. j \<notin> set is \<or> \<not> removed (snd rm) st j) (insts (snd rm) g) \<and>
     (\<forall>k. set (operands (kind (snd (fold (slice_step undef st) is rm)) k)) \<subseteq> set (operands (kind (snd rm) k)) \<union> range undef) \<and>
     (\<forall>i \<in> set is. removed (snd rm) st i \<longrightarrow> (\<forall>k. i \<notin> set (operands (kind (snd (fold (slice_step undef st) is rm)) k)))) \<and>
     fst (fold (slice_step undef st) is rm) = (fst rm \<or> list_ex (removed (snd rm) st) is)"
  using assms
proof (induction "is" arbitrary: rm)
  case (Cons i "is")
  have u: "undef t \<noteq> i" "undef t \<notin> set is" for t using Cons.prems by auto
  define rm1 where "rm1 = slice_step undef st i rm"
  have step: "insts (snd rm1) g = filter (\<lambda>j. j \<noteq> i \<or> \<not> removed (snd rm) st j) (insts (snd rm) g)"
    "\<forall>j. removed (snd rm1) st j = removed (snd rm) st j"
    "\<forall>k. set (operands (kind (snd rm1) k)) \<subseteq> set (operands (kind (snd rm) k)) \<union> range undef"
    "removed (snd rm) st i \<longrightarrow> (\<forall>k. i \<notin> set (operands (kind (snd rm1) k)))"
    "fst rm1 = (fst rm \<or> removed (snd rm) st i)"
    using slice_step_law [where undef = undef and st = st and rm = rm and i = i, OF u(1)] unfolding rm1_def by blast+
  define rm2 where "rm2 = fold (slice_step undef st) is rm1"
  have IH: "insts (snd rm2) g = filter (\<lambda>j. j \<notin> set is \<or> \<not> removed (snd rm1) st j) (insts (snd rm1) g)"
    "\<forall>k. set (operands (kind (snd rm2) k)) \<subseteq> set (operands (kind (snd rm1) k)) \<union> range undef"
    "\<forall>i \<in> set is. removed (snd rm1) st i \<longrightarrow> (\<forall>k. i \<notin> set (operands (kind (snd rm2) k)))"
    "fst rm2 = (fst rm1 \<or> list_ex (removed (snd rm1) st) is)"
    using Cons.IH [OF allI [OF u(2)], of rm1] unfolding rm2_def by blast+
  have "\<forall>k. i \<notin> set (operands (kind (snd rm2) k))" if "removed (snd rm) st i"
    using IH(2) step(4) that u(1) by blast
  moreover have "filter (\<lambda>j. j \<notin> set is \<or> \<not> removed (snd rm) st j) (filter (\<lambda>j. j \<noteq> i \<or> \<not> removed (snd rm) st j) xs) =
      filter (\<lambda>j. j \<notin> set (i # is) \<or> \<not> removed (snd rm) st j) xs" for xs
    by (auto intro!: filter_cong)
  moreover have "\<forall>k. set (operands (kind (snd rm2) k)) \<subseteq> set (operands (kind (snd rm) k)) \<union> range undef"
    using IH(2) step(3) by blast
  moreover have "fold (slice_step undef st) (i # is) rm = rm2" by (simp add: rm1_def rm2_def)
  ultimately show ?case using IH(1,3,4) step(1,2,5) by (simp add: list_ex_iff)
qed simp

text \<open>
  C39: Removing the sliced instructions of a function, of the kinds that can be removed, leaves
  exactly the others, in their order, in
  every function, reports whether any was removed, and leaves no value with a removed instruction as
  an operand.
\<close>

theorem slice_leaves_no_use:
  assumes "\<forall>t. undef t \<notin> set (insts m f)" "slice_function undef st f m = (rem, m')"
  shows "insts m' g = filter (\<lambda>j. j \<notin> set (insts m f) \<or> \<not> removed m st j) (insts m g) \<and>
         rem = list_ex (removed m st) (insts m f) \<and>
         (\<forall>i \<in> set (insts m f). removed m st i \<longrightarrow> (\<forall>k. i \<notin> set (operands (kind m' k))))"
  using slice_steps_law [OF assms(1), of st "(False, m)" g] assms(2) by (simp add: slice_steps)

section \<open>The slice computes the same values\<close>

text \<open>
  The values of places along a path of the control flow.  What an instruction does to the places is
  a parameter.
\<close>

definition run_path :: "(val \<Rightarrow> (pointer \<Rightarrow> 'v) \<Rightarrow> pointer \<Rightarrow> 'v) \<Rightarrow> (val \<Rightarrow> bool) \<Rightarrow> val list \<Rightarrow> (pointer \<Rightarrow> 'v) \<Rightarrow> pointer \<Rightarrow> 'v" where
  "run_path exec gone is s = fold (\<lambda>i s. if gone i then s else exec i s) is s"

definition agree :: "pointer list \<Rightarrow> (pointer \<Rightarrow> 'v) \<Rightarrow> (pointer \<Rightarrow> 'v) \<Rightarrow> bool" where
  "agree vs s t \<longleftrightarrow> (\<forall>v \<in> set vs. s v = t v)"

fun cfg_path :: "bblock list \<Rightarrow> val list \<Rightarrow> bool" where
  "cfg_path bs (i # j # is) \<longleftrightarrow> (i, j) \<in> edges bs \<and> cfg_path bs (j # is)"
| "cfg_path bs _ \<longleftrightarrow> True"

text \<open>
  What the slicer takes for granted of a run: of the places relevant after an instruction, those
  outside of its DEF are left alone, and those in its DEF are overwritten, with a value that comes
  from the places of REF.  A store through a pointer that may point to several places overwrites
  only one of them, so the second part is a condition on the run.
\<close>

fun run_exact :: "slicer \<Rightarrow> (val \<Rightarrow> (pointer \<Rightarrow> 'v) \<Rightarrow> pointer \<Rightarrow> 'v) \<Rightarrow> val list \<Rightarrow> (pointer \<Rightarrow> 'v) \<Rightarrow> bool" where
  "run_exact st exec (i # j # is) s \<longleftrightarrow>
     (\<forall>v \<in> set (RC (st j)).
        if v \<in> set (DEF (st i)) then \<forall>t. agree (REF (st i)) s t \<longrightarrow> exec i t v = exec i s v else \<forall>t. exec i t v = t v) \<and>
     run_exact st exec (j # is) (exec i s)"
| "run_exact st exec _ s \<longleftrightarrow> True"

text \<open>Instructions that always write all of DEF, from REF, and nothing else.\<close>

definition effects_sound :: "slicer \<Rightarrow> (val \<Rightarrow> (pointer \<Rightarrow> 'v) \<Rightarrow> pointer \<Rightarrow> 'v) \<Rightarrow> bool" where
  "effects_sound st exec \<longleftrightarrow>
     (\<forall>i s v. v \<notin> set (DEF (st i)) \<longrightarrow> exec i s v = s v) \<and>
     (\<forall>i s t v. v \<in> set (DEF (st i)) \<longrightarrow> agree (REF (st i)) s t \<longrightarrow> exec i t v = exec i s v)"

lemma effects_sound_exact: "effects_sound st exec \<Longrightarrow> run_exact st exec is s"
  by (induction st exec "is" s rule: run_exact.induct) (auto simp: effects_sound_def)

lemma edge_step:
  assumes e: "edge_closed st (i, j)" and ex: "run_exact st exec (i # j # is) s" and a: "agree (RC (st i)) s t"
    and g: "gone \<longrightarrow> sliced (st i)"
  shows "agree (RC (st j)) (exec i s) (if gone then t else exec i t)"
proof -
  have d: "v \<in> set (DEF (st i)) \<Longrightarrow> v \<in> set (RC (st j)) \<Longrightarrow> set (REF (st i)) \<subseteq> set (RC (st i)) \<and> \<not> gone"
    "v \<in> set (RC (st j)) \<Longrightarrow> v \<notin> set (DEF (st i)) \<Longrightarrow> v \<in> set (RC (st i))" for v
    using e g by (auto simp: edge_closed_def)
  show ?thesis unfolding agree_def
  proof
    fix v
    assume v: "v \<in> set (RC (st j))"
    show "exec i s v = (if gone then t else exec i t) v"
    proof (cases "v \<in> set (DEF (st i))")
      case True
      then have "agree (REF (st i)) s t" using a d(1) [OF True v] unfolding agree_def by blast
      then show ?thesis using ex True d(1) [OF True v] v by simp
    next
      case False
      then have "exec i u v = u v" for u using ex v by simp
      then show ?thesis using d(2) [OF v False] a by (simp add: agree_def)
    qed
  qed
qed

lemma path_step:
  assumes "cfg_path bs (is @ [j])" "\<forall>e \<in> edges bs. edge_closed st e" "run_exact st exec (is @ [j]) s"
    "agree (RC (st (hd (is @ [j])))) s t" "\<forall>i. gone i \<longrightarrow> sliced (st i)"
  shows "agree (RC (st j)) (run_path exec (\<lambda>_. False) is s) (run_path exec gone is t)"
  using assms(1,3,4)
proof (induction "is" arbitrary: s t)
  case (Cons i "is")
  define k where "k = hd (is @ [j])"
  obtain r where r: "is @ [j] = k # r" by (cases "is") (simp_all add: k_def)
  have e: "(i, k) \<in> edges bs" "cfg_path bs (is @ [j])" "run_exact st exec (is @ [j]) (exec i s)"
    using Cons.prems(1,2) by (simp_all add: r)
  have "agree (RC (st k)) (exec i s) (if gone i then t else exec i t)"
    using edge_step [of st i k exec r s t "gone i"] assms(2,5) e(1) Cons.prems(2,3) by (simp add: r)
  then show ?case using Cons.IH [OF e(2,3)] by (simp add: run_path_def k_def)
qed (simp add: run_path_def)

text \<open>
  C19: The slice computes what the function computes, on exact runs.  On every path of the control
  flow to an instruction, running the function and running what is left of it, from states that
  agree on what is relevant at the start, gives states that agree on what is relevant at the end,
  the criterion included.  A run is exact when each of its instructions leaves the relevant places
  outside of its DEF alone and really overwrites those in its DEF, from its REF: a store through a
  pointer to several places must hit the relevant ones (\<open>may_store_kills\<close> shows what happens
  otherwise).  Runs of instructions that always write all of DEF, from REF, and nothing else are exact.
\<close>

theorem slice_preserves_values:
  assumes wf: "cfg_wf bs pdf" and d: "\<forall>i. distinct (RC (st i))" and path: "cfg_path bs (is @ [j])"
  shows "\<exists>st'. calculateStaticSlice bs pdf st = Some st' \<and> set (RC (st j)) \<subseteq> set (RC (st' j)) \<and>
           (\<forall>s t. run_exact st' exec (is @ [j]) s \<longrightarrow> agree (RC (st' (hd (is @ [j])))) s t \<longrightarrow>
              agree (RC (st' j)) (run_path exec (\<lambda>_. False) is s) (run_path exec (removed m st') is t)) \<and>
           (effects_sound st exec \<longrightarrow> (\<forall>s. run_exact st' exec (is @ [j]) s))"
proof -
  obtain st' where st': "calculateStaticSlice bs pdf st = Some st'" "sl_le st st'" "\<forall>e \<in> edges bs. edge_closed st' e"
    using slice_exists [OF wf d] by blast
  have "\<forall>i. removed m st' i \<longrightarrow> sliced (st' i)" by (simp add: removed_def)
  then have "agree (RC (st' j)) (run_path exec (\<lambda>_. False) is s) (run_path exec (removed m st') is t)"
    if "run_exact st' exec (is @ [j]) s" "agree (RC (st' (hd (is @ [j])))) s t" for s t
    using path_step [OF path st'(3) that] by blast
  moreover have "run_exact st' exec (is @ [j]) s" if "effects_sound st exec" for s
    by (rule effects_sound_exact) (use that st'(2) in \<open>simp add: effects_sound_def sl_le_def\<close>)
  moreover have "set (RC (st j)) \<subseteq> set (RC (st' j))" using st'(2) by (simp add: sl_le_def)
  ultimately show ?thesis using st'(1) by blast
qed

section \<open>An example\<close>

text \<open>
  A conditional around one of the two assignments of a variable: 1 and 2 assign to the places 20 and
  21, 3 branches on 22, 4 assigns 20 again, from 23, 5 jumps, and 6 returns.  The criterion is the
  place 20 at 6.
\<close>

definition demo_blocks :: "bblock list" where
  "demo_blocks = [\<lparr>bb_insts = [1, 2, 3], bb_succs = [1, 2]\<rparr>, \<lparr>bb_insts = [4, 5], bb_succs = [2]\<rparr>,
     \<lparr>bb_insts = [6], bb_succs = []\<rparr>]"

definition demo_pdf :: "nat \<Rightarrow> nat list option" where
  "demo_pdf k = (if k = 1 then Some [0] else if k < 3 then Some [] else None)"

definition demo_DEF :: "val \<Rightarrow> pointer list" where
  "demo_DEF i = (if i = 1 \<or> i = 4 then [(20, 0)] else if i = 2 then [(21, 0)] else [])"

definition demo_REF :: "val \<Rightarrow> pointer list" where
  "demo_REF i = (if i = 3 then [(22, - 1)] else if i = 4 then [(23, 0)] else [])"

definition demo_slicer :: slicer where
  "demo_slicer i = \<lparr>RC = (if i = 6 then [(20, 0)] else []), DEF = demo_DEF i, REF = demo_REF i, sliced = (i \<noteq> 6)\<rparr>"

lemma demo_edges: "edges demo_blocks = {(1, 2), (2, 3), (3, 4), (3, 6), (4, 5), (5, 6)}"
  by (auto simp: edges_def rc_edges_def all_insts_def getSuccList_def demo_blocks_def)

lemma demo_wf: "cfg_wf demo_blocks demo_pdf"
  by (simp add: cfg_wf_def demo_blocks_def demo_pdf_def)

lemma demo_distinct: "\<forall>i. distinct (RC (demo_slicer i))"
  by (simp add: demo_slicer_def)

theorem slice_solution_witness:
  "\<exists>st'. calculateStaticSlice demo_blocks demo_pdf demo_slicer = Some st' \<and> \<not> sliced (st' 1) \<and> \<not> sliced (st' 3) \<and> \<not> sliced (st' 4)"
proof -
  obtain st' where st': "calculateStaticSlice demo_blocks demo_pdf demo_slicer = Some st'" "sl_le demo_slicer st'"
    "\<forall>e \<in> edges demo_blocks. edge_closed st' e"
    "\<forall>i. needed demo_blocks st' i \<or> \<not> sliced (demo_slicer i) \<longrightarrow> branches_kept demo_blocks demo_pdf st' i"
    using slice_solution [OF demo_wf demo_distinct] by blast
  have d: "DEF (st' i) = demo_DEF i" "set (RC (demo_slicer i)) \<subseteq> set (RC (st' i))" for i
    using st'(2) by (simp_all add: sl_le_def demo_slicer_def)
  have e: "edge_closed st' (1, 2)" "edge_closed st' (2, 3)" "edge_closed st' (3, 6)" "edge_closed st' (4, 5)" "edge_closed st' (5, 6)"
    using st'(3) by (simp_all add: demo_edges)
  have r6: "(20, 0) \<in> set (RC (st' 6))" using d(2) [of 6] by (simp add: demo_slicer_def)
  have r: "(20, 0) \<in> set (RC (st' 5))" "(20, 0) \<in> set (RC (st' 3))"
    using e(3,5) r6 by (auto simp: edge_closed_def d demo_DEF_def)
  have r2: "(20, 0) \<in> set (RC (st' 2))" using e(2) r by (auto simp: edge_closed_def d demo_DEF_def)
  have "\<not> sliced (st' 1)" "\<not> sliced (st' 4)"
    using e(1,4) r(1) r2 by (auto simp: edge_closed_def d demo_DEF_def)
  moreover have "needed demo_blocks st' 4"
    using r(1) by (auto simp: needed_def demo_edges d demo_DEF_def)
  then have b: "branches_kept demo_blocks demo_pdf st' 4" using st'(4) by blast
  have "(1, 4) \<in> set (placed_insts demo_blocks)" "demo_pdf 1 = Some [0]" "terminator demo_blocks 0 = 3"
    by (simp_all add: placed_iff demo_blocks_def demo_pdf_def terminator_def)
  then have "\<not> sliced (st' 3)" using b unfolding branches_kept_def branch_kept_def by fastforce
  ultimately show ?thesis using st'(1) by blast
qed

definition demo_bound :: slicer where
  "demo_bound i = \<lparr>RC = [(20, 0), (22, - 1), (23, 0)], DEF = demo_DEF i, REF = demo_REF i, sliced = (i \<noteq> 1 \<and> i \<noteq> 3 \<and> i \<noteq> 4 \<and> i \<noteq> 6)\<rparr>"

theorem slice_least_witness:
  "\<exists>st'. calculateStaticSlice demo_blocks demo_pdf demo_slicer = Some st' \<and> sliced (st' 2) \<and> (21, 0) \<notin> set (RC (st' 3))"
proof -
  obtain st' where st': "calculateStaticSlice demo_blocks demo_pdf demo_slicer = Some st'"
    using slice_exists [OF demo_wf demo_distinct] by blast
  have "sl_le demo_slicer demo_bound" by (auto simp: sl_le_def demo_slicer_def demo_bound_def)
  moreover have "\<forall>e \<in> edges demo_blocks. edge_closed demo_bound e"
    by (simp add: demo_edges edge_closed_def demo_bound_def demo_DEF_def demo_REF_def)
  moreover have "\<forall>i. \<not> sliced (demo_bound i) \<longrightarrow> branches_kept demo_blocks demo_pdf demo_bound i"
    by (auto simp: branches_kept_def branch_kept_def placed_iff demo_pdf_def demo_blocks_def terminator_def demo_bound_def
        demo_REF_def split: if_splits)
  ultimately have "sl_le st' demo_bound" by (rule slice_least [OF st'])
  then have "sliced (demo_bound 2) \<longrightarrow> sliced (st' 2)" "set (RC (st' 3)) \<subseteq> set (RC (demo_bound 3))"
    by (simp_all add: sl_le_def)
  then show ?thesis using st' by (auto simp: demo_bound_def)
qed

text \<open>A function 7 that loads 1 from 40, stores it to 41 and returns, with only the load sliced.\<close>

definition demo_fun :: llvm_module where
  "demo_fun = demo_module\<lparr>kind := (\<lambda>v. if v = 1 then LoadInst 40 else if v = 2 then StoreInst 1 41 else if v = 3 then ReturnInst None
       else OtherValue), fun_blocks := (\<lambda>f. if f = 7 then [\<lparr>bb_insts = [1, 2, 3], bb_succs = []\<rparr>] else [])\<rparr>"

theorem slice_leaves_no_use_witness:
  "\<exists>m'. slice_function (\<lambda>_. 99) (\<lambda>i. \<lparr>RC = [], DEF = [], REF = [], sliced = (i = 1)\<rparr>) 7 demo_fun = (True, m') \<and> insts m' 7 = [2, 3] \<and>
     1 \<notin> set (operands (kind m' 2))"
proof -
  let ?st = "\<lambda>i. \<lparr>RC = [], DEF = [], REF = [], sliced = (i = 1)\<rparr>"
  obtain rem m' where r: "slice_function (\<lambda>_. 99) ?st 7 demo_fun = (rem, m')" by (cases "slice_function (\<lambda>_. 99) ?st 7 demo_fun")
  have i: "insts demo_fun 7 = [1, 2, 3]" "removed demo_fun ?st = (\<lambda>j. j = 1)"
    by (auto simp: demo_fun_def insts_def removed_def canSlice_def fun_eq_iff)
  have "insts m' 7 = filter (\<lambda>j. j \<notin> set [1, 2, 3] \<or> j \<noteq> 1) [1, 2, 3] \<and> rem = list_ex (\<lambda>j. j = 1) [1, 2, 3] \<and>
      (\<forall>i \<in> set [1, 2, 3]. i = 1 \<longrightarrow> (\<forall>k. i \<notin> set (operands (kind m' k))))"
    using slice_leaves_no_use [OF _ r, of 7] unfolding i by simp
  then show ?thesis using r by simp
qed

section \<open>With the frontiers of the post-dominator tree\<close>

lemma frontier_blocks:
  assumes t: "postdom_tree DT preds" and fr: "frontiers (Some DT) preds Roots k = Some fr"
  shows "set fr \<subseteq> set (node_blocks DT)"
proof (cases "Roots = []")
  case True
  then show ?thesis using fr by (cases DT) (auto simp: frontiers_def split: if_splits)
next
  case False
  have "Some k \<in> set (node_keys DT)"
    using map_of_SomeD [of _ "Some k" fr] fr calculate_keys [OF False, of DT preds DT]
    by (force simp: frontiers_def dest!: arg_cong [of _ _ set])
  moreover have "b \<in> set (node_keys n) \<Longrightarrow> \<exists>m \<in> subtrees n. getBlock m = b" for b n
    by (induction n) auto
  ultimately obtain n where "n \<in> subtrees DT" "getBlock n = Some k" by blast
  then show ?thesis using frontiers_node [OF t False] calculate_frontier [OF t False] fr by (auto simp: frontier_of_def)
qed

lemma frontiers_cfg_wf:
  assumes "postdom_tree DT preds" "set (node_blocks DT) \<subseteq> {..<length bs}"
    "\<forall>b \<in> set bs. bb_insts b \<noteq> [] \<and> (\<forall>k \<in> set (bb_succs b). k < length bs)"
  shows "cfg_wf bs (frontiers (Some DT) preds Roots)"
  using assms frontier_blocks [OF assms(1)] unfolding cfg_wf_def by blast

text \<open>
  C21: With the frontiers of the post-dominator tree, computed as for LLVM before version 4, the
  slicer keeps the branches an instruction
  depends on: when an instruction defines something relevant or is a criterion, and a block has a
  successor that the block of the instruction post-dominates while it does not properly
  post-dominate the block itself, then the branch at the end of that block stays and its condition is
  relevant.
\<close>

theorem slice_keeps_controlling_branches:
  assumes t: "postdom_tree DT preds" "Roots \<noteq> []" "set (node_blocks DT) \<subseteq> {..<length bs}"
    and bs: "\<forall>b \<in> set bs. bb_insts b \<noteq> [] \<and> (\<forall>k \<in> set (bb_succs b). k < length bs)"
    and d: "\<forall>i. distinct (RC (st i))"
    and r: "calculateStaticSlice bs (frontiers (Some DT) preds Roots) st = Some st'"
    and i: "n \<in> subtrees DT" "getBlock n = Some k" "i \<in> set (bb_insts (bs ! k))" "needed bs st' i \<or> \<not> sliced (st i)"
    and p: "p \<in> set (node_blocks DT)" "s \<in> set (node_blocks n)" "p \<in> set (preds s)" "\<not> properlyDominates n p"
  shows "branch_kept bs st' p"
proof -
  have "branches_kept bs (frontiers (Some DT) preds Roots) st' i"
    using slice_exists [OF frontiers_cfg_wf [OF t(1,3) bs, of Roots] d] r i(4) by auto
  moreover have "k < length bs" using subtrees_blocks [OF i(1)] getBlock_in [OF i(2)] t(3) by blast
  moreover have "p \<in> set (fst (calculate DT preds Roots n))"
    using p by (simp add: calculate_frontier [OF t(1,2) i(1)] frontier_of_def) blast
  ultimately show ?thesis
    using frontiers_node [OF t(1,2) i(1,2)] i(3) unfolding branches_kept_def by (simp add: placed_iff)
qed

text \<open>The blocks of \<open>demo_tree\<close>: 10 branches on 30, 11 on 31, 12 assigns 20, 13, 14 and 15 jump, and 16 returns.\<close>

definition cond_blocks :: "bblock list" where
  "cond_blocks = [\<lparr>bb_insts = [10], bb_succs = [1, 4]\<rparr>, \<lparr>bb_insts = [11], bb_succs = [2, 3]\<rparr>,
     \<lparr>bb_insts = [12, 13], bb_succs = [4]\<rparr>, \<lparr>bb_insts = [14, 15], bb_succs = [4]\<rparr>, \<lparr>bb_insts = [16], bb_succs = []\<rparr>]"

definition cond_slicer :: slicer where
  "cond_slicer i = \<lparr>RC = [], DEF = [], REF = (if i = 10 then [(30, - 1)] else if i = 11 then [(31, - 1)] else []), sliced = (i \<noteq> 12)\<rparr>"

theorem slice_keeps_controlling_branches_witness:
  "\<exists>st'. calculateStaticSlice cond_blocks (frontiers (Some demo_tree) demo_preds [4]) cond_slicer = Some st' \<and> \<not> sliced (st' 11) \<and>
     (31, - 1) \<in> set (RC (st' 11))"
proof -
  have t: "postdom_tree demo_tree demo_preds" "set (node_blocks demo_tree) \<subseteq> {..<length cond_blocks}"
    by (auto simp: postdom_tree_def demo_tree_def demo_preds_def cond_blocks_def)
  have bs: "\<forall>b \<in> set cond_blocks. bb_insts b \<noteq> [] \<and> (\<forall>k \<in> set (bb_succs b). k < length cond_blocks)"
    and d: "\<forall>i. distinct (RC (cond_slicer i))"
    by (simp_all add: cond_blocks_def cond_slicer_def)
  obtain st' where st': "calculateStaticSlice cond_blocks (frontiers (Some demo_tree) demo_preds [4]) cond_slicer = Some st'"
    "sl_le cond_slicer st'"
    using slice_exists [OF frontiers_cfg_wf [OF t bs] d] by blast
  have "branch_kept cond_blocks st' 1"
    by (rule slice_keeps_controlling_branches [OF t(1) _ t(2) bs d st'(1), of "DomNode (Some 2) []" 2 12 1 2])
      (simp_all add: demo_tree_def demo_preds_def cond_blocks_def cond_slicer_def)
  moreover have "REF (st' 11) = [(31, - 1)]" using st'(2) by (simp add: sl_le_def cond_slicer_def)
  ultimately show ?thesis using st'(1) by (simp add: branch_kept_def terminator_def cond_blocks_def)
qed

section \<open>What the slicer misses\<close>

text \<open>The states of an example, by the relevant places and the mark of each of its instructions.\<close>

definition table :: "(val \<Rightarrow> pointer list) \<Rightarrow> (val \<Rightarrow> pointer list) \<Rightarrow> (pointer list \<times> bool) list \<Rightarrow> slicer" where
  "table D R xs i = \<lparr>RC = (if i < length xs then fst (xs ! i) else []), DEF = D i, REF = R i,
     sliced = (i < length xs \<longrightarrow> snd (xs ! i))\<rparr>"

lemma table_sel [simp]:
  "i < length xs \<Longrightarrow> RC (table D R xs i) = fst (xs ! i)" "i < length xs \<Longrightarrow> sliced (table D R xs i) = snd (xs ! i)"
  "DEF (table D R xs i) = D i" "REF (table D R xs i) = R i"
  by (simp_all add: table_def)

lemma table_RC:
  "i < length xs \<Longrightarrow> (table D R xs)(i := (table D R xs i)\<lparr>RC := r\<rparr>) = table D R (xs[i := (r, snd (xs ! i))])"
  by (auto simp: table_def fun_eq_iff nth_list_update)

lemma table_deslice: "i < length xs \<Longrightarrow> deslice i (table D R xs) = table D R (xs[i := (fst (xs ! i), False)])"
  by (auto simp: table_def deslice_def fun_eq_iff nth_list_update)

lemma table_RCi:
  "i < length xs \<Longrightarrow> j < length xs \<Longrightarrow>
   computeRCi (i, j) (table D R xs) =
     (let rc = sv_inserts (filter (\<lambda>v. v \<notin> set (D i)) (fst (xs ! j)) @ (if meets (D i) (fst (xs ! j)) then R i else [])) (fst (xs ! i))
      in Some (length rc \<noteq> length (fst (xs ! i)), table D R (xs[i := (rc, snd (xs ! i))])))"
  by (simp add: computeRCi_def table_RC Let_def)

lemma table_SCi:
  "i < length xs \<Longrightarrow> j < length xs \<Longrightarrow>
   computeSCi i j (table D R xs) =
     (if meets (D i) (fst (xs ! j)) then table D R (xs[i := (fst (xs ! i), False)]) else table D R xs)"
  by (simp add: computeSCi_def table_deslice)

lemma table_branch:
  "terminator bs k < length xs \<Longrightarrow>
   keep_branch bs k (c, table D R xs) =
     (let i = terminator bs k; rc = sv_inserts (R i) (fst (xs ! i))
      in (c \<or> length rc \<noteq> length (fst (xs ! i)), table D R (xs[i := (rc, False)])))"
  by (simp add: keep_branch_def table_deslice table_RC Let_def)

lemmas table_run = table_RCi table_SCi table_branch Let_def meets_def sv_inserts_def sv_insert_def updateRCSC_fold

lemma one_pass_slice:
  assumes "apply_all computeRCi (rc_edges bs) st = Some (True, st1)" "apply_all computeRCi (rc_edges bs) st1 = Some (False, st1)"
    "computeBC bs pdf (computeSC bs st1) = (False, st')"
  shows "calculateStaticSlice bs pdf st = Some st'"
proof -
  have "computeRC bs st = Some st1"
    using assms(1,2) by (simp add: computeRC_def change_loop.simps)
  then show ?thesis using assms(3) by (simp add: calculateStaticSlice_def change_loop.simps)
qed

text \<open>
  A store under two nested conditions: 0 branches on 30, 1 on 31, 2 assigns 20 from 31, 3 jumps and 4
  returns, with the criterion 20.
  The inner branch is kept, but 31 is already relevant there, so no change is reported and the
  slicer ends before it looks at what the inner branch depends on: the condition 30 of the outer
  branch is not relevant, and its computation is removed.
\<close>

definition nested_blocks :: "bblock list" where
  "nested_blocks = [\<lparr>bb_insts = [0], bb_succs = [1, 3]\<rparr>, \<lparr>bb_insts = [1], bb_succs = [2, 3]\<rparr>,
     \<lparr>bb_insts = [2, 3], bb_succs = [3]\<rparr>, \<lparr>bb_insts = [4], bb_succs = []\<rparr>]"

definition nested_pdf :: "nat \<Rightarrow> nat list option" where
  "nested_pdf k = (if k = 1 then Some [0] else if k = 2 then Some [1] else Some [])"

definition nested_slicer :: "(pointer list \<times> bool) list \<Rightarrow> slicer" where
  "nested_slicer =
     table (\<lambda>i. if i = 2 then [(20, 0)] else [])
       (\<lambda>i. if i = 0 then [(30, - 1)] else if i = 1 \<or> i = 2 then [(31, - 1)] else [])"

lemma nested_edges: "rc_edges nested_blocks = [(3, 4), (2, 3), (1, 2), (1, 4), (0, 1), (0, 4)]"
  by (simp add: rc_edges_def all_insts_def getSuccList_def nested_blocks_def)

lemma outer_branch_missed:
  "calculateStaticSlice nested_blocks nested_pdf (nested_slicer [([], True), ([], True), ([], True), ([], True), ([(20, 0)], False)]) =
   Some (nested_slicer [([(31, - 1), (20, 0)], True), ([(31, - 1), (20, 0)], False), ([(31, - 1)], False), ([(20, 0)], True), ([(20, 0)], False)])"
proof (rule one_pass_slice)
  let ?r = "[([(31, - 1), (20, 0)], True), ([(31, - 1), (20, 0)], True), ([(31, - 1)], True), ([(20, 0)], True), ([(20, 0)], False)]"
  show "apply_all computeRCi (rc_edges nested_blocks) (nested_slicer [([], True), ([], True), ([], True), ([], True), ([(20, 0)], False)]) =
      Some (True, nested_slicer ?r)"
    by (simp add: nested_edges nested_slicer_def table_run)
  show "apply_all computeRCi (rc_edges nested_blocks) (nested_slicer ?r) = Some (False, nested_slicer ?r)"
    by (simp add: nested_edges nested_slicer_def table_run)
  have "computeSC nested_blocks (nested_slicer ?r) = nested_slicer (?r[2 := ([(31, - 1)], False)])"
    by (simp add: computeSC_def all_insts_def getSuccList_def nested_blocks_def nested_slicer_def table_run)
  then show "computeBC nested_blocks nested_pdf (computeSC nested_blocks (nested_slicer ?r)) = (False, nested_slicer
      [([(31, - 1), (20, 0)], True), ([(31, - 1), (20, 0)], False), ([(31, - 1)], False), ([(20, 0)], True), ([(20, 0)], False)])"
    by (simp add: computeBC_def placed_insts_def nested_blocks_def nested_pdf_def nested_slicer_def table_run terminator_def upt_rec)
qed

text \<open>
  A store through a pointer defines every place the pointer may point to, and what it defines is no
  longer relevant before it.  0 assigns 20, 1 stores through a pointer to 20 or 21, 2 returns with
  the criterion 20: the first assignment is sliced away, although the store may leave its value.
\<close>

definition may_blocks :: "bblock list" where
  "may_blocks = [\<lparr>bb_insts = [0, 1, 2], bb_succs = []\<rparr>]"

definition may_slicer :: "(pointer list \<times> bool) list \<Rightarrow> slicer" where
  "may_slicer = table (\<lambda>i. if i = 0 then [(20, 0)] else if i = 1 then [(20, 0), (21, 0)] else []) (\<lambda>i. if i = 1 then [(30, - 1)] else [])"

lemma may_store_kills:
  "calculateStaticSlice may_blocks (\<lambda>_. None) (may_slicer [([], True), ([], True), ([(20, 0)], False)]) =
   Some (may_slicer [([(30, - 1)], True), ([(30, - 1)], False), ([(20, 0)], False)])"
proof (rule one_pass_slice)
  have e: "rc_edges may_blocks = [(1, 2), (0, 1)]"
    by (simp add: rc_edges_def all_insts_def getSuccList_def may_blocks_def)
  let ?r = "[([(30, - 1)], True), ([(30, - 1)], True), ([(20, 0)], False)]"
  show "apply_all computeRCi (rc_edges may_blocks) (may_slicer [([], True), ([], True), ([(20, 0)], False)]) = Some (True, may_slicer ?r)"
    by (simp add: e may_slicer_def table_run)
  show "apply_all computeRCi (rc_edges may_blocks) (may_slicer ?r) = Some (False, may_slicer ?r)"
    by (simp add: e may_slicer_def table_run)
  show "computeBC may_blocks (\<lambda>_. None) (computeSC may_blocks (may_slicer ?r)) =
      (False, may_slicer [([(30, - 1)], True), ([(30, - 1)], False), ([(20, 0)], False)])"
    by (simp add: computeBC_def placed_insts_def computeSC_def all_insts_def getSuccList_def may_blocks_def may_slicer_def table_run)
qed

text \<open>
  In a run where the pointer does point to 20 the store overwrites it, and the slice without the
  first assignment ends with the same value in 20.
\<close>

definition may_exec :: "val \<Rightarrow> (pointer \<Rightarrow> nat) \<Rightarrow> pointer \<Rightarrow> nat" where
  "may_exec i s = (if i = 0 then s((20, 0) := 4) else if i = 1 then s((s (30, - 1), 0) := 5) else s)"

theorem slice_preserves_values_witness:
  "\<exists>st'. calculateStaticSlice may_blocks (\<lambda>_. None) (may_slicer [([], True), ([], True), ([(20, 0)], False)]) = Some st' \<and>
     removed demo_module st' 0 \<and> run_path may_exec (removed demo_module st') [0, 1] (\<lambda>_. 20) (20, 0) = 5"
proof -
  let ?st = "may_slicer [([], True), ([], True), ([(20, 0)], False)]"
  let ?st' = "may_slicer [([(30, - 1)], True), ([(30, - 1)], False), ([(20, 0)], False)]"
  have wf: "cfg_wf may_blocks (\<lambda>_. None)" "\<forall>i. distinct (RC (?st i))" "cfg_path may_blocks ([0, 1] @ [2])"
    by (simp_all add: cfg_wf_def may_blocks_def may_slicer_def table_def edges_def rc_edges_def all_insts_def getSuccList_def nth_Cons
        split: nat.split)
  have x: "run_exact ?st' may_exec ([0, 1] @ [2]) (\<lambda>_. 20)"
    by (simp add: may_slicer_def may_exec_def agree_def)
  have "\<forall>s t. run_exact ?st' may_exec ([0, 1] @ [2]) s \<longrightarrow> agree (RC (?st' (hd ([0, 1] @ [2])))) s t \<longrightarrow>
      agree (RC (?st' 2)) (run_path may_exec (\<lambda>_. False) [0, 1] s) (run_path may_exec (removed demo_module ?st') [0, 1] t)"
    using slice_preserves_values [OF wf, of may_exec demo_module] unfolding may_store_kills by auto
  then have "agree (RC (?st' 2)) (run_path may_exec (\<lambda>_. False) [0, 1] (\<lambda>_. 20))
      (run_path may_exec (removed demo_module ?st') [0, 1] (\<lambda>_. 20))"
    using x by (simp add: agree_def)
  moreover have "run_path may_exec (\<lambda>_. False) [0, 1] (\<lambda>_. 20) (20, 0) = 5" by (simp add: run_path_def may_exec_def)
  moreover have "removed demo_module ?st' 0" by (simp add: removed_def may_slicer_def canSlice_def demo_module_def)
  ultimately show ?thesis using may_store_kills by (simp add: agree_def may_slicer_def)
qed

end
