(* ===== verification/Worklist.thy ===== *)
theory Worklist
  imports Fixpoint
begin

text \<open>
  The loop of the slicer over functions (\<open>StaticSlicer::computeSlice\<close> in
  \<open>passes/slicer/Slicing/StaticSlicer.cpp\<close>): the functions of a list are computed, then each
  passes what it found on to others, which are the next list.

  The locale \<open>propagation\<close> is the contract of the two steps; from it follow termination and that
  in the end every function that was listed or changed is computed and has passed on what it has.
\<close>

fun fold_opt :: "('a \<Rightarrow> 's \<Rightarrow> 's option) \<Rightarrow> 'a list \<Rightarrow> 's \<Rightarrow> 's option" where
  "fold_opt f [] s = Some s"
| "fold_opt f (x # xs) s = Option.bind (f x s) (fold_opt f xs)"

fun emit_all :: "('a \<Rightarrow> 's \<Rightarrow> ('f list \<times> 's) option) \<Rightarrow> 'a list \<Rightarrow> 's \<Rightarrow> ('f list \<times> 's) option" where
  "emit_all emit [] s = Some ([], s)"
| "emit_all emit (f # fs) s =
     Option.bind (emit f s) (\<lambda>(tmp, s). Option.bind (emit_all emit fs s) (\<lambda>(tmp', s). Some (tmp @ tmp', s)))"

partial_function (option) worklist ::
    "('f \<Rightarrow> 's \<Rightarrow> 's option) \<Rightarrow> ('f \<Rightarrow> 's \<Rightarrow> ('f list \<times> 's) option) \<Rightarrow> 'f list \<Rightarrow> 's \<Rightarrow> 's option" where
  "worklist calc emit Q s =
     (if Q = [] then Some s
      else Option.bind (fold_opt calc Q s) (\<lambda>s. Option.bind (emit_all emit Q s) (\<lambda>(tmp, s). worklist calc emit tmp s)))"

lemma fold_opt_inv:
  assumes "fold_opt f xs s = Some s'" "Q s" "\<And>x t t'. x \<in> set xs \<Longrightarrow> Q t \<Longrightarrow> f x t = Some t' \<Longrightarrow> Q t'"
  shows "Q s'"
  using assms by (induction xs arbitrary: s) (auto simp: bind_eq_Some_conv)

text \<open>
  A step that may change the functions it lists, at a cost of room when there are any, and leaves the
  others as they are.
\<close>

locale moves =
  fixes Fs :: "'f set"
    and ok :: "'s \<Rightarrow> bool"
    and le :: "'s \<Rightarrow> 's \<Rightarrow> bool"
    and same :: "'f \<Rightarrow> 's \<Rightarrow> 's \<Rightarrow> bool"
    and room :: "'s \<Rightarrow> nat"
  assumes le_refl: "le s s" and le_trans: "le a b \<Longrightarrow> le b c \<Longrightarrow> le a c"
    and same_refl: "same f s s" and same_trans: "same f a b \<Longrightarrow> same f b c \<Longrightarrow> same f a c"
begin

definition adv :: "'f list \<Rightarrow> 's \<Rightarrow> 's \<Rightarrow> bool" where
  "adv fs s s' \<longleftrightarrow> ok s' \<and> le s s' \<and> set fs \<subseteq> Fs \<and> room s' \<le> room s \<and> (fs \<noteq> [] \<longrightarrow> room s' < room s) \<and>
     (\<forall>g \<in> Fs. g \<notin> set fs \<longrightarrow> same g s s')"

lemma adv_refl: "ok s \<Longrightarrow> adv [] s s"
  by (simp add: adv_def le_refl same_refl)

lemma adv_trans:
  assumes "adv fs s s1" "adv gs s1 s2"
  shows "adv (fs @ gs) s s2"
  unfolding adv_def
proof (intro conjI)
  show "le s s2" using assms le_trans unfolding adv_def by blast
  show "\<forall>g \<in> Fs. g \<notin> set (fs @ gs) \<longrightarrow> same g s s2" using assms same_trans unfolding adv_def by fastforce
  show "fs @ gs \<noteq> [] \<longrightarrow> room s2 < room s" using assms unfolding adv_def by (cases "fs = []"; cases "gs = []") auto
qed (use assms in \<open>auto simp: adv_def\<close>)

text \<open>What an item has passed on for a function holds until the function changes.\<close>

lemma emit_all_moves:
  assumes "\<And>x s. x \<in> set xs \<Longrightarrow> ok s \<Longrightarrow> \<exists>fs s'. em x s = Some (fs, s') \<and> adv fs s s' \<and> (tg x \<notin> set fs \<longrightarrow> srv x s')"
    and "\<And>x s s'. x \<in> set xs \<Longrightarrow> srv x s \<Longrightarrow> same (tg x) s s' \<Longrightarrow> le s s' \<Longrightarrow> srv x s'" and "tg ` set xs \<subseteq> Fs" "ok s"
  shows "\<exists>fs s'. emit_all em xs s = Some (fs, s') \<and> adv fs s s' \<and> (\<forall>x \<in> set xs. tg x \<notin> set fs \<longrightarrow> srv x s')"
  using assms
proof (induction xs arbitrary: s)
  case Nil
  then show ?case by (simp add: adv_refl)
next
  case (Cons x xs)
  obtain fs s1 where s1: "em x s = Some (fs, s1)" "adv fs s s1" "tg x \<notin> set fs \<longrightarrow> srv x s1"
    using Cons.prems(1) [of x s] Cons.prems(4) by auto
  have "\<exists>gs s2. emit_all em xs s1 = Some (gs, s2) \<and> adv gs s1 s2 \<and> (\<forall>x \<in> set xs. tg x \<notin> set gs \<longrightarrow> srv x s2)"
  proof (rule Cons.IH)
    show "ok s1" using s1(2) by (simp add: adv_def)
    show "tg ` set xs \<subseteq> Fs" using Cons.prems(3) by simp
  qed (use Cons.prems(1,2) in \<open>simp_all add: list.set_intros\<close>)
  then obtain gs s2 where s2: "emit_all em xs s1 = Some (gs, s2)" "adv gs s1 s2" "\<forall>x \<in> set xs. tg x \<notin> set gs \<longrightarrow> srv x s2"
    by blast
  have "srv x s2" if t: "tg x \<notin> set (fs @ gs)"
  proof (rule Cons.prems(2))
    show "srv x s1" using s1(3) t by simp
    show "same (tg x) s1 s2" "le s1 s2" using s2(2) t Cons.prems(3) by (simp_all add: adv_def)
  qed simp
  then show ?case using s1(1) s2(1,3) adv_trans [OF s1(2) s2(2)] by (intro exI [of _ "fs @ gs"] exI [of _ s2]) auto
qed

end

locale propagation = moves Fs ok le same room
  for Fs :: "'f set" and ok :: "'s \<Rightarrow> bool" and le :: "'s \<Rightarrow> 's \<Rightarrow> bool" and same :: "'f \<Rightarrow> 's \<Rightarrow> 's \<Rightarrow> bool" and room :: "'s \<Rightarrow> nat" +
  fixes calc :: "'f \<Rightarrow> 's \<Rightarrow> 's option"
    and emit :: "'f \<Rightarrow> 's \<Rightarrow> ('f list \<times> 's) option"
    and closed :: "'f \<Rightarrow> 's \<Rightarrow> bool"
    and served :: "'f \<Rightarrow> 's \<Rightarrow> bool"
  assumes calc_law: "f \<in> Fs \<Longrightarrow> ok s \<Longrightarrow>
      \<exists>s'. calc f s = Some s' \<and> ok s' \<and> le s s' \<and> closed f s' \<and> room s' \<le> room s \<and> (\<forall>g \<in> Fs. g \<noteq> f \<longrightarrow> same g s s')"
    and emit_law: "f \<in> Fs \<Longrightarrow> ok s \<Longrightarrow> \<exists>fs s'. emit f s = Some (fs, s') \<and> adv fs s s' \<and> (f \<notin> set fs \<longrightarrow> served f s')"
    and closed_same: "f \<in> Fs \<Longrightarrow> closed f s \<Longrightarrow> same f s s' \<Longrightarrow> closed f s'"
    and served_same: "f \<in> Fs \<Longrightarrow> served f s \<Longrightarrow> same f s s' \<Longrightarrow> le s s' \<Longrightarrow> served f s'"
begin

lemma calc_all:
  assumes "set Q \<subseteq> Fs" "ok s"
  shows "\<exists>s'. fold_opt calc Q s = Some s' \<and> ok s' \<and> le s s' \<and> room s' \<le> room s \<and> (\<forall>f \<in> set Q. closed f s') \<and>
           (\<forall>g \<in> Fs. g \<notin> set Q \<longrightarrow> same g s s')"
  using assms
proof (induction Q arbitrary: s)
  case Nil
  then show ?case using le_refl same_refl by simp
next
  case (Cons f Q)
  obtain s1 where s1: "calc f s = Some s1" "ok s1" "le s s1" "closed f s1" "room s1 \<le> room s" "\<forall>g \<in> Fs. g \<noteq> f \<longrightarrow> same g s s1"
    using calc_law [of f s] Cons.prems by auto
  obtain s2 where s2: "fold_opt calc Q s1 = Some s2" "ok s2" "le s1 s2" "room s2 \<le> room s1" "\<forall>f \<in> set Q. closed f s2"
    "\<forall>g \<in> Fs. g \<notin> set Q \<longrightarrow> same g s1 s2"
    using Cons.IH [OF _ s1(2)] Cons.prems by auto
  have "closed f s2" using s1(4) s2(5,6) closed_same Cons.prems(1) by (cases "f \<in> set Q") auto
  then show ?case using s1 s2 le_trans same_trans by auto
qed

lemma emit_all_law:
  assumes "set Q \<subseteq> Fs" "ok s"
  shows "\<exists>tmp s'. emit_all emit Q s = Some (tmp, s') \<and> adv tmp s s' \<and> (\<forall>f \<in> set Q. f \<notin> set tmp \<longrightarrow> served f s')"
proof (rule emit_all_moves [where tg = "\<lambda>f. f"])
  fix f t assume "f \<in> set Q" "ok t"
  then show "\<exists>fs s'. emit f t = Some (fs, s') \<and> adv fs t s' \<and> (f \<notin> set fs \<longrightarrow> served f s')"
    using emit_law assms(1) by blast
next
  fix f t t' assume "f \<in> set Q" "served f t" "same f t t'" "le t t'"
  then show "served f t'" using served_same assms(1) by blast
qed (use assms in simp_all)

definition owed :: "'f set \<Rightarrow> 's \<Rightarrow> 'f list \<Rightarrow> 's \<Rightarrow> bool" where
  "owed Q0 s0 Q s \<longleftrightarrow>
     ok s \<and> le s0 s \<and> set Q \<subseteq> Fs \<and> (\<forall>f \<in> Fs. f \<in> set Q \<or> closed f s \<and> served f s \<or> f \<notin> Q0 \<and> same f s0 s)"

lemma owed_round:
  assumes p: "owed Q0 s0 Q s"
  shows "\<exists>s1 tmp s2. fold_opt calc Q s = Some s1 \<and> emit_all emit Q s1 = Some (tmp, s2) \<and> owed Q0 s0 tmp s2 \<and>
           (tmp \<noteq> [] \<longrightarrow> room s2 < room s)"
proof -
  have Q: "set Q \<subseteq> Fs" "ok s" "le s0 s" using p by (simp_all add: owed_def)
  obtain s1 where s1: "fold_opt calc Q s = Some s1" "ok s1" "le s s1" "room s1 \<le> room s" "\<forall>f \<in> set Q. closed f s1"
    "\<forall>g \<in> Fs. g \<notin> set Q \<longrightarrow> same g s s1"
    using calc_all [OF Q(1,2)] by blast
  obtain tmp s2 where s2: "emit_all emit Q s1 = Some (tmp, s2)" "ok s2" "le s1 s2" "set tmp \<subseteq> Fs" "room s2 \<le> room s1"
    "tmp \<noteq> [] \<longrightarrow> room s2 < room s1" "\<forall>g \<in> Fs. g \<notin> set tmp \<longrightarrow> same g s1 s2" "\<forall>f \<in> set Q. f \<notin> set tmp \<longrightarrow> served f s2"
    using emit_all_law [OF Q(1) s1(2)] unfolding adv_def by blast
  have le: "le s s2" using le_trans [OF s1(3) s2(3)] .
  have "f \<in> set tmp \<or> closed f s2 \<and> served f s2 \<or> f \<notin> Q0 \<and> same f s0 s2" if f: "f \<in> Fs" for f
  proof (cases "f \<in> set tmp \<or> f \<in> set Q")
    case True
    then show ?thesis using s1(5) s2(7,8) f closed_same [OF f] by blast
  next
    case False
    then have sm: "same f s s2" using s1(6) s2(7) f same_trans by blast
    have "closed f s \<and> served f s \<or> f \<notin> Q0 \<and> same f s0 s" using p f False by (auto simp: owed_def)
    then show ?thesis using sm le closed_same [OF f] served_same [OF f] same_trans by blast
  qed
  then have "owed Q0 s0 tmp s2" using s2(2,4) le_trans [OF Q(3) le] by (simp add: owed_def)
  then show ?thesis using s1(1,4) s2(1,6) by (intro exI [of _ s1] exI [of _ tmp] exI [of _ s2]) auto
qed

lemma worklist_settles:
  assumes "owed Q0 s0 Q s"
  shows "\<exists>s'. worklist calc emit Q s = Some s' \<and> owed Q0 s0 [] s'"
  using assms
proof (induction "room s" arbitrary: Q s rule: less_induct)
  case less
  show ?case
  proof (cases "Q = []")
    case True
    then show ?thesis using less.prems by (simp add: worklist.simps)
  next
    case False
    obtain s1 tmp s2 where r: "fold_opt calc Q s = Some s1" "emit_all emit Q s1 = Some (tmp, s2)" "owed Q0 s0 tmp s2"
      "tmp \<noteq> [] \<longrightarrow> room s2 < room s"
      using owed_round [OF less.prems] by blast
    have w: "worklist calc emit Q s = worklist calc emit tmp s2" using False r(1,2) by (subst worklist.simps) simp
    show ?thesis
    proof (cases "tmp = []")
      case True
      then show ?thesis using w r(3) by (simp add: worklist.simps)
    next
      case tmp: False
      then show ?thesis using less.hyps [OF _ r(3)] r(4) w by simp
    qed
  qed
qed

lemma worklist_solution:
  assumes "ok s" "set Q \<subseteq> Fs"
  shows "\<exists>s'. worklist calc emit Q s = Some s' \<and> ok s' \<and> le s s' \<and>
           (\<forall>f \<in> Fs. f \<in> set Q \<or> \<not> same f s s' \<longrightarrow> closed f s' \<and> served f s')"
proof -
  have "owed (set Q) s Q s" using assms le_refl same_refl by (auto simp: owed_def)
  from worklist_settles [OF this] show ?thesis by (auto simp: owed_def)
qed

end

end
