(* ===== verification/Remove_Undefs.thy ===== *)
theory Remove_Undefs
  imports Function_Slicer Worklist
begin

text \<open>
  The clean-up after slicing (\<open>removeUndefs\<close> in
  \<open>passes/slicer/Slicing/FunctionStaticSlicer.cpp\<close>): branches on undefined values become jumps
  to the immediate post-dominator, and calls of undefined values are removed.

  What LLVM supplies is the record \<open>llvm_lib\<close>: the undefined and the null value of a type, the
  address of the branch that replaces the terminator of a block, and the post-dominator tree of a
  function.  None is a failed assertion.  The warning about changed phi nodes is left out.
\<close>

declare split_paired_All [simp del] split_paired_Ex [simp del]

section \<open>The code\<close>

record llvm_lib =
  undefValue :: "ty \<Rightarrow> val"
  nullValue :: "ty \<Rightarrow> val"
  newBranch :: "val \<Rightarrow> nat \<Rightarrow> val"
  postDomTree :: "val \<Rightarrow> dom_node option"

text \<open>The node among whose children the node of a block is.\<close>

fun getIDom :: "dom_node \<Rightarrow> nat \<Rightarrow> dom_node option" where
  "getIDom (DomNode b cs) k =
     (if list_ex (\<lambda>c. getBlock c = Some k) cs then Some (DomNode b cs)
      else case filter (\<lambda>r. r \<noteq> None) (map (\<lambda>c. getIDom c k) cs) of r # _ \<Rightarrow> r | [] \<Rightarrow> None)"

text \<open>A block with several successors that ends in a branch or a switch on an undefined value.\<close>

definition undef_branch :: "llvm_module \<Rightarrow> bblock \<Rightarrow> bool" where
  "undef_branch m bb \<longleftrightarrow>
     \<not> length (bb_succs bb) \<le> 1 \<and>
     (case kind m (last (bb_insts bb)) of
        BranchInst (Some cond) \<Rightarrow> kind m cond = UndefValue
      | SwitchInst cond \<Rightarrow> kind m cond = UndefValue
      | _ \<Rightarrow> False)"

definition addIncoming :: "val \<Rightarrow> nat \<Rightarrow> val \<Rightarrow> llvm_module \<Rightarrow> llvm_module" where
  "addIncoming v k phi m =
     (case kind m phi of
        PHINode vs \<Rightarrow>
          m\<lparr>kind := (kind m)(phi := PHINode (vs @ [v])), phi_blocks := (phi_blocks m)(phi := phi_blocks m phi @ [k])\<rparr>
      | _ \<Rightarrow> m)"

text \<open>The first phi node of the destination gets a null value for the block, unless it has a value for it.\<close>

definition extend_phi :: "llvm_lib \<Rightarrow> val \<Rightarrow> nat \<Rightarrow> nat \<Rightarrow> llvm_module \<Rightarrow> llvm_module" where
  "extend_phi L f k dest m =
     (case bb_insts (fun_blocks m f ! dest) of
        [] \<Rightarrow> m
      | front # _ \<Rightarrow> if k \<in> set (phi_blocks m front) then m else addIncoming (nullValue L (getType m front)) k front m)"

definition replaceTerminator :: "val \<Rightarrow> val \<Rightarrow> nat \<Rightarrow> nat \<Rightarrow> llvm_module \<Rightarrow> llvm_module" where
  "replaceTerminator newI f k dest m =
     m\<lparr>kind := (kind m)(newI := BranchInst None), getType := (getType m)(newI := VoidTy), fun_of := (fun_of m)(newI := f),
       fun_blocks := (fun_blocks m)(f := (fun_blocks m f)
         [k := \<lparr>bb_insts = butlast (bb_insts (fun_blocks m f ! k)) @ [newI], bb_succs = [dest]\<rparr>])\<rparr>"

definition removeUndefBranch :: "llvm_lib \<Rightarrow> val \<Rightarrow> nat \<Rightarrow> llvm_module \<Rightarrow> llvm_module option" where
  "removeUndefBranch L f k m =
     (if \<not> undef_branch m (fun_blocks m f ! k) then Some m
      else case postDomTree L f of
             None \<Rightarrow> Some m
           | Some PDT \<Rightarrow>
               if k \<notin> set (node_blocks PDT) then Some m
               else case getIDom PDT k of
                      None \<Rightarrow> None
                    | Some idom \<Rightarrow>
                        (case getBlock idom of
                           None \<Rightarrow> Some m
                         | Some dest \<Rightarrow> Some (replaceTerminator (newBranch L f k) f k dest (extend_phi L f k dest m))))"

definition removeUndefBranches :: "llvm_lib \<Rightarrow> val \<Rightarrow> llvm_module \<Rightarrow> llvm_module option" where
  "removeUndefBranches L f m = fold_opt (removeUndefBranch L f) [0..<length (fun_blocks m f)] m"

definition removeUndefCalls :: "(ty \<Rightarrow> val) \<Rightarrow> val \<Rightarrow> llvm_module \<Rightarrow> llvm_module" where
  "removeUndefCalls undef f m =
     fold (\<lambda>i m.
       case kind m i of
         CallInst cv _ \<Rightarrow>
           if kind m cv = UndefValue then eraseFromParent i (replaceAllUsesWith i (undef (getType m i)) m) else m
       | _ \<Rightarrow> m) (insts m f) m"

definition removeUndefs :: "llvm_lib \<Rightarrow> val \<Rightarrow> llvm_module \<Rightarrow> llvm_module option" where
  "removeUndefs L f m = map_option (removeUndefCalls (undefValue L) f) (removeUndefBranches L f m)"

section \<open>The assertion cannot fail\<close>

text \<open>When the root of the post-dominator tree is the virtual exit, every block in it has an immediate post-dominator.\<close>

lemma getIDom_below:
  assumes "k \<in> set (node_blocks n)" "getBlock n \<noteq> Some k"
  shows "getIDom n k \<noteq> None"
  using assms
proof (induction n)
  case (DomNode b cs)
  show ?case
  proof (cases "list_ex (\<lambda>c. getBlock c = Some k) cs")
    case False
    obtain c where c: "c \<in> set cs" "k \<in> set (node_blocks c)" using DomNode.prems by (auto split: option.splits)
    then have "getIDom c k \<noteq> None" using DomNode.IH [OF c] False by (auto simp: list_ex_iff)
    then obtain r rs where "filter (\<lambda>r. r \<noteq> None) (map (\<lambda>c. getIDom c k) cs) = r # rs" "r \<noteq> None"
      using c(1) by (cases "filter (\<lambda>r. r \<noteq> None) (map (\<lambda>c. getIDom c k) cs)")
        (auto simp: filter_empty_conv filter_eq_Cons_iff)
    then show ?thesis using False by simp
  qed simp
qed

definition rooted_at_exit :: "llvm_lib \<Rightarrow> bool" where
  "rooted_at_exit L \<longleftrightarrow> (\<forall>f PDT. postDomTree L f = Some PDT \<longrightarrow> getBlock PDT = None)"

lemma removeUndefBranch_returns:
  assumes "rooted_at_exit L"
  shows "\<exists>m'. removeUndefBranch L f k m = Some m'"
proof -
  have "getIDom PDT k \<noteq> None" if "postDomTree L f = Some PDT" "k \<in> set (node_blocks PDT)" for PDT
    using getIDom_below [OF that(2)] assms that(1) by (simp add: rooted_at_exit_def)
  then show ?thesis by (auto simp: removeUndefBranch_def split: option.splits)
qed

lemma removeUndefs_returns:
  assumes "rooted_at_exit L"
  shows "\<exists>m'. removeUndefs L f m = Some m'"
proof -
  have "\<exists>m'. fold_opt (removeUndefBranch L f) ks m = Some m'" for ks
  proof (induction ks arbitrary: m)
    case (Cons k ks)
    obtain m1 where "removeUndefBranch L f k m = Some m1" using removeUndefBranch_returns [OF assms] by blast
    then show ?case using Cons.IH by simp
  qed simp
  then obtain m1 where "removeUndefBranches L f m = Some m1" unfolding removeUndefBranches_def by blast
  then show ?thesis by (simp add: removeUndefs_def)
qed

section \<open>Calls of functions stay\<close>

text \<open>The instruction \<open>i\<close> of the function \<open>f\<close> is a call of the function \<open>g\<close>.\<close>

definition call_stays :: "val \<Rightarrow> val \<Rightarrow> val \<Rightarrow> llvm_module \<Rightarrow> bool" where
  "call_stays i f g m \<longleftrightarrow> i \<in> set (insts m f) \<and> getCalledFunction m i = Some g"

lemma call_stays_iff:
  "call_stays i f g m \<longleftrightarrow> i \<in> set (insts m f) \<and> (\<exists>args. kind m i = CallInst g args) \<and> isFunction m g"
  by (auto simp: call_stays_def getCalledFunction_def split: vkind.splits)

lemma isFunction_with [simp]: "isFunction (replaceAllUsesWith x u m) v = isFunction m v"
  by (auto simp: isFunction_def replaceAllUsesWith_def with_operands_def split: vkind.splits)

lemma isFunction_erase [simp]: "isFunction (eraseFromParent x m) v = isFunction m v"
  by (simp add: isFunction_def eraseFromParent_def)

lemma insts_erase: "insts (eraseFromParent x (replaceAllUsesWith x u m)) f = filter (\<lambda>j. j \<noteq> x) (insts m f)"
  by (simp add: insts_def eraseFromParent_def replaceAllUsesWith_def filter_concat comp_def)

lemma erase_call_stays:
  assumes "call_stays i f g m" "x \<noteq> i" "\<not> isFunction m x"
  shows "call_stays i f g (eraseFromParent x (replaceAllUsesWith x u m))"
proof -
  obtain args where k: "i \<in> set (insts m f)" "kind m i = CallInst g args" "isFunction m g"
    using assms(1) by (auto simp: call_stays_iff)
  then have "kind (eraseFromParent x (replaceAllUsesWith x u m)) i = CallInst g (map (\<lambda>y. if y = x then u else y) args)"
    using assms(3) by (auto simp: eraseFromParent_def replaceAllUsesWith_def with_operands_def)
  then show ?thesis using k assms(2) by (simp add: call_stays_iff insts_erase)
qed

lemma slice_call_stays:
  assumes "call_stays i f g m" "\<not> sliced (st i)" "\<forall>x \<in> set (insts m h). \<not> isFunction m x"
  shows "call_stays i f g (snd (slice_function undef st h m))" "isFunction (snd (slice_function undef st h m)) = isFunction m"
    "set (insts (snd (slice_function undef st h m)) h') \<subseteq> set (insts m h')"
proof -
  have "call_stays i f g (snd (fold (slice_step undef st) xs (b, m1))) \<and>
      isFunction (snd (fold (slice_step undef st) xs (b, m1))) = isFunction m1 \<and>
      set (insts (snd (fold (slice_step undef st) xs (b, m1))) h') \<subseteq> set (insts m1 h')"
    if "call_stays i f g m1" "\<forall>x \<in> set xs. \<not> isFunction m1 x" for xs b m1
    using that
  proof (induction xs arbitrary: b m1)
    case (Cons x xs)
    obtain b2 m2 where m2: "slice_step undef st x (b, m1) = (b2, m2)" by (cases "slice_step undef st x (b, m1)")
    have "call_stays i f g m2 \<and> isFunction m2 = isFunction m1 \<and> set (insts m2 h') \<subseteq> set (insts m1 h')"
    proof (cases "removed m1 st x")
      case True
      then have "x \<noteq> i" using assms(2) by (auto simp: removed_def)
      moreover have "m2 = eraseFromParent x (replaceAllUsesWith x (undef (getType m1 x)) m1)"
        using m2 True by (auto simp: slice_step_def)
      ultimately show ?thesis using erase_call_stays [OF Cons.prems(1)] Cons.prems(2) by (auto simp: insts_erase)
    next
      case False
      then have "m2 = m1" using m2 by (auto simp: slice_step_def)
      then show ?thesis using Cons.prems(1) by simp
    qed
    then show ?case using Cons.IH [of m2 b2] Cons.prems(2) m2 by auto
  qed simp
  from this [OF assms(1,3)] show "call_stays i f g (snd (slice_function undef st h m))"
    "isFunction (snd (slice_function undef st h m)) = isFunction m"
    "set (insts (snd (slice_function undef st h m)) h') \<subseteq> set (insts m h')"
    by (simp_all add: slice_steps)
qed

lemma removeUndefCalls_stays: "call_stays i f g m \<Longrightarrow> call_stays i f g (removeUndefCalls undef h m)"
proof -
  have "call_stays i f g (fold (\<lambda>i m. case kind m i of
         CallInst cv _ \<Rightarrow>
           if kind m cv = UndefValue then eraseFromParent i (replaceAllUsesWith i (undef (getType m i)) m) else m
       | _ \<Rightarrow> m) xs m)" if "call_stays i f g m" for xs m
    using that
  proof (induction xs arbitrary: m)
    case (Cons x xs)
    have "x \<noteq> i \<and> \<not> isFunction m x" if "kind m x = CallInst cv args" "kind m cv = UndefValue" for cv args
      using Cons.prems that by (auto simp: call_stays_iff isFunction_def)
    then show ?case using Cons.IH Cons.prems erase_call_stays by (auto split: vkind.split)
  qed simp
  then show "call_stays i f g m \<Longrightarrow> call_stays i f g (removeUndefCalls undef h m)" by (simp add: removeUndefCalls_def)
qed

lemma extend_phi_stays: "call_stays i f g m \<Longrightarrow> call_stays i f g (extend_phi L h k dest m)"
  by (auto simp: call_stays_iff extend_phi_def addIncoming_def isFunction_def insts_def split: list.split vkind.splits)

lemma extend_phi_blocks [simp]: "fun_blocks (extend_phi L h k dest m) = fun_blocks m"
  by (simp add: extend_phi_def addIncoming_def split: list.split vkind.split)

lemma replaceTerminator_stays:
  assumes "call_stays i f g m" "newI \<noteq> i" "newI \<noteq> g" "last (bb_insts (fun_blocks m h ! k)) \<noteq> i"
  shows "call_stays i f g (replaceTerminator newI h k dest m)"
proof -
  have "i \<in> set (insts (replaceTerminator newI h k dest m) f)"
  proof (cases "f = h \<and> k < length (fun_blocks m h)")
    case True
    let ?bs = "fun_blocks m h"
    let ?b = "\<lparr>bb_insts = butlast (bb_insts (?bs ! k)) @ [newI], bb_succs = [dest]\<rparr>"
    obtain b where "b \<in> set ?bs" "i \<in> set (bb_insts b)" using assms(1) True by (auto simp: call_stays_iff insts_def)
    then obtain j where j: "j < length ?bs" "i \<in> set (bb_insts (?bs ! j))" by (auto simp: in_set_conv_nth [of b])
    have "i \<in> set (bb_insts (?bs[k := ?b] ! j))"
    proof (cases "j = k")
      case True
      have "bb_insts (?bs ! k) \<noteq> []" using j(2) True by auto
      then have "i \<in> set (butlast (bb_insts (?bs ! k)) @ [last (bb_insts (?bs ! k))])" using j(2) True by simp
      then show ?thesis using assms(4) j(1) True by simp
    qed (use j in simp)
    then have "\<exists>b \<in> set (?bs[k := ?b]). i \<in> set (bb_insts b)" using j(1) by (metis length_list_update nth_mem)
    then show ?thesis using True by (auto simp: insts_def replaceTerminator_def)
  next
    case False
    then show ?thesis using assms(1) by (auto simp: call_stays_iff insts_def replaceTerminator_def not_less list_update_beyond)
  qed
  then show ?thesis using assms by (auto simp: call_stays_iff replaceTerminator_def isFunction_def)
qed

lemma removeUndefBranch_stays:
  assumes "removeUndefBranch L h k m = Some m'" "call_stays i f g m" "newBranch L h k \<noteq> i" "newBranch L h k \<noteq> g"
  shows "call_stays i f g m'"
proof (cases "m' = m")
  case False
  then obtain dest where d: "undef_branch m (fun_blocks m h ! k)"
    "m' = replaceTerminator (newBranch L h k) h k dest (extend_phi L h k dest m)"
    using assms(1) by (auto simp: removeUndefBranch_def split: if_splits option.splits)
  have "last (bb_insts (fun_blocks m h ! k)) \<noteq> i"
    using d(1) assms(2) by (auto simp: undef_branch_def call_stays_iff)
  then show ?thesis
    unfolding d(2) using replaceTerminator_stays [OF extend_phi_stays [OF assms(2)] assms(3,4)] by simp
qed (use assms in simp)

lemma removeUndefs_stays:
  assumes "removeUndefs L h m = Some m'" "call_stays i f g m" "\<forall>k. newBranch L h k \<noteq> i \<and> newBranch L h k \<noteq> g"
  shows "call_stays i f g m'"
proof -
  obtain m1 where m1: "fold_opt (removeUndefBranch L h) [0..<length (fun_blocks m h)] m = Some m1"
    "m' = removeUndefCalls (undefValue L) h m1"
    using assms(1) by (auto simp: removeUndefs_def removeUndefBranches_def)
  have "call_stays i f g m1"
    by (rule fold_opt_inv [where Q = "call_stays i f g", OF m1(1) assms(2)]) (use assms(3) removeUndefBranch_stays in blast)
  then show ?thesis unfolding m1(2) by (rule removeUndefCalls_stays)
qed

end
