(* ===== verification/Static_Slicer.thy ===== *)
theory Static_Slicer
  imports Remove_Undefs Env
begin

text \<open>
  Slicing of a module: the criteria (\<open>findInitialCriterion\<close> in
  \<open>passes/slicer/Slicing/FunctionStaticSlicer.cpp\<close>) and the propagation between functions
  (\<open>passes/slicer/Slicing/StaticSlicer.cpp\<close>).

  An instruction belongs to one function, so the slicers of the functions are one map from
  instructions to their \<open>InsInfo\<close>.  An instruction whose function has no slicer keeps the empty
  information, and is not read.  The sets of calls and functions are lists; the entries of a
  multimap under one key keep the order of their insertion.  The frontiers of every function are a
  parameter.  None is a failed assertion, an access past the end of a list or a loop that does
  not return.
\<close>

declare split_paired_All [simp del] split_paired_Ex [simp del]

section \<open>Criteria\<close>

definition addRC :: "val \<Rightarrow> pointer list \<Rightarrow> slicer \<Rightarrow> slicer" where
  "addRC i vs st = st(i := (st i)\<lparr>RC := sv_inserts vs (RC (st i))\<rparr>)"

definition addCriterion :: "val \<Rightarrow> pointer list \<Rightarrow> bool \<Rightarrow> slicer \<Rightarrow> bool \<times> slicer" where
  "addCriterion i vs desliceIfChanged st =
     (let st' = addRC i vs st; change = (length (RC (st' i)) \<noteq> length (RC (st i)))
      in (change, if change \<and> desliceIfChanged then deslice i st' else st'))"

definition addInitialCriterion :: "val \<Rightarrow> pointer option \<Rightarrow> slicer \<Rightarrow> slicer" where
  "addInitialCriterion i cond st = deslice i (case cond of Some p \<Rightarrow> addRC i [p] st | None \<Rightarrow> st)"

text \<open>\<open>(int) strtol(s, NULL, 10)\<close>\<close>

definition atoi :: "string \<Rightarrow> int" where
  "atoi s =
     (let (neg, body) = strtol_sign (dropWhile is_space s); (n, _) = digits_val 10 0 body
      in to_cint (max long_min (min long_max (if neg then - int n else int n))))"

text \<open>Comparison of a constant with an \<open>int\<close> that is converted to 64 bits.\<close>

definition equalsInt :: "llvm_module \<Rightarrow> val \<Rightarrow> int \<Rightarrow> bool" where
  "equalsInt m v n =
     (case (kind m v, getType m v) of (ConstantInt c, IntegerTy w) \<Rightarrow> c mod 2 ^ w = n mod 2 ^ 64 | _ \<Rightarrow> False)"

text \<open>A global by its name; the text of the string a global is initialised with, without the end.\<close>

definition getGlobalVariable :: "llvm_module \<Rightarrow> string \<Rightarrow> val option" where
  "getGlobalVariable m n = find (\<lambda>g. getName m g = n) (m_globals m)"

definition getFunction :: "llvm_module \<Rightarrow> string \<Rightarrow> val option" where
  "getFunction m n = find (\<lambda>f. case kind m f of Function name _ _ \<Rightarrow> name = n | _ \<Rightarrow> False) (m_functions m)"

definition fileArgStr :: "llvm_module \<Rightarrow> val list \<Rightarrow> string option" where
  "fileArgStr m ops =
     (case ops of
        g # _ \<Rightarrow> (case kind m g of GlobalVariable _ (Some str) \<Rightarrow> getCString m str | _ \<Rightarrow> None)
      | [] \<Rightarrow> None)"

text \<open>The slicer, with the calls whose assertions are skipped.\<close>

definition handleAssert :: "llvm_module \<Rightarrow> environ \<Rightarrow> val \<Rightarrow> val list \<Rightarrow> slicer \<times> val list \<Rightarrow> (bool \<times> slicer \<times> val list) option" where
  "handleAssert m env CI args ss =
     (case args of
        _ # fileArg # lineArg # _ \<Rightarrow>
          let aif = map_option (\<lambda>g. (g, - 1)) (getGlobalVariable m ''__ai_init_functions'');
              counted = (True, addInitialCriterion CI aif (fst ss), snd ss);
              skipped = (False, fst ss, sv_insert CI (snd ss))
          in case (env ''SLICE_ASSERT_FILE'', env ''SLICE_ASSERT_LINE'') of
               (Some ass_file, Some ass_line) \<Rightarrow>
                 (case (kind m fileArg, kind m lineArg) of
                    (ConstantExpr opc ops, ConstantInt _) \<Rightarrow>
                      if opc = CE_GetElementPtr
                      then Option.bind (fileArgStr m ops) (\<lambda>s.
                             Some (if s = ass_file \<and> equalsInt m lineArg (atoi ass_line) then counted else skipped))
                      else Some skipped
                  | _ \<Rightarrow> Some skipped)
             | _ \<Rightarrow> Some counted
      | _ \<Rightarrow> None)"

definition ai_state :: "llvm_module \<Rightarrow> val \<Rightarrow> bool" where
  "ai_state m v = (take 11 (getName m v) = ''__ai_state_'')"

definition criterion_of :: "llvm_module \<Rightarrow> environ \<Rightarrow> bool \<Rightarrow> val \<Rightarrow> val \<Rightarrow> bool \<times> slicer \<times> val list \<Rightarrow> (bool \<times> slicer \<times> val list) option" where
  "criterion_of m env starting assert_fail i = (\<lambda>(added, st, skip).
     case kind m i of
       StoreInst _ LHS \<Rightarrow> Some (added, if ai_state m LHS then addInitialCriterion i (Some (LHS, - 1)) st else st, skip)
     | CallInst _ args \<Rightarrow>
         if getCalledFunction m i = Some assert_fail then handleAssert m env i args (st, skip)
         else if getCalledFunction m i = getFunction m ''klee_assume''
         then (case args of
                 a0 # _ \<Rightarrow> Option.bind (elimConstExpr m a0) (\<lambda>l. Some (added, addInitialCriterion i (Some (l, - 1)) st, skip))
               | [] \<Rightarrow> None)
         else Some (added, st, skip)
     | ReturnInst _ \<Rightarrow>
         Some (added,
               if starting then fold (\<lambda>g. if ai_state m g then addInitialCriterion i (Some (g, - 1)) else id) (m_globals m) st else st,
               skip)
     | _ \<Rightarrow> Some (added, st, skip))"

definition findInitialCriterion :: "llvm_module \<Rightarrow> environ \<Rightarrow> val \<Rightarrow> bool \<Rightarrow> slicer \<times> val list \<Rightarrow> (bool \<times> slicer \<times> val list) option" where
  "findInitialCriterion m env f starting ss =
     (case getFunction m ''__assert_fail'' of
        None \<Rightarrow> Some (False, ss)
      | Some assert_fail \<Rightarrow> fold_opt (criterion_of m env starting assert_fail) (insts m f) (False, ss))"

section \<open>The slicers of a module\<close>

record static_slicer =
  slicers :: slicer
  skipAssert :: "val list"
  initFuns :: "val list"
  funcsToCalls :: "(val \<times> val) list"
  callsToFuncs :: "(val \<times> val) list"

definition FunctionStaticSlicer :: "llvm_module \<Rightarrow> pts \<Rightarrow> modifies \<Rightarrow> val \<Rightarrow> slicer \<Rightarrow> slicer option" where
  "FunctionStaticSlicer m PS MOD f st =
     fold_opt (\<lambda>i st. map_option (\<lambda>ii. st(i := ii)) (InsInfo m PS MOD i)) (insts m f) st"

definition runFSS :: "llvm_module \<Rightarrow> environ \<Rightarrow> pts \<Rightarrow> callgraph \<Rightarrow> modifies \<Rightarrow> val \<Rightarrow> static_slicer \<Rightarrow> static_slicer option" where
  "runFSS m env PS CG MOD F ss =
     (let starting = (callees CG F = [])
      in Option.bind (FunctionStaticSlicer m PS MOD F (slicers ss)) (\<lambda>FSS.
         Option.bind (findInitialCriterion m env F starting (FSS, skipAssert ss)) (\<lambda>(hadAssert, FSS, skip).
           Some (ss\<lparr>slicers := FSS, skipAssert := skip,
                    initFuns := initFuns ss @ (if starting \<or> hadAssert then [F] else [])\<rparr>))))"

definition has_slicer :: "llvm_module \<Rightarrow> val \<Rightarrow> bool" where
  "has_slicer m f \<longleftrightarrow> \<not> isDeclaration m f \<and> \<not> memoryManStuff m f"

definition buildDicts_call :: "llvm_module \<Rightarrow> pts \<Rightarrow> val \<Rightarrow> static_slicer \<Rightarrow> static_slicer" where
  "buildDicts_call m PS c ss =
     fold (\<lambda>h ss.
       if has_slicer m h
       then ss\<lparr>funcsToCalls := funcsToCalls ss @ [(h, c)], callsToFuncs := callsToFuncs ss @ [(c, h)]\<rparr> else ss)
     (getCalledFunctions m c PS) ss"

definition buildDicts :: "llvm_module \<Rightarrow> pts \<Rightarrow> static_slicer \<Rightarrow> static_slicer" where
  "buildDicts m PS ss =
     fold (\<lambda>f ss.
       if has_slicer m f
       then fold (\<lambda>i ss. if isCallInst m i \<and> \<not> isInlineAssembly m i then buildDicts_call m PS i ss else ss) (insts m f) ss
       else ss) (m_functions m) ss"

definition no_slicers :: static_slicer where
  "no_slicers = \<lparr>slicers = (\<lambda>_. \<lparr>RC = [], DEF = [], REF = [], sliced = True\<rparr>), skipAssert = [], initFuns = [],
     funcsToCalls = [], callsToFuncs = []\<rparr>"

definition StaticSlicer :: "llvm_module \<Rightarrow> environ \<Rightarrow> pts \<Rightarrow> callgraph \<Rightarrow> modifies \<Rightarrow> static_slicer option" where
  "StaticSlicer m env PS CG MOD =
     map_option (buildDicts m PS)
       (fold_opt (\<lambda>f ss. if has_slicer m f then runFSS m env PS CG MOD f ss else Some ss) (m_functions m) no_slicers)"

section \<open>Propagation\<close>

text \<open>None is a call with more arguments than the function has parameters.\<close>

definition fillParamsToArgs :: "llvm_module \<Rightarrow> val \<Rightarrow> val \<Rightarrow> (pointer \<times> pointer) list option" where
  "fillParamsToArgs m C F =
     (case kind m C of
        CallInst _ args \<Rightarrow>
          if length args \<le> length (fun_args m F)
          then Some (map (\<lambda>(P, A). ((P, - 1), (A, - 1))) (filter (\<lambda>(P, A). \<not> isConstantValue m A) (zip (fun_args m F) args)))
          else None
      | _ \<Rightarrow> None)"

definition getRelevantVarsAtCall :: "llvm_module \<Rightarrow> val \<Rightarrow> val \<Rightarrow> pointer list \<Rightarrow> pointer list option" where
  "getRelevantVarsAtCall m C F rel =
     (if isInlineAssembly m C then None
      else Option.bind (fillParamsToArgs m C F) (\<lambda>toArgs.
        Some (fold (\<lambda>b out.
          case map_of toArgs b of
            Some a \<Rightarrow> set_insert a out
          | None \<Rightarrow> if \<not> isLocalToFunction m (fst b) F then set_insert b out else out) rel [])))"

text \<open>The loop returns at the value of the call when there is no value to return.\<close>

fun vars_at_exit :: "val \<Rightarrow> val option \<Rightarrow> pointer list \<Rightarrow> pointer list \<Rightarrow> pointer list" where
  "vars_at_exit C ret [] out = out"
| "vars_at_exit C ret (b # bs) out =
     (if fst b = C
      then case ret of None \<Rightarrow> out | Some r \<Rightarrow> vars_at_exit C ret bs (set_insert (r, - 1) out)
      else vars_at_exit C ret bs (set_insert b out))"

definition getRelevantVarsAtExit :: "llvm_module \<Rightarrow> val \<Rightarrow> val \<Rightarrow> pointer list \<Rightarrow> pointer list option" where
  "getRelevantVarsAtExit m C R rel =
     (if isInlineAssembly m C then None
      else Some (if callToVoidFunction m C then set_copy rel []
                 else vars_at_exit C (case kind m R of ReturnInst v \<Rightarrow> v | _ \<Rightarrow> None) rel []))"

definition getFunctionEntry :: "llvm_module \<Rightarrow> val \<Rightarrow> val" where
  "getFunctionEntry m F = hd (bb_insts (hd (fun_blocks m F)))"

fun succ_in :: "val list \<Rightarrow> val \<Rightarrow> val option" where
  "succ_in (i # j # is) x = (if i = x then Some j else succ_in (j # is) x)"
| "succ_in _ x = None"

definition getSuccInBlock :: "llvm_module \<Rightarrow> val \<Rightarrow> val option" where
  "getSuccInBlock m i =
     (case filter (\<lambda>b. i \<in> set (bb_insts b)) (fun_blocks m (fun_of m i)) of b # _ \<Rightarrow> succ_in (bb_insts b) i | [] \<Rightarrow> None)"

text \<open>One call of the function \<open>f\<close>, for which \<open>rel\<close> is relevant at its entry.\<close>

definition emitToCall :: "llvm_module \<Rightarrow> val list \<Rightarrow> val \<Rightarrow> pointer list \<Rightarrow> val \<Rightarrow> slicer \<Rightarrow> (val list \<times> slicer) option" where
  "emitToCall m skip f rel CI st =
     Option.bind (getRelevantVarsAtCall m CI f rel) (\<lambda>R.
       let (change, st) = addCriterion CI R (CI \<notin> set skip) st
       in Some (if change then ([fun_of m CI], snd (addCriterion CI (REF (st CI)) False st)) else ([], st)))"

definition emitToCalls :: "llvm_module \<Rightarrow> static_slicer \<Rightarrow> val \<Rightarrow> slicer \<Rightarrow> (val list \<times> slicer) option" where
  "emitToCalls m ss f st =
     emit_all (emitToCall m (skipAssert ss) f (RC (st (getFunctionEntry m f)))) (range_of (funcsToCalls ss) f) st"

text \<open>One exit of a called function, and all of them for one call.\<close>

definition emitToExit :: "llvm_module \<Rightarrow> val \<Rightarrow> pointer list \<Rightarrow> val \<times> val \<Rightarrow> slicer \<Rightarrow> (val list \<times> slicer) option" where
  "emitToExit m c rel ge st =
     Option.bind (getRelevantVarsAtExit m c (snd ge) rel) (\<lambda>R.
       let (change, st) = addCriterion (snd ge) R False st in Some (if change then [fst ge] else [], st))"

definition call_exits :: "llvm_module \<Rightarrow> static_slicer \<Rightarrow> val \<Rightarrow> (val \<times> val) list" where
  "call_exits m ss c = concat (map (\<lambda>g. map (Pair g) (getFunctionExits m g)) (range_of (callsToFuncs ss) c))"

definition emitToExits_call :: "llvm_module \<Rightarrow> static_slicer \<Rightarrow> val \<Rightarrow> slicer \<Rightarrow> (val list \<times> slicer) option" where
  "emitToExits_call m ss c st =
     Option.bind (getSuccInBlock m c) (\<lambda>s. emit_all (emitToExit m c (RC (st s))) (call_exits m ss c) st)"

definition emitToExits :: "llvm_module \<Rightarrow> static_slicer \<Rightarrow> val \<Rightarrow> slicer \<Rightarrow> (val list \<times> slicer) option" where
  "emitToExits m ss f st = emit_all (emitToExits_call m ss) (getFunctionCalls m f) st"

definition emit :: "llvm_module \<Rightarrow> static_slicer \<Rightarrow> val \<Rightarrow> slicer \<Rightarrow> (val list \<times> slicer) option" where
  "emit m ss f st =
     Option.bind (emitToCalls m ss f st) (\<lambda>(tmp, st). Option.bind (emitToExits m ss f st) (\<lambda>(tmp', st). Some (tmp @ tmp', st)))"

definition computeSlice :: "llvm_module \<Rightarrow> (val \<Rightarrow> nat \<Rightarrow> nat list option) \<Rightarrow> static_slicer \<Rightarrow> slicer option" where
  "computeSlice m pdf ss =
     worklist (\<lambda>f. calculateStaticSlice (fun_blocks m f) (pdf f)) (emit m ss) (initFuns ss) (slicers ss)"

text \<open>The removal in every function, in the order of their addresses, and the clean-up in the order of the module.\<close>

definition slice_all :: "(ty \<Rightarrow> val) \<Rightarrow> slicer \<Rightarrow> val list \<Rightarrow> bool \<times> llvm_module \<Rightarrow> bool \<times> llvm_module" where
  "slice_all undef st fs = fold (\<lambda>f (modified, m). let (rem, m) = slice_function undef st f m in (modified \<or> rem, m)) fs"

definition sliceModule :: "llvm_lib \<Rightarrow> slicer \<Rightarrow> llvm_module \<Rightarrow> (bool \<times> llvm_module) option" where
  "sliceModule L st m =
     (let (modified, m) = slice_all (undefValue L) st (sort (filter (has_slicer m) (m_functions m))) (False, m)
      in map_option (Pair modified)
           (if modified then fold_opt (\<lambda>f m. if isDeclaration m f then Some m else removeUndefs L f m) (m_functions m) m
            else Some m))"

definition runOnModule ::
    "llvm_lib \<Rightarrow> environ \<Rightarrow> (val \<Rightarrow> nat \<Rightarrow> nat list option) \<Rightarrow> llvm_module \<Rightarrow> (bool \<times> llvm_module) option" where
  "runOnModule L env pdf m =
     Option.bind (ProgramStructure m) (\<lambda>P.
     Option.bind (computePointsToSets m P (\<lambda>_. [])) (\<lambda>PS.
     Option.bind (Callgraph m PS) (\<lambda>CG.
     Option.bind (mods_ProgramStructure m) (\<lambda>P1.
       let MOD = computeModifies m P1 CG PS (\<lambda>_. [])
       in Option.bind (StaticSlicer m env PS CG MOD) (\<lambda>SS.
          Option.bind (computeSlice m pdf SS) (\<lambda>st. sliceModule L st m))))))"

text \<open>The pass that slices every function by itself.\<close>

definition runOnFunction ::
    "llvm_lib \<Rightarrow> environ \<Rightarrow> (val \<Rightarrow> nat \<Rightarrow> nat list option) \<Rightarrow> pts \<Rightarrow> modifies \<Rightarrow> val \<Rightarrow> llvm_module \<Rightarrow> (bool \<times> llvm_module) option" where
  "runOnFunction L env pdf PS MOD F m =
     Option.bind (FunctionStaticSlicer m PS MOD F (slicers no_slicers)) (\<lambda>ss.
     Option.bind (findInitialCriterion m env F False (ss, [])) (\<lambda>(_, ss, _).
     Option.bind (calculateStaticSlice (fun_blocks m F) (pdf F) ss) (\<lambda>ss.
       let (sliced, m) = slice_function (undefValue L) ss F m
       in map_option (Pair sliced) (if sliced then removeUndefs L F m else Some m))))"

definition FunctionSlicer_runOnModule ::
    "llvm_lib \<Rightarrow> environ \<Rightarrow> (val \<Rightarrow> nat \<Rightarrow> nat list option) \<Rightarrow> llvm_module \<Rightarrow> (bool \<times> llvm_module) option" where
  "FunctionSlicer_runOnModule L env pdf m =
     Option.bind (ProgramStructure m) (\<lambda>P.
     Option.bind (computePointsToSets m P (\<lambda>_. [])) (\<lambda>PS.
     Option.bind (Callgraph m PS) (\<lambda>CG.
     Option.bind (mods_ProgramStructure m) (\<lambda>P1.
       let MOD = computeModifies m P1 CG PS (\<lambda>_. [])
       in fold_opt (\<lambda>F (modified, m).
            if isDeclaration m F then Some (modified, m)
            else map_option (\<lambda>(s, m). (modified \<or> s, m)) (runOnFunction L env pdf PS MOD F m)) (m_functions m) (False, m)))))"

section \<open>The equations between functions\<close>

definition fns :: "llvm_module \<Rightarrow> val set" where
  "fns m = {f \<in> set (m_functions m). has_slicer m f}"

definition mod_insts :: "llvm_module \<Rightarrow> val set" where
  "mod_insts m = (\<Union>f \<in> fns m. set (insts m f))"

text \<open>The places that can be relevant.\<close>

definition mod_places :: "llvm_module \<Rightarrow> static_slicer \<Rightarrow> pointer set" where
  "mod_places m ss =
     (\<Union>i \<in> mod_insts m. set (RC (slicers ss i)) \<union> set (REF (slicers ss i)) \<union> (\<lambda>v. (v, - 1)) ` set (operands (kind m i)))"

definition same_in :: "llvm_module \<Rightarrow> val \<Rightarrow> slicer \<Rightarrow> slicer \<Rightarrow> bool" where
  "same_in m f st st' \<longleftrightarrow> (\<forall>i \<in> set (insts m f). st' i = st i)"

text \<open>A function is computed: its slicing equations hold.\<close>

definition fun_closed :: "llvm_module \<Rightarrow> (val \<Rightarrow> nat \<Rightarrow> nat list option) \<Rightarrow> static_slicer \<Rightarrow> val \<Rightarrow> slicer \<Rightarrow> bool" where
  "fun_closed m pdf ss f st \<longleftrightarrow>
     (\<forall>e \<in> edges (fun_blocks m f). edge_closed st e) \<and>
     (\<forall>i \<in> set (insts m f). needed (fun_blocks m f) st i \<or> \<not> sliced (slicers ss i) \<longrightarrow> branches_kept (fun_blocks m f) (pdf f) st i)"

text \<open>
  A function has passed on what it has: what is relevant at its entry is relevant at the calls of it,
  and what is relevant after a call in it is relevant at the exits of what is called.
\<close>

definition fun_served :: "llvm_module \<Rightarrow> static_slicer \<Rightarrow> val \<Rightarrow> slicer \<Rightarrow> bool" where
  "fun_served m ss f st \<longleftrightarrow>
     (\<forall>c \<in> set (range_of (funcsToCalls ss) f).
        \<exists>R. getRelevantVarsAtCall m c f (RC (st (getFunctionEntry m f))) = Some R \<and> set R \<subseteq> set (RC (st c))) \<and>
     (\<forall>c \<in> set (getFunctionCalls m f). \<forall>s. getSuccInBlock m c = Some s \<longrightarrow> (\<forall>ge \<in> set (call_exits m ss c).
        \<exists>R. getRelevantVarsAtExit m c (snd ge) (RC (st s)) = Some R \<and> set R \<subseteq> set (RC (st (snd ge)))))"

definition fun_wf :: "llvm_module \<Rightarrow> (val \<Rightarrow> nat \<Rightarrow> nat list option) \<Rightarrow> val \<Rightarrow> bool" where
  "fun_wf m pdf f \<longleftrightarrow>
     cfg_wf (fun_blocks m f) (pdf f) \<and> fun_blocks m f \<noteq> [] \<and> (\<forall>i \<in> set (insts m f). fun_of m i = f) \<and>
     (\<forall>c \<in> set (getFunctionCalls m f). getSuccInBlock m c \<noteq> None)"

definition links_ok :: "llvm_module \<Rightarrow> (val \<Rightarrow> nat \<Rightarrow> nat list option) \<Rightarrow> static_slicer \<Rightarrow> bool" where
  "links_ok m pdf ss \<longleftrightarrow>
     (\<forall>f \<in> fns m. fun_wf m pdf f) \<and>
     (\<forall>p \<in> set (funcsToCalls ss). snd p \<in> mod_insts m \<and> (\<forall>rel. getRelevantVarsAtCall m (snd p) (fst p) rel \<noteq> None)) \<and>
     (\<forall>p \<in> set (callsToFuncs ss). snd p \<in> fns m)"

definition ms_ok :: "llvm_module \<Rightarrow> (val \<Rightarrow> nat \<Rightarrow> nat list option) \<Rightarrow> static_slicer \<Rightarrow> slicer \<Rightarrow> bool" where
  "ms_ok m pdf ss st \<longleftrightarrow> links_ok m pdf ss \<and> sl_ok (mod_insts m) (mod_places m ss) (slicers ss) st"

abbreviation ms_room :: "llvm_module \<Rightarrow> static_slicer \<Rightarrow> slicer \<Rightarrow> nat" where
  "ms_room m ss \<equiv> sl_room (mod_insts m) (mod_places m ss)"

lemma same_in_trans: "same_in m f a b \<Longrightarrow> same_in m f b c \<Longrightarrow> same_in m f a c"
  by (simp add: same_in_def)

interpretation mv: moves "fns m" "ms_ok m pdf ss" sl_le "same_in m" "ms_room m ss" for m pdf ss
  by unfold_locales (auto intro: sl_le_trans same_in_trans simp: same_in_def)

section \<open>Relevance at calls and exits\<close>

lemma vars_at_call_sub:
  assumes "getRelevantVarsAtCall m C F rel = Some R"
  shows "set R \<subseteq> set rel \<union> (\<lambda>v. (v, - 1)) ` set (operands (kind m C))"
proof -
  obtain toArgs where t: "fillParamsToArgs m C F = Some toArgs"
    "R = fold (\<lambda>b out. case map_of toArgs b of Some a \<Rightarrow> set_insert a out
       | None \<Rightarrow> if \<not> isLocalToFunction m (fst b) F then set_insert b out else out) rel []"
    using assms by (auto simp: getRelevantVarsAtCall_def bind_eq_Some_conv split: if_splits)
  have a: "a \<in> (\<lambda>v. (v, - 1)) ` set (operands (kind m C))" if "map_of toArgs b = Some a" for a b
  proof -
    have "(b, a) \<in> set toArgs" using map_of_SomeD [OF that] .
    moreover obtain cv args where k: "kind m C = CallInst cv args" using t(1) by (auto simp: fillParamsToArgs_def split: vkind.splits)
    ultimately obtain P A where "(P, A) \<in> set (zip (fun_args m F) args)" "a = (A, - 1)"
      using t(1) by (auto simp: fillParamsToArgs_def split: if_splits)
    then show ?thesis using set_zip_rightD [of P A] by (auto simp: operands_def k)
  qed
  have "set (fold (\<lambda>b out. case map_of toArgs b of Some a \<Rightarrow> set_insert a out
       | None \<Rightarrow> if \<not> isLocalToFunction m (fst b) F then set_insert b out else out) rel out) \<subseteq>
      set out \<union> set rel \<union> (\<lambda>v. (v, - 1)) ` set (operands (kind m C))" for out
  proof (induction rel arbitrary: out)
    case (Cons b rel)
    show ?case
    proof (cases "map_of toArgs b")
      case None
      then show ?thesis using Cons.IH [of out] Cons.IH [of "set_insert b out"] by auto
    next
      case (Some x)
      then show ?thesis using Cons.IH [of "set_insert x out"] a [OF Some] by auto
    qed
  qed simp
  from this [of "[]"] show ?thesis by (simp add: t(2))
qed

lemma vars_at_exit_sub:
  "set (vars_at_exit C ret bs out) \<subseteq> set out \<union> set bs \<union> (\<lambda>v. (v, - 1)) ` set_option ret"
  by (induction C ret bs out rule: vars_at_exit.induct) (auto split: option.splits)

lemma getRelevantVarsAtExit_sub:
  assumes "getRelevantVarsAtExit m C e rel = Some R"
  shows "set R \<subseteq> set rel \<union> (\<lambda>v. (v, - 1)) ` set (operands (kind m e))"
proof -
  have "(\<lambda>v. (v, - 1)) ` set_option (case kind m e of ReturnInst v \<Rightarrow> v | _ \<Rightarrow> None) \<subseteq> (\<lambda>v. (v, - 1)) ` set (operands (kind m e))"
    by (auto simp: operands_def split: vkind.splits option.splits)
  then show ?thesis
    using assms vars_at_exit_sub [of C "case kind m e of ReturnInst v \<Rightarrow> v | _ \<Rightarrow> None" rel "[]"]
    by (auto simp: getRelevantVarsAtExit_def split: if_splits)
qed

lemma addCriterion_law:
  assumes ok: "sl_ok I U st0 st" and i: "i \<in> I" and vs: "set vs \<subseteq> U" and r: "addCriterion i vs d st = (c, st')"
  shows "sl_ok I U st0 st'" "sl_le st st'" "set vs \<subseteq> set (RC (st' i))" "sl_room I U st' \<le> sl_room I U st"
    "c \<Longrightarrow> sl_room I U st' < sl_room I U st" "\<not> c \<Longrightarrow> st' = st" "apart {i} st st'"
proof -
  define rc where "rc = sv_inserts vs (RC (st i))"
  define st1 where "st1 = st(i := (st i)\<lparr>RC := rc\<rparr>)"
  have c: "c = (length rc \<noteq> length (RC (st i)))" and st': "st' = (if c \<and> d then deslice i st1 else st1)"
    using r by (auto simp: addCriterion_def addRC_def Let_def rc_def st1_def split: if_splits)
  have ok1: "sl_ok I U st0 st1" using sl_ok_insert [OF ok i vs] by (simp add: st1_def rc_def)
  then show "sl_ok I U st0 st'" by (auto simp: st' sl_ok_def deslice_def)
  show "sl_le st st'" "set vs \<subseteq> set (RC (st' i))" "apart {i} st st'"
    by (auto simp: st' st1_def rc_def sl_le_def deslice_def apart_def)
  have rm: "sl_room I U st' = sl_room I U st1"
    unfolding sl_room_def by (intro sum.cong) (simp_all add: st' deslice_def)
  show "sl_room I U st' \<le> sl_room I U st" using sl_room_insert(1) [OF ok i vs] by (simp add: rm st1_def rc_def)
  show "c \<Longrightarrow> sl_room I U st' < sl_room I U st" using sl_room_insert(2) [OF ok i vs] by (simp add: rm st1_def rc_def c)
  assume "\<not> c"
  then have "rc = RC (st i)" using c by (simp add: rc_def sv_inserts_grown sv_inserts_subset)
  then show "st' = st" using \<open>\<not> c\<close> by (simp add: st' st1_def)
qed

section \<open>The steps\<close>

lemma ms_okD:
  assumes "ms_ok m pdf ss st"
  shows "links_ok m pdf ss" "sl_ok (mod_insts m) (mod_places m ss) (slicers ss) st"
    "f \<in> fns m \<Longrightarrow> fun_wf m pdf f" "i \<in> mod_insts m \<Longrightarrow> fun_of m i \<in> fns m \<and> i \<in> set (insts m (fun_of m i))"
proof -
  show l: "links_ok m pdf ss" and "sl_ok (mod_insts m) (mod_places m ss) (slicers ss) st"
    using assms by (simp_all add: ms_ok_def)
  show "f \<in> fns m \<Longrightarrow> fun_wf m pdf f" using l by (simp add: links_ok_def)
  assume "i \<in> mod_insts m"
  then obtain f where f: "f \<in> fns m" "i \<in> set (insts m f)" by (auto simp: mod_insts_def)
  then have "fun_of m i = f" using l by (auto simp: links_ok_def fun_wf_def)
  then show "fun_of m i \<in> fns m \<and> i \<in> set (insts m (fun_of m i))" using f by simp
qed

lemma place_operand: "i \<in> mod_insts m \<Longrightarrow> (\<lambda>v. (v, - 1)) ` set (operands (kind m i)) \<subseteq> mod_places m ss"
  by (auto simp: mod_places_def)

lemma apart_same:
  assumes "ms_ok m pdf ss st" "apart {i} s s'" "i \<in> mod_insts m" "g \<in> fns m" "g \<noteq> fun_of m i"
  shows "same_in m g s s'"
proof -
  have "j \<noteq> i" if "j \<in> set (insts m g)" for j
    using ms_okD(3) [OF assms(1,4)] that assms(5) by (auto simp: fun_wf_def)
  then show ?thesis using assms(2) by (auto simp: same_in_def apart_def)
qed

text \<open>One criterion for an instruction of the module.\<close>

lemma criterion_moves:
  assumes ok: "ms_ok m pdf ss st" and i: "i \<in> mod_insts m" and vs: "set vs \<subseteq> mod_places m ss"
    and r: "addCriterion i vs d st = (c, st')"
  shows "mv.adv m pdf ss (if c then [fun_of m i] else []) st st'" "set vs \<subseteq> set (RC (st' i))" "apart {i} st st'"
proof -
  note law = addCriterion_law [OF ms_okD(2) [OF ok] i vs r]
  show "set vs \<subseteq> set (RC (st' i))" "apart {i} st st'" using law by blast+
  have "ms_ok m pdf ss st'" using law(1) ms_okD(1) [OF ok] by (simp add: ms_ok_def)
  moreover have "\<forall>g \<in> fns m. g \<notin> set (if c then [fun_of m i] else []) \<longrightarrow> same_in m g st st'"
    using law(6) apart_same [OF ok law(7) i] by (cases c) (auto simp: same_in_def)
  ultimately show "mv.adv m pdf ss (if c then [fun_of m i] else []) st st'"
    using law(2,4,5) ms_okD(4) [OF ok i] by (simp add: mv.adv_def)
qed

lemma emitToCall_law:
  assumes ok: "ms_ok m pdf ss st" and c: "c \<in> mod_insts m" and rel: "set rel \<subseteq> mod_places m ss"
    and R: "getRelevantVarsAtCall m c f rel = Some R"
  shows "\<exists>fs st'. emitToCall m skip f rel c st = Some (fs, st') \<and> mv.adv m pdf ss fs st st' \<and> set R \<subseteq> set (RC (st' c))"
proof -
  have R': "set R \<subseteq> mod_places m ss" by (rule order_trans [OF vars_at_call_sub [OF R] Un_least [OF rel place_operand [OF c]]])
  obtain ch st1 where r1: "addCriterion c R (c \<notin> set skip) st = (ch, st1)" by (cases "addCriterion c R (c \<notin> set skip) st")
  note s1 = criterion_moves [OF ok c R' r1]
  show ?thesis
  proof (cases ch)
    case False
    then show ?thesis using R r1 s1 by (simp add: emitToCall_def)
  next
    case True
    have ok1: "ms_ok m pdf ss st1" using s1(1) by (simp add: mv.adv_def)
    have "set (REF (st1 c)) \<subseteq> mod_places m ss" using sl_okD(3) [OF ms_okD(2) [OF ok1] c] .
    moreover obtain ch2 st2 where r2: "addCriterion c (REF (st1 c)) False st1 = (ch2, st2)" by (cases "addCriterion c (REF (st1 c)) False st1")
    ultimately have s2: "mv.adv m pdf ss (if ch2 then [fun_of m c] else []) st1 st2" using criterion_moves(1) [OF ok1 c] by blast
    have "mv.adv m pdf ss [fun_of m c] st st2"
      using mv.adv_trans [OF s1(1) s2] True by (auto simp: mv.adv_def)
    moreover have "set (RC (st1 c)) \<subseteq> set (RC (st2 c))" using s2 by (simp add: mv.adv_def sl_le_def)
    then have "set R \<subseteq> set (RC (st2 c))" using s1(2) by (rule order_trans [rotated])
    ultimately show ?thesis using R r1 r2 True by (simp add: emitToCall_def)
  qed
qed

lemma emitToExit_law:
  assumes ok: "ms_ok m pdf ss st" and e: "snd ge \<in> mod_insts m" "fun_of m (snd ge) = fst ge" and rel: "set rel \<subseteq> mod_places m ss"
    and R: "getRelevantVarsAtExit m c (snd ge) rel = Some R"
  shows "\<exists>fs st'. emitToExit m c rel ge st = Some (fs, st') \<and> mv.adv m pdf ss fs st st' \<and> set R \<subseteq> set (RC (st' (snd ge)))"
proof -
  have R': "set R \<subseteq> mod_places m ss" by (rule order_trans [OF getRelevantVarsAtExit_sub [OF R] Un_least [OF rel place_operand [OF e(1)]]])
  obtain ch st1 where r1: "addCriterion (snd ge) R False st = (ch, st1)" by (cases "addCriterion (snd ge) R False st")
  show ?thesis using R r1 criterion_moves(1,2) [OF ok e(1) R' r1] e(2) by (cases ch) (simp_all add: emitToExit_def)
qed

lemma relevant_places:
  assumes "ms_ok m pdf ss st" "i \<in> mod_insts m"
  shows "set (RC (st i)) \<subseteq> mod_places m ss"
  using sl_okD(2) [OF ms_okD(2) [OF assms(1)] assms(2)] .

lemma entry_inst: "fun_wf m pdf f \<Longrightarrow> getFunctionEntry m f \<in> set (insts m f)"
proof -
  assume wf: "fun_wf m pdf f"
  then have b: "hd (fun_blocks m f) \<in> set (fun_blocks m f)" by (auto simp: fun_wf_def)
  then have "bb_insts (hd (fun_blocks m f)) \<noteq> []" using wf unfolding fun_wf_def cfg_wf_def by blast
  then show ?thesis using b unfolding getFunctionEntry_def insts_def by (auto intro: hd_in_set)
qed

lemma succ_in_mem: "succ_in is x = Some s \<Longrightarrow> s \<in> set is"
  by (induction "is" x rule: succ_in.induct) (auto split: if_splits)

lemma succ_inst: "getSuccInBlock m c = Some s \<Longrightarrow> s \<in> set (insts m (fun_of m c))"
proof -
  assume s: "getSuccInBlock m c = Some s"
  then obtain b bs where b: "filter (\<lambda>b. c \<in> set (bb_insts b)) (fun_blocks m (fun_of m c)) = b # bs" "succ_in (bb_insts b) c = Some s"
    by (auto simp: getSuccInBlock_def split: list.splits)
  have "b \<in> set (fun_blocks m (fun_of m c))" using arg_cong [OF b(1), of set] by auto
  then show ?thesis using succ_in_mem [OF b(2)] by (auto simp: insts_def)
qed

lemma emitToCalls_law:
  assumes f: "f \<in> fns m" and ok: "ms_ok m pdf ss st"
  shows "\<exists>fs st'. emitToCalls m ss f st = Some (fs, st') \<and> mv.adv m pdf ss fs st st' \<and> (f \<notin> set fs \<longrightarrow>
      (\<forall>c \<in> set (range_of (funcsToCalls ss) f).
        \<exists>R. getRelevantVarsAtCall m c f (RC (st (getFunctionEntry m f))) = Some R \<and> set R \<subseteq> set (RC (st' c))))"
proof -
  define rel where "rel = RC (st (getFunctionEntry m f))"
  have e: "getFunctionEntry m f \<in> mod_insts m" using entry_inst [OF ms_okD(3) [OF ok f]] f by (auto simp: mod_insts_def)
  have rel: "set rel \<subseteq> mod_places m ss" unfolding rel_def by (rule relevant_places [OF ok e])
  let ?srv = "\<lambda>c s. \<exists>R. getRelevantVarsAtCall m c f rel = Some R \<and> set R \<subseteq> set (RC (s c))"
  have "\<exists>fs s'. emitToCall m (skipAssert ss) f rel c s = Some (fs, s') \<and> mv.adv m pdf ss fs s s' \<and> (f \<notin> set fs \<longrightarrow> ?srv c s')"
    if c: "c \<in> set (range_of (funcsToCalls ss) f)" and s: "ms_ok m pdf ss s" for c s
  proof -
    have "c \<in> mod_insts m" "getRelevantVarsAtCall m c f rel \<noteq> None"
      using ms_okD(1) [OF s] c by (force simp: links_ok_def)+
    then show ?thesis using emitToCall_law [OF s _ rel] by blast
  qed
  moreover have "?srv c s'" if "?srv c s" "sl_le s s'" for c s s'
    using that unfolding sl_le_def by (meson order_trans)
  ultimately have "\<exists>fs s'. emit_all (emitToCall m (skipAssert ss) f rel) (range_of (funcsToCalls ss) f) st = Some (fs, s') \<and>
      mv.adv m pdf ss fs st s' \<and> (\<forall>c \<in> set (range_of (funcsToCalls ss) f). f \<notin> set fs \<longrightarrow> ?srv c s')"
    by (intro mv.emit_all_moves [where tg = "\<lambda>_. f"]) (use f ok in \<open>simp_all add: image_subset_iff\<close>)
  then show ?thesis unfolding emitToCalls_def rel_def by blast
qed

lemma emitToExits_call_law:
  assumes f: "f \<in> fns m" and ok: "ms_ok m pdf ss st" and c: "c \<in> set (getFunctionCalls m f)"
  shows "\<exists>fs st'. emitToExits_call m ss c st = Some (fs, st') \<and> mv.adv m pdf ss fs st st' \<and> (f \<notin> set fs \<longrightarrow>
      (\<forall>s. getSuccInBlock m c = Some s \<longrightarrow> (\<forall>ge \<in> set (call_exits m ss c).
        \<exists>R. getRelevantVarsAtExit m c (snd ge) (RC (st' s)) = Some R \<and> set R \<subseteq> set (RC (st' (snd ge))))))"
proof -
  note wf = ms_okD(3) [OF ok f]
  have fc: "fun_of m c = f" "\<not> isInlineAssembly m c" using wf c by (auto simp: fun_wf_def getFunctionCalls_def)
  obtain s where s: "getSuccInBlock m c = Some s" using wf c by (auto simp: fun_wf_def)
  have sf: "s \<in> set (insts m f)" using succ_inst [OF s] fc(1) by simp
  then have "s \<in> mod_insts m" using f by (auto simp: mod_insts_def)
  define rel where "rel = RC (st s)"
  have rel: "set rel \<subseteq> mod_places m ss" unfolding rel_def by (rule relevant_places [OF ok \<open>s \<in> mod_insts m\<close>])
  let ?srv = "\<lambda>ge t. \<exists>R. getRelevantVarsAtExit m c (snd ge) rel = Some R \<and> set R \<subseteq> set (RC (t (snd ge)))"
  have "\<exists>fs t'. emitToExit m c rel ge t = Some (fs, t') \<and> mv.adv m pdf ss fs t t' \<and> (f \<notin> set fs \<longrightarrow> ?srv ge t')"
    if ge: "ge \<in> set (call_exits m ss c)" and t: "ms_ok m pdf ss t" for ge t
  proof -
    have g: "fst ge \<in> fns m" "snd ge \<in> set (insts m (fst ge))"
      using ge ms_okD(1) [OF t] by (force simp: call_exits_def links_ok_def getFunctionExits_def)+
    then have "snd ge \<in> mod_insts m" "fun_of m (snd ge) = fst ge"
      using ms_okD(3) [OF t g(1)] by (auto simp: mod_insts_def fun_wf_def)
    moreover obtain R where "getRelevantVarsAtExit m c (snd ge) rel = Some R" using fc(2) by (simp add: getRelevantVarsAtExit_def)
    ultimately show ?thesis using emitToExit_law [OF t _ _ rel] by blast
  qed
  moreover have "?srv ge t'" if "?srv ge t" "sl_le t t'" for ge t t'
    using that unfolding sl_le_def by (meson order_trans)
  ultimately have "\<exists>fs t'. emit_all (emitToExit m c rel) (call_exits m ss c) st = Some (fs, t') \<and>
      mv.adv m pdf ss fs st t' \<and> (\<forall>ge \<in> set (call_exits m ss c). f \<notin> set fs \<longrightarrow> ?srv ge t')"
    by (intro mv.emit_all_moves [where tg = "\<lambda>_. f"]) (use f ok in \<open>simp_all add: image_subset_iff\<close>)
  then obtain fs t' where t': "emitToExits_call m ss c st = Some (fs, t')" "mv.adv m pdf ss fs st t'"
    "\<forall>ge \<in> set (call_exits m ss c). f \<notin> set fs \<longrightarrow> ?srv ge t'"
    unfolding emitToExits_call_def rel_def s by auto
  have "RC (t' s) = rel" if "f \<notin> set fs" using t'(2) f sf that unfolding mv.adv_def same_in_def rel_def by metis
  then show ?thesis using t' s by (metis option.inject)
qed

lemma exits_same:
  assumes f: "fun_wf m pdf f" and c: "c \<in> set (getFunctionCalls m f)"
    and s: "\<forall>s. getSuccInBlock m c = Some s \<longrightarrow> (\<forall>ge \<in> set (call_exits m ss c).
        \<exists>R. getRelevantVarsAtExit m c (snd ge) (RC (st s)) = Some R \<and> set R \<subseteq> set (RC (st (snd ge))))"
    and same: "same_in m f st st'" and le: "sl_le st st'"
  shows "\<forall>s. getSuccInBlock m c = Some s \<longrightarrow> (\<forall>ge \<in> set (call_exits m ss c).
        \<exists>R. getRelevantVarsAtExit m c (snd ge) (RC (st' s)) = Some R \<and> set R \<subseteq> set (RC (st' (snd ge))))"
proof (intro allI impI ballI)
  fix x ge
  assume x: "getSuccInBlock m c = Some x" and ge: "ge \<in> set (call_exits m ss c)"
  have "fun_of m c = f" using f c by (auto simp: fun_wf_def getFunctionCalls_def)
  then have "st' x = st x" using succ_inst [OF x] same by (simp add: same_in_def)
  moreover obtain R where "getRelevantVarsAtExit m c (snd ge) (RC (st x)) = Some R" "set R \<subseteq> set (RC (st (snd ge)))"
    using s x ge by blast
  moreover have "set (RC (st (snd ge))) \<subseteq> set (RC (st' (snd ge)))" using le by (simp add: sl_le_def)
  ultimately show "\<exists>R. getRelevantVarsAtExit m c (snd ge) (RC (st' x)) = Some R \<and> set R \<subseteq> set (RC (st' (snd ge)))"
    using order_trans by auto
qed

lemma calls_same:
  assumes f: "fun_wf m pdf f"
    and s: "\<forall>c \<in> set (range_of (funcsToCalls ss) f).
        \<exists>R. getRelevantVarsAtCall m c f (RC (st (getFunctionEntry m f))) = Some R \<and> set R \<subseteq> set (RC (st c))"
    and same: "same_in m f st st'" and le: "sl_le st st'"
  shows "\<forall>c \<in> set (range_of (funcsToCalls ss) f).
        \<exists>R. getRelevantVarsAtCall m c f (RC (st' (getFunctionEntry m f))) = Some R \<and> set R \<subseteq> set (RC (st' c))"
proof
  fix c
  assume c: "c \<in> set (range_of (funcsToCalls ss) f)"
  have "st' (getFunctionEntry m f) = st (getFunctionEntry m f)" using entry_inst [OF f] same by (simp add: same_in_def)
  moreover obtain R where "getRelevantVarsAtCall m c f (RC (st (getFunctionEntry m f))) = Some R" "set R \<subseteq> set (RC (st c))"
    using s c by blast
  moreover have "set (RC (st c)) \<subseteq> set (RC (st' c))" using le by (simp add: sl_le_def)
  ultimately show "\<exists>R. getRelevantVarsAtCall m c f (RC (st' (getFunctionEntry m f))) = Some R \<and> set R \<subseteq> set (RC (st' c))"
    using order_trans by auto
qed

lemma fun_served_same:
  assumes "fun_wf m pdf f" "fun_served m ss f st" "same_in m f st st'" "sl_le st st'"
  shows "fun_served m ss f st'"
  using calls_same [OF assms(1) _ assms(3,4)] exits_same [OF assms(1) _ _ assms(3,4)] assms(2) unfolding fun_served_def by blast

lemma fun_emit_law:
  assumes f: "f \<in> fns m" and ok: "ms_ok m pdf ss st"
  shows "\<exists>fs st'. emit m ss f st = Some (fs, st') \<and> mv.adv m pdf ss fs st st' \<and> (f \<notin> set fs \<longrightarrow> fun_served m ss f st')"
proof -
  note wf = ms_okD(3) [OF ok f]
  let ?C = "\<lambda>t t'. \<forall>c \<in> set (range_of (funcsToCalls ss) f).
      \<exists>R. getRelevantVarsAtCall m c f (RC (t (getFunctionEntry m f))) = Some R \<and> set R \<subseteq> set (RC (t' c))"
  let ?E = "\<lambda>c t. \<forall>s. getSuccInBlock m c = Some s \<longrightarrow> (\<forall>ge \<in> set (call_exits m ss c).
      \<exists>R. getRelevantVarsAtExit m c (snd ge) (RC (t s)) = Some R \<and> set R \<subseteq> set (RC (t (snd ge))))"
  obtain fs st1 where s1: "emitToCalls m ss f st = Some (fs, st1)" "mv.adv m pdf ss fs st st1" "f \<notin> set fs \<longrightarrow> ?C st st1"
    using emitToCalls_law [OF f ok] by blast
  have ok1: "ms_ok m pdf ss st1" using s1(2) by (simp add: mv.adv_def)
  have "\<exists>fs s'. emit_all (emitToExits_call m ss) (getFunctionCalls m f) st1 = Some (fs, s') \<and>
      mv.adv m pdf ss fs st1 s' \<and> (\<forall>c \<in> set (getFunctionCalls m f). f \<notin> set fs \<longrightarrow> ?E c s')"
  proof (rule mv.emit_all_moves [where tg = "\<lambda>_. f"])
    fix c t assume "c \<in> set (getFunctionCalls m f)" "ms_ok m pdf ss t"
    then show "\<exists>fs s'. emitToExits_call m ss c t = Some (fs, s') \<and> mv.adv m pdf ss fs t s' \<and> (f \<notin> set fs \<longrightarrow> ?E c s')"
      using emitToExits_call_law [OF f] by blast
  next
    fix c t t' assume "c \<in> set (getFunctionCalls m f)" "?E c t" "same_in m f t t'" "sl_le t t'"
    then show "?E c t'" by (rule exits_same [OF wf])
  qed (use f ok1 in auto)
  then obtain gs st2 where s2: "emitToExits m ss f st1 = Some (gs, st2)" "mv.adv m pdf ss gs st1 st2"
    "\<forall>c \<in> set (getFunctionCalls m f). f \<notin> set gs \<longrightarrow> ?E c st2"
    unfolding emitToExits_def by blast
  have "fun_served m ss f st2" if "f \<notin> set (fs @ gs)"
  proof -
    have "same_in m f st st1" "same_in m f st1 st2" "sl_le st1 st2" using s1(2) s2(2) that f by (auto simp: mv.adv_def)
    moreover have "?C st1 st1" using s1(3) that entry_inst [OF wf] \<open>same_in m f st st1\<close> by (simp add: same_in_def)
    ultimately have "?C st2 st2" using calls_same [OF wf] by blast
    then show ?thesis using s2(3) that unfolding fun_served_def by simp
  qed
  then show ?thesis using s1(1) s2(1) mv.adv_trans [OF s1(2) s2(2)] by (simp add: emit_def)
qed

lemma insts_all: "insts m f = all_insts (fun_blocks m f)"
  by (simp add: insts_def all_insts_def)

lemma sl_room_le:
  assumes "sl_le st st'" "\<forall>i. distinct (RC (st i)) \<and> distinct (RC (st' i))"
  shows "sl_room I U st' \<le> sl_room I U st"
  unfolding sl_room_def
proof (rule sum_mono)
  fix i
  have "length (RC (st i)) \<le> length (RC (st' i))"
    using assms card_mono [of "set (RC (st' i))" "set (RC (st i))"] by (simp add: sl_le_def distinct_card)
  then show "card U - length (RC (st' i)) \<le> card U - length (RC (st i))" by simp
qed

lemma fun_calc_law:
  assumes f: "f \<in> fns m" and ok: "ms_ok m pdf ss st"
  shows "\<exists>st'. calculateStaticSlice (fun_blocks m f) (pdf f) st = Some st' \<and> ms_ok m pdf ss st' \<and> sl_le st st' \<and>
           fun_closed m pdf ss f st' \<and> ms_room m ss st' \<le> ms_room m ss st \<and> (\<forall>g \<in> fns m. g \<noteq> f \<longrightarrow> same_in m g st st')"
proof -
  let ?bs = "fun_blocks m f" and ?I = "set (insts m f)" and ?U = "mod_places m ss"
  have cfg: "cfg_wf ?bs (pdf f)" using ms_okD(3) [OF ok f] by (simp add: fun_wf_def)
  note okS = ms_okD(2) [OF ok]
  have sub: "?I \<subseteq> mod_insts m" using f by (auto simp: mod_insts_def)
  have "sl_ok ?I ?U st st" using okS sub finite_set [of "insts m f"] unfolding sl_ok_def by (auto dest: subsetD)
  then obtain st' where st': "calculateStaticSlice ?bs (pdf f) st = Some st'" "sl_ok ?I ?U st st'" "\<forall>e \<in> edges ?bs. edge_closed st' e"
    "\<forall>i. needed ?bs st' i \<or> \<not> sliced (st i) \<longrightarrow> branches_kept ?bs (pdf f) st' i"
    using slice_exists_in [OF cfg] unfolding insts_all by blast
  have out: "st' i = st i" if "i \<notin> ?I" for i using slice_apart [OF cfg st'(1)] that by (simp add: apart_def insts_all)
  note le = sl_ok_le [OF st'(2)]
  have "sl_ok (mod_insts m) ?U (slicers ss) st'"
    unfolding sl_ok_def
  proof (intro conjI allI ballI)
    fix i
    show "distinct (RC (st' i))" using sl_okD(1) [OF st'(2)] .
    show "set (RC (slicers ss i)) \<subseteq> set (RC (st' i))" using sl_okD(8) [OF okS, of i] sl_okD(8) [OF st'(2), of i] by (rule order_trans)
    show "DEF (st' i) = DEF (slicers ss i)" "REF (st' i) = REF (slicers ss i)"
      using sl_okD(4,5) [OF okS, of i] sl_okD(4,5) [OF st'(2), of i] by simp_all
    show "sliced (st' i) \<longrightarrow> sliced (slicers ss i)" using sl_okD(9) [OF okS, of i] sl_okD(9) [OF st'(2), of i] by blast
  next
    fix i assume i: "i \<in> mod_insts m"
    show "set (RC (st' i)) \<subseteq> ?U"
      using sl_okD(2) [OF st'(2), of i] sl_okD(2) [OF okS i] out [of i] by (cases "i \<in> ?I") auto
    show "set (REF (slicers ss i)) \<subseteq> ?U" using sl_okD(3) [OF okS i] sl_okD(5) [OF okS, of i] by simp
  qed (use sl_okD(6,7) [OF okS] in simp_all)
  then have ok': "ms_ok m pdf ss st'" using ms_okD(1) [OF ok] by (simp add: ms_ok_def)
  moreover have "fun_closed m pdf ss f st'"
    unfolding fun_closed_def using st'(3,4) sl_okD(9) [OF okS] by blast
  moreover have "ms_room m ss st' \<le> ms_room m ss st"
    using sl_room_le [OF le] sl_okD(1) [OF okS] sl_okD(1) [OF st'(2)] by blast
  moreover have "same_in m g st st'" if g: "g \<in> fns m" "g \<noteq> f" for g
  proof -
    have "i \<notin> ?I" if "i \<in> set (insts m g)" for i
      using ms_okD(3) [OF ok f] ms_okD(3) [OF ok g(1)] g(2) that by (auto simp: fun_wf_def)
    then show ?thesis using out by (simp add: same_in_def)
  qed
  ultimately show ?thesis using st'(1) le by blast
qed

lemma fun_closed_same:
  assumes wf: "fun_wf m pdf f" and c: "fun_closed m pdf ss f st" and same: "same_in m f st st'"
  shows "fun_closed m pdf ss f st'"
proof -
  let ?bs = "fun_blocks m f"
  have cfg: "cfg_wf ?bs (pdf f)" using wf by (simp add: fun_wf_def)
  have eq: "st' i = st i" if "i \<in> set (all_insts ?bs)" for i using same that by (simp add: same_in_def insts_all)
  have e: "st' (fst e) = st (fst e)" "st' (snd e) = st (snd e)" if "e \<in> edges ?bs" for e
    using edges_insts [OF cfg, of "fst e" "snd e"] that eq by simp_all
  have "edge_closed st' e" if "e \<in> edges ?bs" for e
    using c that e [OF that] by (simp add: fun_closed_def edge_closed_def)
  moreover have "needed ?bs st' i = needed ?bs st i" for i
    using e unfolding needed_def by fastforce
  moreover have "branches_kept ?bs (pdf f) st' i" if "branches_kept ?bs (pdf f) st i" for i
    unfolding branches_kept_def
  proof (intro allI impI)
    fix k fr q
    assume a: "(k, i) \<in> set (placed_insts ?bs)" "pdf f k = Some fr" "q \<in> set fr"
    then have "k < length ?bs" by (simp add: placed_iff)
    then have "q < length ?bs" using cfg a(2,3) unfolding cfg_wf_def by blast
    then have "st' (terminator ?bs q) = st (terminator ?bs q)" using eq terminator_inst [OF cfg] by blast
    moreover have "branch_kept ?bs st q" using that a unfolding branches_kept_def by blast
    ultimately show "branch_kept ?bs st' q" by (simp add: branch_kept_def)
  qed
  ultimately show ?thesis using c unfolding fun_closed_def by blast
qed

interpretation pg: propagation "fns m" "ms_ok m pdf ss" sl_le "same_in m" "ms_room m ss"
    "\<lambda>f. calculateStaticSlice (fun_blocks m f) (pdf f)" "emit m ss" "\<lambda>f st. fun_wf m pdf f \<and> fun_closed m pdf ss f st"
    "\<lambda>f st. fun_wf m pdf f \<and> fun_served m ss f st" for m pdf ss
proof unfold_locales
  fix f st
  assume f: "f \<in> fns m" and ok: "ms_ok m pdf ss st"
  show "\<exists>s'. calculateStaticSlice (fun_blocks m f) (pdf f) st = Some s' \<and> ms_ok m pdf ss s' \<and> sl_le st s' \<and>
      (fun_wf m pdf f \<and> fun_closed m pdf ss f s') \<and> ms_room m ss s' \<le> ms_room m ss st \<and> (\<forall>g \<in> fns m. g \<noteq> f \<longrightarrow> same_in m g st s')"
    using fun_calc_law [OF f ok] ms_okD(3) [OF ok f] by blast
  show "\<exists>fs s'. emit m ss f st = Some (fs, s') \<and> mv.adv m pdf ss fs st s' \<and> (f \<notin> set fs \<longrightarrow> fun_wf m pdf f \<and> fun_served m ss f s')"
    using fun_emit_law [OF f ok] ms_okD(3) [OF ok f] by blast
qed (use fun_closed_same fun_served_same in blast)+

section \<open>The slicers that are built\<close>

lemma distinct_addInitial: "\<forall>i. distinct (RC (st i)) \<Longrightarrow> \<forall>i. distinct (RC (addInitialCriterion j p st i))"
  by (auto simp: addInitialCriterion_def addRC_def deslice_def distinct_sv_inserts split: option.splits)

lemma distinct_globals:
  "\<forall>i. distinct (RC (st i)) \<Longrightarrow>
   \<forall>i. distinct (RC (fold (\<lambda>g. if P g then addInitialCriterion j (Some (g, - 1)) else id) gs st i))"
  by (induction gs arbitrary: st) (auto simp: distinct_addInitial)

lemma distinct_handleAssert:
  assumes "handleAssert m env c args (st, skip) = Some (a, st', skip')" "\<forall>i. distinct (RC (st i))"
  shows "\<forall>i. distinct (RC (st' i))"
  using assms distinct_addInitial
  by (auto simp: handleAssert_def Let_def bind_eq_Some_conv split: list.splits option.splits vkind.splits if_splits)

lemma distinct_criterion:
  assumes "criterion_of m env starting af i (a, st, skip) = Some (a', st', skip')" "\<forall>i. distinct (RC (st i))"
  shows "\<forall>i. distinct (RC (st' i))"
proof (cases "kind m i")
  case (CallInst cv args)
  then show ?thesis using assms distinct_addInitial distinct_handleAssert
    by (auto simp: criterion_of_def bind_eq_Some_conv split: if_splits list.splits)
next
  case (StoreInst v p)
  then show ?thesis using assms distinct_addInitial by (auto simp: criterion_of_def split: if_splits)
next
  case (ReturnInst v)
  then show ?thesis using assms distinct_globals by (auto simp: criterion_of_def split: if_splits)
qed (use assms in \<open>auto simp: criterion_of_def\<close>)

lemma distinct_findInitialCriterion:
  assumes "findInitialCriterion m env f starting (st, skip) = Some (a, st', skip')" "\<forall>i. distinct (RC (st i))"
  shows "\<forall>i. distinct (RC (st' i))"
proof (cases "getFunction m ''__assert_fail''")
  case None
  then show ?thesis using assms by (simp add: findInitialCriterion_def)
next
  case (Some af)
  have r: "fold_opt (criterion_of m env starting af) (insts m f) (False, st, skip) = Some (a, st', skip')"
    using assms(1) Some by (simp add: findInitialCriterion_def)
  have "\<forall>i. distinct (RC (fst (snd (a, st', skip')) i))"
    using r by (rule fold_opt_inv [where Q = "\<lambda>s. \<forall>i. distinct (RC (fst (snd s) i))"])
      (use assms(2) distinct_criterion in auto)
  then show ?thesis by simp
qed

lemma distinct_FunctionStaticSlicer:
  assumes "FunctionStaticSlicer m PS MOD f st = Some st'" "\<forall>i. distinct (RC (st i))"
  shows "\<forall>i. distinct (RC (st' i))"
  using assms(1) unfolding FunctionStaticSlicer_def
  by (rule fold_opt_inv [where Q = "\<lambda>st. \<forall>i. distinct (RC (st i))"]) (use assms(2) in \<open>auto simp: InsInfo_def\<close>)

text \<open>What the constructor leaves: different relevant places, and functions of the module.\<close>

definition built :: "llvm_module \<Rightarrow> static_slicer \<Rightarrow> bool" where
  "built m ss \<longleftrightarrow> (\<forall>i. distinct (RC (slicers ss i))) \<and> set (initFuns ss) \<subseteq> fns m \<and> funcsToCalls ss = [] \<and> callsToFuncs ss = []"

lemma built_runFSS:
  assumes "runFSS m env PS CG MOD f ss = Some ss'" "built m ss" "f \<in> fns m"
  shows "built m ss'"
  using assms distinct_findInitialCriterion distinct_FunctionStaticSlicer unfolding runFSS_def built_def Let_def
  by (auto simp: bind_eq_Some_conv split: if_splits)

definition linked :: "llvm_module \<Rightarrow> pts \<Rightarrow> val \<times> val \<Rightarrow> bool" where
  "linked m PS p \<longleftrightarrow> (\<exists>f \<in> fns m. fst p \<in> set (getFunctionCalls m f) \<and> snd p \<in> set (getCalledFunctions m (fst p) PS) \<and> has_slicer m (snd p))"

lemma buildDicts_call_set:
  "set (funcsToCalls (buildDicts_call m PS c ss)) = set (funcsToCalls ss) \<union> {(h, c) |h. h \<in> set (getCalledFunctions m c PS) \<and> has_slicer m h}"
  "set (callsToFuncs (buildDicts_call m PS c ss)) = set (callsToFuncs ss) \<union> {(c, h) |h. h \<in> set (getCalledFunctions m c PS) \<and> has_slicer m h}"
  "slicers (buildDicts_call m PS c ss) = slicers ss" "initFuns (buildDicts_call m PS c ss) = initFuns ss"
proof -
  define add where "add = (\<lambda>h (ss :: static_slicer). if has_slicer m h
     then ss\<lparr>funcsToCalls := funcsToCalls ss @ [(h, c)], callsToFuncs := callsToFuncs ss @ [(c, h)]\<rparr> else ss)"
  have "set (funcsToCalls (fold add hs ss)) = set (funcsToCalls ss) \<union> {(h, c) |h. h \<in> set hs \<and> has_slicer m h} \<and>
     set (callsToFuncs (fold add hs ss)) = set (callsToFuncs ss) \<union> {(c, h) |h. h \<in> set hs \<and> has_slicer m h} \<and>
     slicers (fold add hs ss) = slicers ss \<and> initFuns (fold add hs ss) = initFuns ss" for hs
    by (induction hs arbitrary: ss) (auto simp: add_def)
  then show "set (funcsToCalls (buildDicts_call m PS c ss)) = set (funcsToCalls ss) \<union> {(h, c) |h. h \<in> set (getCalledFunctions m c PS) \<and> has_slicer m h}"
    "set (callsToFuncs (buildDicts_call m PS c ss)) = set (callsToFuncs ss) \<union> {(c, h) |h. h \<in> set (getCalledFunctions m c PS) \<and> has_slicer m h}"
    "slicers (buildDicts_call m PS c ss) = slicers ss" "initFuns (buildDicts_call m PS c ss) = initFuns ss"
    by (simp_all add: buildDicts_call_def add_def)
qed

lemma buildDicts_fun:
  fixes ss :: static_slicer
  assumes add: "add = (\<lambda>i ss. if isCallInst m i \<and> \<not> isInlineAssembly m i then buildDicts_call m PS i ss else ss)"
  shows "set (funcsToCalls (fold add (insts m f) ss)) =
      set (funcsToCalls ss) \<union> {(h, c) |h c. c \<in> set (getFunctionCalls m f) \<and> h \<in> set (getCalledFunctions m c PS) \<and> has_slicer m h}"
    "set (callsToFuncs (fold add (insts m f) ss)) =
      set (callsToFuncs ss) \<union> {(c, h) |h c. c \<in> set (getFunctionCalls m f) \<and> h \<in> set (getCalledFunctions m c PS) \<and> has_slicer m h}"
    "slicers (fold add (insts m f) ss) = slicers ss" "initFuns (fold add (insts m f) ss) = initFuns ss"
proof -
  define L where "L = (\<lambda>xs h c. c \<in> set xs \<and> isCallInst m c \<and> \<not> isInlineAssembly m c \<and> h \<in> set (getCalledFunctions m c PS) \<and> has_slicer m h)"
  have "set (funcsToCalls (fold add xs ss)) = set (funcsToCalls ss) \<union> {(h, c) |h c. L xs h c} \<and>
      set (callsToFuncs (fold add xs ss)) = set (callsToFuncs ss) \<union> {(c, h) |h c. L xs h c} \<and>
      slicers (fold add xs ss) = slicers ss \<and> initFuns (fold add xs ss) = initFuns ss" for xs
    by (induction xs arbitrary: ss) (auto simp: add L_def buildDicts_call_set)
  moreover have "L (insts m f) h c \<longleftrightarrow> c \<in> set (getFunctionCalls m f) \<and> h \<in> set (getCalledFunctions m c PS) \<and> has_slicer m h" for h c
    by (auto simp: L_def getFunctionCalls_def isCallInst_def)
  ultimately show "set (funcsToCalls (fold add (insts m f) ss)) =
      set (funcsToCalls ss) \<union> {(h, c) |h c. c \<in> set (getFunctionCalls m f) \<and> h \<in> set (getCalledFunctions m c PS) \<and> has_slicer m h}"
    "set (callsToFuncs (fold add (insts m f) ss)) =
      set (callsToFuncs ss) \<union> {(c, h) |h c. c \<in> set (getFunctionCalls m f) \<and> h \<in> set (getCalledFunctions m c PS) \<and> has_slicer m h}"
    "slicers (fold add (insts m f) ss) = slicers ss" "initFuns (fold add (insts m f) ss) = initFuns ss"
    by simp_all
qed

lemma buildDicts_set:
  "set (funcsToCalls (buildDicts m PS ss)) = set (funcsToCalls ss) \<union> {(h, c) |h c. linked m PS (c, h)}"
  "set (callsToFuncs (buildDicts m PS ss)) = set (callsToFuncs ss) \<union> {(c, h) |h c. linked m PS (c, h)}"
  "slicers (buildDicts m PS ss) = slicers ss" "initFuns (buildDicts m PS ss) = initFuns ss"
proof -
  define add where "add = (\<lambda>f ss. if has_slicer m f
    then fold (\<lambda>i ss. if isCallInst m i \<and> \<not> isInlineAssembly m i then buildDicts_call m PS i ss else ss) (insts m f) ss else ss)"
  define L where "L = (\<lambda>fs h c. \<exists>f \<in> set fs. has_slicer m f \<and> c \<in> set (getFunctionCalls m f) \<and> h \<in> set (getCalledFunctions m c PS) \<and> has_slicer m h)"
  have "set (funcsToCalls (fold add fs ss)) = set (funcsToCalls ss) \<union> {(h, c) |h c. L fs h c} \<and>
      set (callsToFuncs (fold add fs ss)) = set (callsToFuncs ss) \<union> {(c, h) |h c. L fs h c} \<and>
      slicers (fold add fs ss) = slicers ss \<and> initFuns (fold add fs ss) = initFuns ss" for fs
    by (induction fs arbitrary: ss) (auto simp: add_def L_def buildDicts_fun [OF refl])
  moreover have "L (m_functions m) h c = linked m PS (c, h)" for h c by (auto simp: L_def linked_def fns_def)
  ultimately show "set (funcsToCalls (buildDicts m PS ss)) = set (funcsToCalls ss) \<union> {(h, c) |h c. linked m PS (c, h)}"
    "set (callsToFuncs (buildDicts m PS ss)) = set (callsToFuncs ss) \<union> {(c, h) |h c. linked m PS (c, h)}"
    "slicers (buildDicts m PS ss) = slicers ss" "initFuns (buildDicts m PS ss) = initFuns ss"
    by (simp_all add: buildDicts_def add_def)
qed

text \<open>
  The modules the slicer is made for: well-formed functions, and calls with no more arguments than the
  called function has parameters.
\<close>

definition module_wf :: "llvm_module \<Rightarrow> pts \<Rightarrow> (val \<Rightarrow> nat \<Rightarrow> nat list option) \<Rightarrow> bool" where
  "module_wf m PS pdf \<longleftrightarrow>
     (\<forall>f \<in> fns m. fun_wf m pdf f) \<and>
     (\<forall>p. linked m PS p \<longrightarrow> snd p \<in> set (m_functions m) \<and>
        (case kind m (fst p) of CallInst _ args \<Rightarrow> length args \<le> length (fun_args m (snd p)) | _ \<Rightarrow> True))"

lemma built_start:
  assumes "StaticSlicer m env PS CG MOD = Some ss"
  obtains ss1 where "built m ss1" "ss = buildDicts m PS ss1"
    "fold_opt (\<lambda>f ss. if has_slicer m f then runFSS m env PS CG MOD f ss else Some ss) (m_functions m) no_slicers = Some ss1"
proof -
  obtain ss1 where ss1: "fold_opt (\<lambda>f ss. if has_slicer m f then runFSS m env PS CG MOD f ss else Some ss) (m_functions m) no_slicers = Some ss1"
    "ss = buildDicts m PS ss1"
    using assms by (auto simp: StaticSlicer_def)
  have "built m ss1"
    using ss1(1)
  proof (rule fold_opt_inv)
    fix f t t' assume "f \<in> set (m_functions m)" "built m t" "(if has_slicer m f then runFSS m env PS CG MOD f t else Some t) = Some t'"
    then show "built m t'" using built_runFSS [of m env PS CG MOD f t t'] by (auto simp: fns_def split: if_splits)
  qed (simp add: built_def no_slicers_def)
  then show thesis using that ss1 by blast
qed

lemma ms_ok_start:
  assumes wf: "module_wf m PS pdf" and r: "StaticSlicer m env PS CG MOD = Some ss"
  shows "ms_ok m pdf ss (slicers ss)" "set (initFuns ss) \<subseteq> fns m"
proof -
  obtain ss1 where b: "built m ss1" and ss: "ss = buildDicts m PS ss1" using built_start [OF r] by blast
  show "set (initFuns ss) \<subseteq> fns m" using b by (simp add: ss buildDicts_set built_def)
  have call: "c \<in> mod_insts m" "getRelevantVarsAtCall m c h rel \<noteq> None" "h \<in> fns m" if l: "linked m PS (c, h)" for c h rel
  proof -
    obtain f where f: "f \<in> fns m" "c \<in> set (getFunctionCalls m f)" "has_slicer m h" using l by (auto simp: linked_def)
    then show "c \<in> mod_insts m" by (auto simp: mod_insts_def getFunctionCalls_def)
    show "h \<in> fns m" using wf l f(3) by (auto simp: module_wf_def fns_def dest!: spec [of _ "(c, h)"])
    obtain cv args where k: "kind m c = CallInst cv args" using f(2) by (auto simp: getFunctionCalls_def split: vkind.splits)
    then have "length args \<le> length (fun_args m h)" using wf l by (auto simp: module_wf_def dest!: spec [of _ "(c, h)"])
    then show "getRelevantVarsAtCall m c h rel \<noteq> None"
      using f(2) k by (auto simp: getRelevantVarsAtCall_def fillParamsToArgs_def getFunctionCalls_def)
  qed
  have "snd p \<in> mod_insts m \<and> (\<forall>rel. getRelevantVarsAtCall m (snd p) (fst p) rel \<noteq> None)" if p: "p \<in> set (funcsToCalls ss)" for p
  proof -
    obtain h c where "p = (h, c)" "linked m PS (c, h)" using p b by (auto simp: ss buildDicts_set built_def)
    then show ?thesis using call by auto
  qed
  moreover have "snd p \<in> fns m" if p: "p \<in> set (callsToFuncs ss)" for p
  proof -
    obtain h c where "p = (c, h)" "linked m PS (c, h)" using p b by (auto simp: ss buildDicts_set built_def)
    then show ?thesis using call by auto
  qed
  ultimately have "links_ok m pdf ss" using wf by (simp add: links_ok_def module_wf_def)
  moreover have "finite (fns m)" by (simp add: fns_def)
  then have "finite (mod_insts m)" by (simp add: mod_insts_def)
  moreover have "finite (mod_places m ss)" using \<open>finite (mod_insts m)\<close> by (simp add: mod_places_def)
  moreover have "\<forall>i. distinct (RC (slicers ss i))" using b by (simp add: ss buildDicts_set built_def)
  moreover have "set (RC (slicers ss i)) \<subseteq> mod_places m ss \<and> set (REF (slicers ss i)) \<subseteq> mod_places m ss" if "i \<in> mod_insts m" for i
    unfolding mod_places_def using that by blast
  ultimately show "ms_ok m pdf ss (slicers ss)" by (simp add: ms_ok_def sl_ok_def)
qed

text \<open>
  C17: Once the slicers of its functions are constructed, the slicer of a well-formed module
  returns (no call has more arguments than the called function has parameters): no assertion fails, and the exchange of criteria between the
  functions ends, recursion included.  In the end every function that was started or has got a
  criterion satisfies its slicing equations, what is relevant at its entry is relevant at each of
  its calls, and what is relevant after a call in it is relevant at the exits of what is called.
\<close>

theorem module_slice_solution:
  assumes "module_wf m PS pdf" "StaticSlicer m env PS CG MOD = Some ss"
  shows "\<exists>st. computeSlice m pdf ss = Some st \<and> sl_le (slicers ss) st \<and>
           (\<forall>f \<in> fns m. f \<in> set (initFuns ss) \<or> \<not> same_in m f (slicers ss) st \<longrightarrow> fun_closed m pdf ss f st \<and> fun_served m ss f st)"
  using pg.worklist_solution [OF ms_ok_start [OF assms]] unfolding computeSlice_def by blast

section \<open>Assertions survive\<close>

definition keeps :: "slicer \<Rightarrow> slicer \<Rightarrow> bool" where
  "keeps st st' \<longleftrightarrow> (\<forall>i. \<not> sliced (st i) \<longrightarrow> \<not> sliced (st' i))"

lemma keeps_refl [simp]: "keeps st st"
  by (simp add: keeps_def)

lemma keeps_trans: "keeps a b \<Longrightarrow> keeps b c \<Longrightarrow> keeps a c"
  by (simp add: keeps_def)

lemma addInitial_keeps: "keeps st (addInitialCriterion i p st)" "\<not> sliced (addInitialCriterion i p st i)"
  by (auto simp: keeps_def addInitialCriterion_def addRC_def deslice_def split: option.splits)

lemma globals_keep: "keeps st (fold (\<lambda>g. if P g then addInitialCriterion j (Some (g, - 1)) else id) gs st)"
  by (induction gs arbitrary: st) (auto intro: keeps_trans addInitial_keeps)

lemma handleAssert_keeps:
  assumes "handleAssert m env c args (st, skip) = Some (a, st', skip')"
  shows "keeps st st'" "env ''SLICE_ASSERT_FILE'' = None \<or> env ''SLICE_ASSERT_LINE'' = None \<Longrightarrow> a \<and> \<not> sliced (st' c)"
  using assms addInitial_keeps
  by (auto simp: handleAssert_def Let_def bind_eq_Some_conv split: list.splits option.splits vkind.splits if_splits)

lemma criterion_keeps:
  assumes "criterion_of m env starting af i (a, st, skip) = Some (a', st', skip')"
  shows "keeps st st'"
    "env ''SLICE_ASSERT_FILE'' = None \<or> env ''SLICE_ASSERT_LINE'' = None \<Longrightarrow> getCalledFunction m i = Some af \<Longrightarrow> \<not> sliced (st' i)"
proof -
  show "keeps st st'"
  proof (cases "kind m i")
    case (CallInst cv args)
    then show ?thesis using assms addInitial_keeps(1) handleAssert_keeps(1)
      by (auto simp: criterion_of_def bind_eq_Some_conv split: if_splits list.splits)
  next
    case (StoreInst v p)
    then show ?thesis using assms addInitial_keeps(1) by (auto simp: criterion_of_def split: if_splits)
  next
    case (ReturnInst v)
    then show ?thesis using assms globals_keep by (auto simp: criterion_of_def split: if_splits)
  qed (use assms in \<open>auto simp: criterion_of_def\<close>)
  assume e: "env ''SLICE_ASSERT_FILE'' = None \<or> env ''SLICE_ASSERT_LINE'' = None" and c: "getCalledFunction m i = Some af"
  obtain cv args where "kind m i = CallInst cv args" using c by (auto simp: getCalledFunction_def split: vkind.splits)
  then show "\<not> sliced (st' i)" using assms c handleAssert_keeps(2) [OF _ e] by (auto simp: criterion_of_def)
qed

lemma criteria_keep:
  assumes "fold_opt (criterion_of m env starting af) is (a, st, skip) = Some (a', st', skip')"
  shows "keeps st st' \<and> (\<forall>i \<in> set is. (env ''SLICE_ASSERT_FILE'' = None \<or> env ''SLICE_ASSERT_LINE'' = None) \<longrightarrow>
           getCalledFunction m i = Some af \<longrightarrow> \<not> sliced (st' i))"
  using assms
proof (induction "is" arbitrary: a st skip)
  case (Cons i "is")
  obtain a1 st1 skip1 where s1: "criterion_of m env starting af i (a, st, skip) = Some (a1, st1, skip1)"
    "fold_opt (criterion_of m env starting af) is (a1, st1, skip1) = Some (a', st', skip')"
    using Cons.prems by (auto simp: bind_eq_Some_conv)
  note IH = Cons.IH [OF s1(2)] and k = criterion_keeps [OF s1(1)]
  have "keeps st st'" using IH k(1) keeps_trans by blast
  moreover have "\<not> sliced (st' i)" if "env ''SLICE_ASSERT_FILE'' = None \<or> env ''SLICE_ASSERT_LINE'' = None" "getCalledFunction m i = Some af"
    using k(2) [OF that] IH by (simp add: keeps_def)
  ultimately show ?case using IH by simp
qed simp

lemma FunctionStaticSlicer_apart:
  assumes "FunctionStaticSlicer m PS MOD f st = Some st'"
  shows "apart (set (insts m f)) st st'"
  using assms unfolding FunctionStaticSlicer_def
  by (rule fold_opt_inv [where Q = "apart (set (insts m f)) st"]) (auto simp: apart_def)

text \<open>The criteria of a function stay when the others are built.\<close>

lemma runFSS_keeps:
  assumes r: "runFSS m env PS CG MOD f ss = Some ss'"
  shows "i \<notin> set (insts m f) \<Longrightarrow> \<not> sliced (slicers ss i) \<Longrightarrow> \<not> sliced (slicers ss' i)"
    "i \<in> set (insts m f) \<Longrightarrow> env ''SLICE_ASSERT_FILE'' = None \<or> env ''SLICE_ASSERT_LINE'' = None \<Longrightarrow>
     getFunction m ''__assert_fail'' = Some af \<Longrightarrow> getCalledFunction m i = Some af \<Longrightarrow> \<not> sliced (slicers ss' i)"
proof -
  define starting where "starting = (callees CG f = [])"
  obtain st1 a st2 skip where r1: "FunctionStaticSlicer m PS MOD f (slicers ss) = Some st1"
    "findInitialCriterion m env f starting (st1, skipAssert ss) = Some (a, st2, skip)" "slicers ss' = st2"
    using r by (auto simp: runFSS_def Let_def bind_eq_Some_conv starting_def)
  note ap = FunctionStaticSlicer_apart [OF r1(1)]
  have k: "keeps st1 st2"
    using r1(2) criteria_keep [of m env starting _ "insts m f"] by (auto simp: findInitialCriterion_def split: option.splits)
  show "i \<notin> set (insts m f) \<Longrightarrow> \<not> sliced (slicers ss i) \<Longrightarrow> \<not> sliced (slicers ss' i)"
    using ap k by (simp add: apart_def keeps_def r1(3))
  assume "i \<in> set (insts m f)" "env ''SLICE_ASSERT_FILE'' = None \<or> env ''SLICE_ASSERT_LINE'' = None"
    "getFunction m ''__assert_fail'' = Some af" "getCalledFunction m i = Some af"
  then show "\<not> sliced (slicers ss' i)"
    using r1(2,3) criteria_keep [of m env starting af "insts m f"] by (auto simp: findInitialCriterion_def)
qed

lemma built_keeps:
  assumes r: "fold_opt (\<lambda>f ss. if has_slicer m f then runFSS m env PS CG MOD f ss else Some ss) fs ss = Some ss'"
    and d: "distinct fs" "\<forall>g \<in> set fs. has_slicer m g \<longrightarrow> g \<noteq> f \<longrightarrow> i \<notin> set (insts m g)"
    and i: "i \<in> set (insts m f)" "has_slicer m f" "getFunction m ''__assert_fail'' = Some af" "getCalledFunction m i = Some af"
    and e: "env ''SLICE_ASSERT_FILE'' = None \<or> env ''SLICE_ASSERT_LINE'' = None"
  shows "f \<in> set fs \<or> \<not> sliced (slicers ss i) \<Longrightarrow> \<not> sliced (slicers ss' i)"
  using r d
proof (induction fs arbitrary: ss)
  case (Cons g fs)
  obtain ss1 where s1: "(if has_slicer m g then runFSS m env PS CG MOD g ss else Some ss) = Some ss1"
    "fold_opt (\<lambda>f ss. if has_slicer m f then runFSS m env PS CG MOD f ss else Some ss) fs ss1 = Some ss'"
    using Cons.prems(2) by (auto simp: bind_eq_Some_conv)
  have "f \<in> set fs \<or> \<not> sliced (slicers ss1 i)"
  proof (cases "g = f")
    case True
    then show ?thesis using s1(1) i e runFSS_keeps(2) by auto
  next
    case False
    then show ?thesis
      using Cons.prems(1,4) s1(1) runFSS_keeps(1) [of m env PS CG MOD g ss ss1 i] by (cases "has_slicer m g") auto
  qed
  then show ?case using Cons.IH [OF _ s1(2)] Cons.prems(3,4) by auto
qed simp

lemma slice_all_stays:
  assumes "call_stays i f g (snd bm)" "\<not> sliced (st i)" "\<forall>h. \<forall>x \<in> set (insts (snd bm) h). \<not> isFunction (snd bm) x"
  shows "call_stays i f g (snd (slice_all undef st fs bm))"
  using assms(1,3)
proof (induction fs arbitrary: bm)
  case (Cons h fs)
  obtain rem m1 where m1: "slice_function undef st h (snd bm) = (rem, m1)" by (cases "slice_function undef st h (snd bm)")
  have h: "\<forall>x \<in> set (insts (snd bm) h). \<not> isFunction (snd bm) x" using Cons.prems(2) by blast
  note k = slice_call_stays [where st = st, OF Cons.prems(1) assms(2) h, of undef, unfolded m1 snd_conv]
  have "\<forall>h. \<forall>x \<in> set (insts m1 h). \<not> isFunction m1 x" using k(2,3) Cons.prems(2) by auto
  then show ?case using Cons.IH [of "(fst bm \<or> rem, m1)"] k(1) m1 by (simp add: slice_all_def case_prod_beta)
qed (simp add: slice_all_def)

lemma sliceModule_stays:
  assumes r: "sliceModule L st m = Some (modified, m')"
    and i: "call_stays i f g m" "\<not> sliced (st i)" "\<forall>h. \<forall>x \<in> set (insts m h). \<not> isFunction m x"
    and n: "\<forall>h k. newBranch L h k \<noteq> i \<and> newBranch L h k \<noteq> g"
  shows "call_stays i f g m'"
proof -
  obtain m1 where m1: "slice_all (undefValue L) st (sort (filter (has_slicer m) (m_functions m))) (False, m) = (modified, m1)"
    "(if modified then fold_opt (\<lambda>f m. if isDeclaration m f then Some m else removeUndefs L f m) (m_functions m1) m1
      else Some m1) = Some m'"
    using r by (auto simp: sliceModule_def Let_def split: prod.splits)
  have s: "call_stays i f g m1" using slice_all_stays [of i f g "(False, m)" st "undefValue L"] i m1(1) by (metis snd_conv)
  show ?thesis
  proof (cases modified)
    case True
    then have "fold_opt (\<lambda>f m. if isDeclaration m f then Some m else removeUndefs L f m) (m_functions m1) m1 = Some m'"
      using m1(2) by simp
    then show ?thesis
      by (rule fold_opt_inv [where Q = "call_stays i f g", OF _ s])
        (use n removeUndefs_stays in \<open>auto split: if_splits\<close>)
  qed (use m1(2) s in simp)
qed

lemma function_asserts_survive:
  assumes "cfg_wf (fun_blocks m F) (pdf F)" "\<forall>x \<in> set (insts m F). \<not> isFunction m x"
    "env ''SLICE_ASSERT_FILE'' = None \<or> env ''SLICE_ASSERT_LINE'' = None" "i \<in> set (insts m F)"
    "getFunction m ''__assert_fail'' = Some af" "getCalledFunction m i = Some af"
    "\<forall>h k. newBranch L h k \<noteq> i \<and> newBranch L h k \<noteq> af"
    and r: "runOnFunction L env pdf PS MOD F m = Some (modified, m')"
  shows "i \<in> set (insts m' F) \<and> getCalledFunction m' i = Some af"
proof -
  obtain st1 a st2 skip st3 where s: "FunctionStaticSlicer m PS MOD F (slicers no_slicers) = Some st1"
    "findInitialCriterion m env F False (st1, []) = Some (a, st2, skip)"
    "calculateStaticSlice (fun_blocks m F) (pdf F) st2 = Some st3"
    and q: "(let (sliced, m) = slice_function (undefValue L) st3 F m
      in map_option (Pair sliced) (if sliced then removeUndefs L F m else Some m)) = Some (modified, m')"
    using r by (auto simp: runOnFunction_def bind_eq_Some_conv simp del: Let_def)
  obtain m1 where m1: "slice_function (undefValue L) st3 F m = (modified, m1)"
    "(if modified then removeUndefs L F m1 else Some m1) = Some m'"
    using q by (cases "slice_function (undefValue L) st3 F m") auto
  have "\<forall>i. distinct (RC (st1 i))" using distinct_FunctionStaticSlicer [OF s(1)] by (simp add: no_slicers_def)
  then have "\<forall>i. distinct (RC (st2 i))" by (rule distinct_findInitialCriterion [OF s(2)])
  from slice_exists [OF assms(1) this] have "sl_le st2 st3" using s(3) by auto
  moreover have "\<not> sliced (st2 i)"
    using s(2) criteria_keep [of m env False af "insts m F"] assms(3-6) by (auto simp: findInitialCriterion_def)
  ultimately have "\<not> sliced (st3 i)" by (auto simp: sl_le_def)
  moreover have "call_stays i F af m" using assms(4,6) by (simp add: call_stays_def)
  ultimately have "call_stays i F af m1" using slice_call_stays(1) [OF _ _ assms(2)] m1(1) by (metis snd_conv)
  then have "call_stays i F af m'" using m1(2) removeUndefs_stays assms(7) by (cases modified) auto
  then show ?thesis by (simp add: call_stays_def)
qed

text \<open>
  C18: Slicing a module removes no assertion: when no file and line are selected in the environment
  and the pass returns, every call of \<open>__assert_fail\<close> in a function with a body is still an instruction
  of the function and still a call of \<open>__assert_fail\<close>, after the instructions around it were removed,
  after branches on undefined values were replaced and after calls of undefined values were removed.
  Instructions are not functions, and the addresses of new branches are new.  That the call is still
  reached when its branches were replaced is not part of the claim.
\<close>

theorem asserts_survive:
  assumes wf: "\<forall>P PS. ProgramStructure m = Some P \<longrightarrow> computePointsToSets m P (\<lambda>_. []) = Some PS \<longrightarrow> module_wf m PS pdf"
    and d: "distinct (m_functions m)" and x: "\<forall>h. \<forall>x \<in> set (insts m h). \<not> isFunction m x"
    and n: "\<forall>h k g. \<not> isFunction m (newBranch L h k) \<and> newBranch L h k \<notin> set (insts m g)"
    and e: "env ''SLICE_ASSERT_FILE'' = None \<or> env ''SLICE_ASSERT_LINE'' = None"
    and f: "f \<in> set (m_functions m)" "has_slicer m f" "i \<in> set (insts m f)"
    and af: "getFunction m ''__assert_fail'' = Some af" "getCalledFunction m i = Some af"
    and r: "runOnModule L env pdf m = Some (modified, m')"
  shows "i \<in> set (insts m' f) \<and> getCalledFunction m' i = Some af"
proof -
  obtain P PS CG MOD ss st where P: "ProgramStructure m = Some P" "computePointsToSets m P (\<lambda>_. []) = Some PS"
    and s: "StaticSlicer m env PS CG MOD = Some ss" "computeSlice m pdf ss = Some st" "sliceModule L st m = Some (modified, m')"
    using r by (auto simp: runOnModule_def Let_def bind_eq_Some_conv)
  obtain ss1 where ss1: "ss = buildDicts m PS ss1"
    "fold_opt (\<lambda>f ss. if has_slicer m f then runFSS m env PS CG MOD f ss else Some ss) (m_functions m) no_slicers = Some ss1"
    using built_start [OF s(1)] by blast
  have wf1: "module_wf m PS pdf" using wf P by blast
  have "i \<notin> set (insts m g)" if "g \<in> set (m_functions m)" "has_slicer m g" "g \<noteq> f" for g
  proof -
    have "fun_wf m pdf f" "fun_wf m pdf g" using wf1 f that by (simp_all add: module_wf_def fns_def)
    then show ?thesis using f(3) that(3) unfolding fun_wf_def by metis
  qed
  then have "\<not> sliced (slicers ss1 i)" using built_keeps [OF ss1(2) d _ f(3,2) af e] f(1) by blast
  then have "\<not> sliced (slicers ss i)" by (simp add: ss1(1) buildDicts_set)
  moreover have "sl_le (slicers ss) st"
    using pg.worklist_solution [OF ms_ok_start [OF wf1 s(1)]] s(2) by (auto simp: computeSlice_def)
  ultimately have "\<not> sliced (st i)" by (auto simp: sl_le_def)
  moreover have c: "call_stays i f af m" using f(3) af(2) by (simp add: call_stays_def)
  moreover have "\<forall>h k. newBranch L h k \<noteq> i \<and> newBranch L h k \<noteq> af" using n f(3) c by (metis call_stays_iff)
  ultimately have "call_stays i f af m'" using sliceModule_stays [OF s(3)] x by blast
  then show ?thesis by (simp add: call_stays_def)
qed

section \<open>An example\<close>

text \<open>
  A module of a function 7 that calls 8 and returns, a function 8 that fails an assertion, and the
  declaration 9 of \<open>__assert_fail\<close>.
\<close>

definition demo_kinds :: "val \<Rightarrow> vkind" where
  "demo_kinds v =
     (if v = 7 then Function ''main'' False NotIntrinsic else if v = 8 then Function ''check'' False NotIntrinsic
      else if v = 9 then Function ''__assert_fail'' True NotIntrinsic
      else if v = 10 then CallInst 8 [] else if v = 11 then ReturnInst None
      else if v = 12 then CallInst 9 [40, 40, 40, 40] else if v = 13 then UnreachableInst
      else if v = 40 then ConstantPointerNull else OtherValue)"

definition demo_calls :: llvm_module where
  "demo_calls = demo_module
     \<lparr>kind := demo_kinds, getType := (\<lambda>v. if v = 7 \<or> v = 8 \<or> v = 9 then PointerTy (FunctionTy VoidTy [] False) else VoidTy),
      fun_of := (\<lambda>v. if v < 12 then 7 else 8), m_functions := [7, 8, 9], m_globals := [],
      fun_blocks := (\<lambda>f. if f = 7 then [\<lparr>bb_insts = [10, 11], bb_succs = []\<rparr>]
        else if f = 8 then [\<lparr>bb_insts = [12, 13], bb_succs = []\<rparr>] else [])\<rparr>"

lemma demo_calls_fields [simp]:
  "kind demo_calls = demo_kinds" "m_functions demo_calls = [7, 8, 9]" "m_globals demo_calls = []"
  "fun_args demo_calls = (\<lambda>_. [])" "stripPointerCasts demo_calls = (\<lambda>v. v)"
  "insts demo_calls f = (if f = 7 then [10, 11] else if f = 8 then [12, 13] else [])"
  "fun_blocks demo_calls f = (if f = 7 then [\<lparr>bb_insts = [10, 11], bb_succs = []\<rparr>]
     else if f = 8 then [\<lparr>bb_insts = [12, 13], bb_succs = []\<rparr>] else [])"
  "fun_of demo_calls v = (if v < 12 then 7 else 8)"
  "getType demo_calls v = (if v = 7 \<or> v = 8 \<or> v = 9 then PointerTy (FunctionTy VoidTy [] False) else VoidTy)"
  by (simp_all add: demo_calls_def demo_module_def insts_def)

lemma demo_kinds_at [simp]:
  "demo_kinds 7 = Function ''main'' False NotIntrinsic" "demo_kinds 8 = Function ''check'' False NotIntrinsic"
  "demo_kinds 9 = Function ''__assert_fail'' True NotIntrinsic" "demo_kinds 10 = CallInst 8 []" "demo_kinds 11 = ReturnInst None"
  "demo_kinds 12 = CallInst 9 [40, 40, 40, 40]" "demo_kinds 13 = UnreachableInst"
  by (simp_all add: demo_kinds_def)

lemma demo_mem [simp]: "\<not> memoryManStuff demo_calls v"
  by (simp add: memoryManStuff_def isMemoryAllocation_def isMemoryDeallocation_def isMemoryCopy_def isMemoryMove_def isMemorySet_def
      declared_as_def demo_kinds_def)

lemma demo_asm [simp]: "\<not> isInlineAssembly demo_calls v"
  by (simp add: isInlineAssembly_def demo_kinds_def)

lemma demo_has [simp]: "has_slicer demo_calls f \<longleftrightarrow> f \<noteq> 9"
  by (simp add: has_slicer_def isDeclaration_def demo_kinds_def)

lemma demo_fns: "fns demo_calls = {7, 8}"
  by (auto simp: fns_def)

lemma demo_funs [simp]: "isFunction demo_calls v \<longleftrightarrow> v = 7 \<or> v = 8 \<or> v = 9"
  by (simp add: isFunction_def demo_kinds_def)

lemma demo_called [simp]: "getCalledFunctions demo_calls c PS = (if c = 10 then [8] else if c = 12 then [9] else [])"
  by (simp add: getCalledFunctions_def demo_kinds_def Let_def)

lemma demo_funcalls: "getFunctionCalls demo_calls f = (if f = 7 then [10] else if f = 8 then [12] else [])"
  by (simp add: getFunctionCalls_def)

lemma demo_module_wf: "module_wf demo_calls PS (\<lambda>_ _. None)"
proof -
  have "fun_wf demo_calls (\<lambda>_ _. None) f" if "f \<in> {7, 8}" for f
    using that by (auto simp: fun_wf_def cfg_wf_def demo_funcalls getSuccInBlock_def)
  moreover have "p = (10, 8)" if "linked demo_calls PS p" for p
    using that by (cases p) (auto simp: linked_def demo_fns demo_funcalls split: if_splits)
  ultimately show ?thesis unfolding module_wf_def demo_fns by fastforce
qed

lemma demo_InsInfo: "\<exists>ii. InsInfo demo_calls PS MOD i = Some ii" if "i \<in> {10, 11, 12, 13}"
  using that by (auto simp: InsInfo_def ins_effects_def call_effects_def demo_kinds_def handleVariousFuns_def
      isMemoryAllocation_def isMemoryDeallocation_def isMemoryCopy_def isMemoryMove_def isMemorySet_def declared_as_def)

lemma demo_getFunction: "getFunction demo_calls ''__assert_fail'' = Some 9" "getFunction demo_calls ''klee_assume'' = None"
  by (simp_all add: getFunction_def)

lemma demo_getCalled: "getCalledFunction demo_calls 10 = Some 8" "getCalledFunction demo_calls 12 = Some 9"
  by (simp_all add: getCalledFunction_def)

lemma demo_runFSS:
  assumes "f \<in> {7, 8}"
  shows "\<exists>ss'. runFSS demo_calls (\<lambda>_. None) PS CG MOD f ss = Some ss' \<and>
           set (initFuns ss) \<subseteq> set (initFuns ss') \<and> (f = 8 \<longrightarrow> 8 \<in> set (initFuns ss'))"
proof -
  obtain st1 where st1: "FunctionStaticSlicer demo_calls PS MOD f (slicers ss) = Some st1"
    using assms demo_InsInfo [of 10 PS MOD] demo_InsInfo [of 11 PS MOD] demo_InsInfo [of 12 PS MOD] demo_InsInfo [of 13 PS MOD]
    by (auto simp: FunctionStaticSlicer_def)
  obtain st2 skip where "findInitialCriterion demo_calls (\<lambda>_. None) f (callees CG f = []) (st1, skipAssert ss) = Some (f = 8, st2, skip)"
    using assms by (auto simp: findInitialCriterion_def demo_getFunction criterion_of_def demo_getCalled handleAssert_def Let_def)
  then show ?thesis using st1 by (simp add: runFSS_def Let_def)
qed

lemma demo_StaticSlicer:
  "\<exists>ss. StaticSlicer demo_calls (\<lambda>_. None) PS CG MOD = Some ss \<and> 8 \<in> set (initFuns ss)"
proof -
  obtain ss1 where ss1: "runFSS demo_calls (\<lambda>_. None) PS CG MOD 7 no_slicers = Some ss1" using demo_runFSS [of 7] by blast
  obtain ss2 where "runFSS demo_calls (\<lambda>_. None) PS CG MOD 8 ss1 = Some ss2" "8 \<in> set (initFuns ss2)" using demo_runFSS [of 8] by blast
  then show ?thesis using ss1 by (simp add: StaticSlicer_def buildDicts_set)
qed

theorem module_slice_solution_witness:
  "\<exists>ss st. StaticSlicer demo_calls (\<lambda>_. None) (\<lambda>_. []) \<lparr>directCallsMap = [], directCalleesMap = [], callsMap = [], calleesMap = []\<rparr> (\<lambda>_. []) = Some ss \<and>
     computeSlice demo_calls (\<lambda>_ _. None) ss = Some st \<and> fun_closed demo_calls (\<lambda>_ _. None) ss 8 st \<and> fun_served demo_calls ss 8 st"
proof -
  obtain ss where ss: "StaticSlicer demo_calls (\<lambda>_. None) (\<lambda>_. [])
      \<lparr>directCallsMap = [], directCalleesMap = [], callsMap = [], calleesMap = []\<rparr> (\<lambda>_. []) = Some ss" "8 \<in> set (initFuns ss)"
    using demo_StaticSlicer by blast
  show ?thesis using module_slice_solution [OF demo_module_wf ss(1)] ss by (auto simp: demo_fns)
qed

lemma demo_rules_none: "ProgramStructure demo_calls = Some []"
proof -
  have b: "\<exists>cm. buildCallMaps demo_calls = Some cm"
    by (simp add: buildCallMaps_def collect_def fm_entries_def cm_entries_def callToMemoryManStuff_def getCalleePrototype_def
        getFunctionType_def getPointedType_def getReturnType_def isDeclaration_def)
  have "inst_rules demo_calls cm i = Some []" if "i \<in> {10, 11, 12, 13}" for cm i
    using that by (auto simp: inst_rules_def isPointerManipulation_def isPointerValue_def isPointerTy_def collectCallRuleCodes_def
        getCalledFunction_def collectCallRuleCodes_fun_def collectReturnRuleCodes_def isMemoryAllocation_def declared_as_def
        collect_def demo_kinds_def)
  then show ?thesis using b by (auto simp: ProgramStructure_def collect_def)
qed

lemma demo_points_to: "\<exists>PS. computePointsToSets demo_calls [] (\<lambda>_. []) = Some PS"
  by (simp add: computePointsToSets_def fixpoint_def change_loop.simps)

definition demo_lib :: llvm_lib where
  "demo_lib = \<lparr>undefValue = (\<lambda>_. 99), nullValue = (\<lambda>_. 98), newBranch = (\<lambda>f k. 100 + 10 * f + k),
     postDomTree = (\<lambda>_. Some (DomNode None [DomNode (Some 0) []]))\<rparr>"

lemma demo_slices: "\<exists>modified m'. sliceModule demo_lib st m = Some (modified, m')"
proof -
  have "rooted_at_exit demo_lib" by (simp add: rooted_at_exit_def demo_lib_def)
  then have r: "\<exists>m'. removeUndefs demo_lib f m = Some m'" for f m by (rule removeUndefs_returns)
  have "\<exists>m'. fold_opt (\<lambda>f m. if isDeclaration m f then Some m else removeUndefs demo_lib f m) fs m = Some m'" for fs m
  proof (induction fs arbitrary: m)
    case (Cons f fs)
    then show ?case using r [of f m] by (cases "isDeclaration m f") auto
  qed simp
  then show ?thesis by (auto simp: sliceModule_def Let_def split: prod.split)
qed

lemma demo_pass_returns: "\<exists>modified m'. runOnModule demo_lib (\<lambda>_. None) (\<lambda>_ _. None) demo_calls = Some (modified, m')"
proof -
  obtain PS where PS: "computePointsToSets demo_calls [] (\<lambda>_. []) = Some PS" using demo_points_to by blast
  obtain CG where CG: "Callgraph demo_calls PS = Some CG"
    using transitive_closure [of "sort_key fst (directCalls demo_calls PS)"] by (auto simp: Callgraph_def Let_def)
  have MP: "mods_ProgramStructure demo_calls = Some []"
    by (simp add: mods_ProgramStructure_def collect_def store_commands_def isDeclaration_def)
  obtain ss where ss: "StaticSlicer demo_calls (\<lambda>_. None) PS CG (computeModifies demo_calls [] CG PS (\<lambda>_. [])) = Some ss"
    using demo_StaticSlicer by blast
  obtain st where "computeSlice demo_calls (\<lambda>_ _. None) ss = Some st"
    using pg.worklist_solution [OF ms_ok_start [OF demo_module_wf ss]] by (auto simp: computeSlice_def)
  then show ?thesis
    using PS CG MP ss demo_slices [of st demo_calls] by (simp add: runOnModule_def Let_def demo_rules_none)
qed

theorem asserts_survive_witness:
  "\<exists>modified m'. runOnModule demo_lib (\<lambda>_. None) (\<lambda>_ _. None) demo_calls = Some (modified, m') \<and>
     12 \<in> set (insts m' 8) \<and> getCalledFunction m' 12 = Some 9"
proof -
  obtain modified m' where r: "runOnModule demo_lib (\<lambda>_. None) (\<lambda>_ _. None) demo_calls = Some (modified, m')"
    using demo_pass_returns by blast
  have "12 \<in> set (insts m' 8) \<and> getCalledFunction m' 12 = Some 9"
    by (rule asserts_survive [OF _ _ _ _ _ _ _ _ demo_getFunction(1) demo_getCalled(2) r])
      (auto simp: demo_module_wf demo_lib_def)
  then show ?thesis using r by blast
qed

section \<open>What the criteria miss\<close>

lemma fold_opt_snoc: "fold_opt h (xs @ [x]) s = Option.bind (fold_opt h xs s) (h x)"
proof (induction xs arbitrary: s)
  case Nil
  then show ?case by (cases "h x s") simp_all
next
  case (Cons a xs)
  then show ?case by (cases "h a s") simp_all
qed

text \<open>
  Of several assertions the last one decides whether the function has one: when the last is skipped
  because its line is not a constant, the function is not a start of the slicing, although an
  earlier assertion matches the selected file and line.
\<close>

lemma last_assert_decides:
  assumes "insts m f = is @ [i]" "kind m i = CallInst af (a # fileArg # lineArg # as)" "isFunction m af"
    "getFunction m ''__assert_fail'' = Some af" "env ''SLICE_ASSERT_FILE'' = Some file" "env ''SLICE_ASSERT_LINE'' = Some line"
    "\<nexists>n. kind m lineArg = ConstantInt n" "findInitialCriterion m env f starting ss = Some (added, ss')"
  shows "\<not> added"
proof -
  have c: "getCalledFunction m i = Some af" using assms(2,3) by (simp add: getCalledFunction_def)
  obtain s where "criterion_of m env starting af i s = Some (added, ss')"
    using assms(1,4,8) by (auto simp: findInitialCriterion_def fold_opt_snoc bind_eq_Some_conv)
  then show ?thesis
    using assms(2,5,6,7) c by (cases s) (auto simp: criterion_of_def handleAssert_def Let_def split: vkind.splits)
qed

text \<open>
  In a module without \<open>klee_assume\<close> an indirect call is taken for a call of it: it becomes a criterion
  with its first argument, and fails when it has none.
\<close>

lemma indirect_call_assumed:
  assumes "kind m i = CallInst cv args" "\<not> isFunction m cv" "getFunction m ''klee_assume'' = None"
  shows "criterion_of m env starting af i (added, st, skip) =
     (case args of a0 # _ \<Rightarrow> Option.bind (elimConstExpr m a0) (\<lambda>l. Some (added, addInitialCriterion i (Some (l, - 1)) st, skip))
      | [] \<Rightarrow> None)"
  using assms by (simp add: criterion_of_def getCalledFunction_def)

text \<open>
  A call of a function with something to keep stays sliced when what is relevant at the entry of the
  function is already relevant at the call.
\<close>

lemma call_not_kept:
  assumes "getRelevantVarsAtCall m c f rel = Some R" "set R \<subseteq> set (RC (st c))"
  shows "emitToCall m skip f rel c st = Some ([], st)"
  using assms by (simp add: emitToCall_def addCriterion_def addRC_def sv_inserts_subset)

end
