(* ===== verification/Spec2Isabelle.thy ===== *)
theory Spec2Isabelle
  imports Window Edfi_Stats Bitmap Softdirty Bbtrace Overrides Maps_Text Static_Slicer
begin

text \<open>
  \<^bold>\<open>FIRestarter: a verification of its runtime libraries and of its slicer.\<close>

  FIRestarter makes C servers survive crashes.  An LLVM pass divides a program into
  windows that begin at library calls.  During a window the memory the program
  overwrites is saved, by hardware transactions or by an undo log.  When the program
  faults, a signal handler restores the memory, undoes the library call that opened the
  window and makes the call appear to have failed, so that the error handling of the
  program takes over.  The fault injector EDFI is used to provoke the faults, and a static
  slicer reduces modules to what matters for an assertion.

  \<^bold>\<open>Parts of the program and theories.\<close>  Paths are relative to \<open>src/llvm\<close>.

  \<^item> \<open>Prelude\<close>: machine words, byte-addressed memory (a function from 64-bit addresses to
    bytes), block reads and writes, little-endian layout, alignment.
  \<^item> \<open>Env\<close>: \<open>include/common/util/env.h\<close> with the C library's \<open>strtol\<close>, and the number
    printers of \<open>static/ltckpt/ltckpt_debug.c\<close>.
  \<^item> \<open>Ckpt_Ctx\<close>: \<open>static/ltckpt/ltckpt_ctx.h\<close>, \<open>ltckpt_ctx.c\<close>, \<open>ltckpt_common.c\<close>: the
    checkpointing context, the mechanism table, start-up and restart, wrappers of
    \<open>mmap\<close> and \<open>mprotect\<close>.
  \<^item> \<open>Runtime\<close>: the static variables the checkpointing and the recovery library share
    (record \<open>runtime\<close>), the build options (record \<open>build\<close>) and the profiling macros of
    \<open>ltckpt_profiling.h\<close>.
  \<^item> \<open>Checkpoint\<close>: the contract of a checkpointing mechanism as two locales,
    \<open>checkpoint_saver\<close> and its extension \<open>checkpoint_mechanism\<close> with a rollback.
  \<^item> \<open>Writelog\<close>: the undo log, \<open>static/ltckpt/mechanisms/ltckpt_writelog.c\<close>
    (\<open>wl_store_hook\<close>, \<open>wl_memcpy_hook\<close>, \<open>wl_top_of_the_loop\<close>, \<open>wl_restart_hook\<close>); it
    interprets \<open>checkpoint_mechanism\<close>.
  \<^item> \<open>Bitmap\<close>: the bitmap mechanism, \<open>static/ltckpt/mechanisms/bitmap\<close>; it interprets
    \<open>checkpoint_saver\<close>, for there is no restart on Linux.
  \<^item> \<open>Proc_Maps\<close> and \<open>Mprotect\<close>: the memory map of a process
    (\<open>include/common/util/proc_maps.h\<close>) and the page-protection mechanism
    (\<open>static/ltckpt/mechanisms/mprotect\<close>); it interprets \<open>checkpoint_saver\<close>.
  \<^item> \<open>Overrides\<close>: the wrappers of system calls that write to memory, for protected pages
    (\<open>mprotect_overrides.c\<close>).
  \<^item> \<open>Bufread\<close> and \<open>Maps_Text\<close>: buffered reading of lines
    (\<open>include/common/util/bufread.h\<close>) and the text of the memory map, parsed and printed
    (\<open>proc_maps.h\<close>).
  \<^item> \<open>Pagemap\<close> and \<open>Softdirty\<close>: the page map of the kernel
    (\<open>include/common/util/pagemap.h\<close>) and the mechanism that saves the pages it reports as
    dirty (\<open>static/ltckpt/mechanisms/ltckpt_softdirty.c\<close>).
  \<^item> \<open>Rcvry\<close>: \<open>static/rcvry\<close>: the recovery actions (\<open>rcvry_actions.c\<close>), their dispatch
    (\<open>rcvry_dispatch.c\<close>), deferred frees and the signal handler (\<open>rcvry_signal.c\<close>).
    The contract every action meets is the locale \<open>recovery_action\<close>; each action and
    the dispatch interpret it.
  \<^item> \<open>Tsx\<close>: hardware transactions (\<open>ltckpt_tsx.c\<close>) and the adaptive choice between them
    and the undo log (\<open>RCVRY_AUTO_ADAPT_CHECK_AND_SWITCH\<close>).
  \<^item> \<open>Rcvry_Helper\<close>: the part of the pass that selects and describes the recovery action
    of a library call (\<open>passes/include/hybrcvry/RcvryHelper.h\<close>).  What it emits is a
    list of assignments; \<open>exec_all\<close> is their meaning.
  \<^item> \<open>Rcvry_Fi\<close>: fault injection at library calls, \<open>static/rcvry/rcvry_fi.c\<close>.
  \<^item> \<open>Window\<close>: the code the pass puts around a library call
    (\<open>passes/include/hybrcvry/HybRcvryPass.h\<close>), composed with the undo log, the handler
    and the actions.
  \<^item> \<open>Edfi\<close> and \<open>Edfi_Stats\<close>: the decisions, commands and statistics of EDFI
    (\<open>static/edfi/df/edfi_df.c\<close> and the services of
    \<open>static/edfi/platform/unix_apps/ctl/server/edfi_ctl_server.c\<close>).
  \<^item> \<open>Bbtrace\<close>: tracing of basic blocks per window (\<open>edfi_df.c\<close>,
    \<open>static/rcvry/rcvry_util.c\<close>).
  \<^item> \<open>Fixpoint\<close> and \<open>Worklist\<close>: the loops of the slicer.  The locale \<open>inflationary\<close> is the
    contract of a rule that is repeated until nothing changes, the locales \<open>moves\<close> and
    \<open>propagation\<close> that of functions which pass results on to others.
  \<^item> \<open>Llvm_Ir\<close>, \<open>Rule_Codes\<close>, \<open>Points_To\<close>, \<open>Callgraph\<close>, \<open>Modifies\<close>: the view the slicer has of
    a module, its points-to analysis, its call graph and what functions modify
    (\<open>passes/slicer/Languages\<close>, \<open>PointsTo\<close>, \<open>Callgraph\<close>, \<open>Modifies\<close>).
  \<^item> \<open>Ins_Info\<close>, \<open>Postdom\<close>, \<open>Function_Slicer\<close>, \<open>Remove_Undefs\<close>, \<open>Static_Slicer\<close>: what
    instructions define and refer to, post-dominance frontiers, the slicer of a function, the
    clean-up of branches and calls on undefined values, and the slicer of a module
    (\<open>passes/slicer/Slicing\<close>).  \<open>Points_To\<close> and \<open>Function_Slicer\<close> interpret
    \<open>inflationary\<close>, \<open>Static_Slicer\<close> interprets \<open>moves\<close> and \<open>propagation\<close>.

  \<^bold>\<open>How the code is modelled.\<close>  The build is Linux on x86-64.  Static variables are fields
  of a record that is passed and returned; the record of the write log extends that of
  the shared state, and the record of the recovery library extends that of the write log,
  so one operation serves them all.  Macros tested with the preprocessor are Booleans of a
  configuration record.  C integers are words of their width where they can wrap, and
  \<open>int\<close> or \<open>nat\<close> where their range is never left.  System calls, \<open>malloc\<close> and
  the transaction instructions are functions in a record (\<open>os\<close>, \<open>bm_os\<close>, \<open>mpr_os\<close>,
  \<open>edfi_os\<close>) over an arbitrary state of the operating system; what the code relies on of
  them is a named predicate (\<open>maps_fresh\<close>, \<open>protects\<close>, \<open>reads_file\<close>,
  \<open>soft_dirty_kernel\<close>), shown to hold of a concrete function in each witness.  Of LLVM the
  slicer sees a record of functions on values (\<open>llvm_module\<close>), the post-dominator tree and
  the values LLVM supplies to the clean-up (\<open>llvm_lib\<close>); that the instructions of a run
  write the relevant places as DEF and REF say is the predicate \<open>run_exact\<close>.  The calls
  of the C library in recovery actions change the state of the operating system only, not
  the memory of the program.  A failed assertion, a panic, an exit, a return to the saved
  registers and a fault are values: the type \<open>outcome\<close> in the recovery library, None
  elsewhere.  Loops over pointers that may never end are \<open>partial_function (option)\<close>;
  their termination is proved for addresses that do not wrap around.

  \<^bold>\<open>What is shown.\<close>
  \<^item> Recovery end to end: after a fault in a window the locals of both clones hold the
    return value of the recovery action and all other memory outside the log is as at the
    entry of the window (\<open>window_recovery\<close>, \<open>errno_window_recovers\<close>); lemmas say what
    single kinds of calls leave behind (\<open>malloc_site_frees\<close>, \<open>close_site_closes\<close>).
  \<^item> Checkpoints: the undo log restores the memory and its restart loop refines undoing a
    list of saved granules (\<open>wl_recovery\<close>, \<open>wl_restart_refines_undo\<close>); the bitmap with
    epochs and the protected pages preserve the memory of the checkpoint through any
    sequence of writes (\<open>bitmap_preserves_checkpoint\<close>, \<open>mprotect_preserves_checkpoint\<close>),
    system calls included (\<open>read_wrapper_unprotects\<close>); the soft-dirty mechanism saves what
    the kernel reports and misses no change (\<open>softdirty_saves_dirty_pages\<close>,
    \<open>softdirty_misses_no_change\<close>); the memory map is parsed as each
    line leaves it in the array, and entries are read as they were printed
    (\<open>maps_text_refines\<close>, \<open>maps_entry_roundtrip\<close>);
    how often checkpoints are taken (\<open>checkpoint_cadence\<close>).
  \<^item> The recovery library: the contract of dispatch, a bound on repeated recoveries at one
    site, the switch from transactions to the undo log, and the exact condition of the
    adaptive switch.
  \<^item> Fault injection and statistics: each armed site faults once; when EDFI injects and how
    far apart; the statistics file accumulates the runs of a program; the run-length
    encoded dump loses nothing; the blocks of a window are collected without duplicates.
  \<^item> The slicer: the points-to analysis returns the least solution of its rules and covers
    the runs of them in which it drops no member (\<open>points_to_least_solution\<close>, \<open>points_to_covers_runs\<close>); the call graph
    and the modified places are exact (\<open>callgraph_closure\<close>, \<open>computeModifies_exact\<close>);
    frontiers are control dependence (\<open>frontiers_exact\<close>); the slicer of a function returns
    the least solution of its equations up to branches that depend on branches
    (\<open>slice_solution\<close>, \<open>slice_least\<close>), keeps the branches that criteria and instructions
    with relevant results depend on
    (\<open>slice_keeps_controlling_branches\<close>), leaves no use of what it removes
    (\<open>slice_leaves_no_use\<close>) and computes the same relevant values along every exact run of a path
    (\<open>slice_preserves_values\<close>); the exchange between functions ends in a solution
    (\<open>module_slice_solution\<close>), and no assertion is removed, clean-up included (\<open>asserts_survive\<close>).
  \<^item> Deviations from what the code means to do, as a theorem or a lemma on the states they
    concern: a copy the undo log does not save entirely, a misplaced guard page, table
    entries without an action, error numbers taken from the wrong argument, an action with
    the wrong number of arguments, a mapping that is not removed, a window that is not
    rolled back, an overflow in the adaptive rate, an inverted time limit, an inverted
    test in the copy hook of the bitmap, a line that takes over the end of a longer one, and
    in the slicer a branch around a branch that is missed (\<open>outer_branch_missed\<close>), an
    assignment lost behind a store through a pointer (\<open>may_store_kills\<close>), a matching
    assertion that is forgotten (\<open>last_assert_decides\<close>), an indirect call taken for an
    assumption (\<open>indirect_call_assumed\<close>) and a call that is not kept (\<open>call_not_kept\<close>).

  \<^bold>\<open>Bounds.\<close>  The log of \<open>Writelog\<close> and the page list of \<open>Mprotect\<close> have the capacities of
  the code; theorems that need room state it as a hypothesis.  The only other bounds are
  those of address arithmetic: copies end below the last click or granule of the address
  space.  The loops of the slicer have no bound; each step uses up some of a finite set of
  places that can be relevant or pointed to.

  \<^bold>\<open>What is not modelled.\<close>  LLVM itself.  Of the passes the choice of recovery actions, the
  meaning of the emitted window code and the slicer are covered, not the cloning of basic
  blocks, the insertion of the hooks and the edits that inject faults.  Of the slicer the
  passes that prepare modules, generate drivers or print statistics are left out, and the
  frontiers are those of the code for LLVM before version 4.  The mechanisms that delegate to the kernel or to code outside the
  repository (fork, smmap, dune), the tables of 32-bit builds, everything compiled for MINIX
  only, printing, and the concurrency of threads.
\<close>

end
